(* ===== verification/Hub_Prelude.thy ===== *)
theory Hub_Prelude
  imports Main "HOL-Library.Word" "HOL-Library.AList" "HOL-Library.Sublist"
begin

text \<open>
  Shared vocabulary of the development: Go's fixed-width integers as words, byte slices as
  lists of 8-bit words, errors as values, and the generic lemmas on lists, association lists
  and words that the component theories use.

  A Go \<^verbatim>\<open>map[K]V\<close> whose size or iteration matters is an association list with distinct keys
  (\<open>map_of\<close>, \<open>AList.update\<close>, \<open>AList.delete\<close>); a map that is only looked up and written is a
  function \<open>'k \<rightharpoonup> 'v\<close>. The iteration order of a Go map is unspecified: an operation that
  ranges over one takes the order as an argument.
\<close>

unbundle bit_operations_syntax

type_synonym byte = "8 word"
type_synonym u8 = "8 word"
type_synonym u16 = "16 word"
type_synonym u32 = "32 word"
type_synonym u64 = "64 word"

text \<open>
  Go errors. The sentinels of package io have constructors of their own, every other error
  of the repository is identified by its message; an error that comes from a parameter of
  the model (the operating system, a callback) is \<open>ErrExt\<close>.
\<close>

datatype error =
    EOF
  | ErrUnexpectedEOF
  | ErrShortWrite
  | ErrNoProgress
  | Err string
  | ErrExt nat

type_synonym 'a result = "error + 'a"

text \<open>
  The value an operation that may panic returns. \<open>Panic\<close> is a Go run-time panic (division
  by zero, index out of range, send on a closed channel).
\<close>

datatype 'a outcome = Ret 'a | Panic

lemma Ret_in_map_outcome:
  "Ret y \<in> set (map (map_outcome f) xs) \<longleftrightarrow> (\<exists>x. Ret x \<in> set xs \<and> y = f x)"
proof (induction xs)
  case (Cons z zs)
  then show ?case by (cases z) auto
qed simp

text \<open>
  Calls with several outcomes, one after the other: the second gets what the first returned, and a
  panic of the first is the end.
\<close>

definition bind_outcomes :: "'a outcome list \<Rightarrow> ('a \<Rightarrow> 'b outcome list) \<Rightarrow> 'b outcome list" where
  "bind_outcomes xs f = concat (map (\<lambda>x. case x of Ret a \<Rightarrow> f a | Panic \<Rightarrow> [Panic]) xs)"

lemma bind_outcomes_simps [simp]:
  "bind_outcomes [] f = []"
  "bind_outcomes (Ret a # xs) f = f a @ bind_outcomes xs f"
  "bind_outcomes (Panic # xs) f = Panic # bind_outcomes xs f"
  by (simp_all add: bind_outcomes_def)

lemma Ret_in_bind_outcomes [simp]:
  "Ret y \<in> set (bind_outcomes xs f) \<longleftrightarrow> (\<exists>a. Ret a \<in> set xs \<and> Ret y \<in> set (f a))"
  by (induction xs rule: list.induct) (auto simp: bind_outcomes_def split: outcome.splits)

lemma Panic_in_bind_outcomes [simp]:
  "Panic \<in> set (bind_outcomes xs f) \<longleftrightarrow> Panic \<in> set xs \<or> (\<exists>a. Ret a \<in> set xs \<and> Panic \<in> set (f a))"
  by (induction xs rule: list.induct) (auto simp: bind_outcomes_def split: outcome.splits)

lemma bind_outcomes_cong:
  "(\<And>a. Ret a \<in> set xs \<Longrightarrow> f a = g a) \<Longrightarrow> bind_outcomes xs f = bind_outcomes xs g"
  by (auto simp: bind_outcomes_def intro!: arg_cong[of _ _ concat] split: outcome.split)

lemma bind_outcomes_map: "bind_outcomes (map (map_outcome h) xs) f = bind_outcomes xs (f \<circ> h)"
  by (auto simp: bind_outcomes_def intro!: arg_cong[of _ _ concat] split: outcome.split)

lemma map_bind_outcomes: "map (map_outcome h) (bind_outcomes xs f) = bind_outcomes xs (map (map_outcome h) \<circ> f)"
  by (induction xs rule: list.induct) (auto simp: bind_outcomes_def split: outcome.split)

lemma bind_outcomes_return: "bind_outcomes xs (\<lambda>a. [Ret (h a)]) = map (map_outcome h) xs"
proof (induction xs)
  case (Cons x xs)
  then show ?case by (cases x) simp_all
qed simp

lemma bind_outcomes_nonempty: "xs \<noteq> [] \<Longrightarrow> (\<And>a. Ret a \<in> set xs \<Longrightarrow> f a \<noteq> []) \<Longrightarrow> bind_outcomes xs f \<noteq> []"
  by (cases xs) (auto simp: bind_outcomes_def split: outcome.splits)

lemma in_image_map_outcome [simp]:
  "Ret y \<in> map_outcome f ` A \<longleftrightarrow> (\<exists>x. Ret x \<in> A \<and> y = f x)" "Panic \<in> map_outcome f ` A \<longleftrightarrow> Panic \<in> A"
proof -
  show "Ret y \<in> map_outcome f ` A \<longleftrightarrow> (\<exists>x. Ret x \<in> A \<and> y = f x)"
    by (auto simp: image_iff) (metis outcome.exhaust outcome.inject outcome.map(1) outcome.map(2) outcome.distinct(1), metis outcome.map(1))
  show "Panic \<in> map_outcome f ` A \<longleftrightarrow> Panic \<in> A"
    by (auto simp: image_iff) (metis outcome.exhaust outcome.map(1) outcome.distinct(1), metis outcome.map(2))
qed

named_theorems state_simps \<open>equations that push field selectors through the operations\<close>
named_theorems inv_intros \<open>preservation lemmas, one for each operation\<close>


section \<open>Lists\<close>

lemma update_new:
  "k \<notin> set (map fst ps) \<Longrightarrow> AList.update k v ps = ps @ [(k, v)]"
  by (induction ps) auto

lemma in_set_delete: "(a, b) \<in> set (AList.delete k ps) \<longleftrightarrow> (a, b) \<in> set ps \<and> a \<noteq> k"
  by (induction ps) auto

lemma filter_delete:
  "filter (\<lambda>e. fst e \<notin> T) (AList.delete k ps) = filter (\<lambda>e. fst e \<noteq> k \<and> fst e \<notin> T) ps"
  by (induction ps) auto

lemma find_SomeD: "find P xs = Some x \<Longrightarrow> x \<in> set xs \<and> P x"
  by (induction xs) (auto split: if_splits)

lemma subseq_append_left: "subseq ys zs \<Longrightarrow> subseq (xs @ ys) (xs @ zs)"
  by (rule list_emb_append_mono) simp_all

lemma length_update_new:
  "k \<notin> set (map fst ps) \<Longrightarrow> length (AList.update k v ps) = Suc (length ps)"
  by (induction ps) auto

lemma length_delete_key:
  "distinct (map fst ps) \<Longrightarrow> map_of ps k = Some v \<Longrightarrow>
   length ps = Suc (length (AList.delete k ps))"
proof (induction ps)
  case Nil
  then show ?case by simp
next
  case (Cons p ps)
  show ?case
  proof (cases "fst p = k")
    case True
    with Cons.prems have "k \<notin> fst ` set ps" by auto
    then have "AList.delete k ps = ps" by (rule delete_id)
    with True show ?thesis by (cases p) auto
  next
    case False
    with Cons show ?thesis by (cases p) auto
  qed
qed

lemma map_of_None_iff: "map_of ps k = None \<longleftrightarrow> k \<notin> set (map fst ps)"
  by (simp add: map_of_eq_None_iff)

lemma in_set_map_of:
  "distinct (map fst ps) \<Longrightarrow> (k, v) \<in> set ps \<longleftrightarrow> map_of ps k = Some v"
  by (simp add: map_of_eq_Some_iff)


text \<open>A sum of which one term grows.\<close>

lemma sum_bump:
  fixes f g :: "nat \<Rightarrow> 'a::comm_monoid_add"
  assumes "i < n" "\<And>j. j \<noteq> i \<Longrightarrow> g j = f j" "g i = f i + x"
  shows "sum g {..<n} = sum f {..<n} + x"
proof -
  have "sum g {..<n} = g i + sum g ({..<n} - {i})" "sum f {..<n} = f i + sum f ({..<n} - {i})"
    using assms(1) by (simp_all add: sum.remove)
  moreover have "sum g ({..<n} - {i}) = sum f ({..<n} - {i})"
    using assms(2) by (intro sum.cong) auto
  ultimately show ?thesis using assms(3) by (simp add: ac_simps)
qed


section \<open>Words\<close>

lemma word8_le_iff: "(a :: u8) \<le> b \<longleftrightarrow> unat a \<le> unat b"
  by (rule word_le_nat_alt)

lemma unat_pred_u8: "(a :: u8) \<noteq> 0 \<Longrightarrow> unat (a - 1) = unat a - 1"
  by (simp add: unat_minus_one)

lemma u8_gt_1_iff: "\<not> (a :: u8) \<le> 1 \<longleftrightarrow> 2 \<le> unat a"
  by (auto simp: word_le_nat_alt)

text \<open>
  The masks of the header's bit fields, bit by bit. The simplifier reads a numeral of a word
  as an integer, so the lemmas are about integers.
\<close>

lemma bit_3_int [simp]: "bit (3 :: int) n \<longleftrightarrow> n < 2"
proof -
  have "(3 :: int) = mask 2" by (simp add: mask_eq_exp_minus_1)
  then show ?thesis by (simp only: bit_mask_iff) auto
qed

lemma bit_63_int [simp]: "bit (63 :: int) n \<longleftrightarrow> n < 6"
proof -
  have "(63 :: int) = mask 6" by (simp add: mask_eq_exp_minus_1)
  then show ?thesis by (simp only: bit_mask_iff) auto
qed

lemma bit_252_int [simp]: "bit (252 :: int) n \<longleftrightarrow> 2 \<le> n \<and> n < 8"
proof -
  have "(252 :: int) = push_bit 2 63" by (simp add: push_bit_eq_mult)
  then have "bit (252 :: int) n \<longleftrightarrow> 2 \<le> n \<and> bit (63 :: int) (n - 2)"
    by (simp only: bit_push_bit_iff) auto
  then show ?thesis by auto
qed

end
