(* ===== verification/Go_Strings.thy ===== *)
theory Go_Strings
  imports Hub_Prelude
begin

text \<open>
  The functions of Go's packages strings and strconv that the repository uses, on byte
  strings: a Go string is a sequence of bytes and a \<open>char\<close> is one byte.

  \<open>TrimSpace\<close> is exact for every byte string: the code points with the property White_Space
  are listed by their UTF-8 encodings. \<open>ToLower\<close> is exact for ASCII strings; on a string
  with a byte above 127 Go applies the Unicode case tables, which are the argument \<open>ulow\<close> of
  every definition that lowers a string. \<open>ParseBool\<close> of util.go stands here because the
  configuration readers of several components share it.
\<close>

section \<open>strings.TrimSpace\<close>

definition space_seqs :: "string list" where
  "space_seqs =
     [[CHR 0x09], [CHR 0x0A], [CHR 0x0B], [CHR 0x0C], [CHR 0x0D], [CHR 0x20],
      [CHR 0xC2, CHR 0x85], [CHR 0xC2, CHR 0xA0], [CHR 0xE1, CHR 0x9A, CHR 0x80],
      [CHR 0xE2, CHR 0x80, CHR 0x80], [CHR 0xE2, CHR 0x80, CHR 0x81],
      [CHR 0xE2, CHR 0x80, CHR 0x82], [CHR 0xE2, CHR 0x80, CHR 0x83],
      [CHR 0xE2, CHR 0x80, CHR 0x84], [CHR 0xE2, CHR 0x80, CHR 0x85],
      [CHR 0xE2, CHR 0x80, CHR 0x86], [CHR 0xE2, CHR 0x80, CHR 0x87],
      [CHR 0xE2, CHR 0x80, CHR 0x88], [CHR 0xE2, CHR 0x80, CHR 0x89],
      [CHR 0xE2, CHR 0x80, CHR 0x8A], [CHR 0xE2, CHR 0x80, CHR 0xA8],
      [CHR 0xE2, CHR 0x80, CHR 0xA9], [CHR 0xE2, CHR 0x80, CHR 0xAF],
      [CHR 0xE2, CHR 0x81, CHR 0x9F], [CHR 0xE3, CHR 0x80, CHR 0x80]]"

text \<open>Cut the sequences of \<open>seqs\<close> off the front, as long as one of them is there.\<close>

definition front_seq :: "string list \<Rightarrow> string \<Rightarrow> string option" where
  "front_seq seqs s = find (\<lambda>p. p \<noteq> [] \<and> prefix p s) seqs"

lemma front_seq_Some:
  "front_seq seqs s = Some p \<Longrightarrow> p \<noteq> [] \<and> prefix p s \<and> p \<in> set seqs"
  by (auto simp: front_seq_def find_Some_iff)

lemma front_seq_None:
  "front_seq seqs s = None \<longleftrightarrow> (\<forall>p \<in> set seqs. p \<noteq> [] \<longrightarrow> \<not> prefix p s)"
  by (auto simp: front_seq_def find_None_iff)

function trim_front :: "string list \<Rightarrow> string \<Rightarrow> string" where
  "trim_front seqs s =
     (case front_seq seqs s of
        None \<Rightarrow> s
      | Some p \<Rightarrow> trim_front seqs (drop (length p) s))"
  by pat_completeness auto
termination
proof (relation "measure (length \<circ> snd)")
  fix seqs s p
  assume "front_seq seqs s = Some p"
  then have "p \<noteq> []" "prefix p s"
    by (auto dest: front_seq_Some)
  then have "0 < length p" "length p \<le> length s"
    by (auto simp: prefix_length_le)
  then have "length s - length p < length s"
    by linarith
  then show "((seqs, drop (length p) s), (seqs, s)) \<in> measure (length \<circ> snd)"
    by (simp only: in_measure comp_apply snd_conv length_drop)
qed simp

declare trim_front.simps [simp del]

definition TrimSpace :: "string \<Rightarrow> string" where
  "TrimSpace s =
     rev (trim_front (map rev space_seqs) (rev (trim_front space_seqs s)))"

lemma trim_front_fixed: "front_seq seqs s = None \<Longrightarrow> trim_front seqs s = s"
  by (subst trim_front.simps) simp

lemma front_seq_trim_front: "front_seq seqs (trim_front seqs s) = None"
proof (induction seqs s rule: trim_front.induct)
  case (1 seqs s)
  then show ?case
    by (subst trim_front.simps) (auto split: option.splits)
qed

lemma suffix_trim_front: "suffix (trim_front seqs s) s"
proof (induction seqs s rule: trim_front.induct)
  case (1 seqs s)
  then show ?case
    by (subst trim_front.simps)
      (auto split: option.splits intro: suffix_order.trans[OF _ suffix_drop])
qed

lemma front_seq_prefix_mono:
  "front_seq seqs s = None \<Longrightarrow> prefix t s \<Longrightarrow> front_seq seqs t = None"
  by (auto simp: front_seq_None intro: prefix_order.trans)

text \<open>Trimming twice is trimming once.\<close>

lemma TrimSpace_idem [simp]: "TrimSpace (TrimSpace s) = TrimSpace s"
proof -
  define u where "u = trim_front space_seqs s"
  define t where "t = rev (trim_front (map rev space_seqs) (rev u))"
  have "suffix (rev t) (rev u)"
    by (simp add: t_def suffix_trim_front)
  then have "prefix t u"
    by (simp add: suffix_to_prefix)
  moreover have "front_seq space_seqs u = None"
    by (simp add: u_def front_seq_trim_front)
  ultimately have "front_seq space_seqs t = None"
    by (rule front_seq_prefix_mono[rotated])
  then have 1: "trim_front space_seqs t = t"
    by (rule trim_front_fixed)
  have "front_seq (map rev space_seqs) (rev t) = None"
    by (simp add: t_def front_seq_trim_front)
  then have 2: "trim_front (map rev space_seqs) (rev t) = rev t"
    by (rule trim_front_fixed)
  have "TrimSpace s = t"
    by (simp add: TrimSpace_def t_def u_def)
  then show ?thesis
    by (simp add: TrimSpace_def 1 2)
qed

lemma TrimSpace_Nil [simp]: "TrimSpace [] = []"
  by (simp add: TrimSpace_def trim_front.simps front_seq_def space_seqs_def)

text \<open>A string of printable ASCII bytes has nothing to trim.\<close>

definition graphic :: "char \<Rightarrow> bool" where
  "graphic c \<longleftrightarrow> 32 < (of_char c :: nat) \<and> (of_char c :: nat) < 127"

lemma space_seqs_not_graphic:
  "list_all (\<lambda>p. p \<noteq> [] \<and> \<not> graphic (hd p) \<and> \<not> graphic (last p)) space_seqs"
  by (simp add: space_seqs_def graphic_def)

lemma trim_front_graphic:
  assumes "list_all (\<lambda>p. p \<noteq> [] \<longrightarrow> \<not> graphic (hd p)) seqs" "list_all graphic s"
  shows "trim_front seqs s = s"
proof (rule trim_front_fixed)
  have "\<not> prefix p s" if "p \<in> set seqs" "p \<noteq> []" for p
  proof (cases s)
    case Nil
    then show ?thesis using that by simp
  next
    case (Cons c cs)
    then have "prefix p s \<Longrightarrow> hd p = c"
      using that by (cases p) auto
    then show ?thesis
      using that assms Cons by (auto simp: list_all_iff)
  qed
  then show "front_seq seqs s = None"
    by (simp add: front_seq_None)
qed

lemma TrimSpace_graphic: "list_all graphic s \<Longrightarrow> TrimSpace s = s"
proof -
  assume s: "list_all graphic s"
  have 1: "list_all (\<lambda>p. p \<noteq> [] \<longrightarrow> \<not> graphic (hd p)) space_seqs"
    using space_seqs_not_graphic by (auto simp: list_all_iff)
  have 2: "list_all (\<lambda>p. p \<noteq> [] \<longrightarrow> \<not> graphic (hd p)) (map rev space_seqs)"
    using space_seqs_not_graphic by (auto simp: list_all_iff hd_rev)
  have "list_all graphic (rev s)"
    using s by (simp add: list_all_iff)
  then show ?thesis
    using s by (simp add: TrimSpace_def trim_front_graphic 1 2)
qed


section \<open>strings.ToLower, Split, SplitN, HasPrefix, TrimPrefix\<close>

definition lower_char :: "char \<Rightarrow> char" where
  "lower_char c =
     (if 65 \<le> (of_char c :: nat) \<and> (of_char c :: nat) \<le> 90 then char_of (of_char c + 32 :: nat) else c)"

definition is_ascii :: "string \<Rightarrow> bool" where
  "is_ascii s = list_all (\<lambda>c. (of_char c :: nat) < 128) s"

definition ToLower :: "(string \<Rightarrow> string) \<Rightarrow> string \<Rightarrow> string" where
  "ToLower ulow s = (if is_ascii s then map lower_char s else ulow s)"

lemma lower_char_idem [simp]: "lower_char (lower_char c) = lower_char c"
  by (auto simp: lower_char_def)

lemma of_char_lower_char_less: "(of_char c :: nat) < 128 \<Longrightarrow> (of_char (lower_char c) :: nat) < 128"
  by (auto simp: lower_char_def)

lemma is_ascii_lower: "is_ascii s \<Longrightarrow> is_ascii (map lower_char s)"
  by (auto simp: is_ascii_def list_all_iff of_char_lower_char_less)

lemma ToLower_idem_ascii: "is_ascii s \<Longrightarrow> ToLower ulow (ToLower ulow s) = ToLower ulow s"
  by (simp add: ToLower_def is_ascii_lower comp_def)

text \<open>Lower-casing an ASCII string neither creates nor removes white space at its ends.\<close>

lemma lower_char_space:
  assumes "(of_char c :: nat) < 128" "p \<in> {CHR 0x09, CHR 0x0A, CHR 0x0B, CHR 0x0C, CHR 0x0D, CHR 0x20}"
  shows "lower_char c = p \<longleftrightarrow> c = p"
proof -
  have "lower_char c = c \<or> 97 \<le> (of_char (lower_char c) :: nat) \<and> 65 \<le> (of_char c :: nat)"
    by (auto simp: lower_char_def)
  moreover have "(of_char p :: nat) < 33"
    using assms(2) by auto
  ultimately show ?thesis by auto
qed

definition white :: "char \<Rightarrow> bool" where
  "white c = (c \<in> {CHR 0x09, CHR 0x0A, CHR 0x0B, CHR 0x0C, CHR 0x0D, CHR 0x20})"

lemma space_seqs_heads:
  "list_all (\<lambda>p. p \<noteq> [] \<and> (p = [hd p] \<and> white (hd p) \<or> 128 \<le> (of_char (hd p) :: nat))) (space_seqs @ map rev space_seqs)"
  "list_all (\<lambda>c. [c] \<in> set space_seqs \<and> [c] \<in> set (map rev space_seqs))
     [CHR 0x09, CHR 0x0A, CHR 0x0B, CHR 0x0C, CHR 0x0D, CHR 0x20]"
  by code_simp+

lemma front_seq_ascii:
  assumes "is_ascii s" "seqs = space_seqs \<or> seqs = map rev space_seqs"
  shows "front_seq seqs s = None \<longleftrightarrow> (s = [] \<or> \<not> white (hd s))"
proof -
  have heads: "p = [hd p] \<and> white (hd p) \<or> 128 \<le> (of_char (hd p) :: nat)" "p \<noteq> []" if "p \<in> set seqs" for p
    using that assms(2) space_seqs_heads(1) unfolding list_all_iff by auto
  have white: "[c] \<in> set seqs" if "white c" for c
    using that assms(2) space_seqs_heads(2) unfolding white_def list_all_iff by auto
  show ?thesis
  proof (cases s)
    case Nil
    then show ?thesis using heads(2) by (auto simp: front_seq_None)
  next
    case (Cons c t)
    have "(of_char c :: nat) < 128"
      using assms(1) Cons by (simp add: is_ascii_def)
    then have "prefix p s \<longleftrightarrow> p = [c]" if "p \<in> set seqs" for p
      using heads[OF that] Cons by (cases p) auto
    then have "(\<exists>p \<in> set seqs. p \<noteq> [] \<and> prefix p s) \<longleftrightarrow> [c] \<in> set seqs"
      by auto
    moreover have "[c] \<in> set seqs \<longleftrightarrow> white c"
      using white[of c] heads(1)[of "[c]"] \<open>(of_char c :: nat) < 128\<close> by auto
    ultimately show ?thesis
      using Cons by (auto simp: front_seq_None)
  qed
qed

lemma TrimSpace_ascii_iff:
  assumes "is_ascii s"
  shows "TrimSpace s = s \<longleftrightarrow> (s = [] \<or> \<not> white (hd s) \<and> \<not> white (last s))"
proof -
  have r: "is_ascii (rev s)" using assms by (simp add: is_ascii_def)
  have fixed: "trim_front seqs t = t \<longleftrightarrow> front_seq seqs t = None" for seqs t
    using front_seq_trim_front[of seqs t] trim_front_fixed[of seqs t] by metis
  have "TrimSpace s = s \<longleftrightarrow> trim_front space_seqs s = s \<and> trim_front (map rev space_seqs) (rev s) = rev s"
    (is "?l \<longleftrightarrow> ?r1 \<and> ?r2")
  proof
    assume t: ?l
    define u where "u = trim_front space_seqs s"
    have "length (trim_front (map rev space_seqs) (rev u)) \<le> length u"
      using suffix_length_le[OF suffix_trim_front[of "map rev space_seqs" "rev u"]] by simp
    moreover have "length s = length (trim_front (map rev space_seqs) (rev u))"
      using t by (metis TrimSpace_def u_def length_rev)
    moreover have "suffix u s" by (simp add: u_def suffix_trim_front)
    ultimately have "u = s"
      by (metis le_add2 le_antisym length_append add_cancel_left_left length_0_conv append_Nil suffix_def)
    then show "?r1 \<and> ?r2" using t by (simp add: TrimSpace_def u_def) (metis rev_rev_ident)
  qed (simp add: TrimSpace_def)
  also have "\<dots> \<longleftrightarrow> (s = [] \<or> \<not> white (hd s) \<and> \<not> white (last s))"
    using front_seq_ascii[OF assms, of space_seqs] front_seq_ascii[OF r, of "map rev space_seqs"]
    by (auto simp: fixed hd_rev)
  finally show ?thesis .
qed

lemma TrimSpace_lower:
  assumes "is_ascii s"
  shows "TrimSpace (map lower_char s) = map lower_char s \<longleftrightarrow> TrimSpace s = s"
proof -
  have "white (lower_char c) = white c" if "c \<in> set s" for c
    using that assms lower_char_space[of c] by (auto simp: is_ascii_def list_all_iff white_def)
  then show ?thesis
    using TrimSpace_ascii_iff[OF assms] TrimSpace_ascii_iff[OF is_ascii_lower[OF assms]]
    by (cases "s = []") (simp_all add: hd_map last_map)
qed

lemma is_ascii_TrimSpace: "is_ascii s \<Longrightarrow> is_ascii (TrimSpace s)"
proof -
  assume a: "is_ascii s"
  have "set (trim_front seqs t) \<subseteq> set t" for seqs t
    using suffix_trim_front[of seqs t] by (rule set_mono_suffix)
  then have "set (TrimSpace s) \<subseteq> set s"
    unfolding TrimSpace_def by (metis order_trans set_rev)
  with a show ?thesis by (auto simp: is_ascii_def list_all_iff)
qed

text \<open>Split at every occurrence of a one-byte separator; the result is never empty.\<close>

fun Split :: "char \<Rightarrow> string \<Rightarrow> string list" where
  "Split c [] = [[]]"
| "Split c (x # xs) =
     (if x = c then [] # Split c xs
      else (case Split c xs of [] \<Rightarrow> [[x]] | w # ws \<Rightarrow> (x # w) # ws))"

text \<open>\<open>SplitN s c 2\<close>: at the first occurrence only.\<close>

fun SplitN2 :: "char \<Rightarrow> string \<Rightarrow> string list" where
  "SplitN2 c [] = [[]]"
| "SplitN2 c (x # xs) =
     (if x = c then [[], xs]
      else (case SplitN2 c xs of [] \<Rightarrow> [[x]] | w # ws \<Rightarrow> (x # w) # ws))"

lemma Split_nonempty [simp]: "Split c s \<noteq> []"
  by (induction s) (auto split: list.splits)

lemma Split_no_sep: "c \<notin> set s \<Longrightarrow> Split c s = [s]"
  by (induction s) auto

lemma Split_append_sep: "c \<notin> set s \<Longrightarrow> Split c (s @ c # t) = s # Split c t"
  by (induction s) auto

lemma SplitN2_no_sep: "c \<notin> set s \<Longrightarrow> SplitN2 c s = [s]"
  by (induction s) auto

lemma SplitN2_append_sep: "c \<notin> set s \<Longrightarrow> SplitN2 c (s @ c # t) = [s, t]"
  by (induction s) auto

definition HasPrefix :: "string \<Rightarrow> string \<Rightarrow> bool" where
  "HasPrefix s p = prefix p s"

definition TrimPrefix :: "string \<Rightarrow> string \<Rightarrow> string" where
  "TrimPrefix s p = (if prefix p s then drop (length p) s else s)"


section \<open>strconv.Atoi and strconv.ParseUint\<close>

definition digit_val :: "char \<Rightarrow> nat option" where
  "digit_val c =
     (if 48 \<le> (of_char c :: nat) \<and> (of_char c :: nat) \<le> 57 then Some (of_char c - 48) else None)"

fun digits_val :: "nat \<Rightarrow> string \<Rightarrow> nat option" where
  "digits_val acc [] = Some acc"
| "digits_val acc (c # cs) =
     (case digit_val c of None \<Rightarrow> None | Some d \<Rightarrow> digits_val (10 * acc + d) cs)"

text \<open>\<open>ParseUint(s, 10, bits)\<close>: digits only, no sign, within the width.\<close>

definition ParseUint :: "nat \<Rightarrow> string \<Rightarrow> nat option" where
  "ParseUint bits s =
     (if s = [] then None
      else case digits_val 0 s of
             None \<Rightarrow> None
           | Some n \<Rightarrow> if n < 2 ^ bits then Some n else None)"

text \<open>\<open>Atoi\<close> on a 64-bit platform: an optional sign, then digits, within \<open>int64\<close>.\<close>

definition Atoi :: "string \<Rightarrow> int option" where
  "Atoi s =
     (let (neg, ds) =
        (case s of
           c # cs \<Rightarrow> if c = CHR ''-'' then (True, cs) else if c = CHR ''+'' then (False, cs) else (False, s)
         | [] \<Rightarrow> (False, []))
      in if ds = [] then None
         else case digits_val 0 ds of
                None \<Rightarrow> None
              | Some n \<Rightarrow>
                  (let v = (if neg then - int n else int n)
                   in if - (2 ^ 63) \<le> v \<and> v < 2 ^ 63 then Some v else None))"

lemma Atoi_range: "Atoi s = Some v \<Longrightarrow> - (2 ^ 63) \<le> v \<and> v < 2 ^ 63"
  by (auto simp: Atoi_def Let_def split: prod.splits if_splits option.splits)

lemma ParseUint_range: "ParseUint bits s = Some n \<Longrightarrow> n < 2 ^ bits"
  by (auto simp: ParseUint_def split: if_splits option.splits)


section \<open>core.ParseBool\<close>

definition ParseBool :: "(string \<Rightarrow> string) \<Rightarrow> string \<Rightarrow> bool \<Rightarrow> bool" where
  "ParseBool ulow s def =
     (let t = ToLower ulow (TrimSpace s)
      in if t \<in> {''1'', ''true'', ''yes'', ''y'', ''on''} then True
         else if t \<in> {''0'', ''false'', ''no'', ''n'', ''off''} then False
         else def)"


section \<open>Joining and printing\<close>

text \<open>The inverses of \<open>Split\<close> and \<open>ParseUint\<close>, for the round trips.\<close>

fun join :: "char \<Rightarrow> string list \<Rightarrow> string" where
  "join c [] = []"
| "join c [w] = w"
| "join c (w # v # ws) = w @ c # join c (v # ws)"

lemma Split_join: "ws \<noteq> [] \<Longrightarrow> list_all (\<lambda>w. c \<notin> set w) ws \<Longrightarrow> Split c (join c ws) = ws"
  by (induction c ws rule: join.induct) (auto simp: Split_no_sep Split_append_sep)

lemma list_all_join: "P c \<Longrightarrow> list_all (list_all P) ws \<Longrightarrow> list_all P (join c ws)"
  by (induction c ws rule: join.induct) auto

fun itoa :: "nat \<Rightarrow> string" where
  "itoa n = (if n < 10 then [char_of (48 + n)] else itoa (n div 10) @ [char_of (48 + n mod 10)])"

declare itoa.simps [simp del]

lemma digits_val_append:
  "digits_val acc (s @ [c]) =
     (case digits_val acc s of None \<Rightarrow> None | Some a \<Rightarrow> map_option (\<lambda>d. 10 * a + d) (digit_val c))"
  by (induction acc s rule: digits_val.induct) (auto split: option.splits)

lemma digit_val_digit: "d < 10 \<Longrightarrow> digit_val (char_of (48 + d :: nat)) = Some d"
  by (simp add: digit_val_def)

lemma digits_val_itoa: "digits_val 0 (itoa n) = Some n"
proof (induction n rule: itoa.induct)
  case (1 n)
  show ?case
  proof (cases "n < 10")
    case True
    then show ?thesis by (subst itoa.simps) (simp add: digit_val_digit)
  next
    case False
    then show ?thesis
      using 1 by (subst itoa.simps) (simp add: digits_val_append digit_val_digit)
  qed
qed

lemma itoa_nonempty [simp]: "itoa n \<noteq> []"
  by (subst itoa.simps) simp

lemma itoa_digits: "list_all (\<lambda>c. 48 \<le> (of_char c :: nat) \<and> (of_char c :: nat) \<le> 57) (itoa n)"
proof (induction n rule: itoa.induct)
  case (1 n)
  have "n mod 10 \<le> 9" by simp
  with 1 show ?case by (subst itoa.simps) simp
qed

lemma itoa_graphic: "list_all graphic (itoa n)"
  using itoa_digits[of n] by (auto simp: list_all_iff graphic_def)

lemma ParseUint_itoa: "n < 2 ^ bits \<Longrightarrow> ParseUint bits (itoa n) = Some n"
  by (simp add: ParseUint_def digits_val_itoa)

end
