(* ===== verification/Header.thy ===== *)
theory Header
  imports Go_Strings
begin

text \<open>
  Package header: the 32-byte wire header \<open>HeaderTcp\<close> (v2), its bit fields, the codec
  (\<open>Encode\<close>, \<open>Decode\<close>) and the clone helpers used for forwarding and for responses.

  A \<open>*HeaderTcp\<close> is a value of the record \<open>HeaderTcp\<close>. An \<open>IHeader\<close> that is not a
  \<open>*HeaderTcp\<close> is known to this code by its eleven getters only, so it is the record \<open>iview\<close>
  of their results; a nil interface is \<open>None\<close>. An \<open>io.Reader\<close> is the bytes it still delivers
  and the error it returns after them.
\<close>

section \<open>encoding/binary, big endian, and io.ReadFull\<close>

definition PutUint16 :: "u16 \<Rightarrow> byte list" where
  "PutUint16 v = [ucast (drop_bit 8 v), ucast v]"

definition PutUint32 :: "u32 \<Rightarrow> byte list" where
  "PutUint32 v = [ucast (drop_bit 24 v), ucast (drop_bit 16 v), ucast (drop_bit 8 v), ucast v]"

definition Uint16 :: "byte \<Rightarrow> byte \<Rightarrow> u16" where
  "Uint16 b0 b1 = ucast b1 OR push_bit 8 (ucast b0)"

definition Uint32 :: "byte \<Rightarrow> byte \<Rightarrow> byte \<Rightarrow> byte \<Rightarrow> u32" where
  "Uint32 b0 b1 b2 b3 =
     ucast b3 OR push_bit 8 (ucast b2) OR push_bit 16 (ucast b1) OR push_bit 24 (ucast b0)"

lemma Uint16_PutUint16 [simp]: "Uint16 (ucast (drop_bit 8 v)) (ucast v) = (v :: u16)"
  by (rule bit_word_eqI) (auto simp: Uint16_def bit_simps)

lemma Uint32_PutUint32 [simp]:
  "Uint32 (ucast (drop_bit 24 v)) (ucast (drop_bit 16 v)) (ucast (drop_bit 8 v)) (ucast v) = (v :: u32)"
proof (rule bit_word_eqI)
  fix n
  assume "n < LENGTH(32)"
  then show "bit (Uint32 (ucast (drop_bit 24 v)) (ucast (drop_bit 16 v)) (ucast (drop_bit 8 v)) (ucast v)) n
    = bit v n"
    by (cases "24 \<le> n"; cases "16 \<le> n"; cases "8 \<le> n") (auto simp: Uint32_def bit_simps)
qed

lemma length_PutUint16 [simp]: "length (PutUint16 v) = 2"
  by (simp add: PutUint16_def)

lemma length_PutUint32 [simp]: "length (PutUint32 v) = 4"
  by (simp add: PutUint32_def)

record reader =
  avail :: "byte list"
  fin :: error

text \<open>
  \<open>io.ReadFull(r, buf)\<close> with \<open>len(buf) = n\<close>: \<open>EOF\<close> is returned only when nothing was read.
\<close>

definition ReadFull :: "nat \<Rightarrow> reader \<Rightarrow> byte list result \<times> reader" where
  "ReadFull n r =
     (if n \<le> length (avail r)
      then (Inr (take n (avail r)), r\<lparr>avail := drop n (avail r)\<rparr>)
      else (Inl (if fin r = EOF \<and> avail r \<noteq> [] then ErrUnexpectedEOF else fin r),
            r\<lparr>avail := []\<rparr>))"

lemma ReadFull_append [simp]:
  "length xs = n \<Longrightarrow> avail r = xs @ ys \<Longrightarrow> ReadFull n r = (Inr xs, r\<lparr>avail := ys\<rparr>)"
  by (simp add: ReadFull_def)

lemma ReadFull_short:
  "length (avail r) < n \<Longrightarrow>
   ReadFull n r = (Inl (if fin r = EOF \<and> avail r \<noteq> [] then ErrUnexpectedEOF else fin r), r\<lparr>avail := []\<rparr>)"
  by (simp add: ReadFull_def)


section \<open>HeaderTcp: fields, getters and setters\<close>

record HeaderTcp =
  Magic :: u16
  Ver :: u8
  HdrLen :: u8
  TypeFmt :: u8
  Flags :: u8
  HopLimit :: u8
  RouteFlags :: u8
  MsgID :: u32
  Source :: u32
  Target :: u32
  TraceID :: u32
  Timestamp :: u32
  PayloadLen :: u32

definition zero_header :: HeaderTcp where
  "zero_header = \<lparr>Magic = 0, Ver = 0, HdrLen = 0, TypeFmt = 0, Flags = 0, HopLimit = 0,
     RouteFlags = 0, MsgID = 0, Source = 0, Target = 0, TraceID = 0, Timestamp = 0, PayloadLen = 0\<rparr>"

definition MajorOKResp :: u8 where "MajorOKResp = 0"
definition MajorErrResp :: u8 where "MajorErrResp = 1"
definition MajorMsg :: u8 where "MajorMsg = 2"
definition MajorCmd :: u8 where "MajorCmd = 3"

definition HeaderTcpMagicV2 :: u16 where "HeaderTcpMagicV2 = 0x4D48"
definition HeaderTcpVersionV2 :: u8 where "HeaderTcpVersionV2 = 2"
definition DefaultHopLimit :: u8 where "DefaultHopLimit = 16"
definition headerTcpSize :: nat where "headerTcpSize = 32"

lemmas header_consts = MajorOKResp_def MajorErrResp_def MajorMsg_def MajorCmd_def
  HeaderTcpMagicV2_def HeaderTcpVersionV2_def DefaultHopLimit_def headerTcpSize_def

definition Major :: "HeaderTcp \<Rightarrow> u8" where
  "Major h = TypeFmt h AND 0x03"

definition SubProto :: "HeaderTcp \<Rightarrow> u8" where
  "SubProto h = drop_bit 2 (TypeFmt h) AND 0x3F"

definition WithMajor :: "u8 \<Rightarrow> HeaderTcp \<Rightarrow> HeaderTcp" where
  "WithMajor major h = h\<lparr>TypeFmt := (TypeFmt h AND NOT 0x03) OR (major AND 0x03)\<rparr>"

definition WithSubProto :: "u8 \<Rightarrow> HeaderTcp \<Rightarrow> HeaderTcp" where
  "WithSubProto sub h = h\<lparr>TypeFmt := (TypeFmt h AND NOT 0xFC) OR push_bit 2 (sub AND 0x3F)\<rparr>"

definition WithSourceID :: "u32 \<Rightarrow> HeaderTcp \<Rightarrow> HeaderTcp" where
  "WithSourceID v h = h\<lparr>Source := v\<rparr>"
definition WithTargetID :: "u32 \<Rightarrow> HeaderTcp \<Rightarrow> HeaderTcp" where
  "WithTargetID v h = h\<lparr>Target := v\<rparr>"
definition WithFlags :: "u8 \<Rightarrow> HeaderTcp \<Rightarrow> HeaderTcp" where
  "WithFlags v h = h\<lparr>Flags := v\<rparr>"
definition WithHopLimit :: "u8 \<Rightarrow> HeaderTcp \<Rightarrow> HeaderTcp" where
  "WithHopLimit v h = h\<lparr>HopLimit := v\<rparr>"
definition WithRouteFlags :: "u8 \<Rightarrow> HeaderTcp \<Rightarrow> HeaderTcp" where
  "WithRouteFlags v h = h\<lparr>RouteFlags := v\<rparr>"
definition WithMsgID :: "u32 \<Rightarrow> HeaderTcp \<Rightarrow> HeaderTcp" where
  "WithMsgID v h = h\<lparr>MsgID := v\<rparr>"
definition WithTraceID :: "u32 \<Rightarrow> HeaderTcp \<Rightarrow> HeaderTcp" where
  "WithTraceID v h = h\<lparr>TraceID := v\<rparr>"
definition WithTimestamp :: "u32 \<Rightarrow> HeaderTcp \<Rightarrow> HeaderTcp" where
  "WithTimestamp v h = h\<lparr>Timestamp := v\<rparr>"
definition WithPayloadLength :: "u32 \<Rightarrow> HeaderTcp \<Rightarrow> HeaderTcp" where
  "WithPayloadLength v h = h\<lparr>PayloadLen := v\<rparr>"

lemmas with_defs = WithMajor_def WithSubProto_def WithSourceID_def WithTargetID_def WithFlags_def
  WithHopLimit_def WithRouteFlags_def WithMsgID_def WithTraceID_def WithTimestamp_def
  WithPayloadLength_def

text \<open>\<open>Clone\<close>: a nil receiver gives a zero header.\<close>

definition Clone :: "HeaderTcp option \<Rightarrow> HeaderTcp" where
  "Clone h = (case h of None \<Rightarrow> zero_header | Some h' \<Rightarrow> h')"

text \<open>The two bit fields of \<open>TypeFmt\<close> do not disturb each other.\<close>

lemma Major_WithMajor [simp]: "Major (WithMajor m h) = m AND 3"
  by (rule bit_word_eqI) (auto simp: Major_def WithMajor_def bit_simps simp del: word_bw_comms)

lemma SubProto_WithSubProto [simp]: "SubProto (WithSubProto s h) = s AND 0x3F"
  by (rule bit_word_eqI) (auto simp: SubProto_def WithSubProto_def bit_simps)

lemma SubProto_WithMajor [simp]: "SubProto (WithMajor m h) = SubProto h"
  by (rule bit_word_eqI) (auto simp: SubProto_def WithMajor_def bit_simps)

lemma Major_with [simp]:
  "Major (WithSourceID i h) = Major h" "Major (WithTargetID i h) = Major h"
  "Major (WithHopLimit v h) = Major h" "Major (WithMsgID i h) = Major h"
  "Major (WithTraceID i h) = Major h" "Major (WithTimestamp i h) = Major h"
  "Major (WithPayloadLength i h) = Major h"
  by (simp_all add: Major_def with_defs)

lemma SubProto_with [simp]:
  "SubProto (WithSourceID i h) = SubProto h" "SubProto (WithTargetID i h) = SubProto h"
  "SubProto (WithHopLimit v h) = SubProto h" "SubProto (WithMsgID i h) = SubProto h"
  "SubProto (WithTraceID i h) = SubProto h" "SubProto (WithTimestamp i h) = SubProto h"
  "SubProto (WithPayloadLength i h) = SubProto h"
  by (simp_all add: SubProto_def with_defs)

lemma Major_WithSubProto [simp]: "Major (WithSubProto s h) = Major h"
  by (rule bit_word_eqI) (auto simp: Major_def WithSubProto_def bit_simps)


section \<open>IHeader values\<close>

record iview =
  iv_Major :: u8
  iv_SubProto :: u8
  iv_SourceID :: u32
  iv_TargetID :: u32
  iv_Flags :: u8
  iv_HopLimit :: u8
  iv_RouteFlags :: u8
  iv_MsgID :: u32
  iv_TraceID :: u32
  iv_Timestamp :: u32
  iv_PayloadLength :: u32

datatype iheader = HTcp HeaderTcp | HOther iview

definition view :: "iheader \<Rightarrow> iview" where
  "view ih = (case ih of
     HOther v \<Rightarrow> v
   | HTcp h \<Rightarrow> \<lparr>iv_Major = Major h, iv_SubProto = SubProto h, iv_SourceID = Source h,
       iv_TargetID = Target h, iv_Flags = Flags h, iv_HopLimit = HopLimit h,
       iv_RouteFlags = RouteFlags h, iv_MsgID = MsgID h, iv_TraceID = TraceID h,
       iv_Timestamp = Timestamp h, iv_PayloadLength = PayloadLen h\<rparr>)"


section \<open>HeaderTcpCodec\<close>

abbreviation ErrHeaderMagicMismatch :: error where
  "ErrHeaderMagicMismatch \<equiv> Err ''header magic mismatch''"
abbreviation ErrHeaderVersionInvalid :: error where
  "ErrHeaderVersionInvalid \<equiv> Err ''header version invalid''"
abbreviation ErrHeaderLenInvalid :: error where
  "ErrHeaderLenInvalid \<equiv> Err ''header length invalid''"
abbreviation ErrHeaderTooLarge :: error where
  "ErrHeaderTooLarge \<equiv> Err ''header too large''"

text \<open>
  \<open>Encode\<close>. The header is copied into a fresh \<open>HeaderTcp\<close>, from the getters when it is not
  one already; calling a getter of a nil interface panics.
\<close>

definition Encode :: "iheader option \<Rightarrow> byte list \<Rightarrow> byte list result outcome" where
  "Encode header payload =
     (case header of
        None \<Rightarrow> Panic
      | Some ih \<Rightarrow>
          (let h = (case ih of
                      HTcp hp \<Rightarrow> hp
                    | HOther v \<Rightarrow> zero_header
                        \<lparr>TypeFmt := (iv_Major v AND 0x03) OR push_bit 2 (iv_SubProto v AND 0x3F),
                         Flags := iv_Flags v, HopLimit := iv_HopLimit v,
                         RouteFlags := iv_RouteFlags v, MsgID := iv_MsgID v,
                         Source := iv_SourceID v, Target := iv_TargetID v,
                         TraceID := iv_TraceID v, Timestamp := iv_Timestamp v,
                         PayloadLen := iv_PayloadLength v\<rparr>);
               h = (if HopLimit h = 0 then h\<lparr>HopLimit := DefaultHopLimit\<rparr> else h);
               h = (if of_nat (length payload) \<noteq> PayloadLen h
                    then h\<lparr>PayloadLen := of_nat (length payload)\<rparr> else h);
               h = h\<lparr>Magic := HeaderTcpMagicV2, Ver := HeaderTcpVersionV2,
                     HdrLen := of_nat headerTcpSize\<rparr>
           in Ret (Inr
                (PutUint16 (Magic h) @ [Ver h, HdrLen h, TypeFmt h, Flags h, HopLimit h, RouteFlags h]
                 @ PutUint32 (MsgID h) @ PutUint32 (Source h) @ PutUint32 (Target h)
                 @ PutUint32 (TraceID h) @ PutUint32 (Timestamp h) @ PutUint32 (PayloadLen h)
                 @ payload))))"

text \<open>
  \<open>Decode\<close> reads the four-byte prefix, checks magic, version and header length, reads the
  rest of the header (with any extension), then the payload.
\<close>

definition parse_header :: "u16 \<Rightarrow> u8 \<Rightarrow> u8 \<Rightarrow> byte list \<Rightarrow> HeaderTcp" where
  "parse_header magic ver hdrLen hdr =
     \<lparr>Magic = magic, Ver = ver, HdrLen = hdrLen,
      TypeFmt = hdr ! 4, Flags = hdr ! 5, HopLimit = hdr ! 6, RouteFlags = hdr ! 7,
      MsgID = Uint32 (hdr ! 8) (hdr ! 9) (hdr ! 10) (hdr ! 11),
      Source = Uint32 (hdr ! 12) (hdr ! 13) (hdr ! 14) (hdr ! 15),
      Target = Uint32 (hdr ! 16) (hdr ! 17) (hdr ! 18) (hdr ! 19),
      TraceID = Uint32 (hdr ! 20) (hdr ! 21) (hdr ! 22) (hdr ! 23),
      Timestamp = Uint32 (hdr ! 24) (hdr ! 25) (hdr ! 26) (hdr ! 27),
      PayloadLen = Uint32 (hdr ! 28) (hdr ! 29) (hdr ! 30) (hdr ! 31)\<rparr>"

definition Decode :: "reader \<Rightarrow> (HeaderTcp \<times> byte list) result \<times> reader" where
  "Decode r =
     (case ReadFull 4 r of
        (Inl e, r1) \<Rightarrow> (Inl e, r1)
      | (Inr pre, r1) \<Rightarrow>
          (let magic = Uint16 (pre ! 0) (pre ! 1); ver = pre ! 2; hdrLen = pre ! 3
           in if magic \<noteq> HeaderTcpMagicV2 then (Inl ErrHeaderMagicMismatch, r1)
              else if ver \<noteq> HeaderTcpVersionV2 then (Inl ErrHeaderVersionInvalid, r1)
              else if hdrLen < of_nat headerTcpSize then (Inl ErrHeaderLenInvalid, r1)
              else if hdrLen > 255 then (Inl ErrHeaderTooLarge, r1)
              else (case ReadFull (unat hdrLen - 4) r1 of
                      (Inl e, r2) \<Rightarrow> (Inl e, r2)
                    | (Inr rest, r2) \<Rightarrow>
                        (let h = parse_header magic ver hdrLen (pre @ rest);
                             h = (if HopLimit h = 0 then h\<lparr>HopLimit := DefaultHopLimit\<rparr> else h)
                         in if PayloadLen h = 0 then (Inr (h, []), r2)
                            else (case ReadFull (unat (PayloadLen h)) r2 of
                                    (Inl e, r3) \<Rightarrow> (Inl e, r3)
                                  | (Inr payload, r3) \<Rightarrow> (Inr (h, payload), r3))))))"


section \<open>Clones for forwarding and responses\<close>

definition CloneToTCP :: "iheader option \<Rightarrow> HeaderTcp" where
  "CloneToTCP src =
     (case src of
        None \<Rightarrow> zero_header
      | Some (HTcp existing) \<Rightarrow> existing
      | Some (HOther v) \<Rightarrow>
          WithPayloadLength (iv_PayloadLength v) (WithTimestamp (iv_Timestamp v)
           (WithTraceID (iv_TraceID v) (WithMsgID (iv_MsgID v) (WithRouteFlags (iv_RouteFlags v)
            (WithHopLimit (iv_HopLimit v) (WithFlags (iv_Flags v) (WithTargetID (iv_TargetID v)
             (WithSourceID (iv_SourceID v) (WithSubProto (iv_SubProto v)
              (WithMajor (iv_Major v) zero_header)))))))))))"

definition CloneToTCPForForward :: "iheader option \<Rightarrow> HeaderTcp option" where
  "CloneToTCPForForward src =
     (if src = None then None
      else let clone = CloneToTCP src;
               hop = HopLimit clone;
               hop = (if hop = 0 then DefaultHopLimit else hop)
           in if hop \<le> 1 then None else Some (clone\<lparr>HopLimit := hop - 1\<rparr>))"

text \<open>
  \<open>BuildTCPResponse\<close>; \<open>now\<close> is the Unix time that \<open>time.Now().Unix()\<close> returns. A nil request
  panics at its first getter call.
\<close>

definition BuildTCPResponse ::
    "u64 \<Rightarrow> iheader option \<Rightarrow> u32 \<Rightarrow> u8 \<Rightarrow> HeaderTcp outcome" where
  "BuildTCPResponse now req payloadLen sub =
     (case req of
        None \<Rightarrow> Panic
      | Some r \<Rightarrow> Ret
          (WithPayloadLength payloadLen (WithTimestamp (ucast now) (WithHopLimit DefaultHopLimit
            (WithTraceID (iv_TraceID (view r)) (WithMsgID (iv_MsgID (view r))
             (WithTargetID (iv_SourceID (view r)) (WithSourceID (iv_TargetID (view r))
              (WithSubProto sub (WithMajor MajorOKResp (CloneToTCP req)))))))))))"


section \<open>The wire form of a header\<close>

text \<open>
  \<open>header_bytes h\<close> is the 32-byte layout that \<open>HeaderTcp\<close>'s comment documents, and
  \<open>wire_header h n\<close> is the header the encoder puts on the wire for \<open>h\<close> and an \<open>n\<close>-byte payload.
\<close>

definition header_bytes :: "HeaderTcp \<Rightarrow> byte list" where
  "header_bytes h =
     PutUint16 (Magic h) @ [Ver h, HdrLen h, TypeFmt h, Flags h, HopLimit h, RouteFlags h]
     @ PutUint32 (MsgID h) @ PutUint32 (Source h) @ PutUint32 (Target h)
     @ PutUint32 (TraceID h) @ PutUint32 (Timestamp h) @ PutUint32 (PayloadLen h)"

definition hop_default :: "HeaderTcp \<Rightarrow> HeaderTcp" where
  "hop_default h = (if HopLimit h = 0 then h\<lparr>HopLimit := DefaultHopLimit\<rparr> else h)"

definition wire_header :: "HeaderTcp \<Rightarrow> nat \<Rightarrow> HeaderTcp" where
  "wire_header h n = (hop_default h)\<lparr>PayloadLen := of_nat n, Magic := HeaderTcpMagicV2,
     Ver := HeaderTcpVersionV2, HdrLen := of_nat headerTcpSize\<rparr>"

lemma length_header_bytes [simp]: "length (header_bytes h) = 32"
  by (simp add: header_bytes_def)

lemma Encode_HTcp:
  "Encode (Some (HTcp h)) p = Ret (Inr (header_bytes (wire_header h (length p)) @ p))"
  by (simp add: Encode_def Let_def header_bytes_def wire_header_def hop_default_def)

lemma CloneToTCP_HOther:
  "CloneToTCP (Some (HOther v)) = zero_header
     \<lparr>TypeFmt := (iv_Major v AND 0x03) OR push_bit 2 (iv_SubProto v AND 0x3F),
      Flags := iv_Flags v, HopLimit := iv_HopLimit v, RouteFlags := iv_RouteFlags v,
      MsgID := iv_MsgID v, Source := iv_SourceID v, Target := iv_TargetID v,
      TraceID := iv_TraceID v, Timestamp := iv_Timestamp v, PayloadLen := iv_PayloadLength v\<rparr>"
proof -
  have "(iv_Major v AND 3) AND NOT 252 = iv_Major v AND 3"
    by (rule bit_word_eqI) (auto simp: bit_simps)
  then show ?thesis
    by (simp add: CloneToTCP_def with_defs zero_header_def)
qed

text \<open>The encoder sees an \<open>IHeader\<close> through \<open>CloneToTCP\<close>, whatever its dynamic type.\<close>

lemma Encode_CloneToTCP: "Encode (Some ih) p = Encode (Some (HTcp (CloneToTCP (Some ih)))) p"
  by (cases ih) (simp_all add: CloneToTCP_def[of "Some (HTcp _)"] CloneToTCP_HOther Encode_def Let_def)

lemma parse_header_bytes [simp]:
  "parse_header (Magic h) (Ver h) (HdrLen h) (header_bytes h @ ext) = h"
  by (simp add: parse_header_def header_bytes_def PutUint16_def PutUint32_def)


section \<open>Decode on the bytes of a frame\<close>

text \<open>
  Once the four-byte prefix is there and passes the checks, decoding continues as
  \<open>decode_rest\<close>, whose last step is \<open>decode_payload\<close>. The guard on 255 never fires.
\<close>

definition decode_payload :: "HeaderTcp \<Rightarrow> reader \<Rightarrow> (HeaderTcp \<times> byte list) result \<times> reader" where
  "decode_payload h r =
     (if PayloadLen h = 0 then (Inr (h, []), r)
      else (case ReadFull (unat (PayloadLen h)) r of
              (Inl e, r3) \<Rightarrow> (Inl e, r3)
            | (Inr payload, r3) \<Rightarrow> (Inr (h, payload), r3)))"

definition valid_prefix :: "HeaderTcp \<Rightarrow> bool" where
  "valid_prefix h \<longleftrightarrow> Magic h = HeaderTcpMagicV2 \<and> Ver h = HeaderTcpVersionV2 \<and> headerTcpSize \<le> unat (HdrLen h)"

lemma not_gt_255: "\<not> (255 :: u8) < w"
  using unsigned_less[of w, where ?'a = nat] by (simp add: word_less_nat_alt)

lemma hdrLen_less_iff: "(w :: u8) < of_nat headerTcpSize \<longleftrightarrow> unat w < 32"
  by (simp add: word_less_nat_alt headerTcpSize_def)

lemma valid_prefix_wire [simp]: "valid_prefix (wire_header h n)"
  by (simp add: valid_prefix_def wire_header_def headerTcpSize_def)

definition prefix_bytes :: "HeaderTcp \<Rightarrow> byte list" where
  "prefix_bytes h = [ucast (drop_bit 8 (Magic h)), ucast (Magic h), Ver h, HdrLen h]"

lemma length_prefix_bytes [simp]: "length (prefix_bytes h) = 4"
  by (simp add: prefix_bytes_def)

lemma header_bytes_prefix: "header_bytes h = prefix_bytes h @ drop 4 (header_bytes h)"
  by (simp add: header_bytes_def prefix_bytes_def PutUint16_def)

lemma Decode_prefix:
  assumes v: "valid_prefix h" and a: "avail r = prefix_bytes h @ tail"
  shows "Decode r =
    (case ReadFull (unat (HdrLen h) - 4) (r\<lparr>avail := tail\<rparr>) of
       (Inl e, r2) \<Rightarrow> (Inl e, r2)
     | (Inr rest, r2) \<Rightarrow>
         decode_payload (hop_default (parse_header (Magic h) (Ver h) (HdrLen h) (prefix_bytes h @ rest))) r2)"
proof -
  have 1: "ReadFull 4 r = (Inr (prefix_bytes h), r\<lparr>avail := tail\<rparr>)"
    by (rule ReadFull_append) (simp add: prefix_bytes_def, rule a)
  have 2: "\<not> HdrLen h < of_nat headerTcpSize"
    using v by (simp only: hdrLen_less_iff) (simp add: valid_prefix_def headerTcpSize_def)
  have 3: "Uint16 (prefix_bytes h ! 0) (prefix_bytes h ! Suc 0) = Magic h"
      "prefix_bytes h ! 2 = Ver h" "prefix_bytes h ! 3 = HdrLen h"
    by (simp_all add: prefix_bytes_def)
  show ?thesis
    using v 2 unfolding Decode_def 1
    by (simp add: 3 not_gt_255 valid_prefix_def Let_def decode_payload_def hop_default_def
        split: prod.split sum.split)
qed

lemma Decode_header:
  assumes v: "valid_prefix h"
    and a: "avail r = header_bytes h @ ext @ tail"
    and l: "32 + length ext = unat (HdrLen h)"
  shows "Decode r = decode_payload (hop_default h) (r\<lparr>avail := tail\<rparr>)"
proof -
  let ?rest = "drop 4 (header_bytes h) @ ext"
  have 1: "avail r = prefix_bytes h @ ?rest @ tail"
    using a header_bytes_prefix[of h] by simp
  have 2: "ReadFull (unat (HdrLen h) - 4) (r\<lparr>avail := ?rest @ tail\<rparr>) = (Inr ?rest, r\<lparr>avail := tail\<rparr>)"
    using l by (subst ReadFull_append[of ?rest]) auto
  have 3: "prefix_bytes h @ ?rest = header_bytes h @ ext"
    using header_bytes_prefix[of h] by simp
  show ?thesis
    by (subst Decode_prefix[OF v 1], subst 2) (simp only: prod.case sum.case 3 parse_header_bytes)
qed

lemma hop_default_simps [simp]:
  "PayloadLen (hop_default h) = PayloadLen h" "HdrLen (hop_default h) = HdrLen h"
  "Magic (hop_default h) = Magic h" "Ver (hop_default h) = Ver h"
  "hop_default (hop_default h) = hop_default h" "hop_default (wire_header h n) = wire_header h n"
  "HopLimit (hop_default h) \<noteq> 0"
  by (auto simp: hop_default_def wire_header_def DefaultHopLimit_def)

lemma decode_payload_append:
  "avail r = p @ rest \<Longrightarrow> length p = unat (PayloadLen h) \<Longrightarrow>
   decode_payload h r = (Inr (h, p), r\<lparr>avail := rest\<rparr>)"
  by (auto simp: decode_payload_def unat_eq_0)

lemma decode_payload_short:
  "length (avail r) < unat (PayloadLen h) \<Longrightarrow>
   decode_payload h r =
     (Inl (if fin r = EOF \<and> avail r \<noteq> [] then ErrUnexpectedEOF else fin r), r\<lparr>avail := []\<rparr>)"
  by (auto simp: decode_payload_def ReadFull_short)

lemma PayloadLen_wire: "unat (PayloadLen (wire_header h n)) = n mod 2 ^ 32"
  by (simp add: wire_header_def unat_of_nat)

lemma HdrLen_wire [simp]: "HdrLen (wire_header h n) = 32"
  by (simp add: wire_header_def headerTcpSize_def)

text \<open>What the decoder makes of an encoded frame, for a payload of any length.\<close>

lemma Decode_encoded:
  assumes "avail r = header_bytes (wire_header h (length p)) @ p @ rest"
  shows "Decode r = (Inr (wire_header h (length p), take (length p mod 2 ^ 32) p),
                     r\<lparr>avail := drop (length p mod 2 ^ 32) p @ rest\<rparr>)"
proof -
  let ?k = "length p mod 2 ^ 32"
  have "Decode r = decode_payload (wire_header h (length p)) (r\<lparr>avail := p @ rest\<rparr>)"
    using Decode_header[of "wire_header h (length p)" r "[]" "p @ rest"] assms by simp
  also have "\<dots> = (Inr (wire_header h (length p), take ?k p),
                   r\<lparr>avail := p @ rest\<rparr>\<lparr>avail := drop ?k p @ rest\<rparr>)"
    by (rule decode_payload_append) (simp_all add: PayloadLen_wire del: power_numeral)
  finally show ?thesis by simp
qed


section \<open>Properties\<close>

lemma Encode_Some:
  "Encode (Some ih) p = Ret (Inr (header_bytes (wire_header (CloneToTCP (Some ih)) (length p)) @ p))"
  by (subst Encode_CloneToTCP) (rule Encode_HTcp)

text \<open>
  C3. Encoding any non-nil header with a payload shorter than \<open>2 ^ 32\<close> bytes succeeds and gives
  32 bytes of header followed by the payload; decoding those bytes from a stream that holds
  anything after them returns the payload and the header with every field of the original
  except the ones the encoder owns (magic, version, header length, payload length, and a hop
  limit of 16 in place of 0), and leaves exactly the bytes after the frame in the stream.
\<close>
theorem encode_decode_roundtrip:
  assumes "length p < 2 ^ 32"
  shows "\<exists>bs. Encode (Some ih) p = Ret (Inr bs) \<and> length bs = 32 + length p \<and>
    (\<forall>r rest. avail r = bs @ rest \<longrightarrow>
       Decode r = (Inr (wire_header (CloneToTCP (Some ih)) (length p), p), r\<lparr>avail := rest\<rparr>))"
proof (intro exI conjI allI impI)
  let ?bs = "header_bytes (wire_header (CloneToTCP (Some ih)) (length p)) @ p"
  show "Encode (Some ih) p = Ret (Inr ?bs)" by (rule Encode_Some)
  show "length ?bs = 32 + length p" by simp
  fix r :: reader and rest
  assume "avail r = ?bs @ rest"
  then show "Decode r = (Inr (wire_header (CloneToTCP (Some ih)) (length p), p), r\<lparr>avail := rest\<rparr>)"
    using Decode_encoded[of r "CloneToTCP (Some ih)" p rest] assms by simp
qed

theorem encode_decode_roundtrip_witness:
  "\<exists>bs. Encode (Some (HTcp zero_header)) [1, 2] = Ret (Inr bs) \<and> length bs = 32 + length [1, 2 :: byte] \<and>
    (\<forall>r rest. avail r = bs @ rest \<longrightarrow>
       Decode r = (Inr (wire_header (CloneToTCP (Some (HTcp zero_header))) (length [1, 2 :: byte]), [1, 2]),
                   r\<lparr>avail := rest\<rparr>))"
  by (rule encode_decode_roundtrip) simp

text \<open>
  The length field is 32 bits wide: for a payload of any length the decoder hands over the
  first \<open>length p mod 2 ^ 32\<close> bytes only, and the other bytes of the payload stay in the stream,
  where they are taken for the next frame.
\<close>
theorem encode_length_wraps:
  assumes "Encode (Some ih) p = Ret (Inr bs)" and "avail r = bs @ rest"
  shows "Decode r = (Inr (wire_header (CloneToTCP (Some ih)) (length p), take (length p mod 2 ^ 32) p),
                     r\<lparr>avail := drop (length p mod 2 ^ 32) p @ rest\<rparr>)"
  by (rule Decode_encoded) (use assms in \<open>simp add: Encode_Some\<close>)

theorem encode_length_wraps_witness:
  "Decode \<lparr>avail = header_bytes (wire_header zero_header 1) @ [7] @ [9], fin = EOF\<rparr>
     = (Inr (wire_header (CloneToTCP (Some (HTcp zero_header))) (length [7 :: byte]), [7]),
        \<lparr>avail = [9], fin = EOF\<rparr>)"
proof -
  have "Encode (Some (HTcp zero_header)) [7] = Ret (Inr (header_bytes (wire_header zero_header 1) @ [7]))"
    by (simp add: Encode_HTcp)
  from encode_length_wraps[OF this, of "\<lparr>avail = header_bytes (wire_header zero_header 1) @ [7] @ [9], fin = EOF\<rparr>" "[9]"]
  show ?thesis by simp
qed

lemma ReadFull_Inr:
  "ReadFull n r = (Inr bs, r') \<Longrightarrow>
   length bs = n \<and> avail r = bs @ avail r' \<and> fin r' = fin r"
  by (auto simp: ReadFull_def split: if_splits)

lemma ReadFull_Inl: "ReadFull n r = (Inl e, r') \<Longrightarrow> e = ErrUnexpectedEOF \<or> e = fin r"
  by (auto simp: ReadFull_def split: if_splits)

lemma decode_payload_Inr:
  "decode_payload h r = (Inr (h', p), r') \<Longrightarrow>
   h' = h \<and> length p = unat (PayloadLen h) \<and> avail r = p @ avail r' \<and> fin r' = fin r"
  by (auto simp: decode_payload_def split: if_splits prod.splits sum.splits
      dest!: ReadFull_Inr)

lemma Decode_Inr_cases:
  assumes "Decode r = (Inr (h, p), r')"
  obtains pre r1 rest r2 h0 where
    "ReadFull 4 r = (Inr pre, r1)" "Uint16 (pre ! 0) (pre ! 1) = HeaderTcpMagicV2"
    "pre ! 2 = HeaderTcpVersionV2" "\<not> pre ! 3 < of_nat headerTcpSize"
    "ReadFull (unat (pre ! 3) - 4) r1 = (Inr rest, r2)"
    "h0 = parse_header HeaderTcpMagicV2 HeaderTcpVersionV2 (pre ! 3) (pre @ rest)"
    "decode_payload (hop_default h0) r2 = (Inr (h, p), r')"
  using assms
  by (auto simp: Decode_def Let_def hop_default_def decode_payload_def
      split: prod.splits sum.splits if_splits)

text \<open>
  C18. A successful decode accepts only frames with the right magic and version and a header
  length of at least 32, returns a non-zero hop limit and a payload of exactly the announced
  length, and consumes exactly the header (with its extension) and the payload.
\<close>
theorem decode_accepts_exactly_one_frame:
  assumes "Decode r = (Inr (h, p), r')"
  shows "Magic h = HeaderTcpMagicV2 \<and> Ver h = HeaderTcpVersionV2 \<and> 32 \<le> unat (HdrLen h) \<and>
    HopLimit h \<noteq> 0 \<and> length p = unat (PayloadLen h) \<and> fin r' = fin r \<and>
    (\<exists>hdr. length hdr = unat (HdrLen h) \<and> avail r = hdr @ p @ avail r')"
  using assms
proof (cases rule: Decode_Inr_cases)
  case (1 pre r1 rest r2 h0)
  note pre = ReadFull_Inr[OF 1(1)]
  note rest = ReadFull_Inr[OF 1(5)]
  note pl = decode_payload_Inr[OF 1(7)]
  have h0: "Magic h0 = HeaderTcpMagicV2" "Ver h0 = HeaderTcpVersionV2" "HdrLen h0 = pre ! 3"
    by (simp_all add: 1(6) parse_header_def)
  have len: "32 \<le> unat (pre ! 3)"
    using 1(4) by (simp add: hdrLen_less_iff)
  have h: "h = hop_default h0"
    using pl by simp
  have "length (pre @ rest) = unat (HdrLen h)"
    using pre rest len by (simp add: h h0)
  moreover have "avail r = (pre @ rest) @ p @ avail r'"
    using pre rest pl by simp
  ultimately have "\<exists>hdr. length hdr = unat (HdrLen h) \<and> avail r = hdr @ p @ avail r'"
    by blast
  moreover have "length p = unat (PayloadLen h) \<and> fin r' = fin r"
    using pl pre rest by simp
  ultimately show ?thesis
    using len by (simp add: h h0)
qed

theorem decode_accepts_exactly_one_frame_witness:
  "Magic (wire_header zero_header 1) = HeaderTcpMagicV2 \<and> Ver (wire_header zero_header 1) = HeaderTcpVersionV2 \<and>
   32 \<le> unat (HdrLen (wire_header zero_header 1)) \<and> HopLimit (wire_header zero_header 1) \<noteq> 0 \<and>
   length [5 :: byte] = unat (PayloadLen (wire_header zero_header 1)) \<and>
   (\<exists>hdr. length hdr = 32 \<and> header_bytes (wire_header zero_header 1) @ [5] = hdr @ [5])"
proof -
  let ?r = "\<lparr>avail = header_bytes (wire_header zero_header 1) @ [5], fin = EOF\<rparr>"
  have "Decode ?r = (Inr (wire_header zero_header 1, [5]), \<lparr>avail = [], fin = EOF\<rparr>)"
    using Decode_encoded[of ?r zero_header "[5]" "[]"] by simp
  from decode_accepts_exactly_one_frame[OF this] show ?thesis by simp
qed

text \<open>
  The decoder reports nothing but the three header errors and read errors of the stream; in
  particular \<open>ErrHeaderTooLarge\<close> is never returned, because its guard compares an 8-bit value
  with 255.
\<close>
theorem decode_errors:
  assumes "Decode r = (Inl e, r')"
  shows "e \<in> {ErrHeaderMagicMismatch, ErrHeaderVersionInvalid, ErrHeaderLenInvalid, ErrUnexpectedEOF, fin r}"
  using assms
  by (auto simp: Decode_def Let_def not_gt_255 split: prod.splits sum.splits if_splits
      dest!: ReadFull_Inl ReadFull_Inr)

theorem decode_errors_witness:
  "ErrHeaderLenInvalid \<in> {ErrHeaderMagicMismatch, ErrHeaderVersionInvalid, ErrHeaderLenInvalid, ErrUnexpectedEOF, EOF}
   \<and> fst (Decode \<lparr>avail = [0x4D, 0x48, 2, 31], fin = EOF\<rparr>) = Inl ErrHeaderLenInvalid"
proof -
  let ?r = "\<lparr>avail = [0x4D, 0x48, 2, 31 :: byte], fin = EOF\<rparr>"
  have "Decode ?r = (Inl ErrHeaderLenInvalid, \<lparr>avail = [], fin = EOF\<rparr>)"
    by (simp add: Decode_def ReadFull_def Uint16_def header_consts)
  with decode_errors[OF this] show ?thesis by simp
qed


lemma Decode_truncated:
  assumes h: "valid_prefix h" "HdrLen h = 32" and f: "fin r = EOF"
    and a: "avail r = take n (header_bytes h @ p)"
    and p: "length p = unat (PayloadLen h)" and n: "n < 32 + length p"
  shows "Decode r = (Inl (if n \<in> {0, 4, 32} then EOF else ErrUnexpectedEOF), r\<lparr>avail := []\<rparr>)"
proof -
  consider "n < 4" | "4 \<le> n" "n < 32" | "32 \<le> n" by linarith
  then show ?thesis
  proof cases
    case 1
    then have "length (avail r) < 4" "avail r \<noteq> [] \<longleftrightarrow> n \<noteq> 0"
      using a by (auto simp: header_bytes_def PutUint16_def)
    with 1 f show ?thesis
      by (auto simp: Decode_def ReadFull_short)
  next
    case 2
    let ?tail = "take (n - 4) (drop 4 (header_bytes h))"
    have "take n (prefix_bytes h @ drop 4 (header_bytes h)) = prefix_bytes h @ ?tail"
      using 2 by simp
    then have "avail r = prefix_bytes h @ ?tail"
      using a 2 by (simp flip: header_bytes_prefix)
    moreover have "length ?tail = n - 4" "?tail \<noteq> [] \<longleftrightarrow> n \<noteq> 4"
      using 2 by auto
    ultimately show ?thesis
      using 2 f h by (subst Decode_prefix[OF h(1)]) (auto simp: ReadFull_short)
  next
    case 3
    then have "avail r = header_bytes h @ [] @ take (n - 32) p"
      using a by simp
    then have "Decode r = decode_payload (hop_default h) (r\<lparr>avail := take (n - 32) p\<rparr>)"
      using h by (intro Decode_header) simp_all
    moreover have "take (n - 32) p \<noteq> [] \<longleftrightarrow> n \<noteq> 32"
      using 3 n by (cases p) auto
    ultimately show ?thesis
      using 3 n p f by (subst (asm) decode_payload_short) auto
  qed
qed

text \<open>
  A stream that ends inside a frame never yields a frame. The error is \<open>ErrUnexpectedEOF\<close>,
  except that a cut before the first byte, after the four-byte prefix or between header and
  payload is reported as plain \<open>EOF\<close>, like an orderly end of the stream.
\<close>
theorem decode_truncated_frame:
  assumes "Encode (Some ih) p = Ret (Inr bs)" and "length p < 2 ^ 32"
    and "n < length bs" and "avail r = take n bs" and "fin r = EOF"
  shows "Decode r = (Inl (if n \<in> {0, 4, 32} then EOF else ErrUnexpectedEOF), r\<lparr>avail := []\<rparr>)"
proof -
  let ?h = "wire_header (CloneToTCP (Some ih)) (length p)"
  have bs: "bs = header_bytes ?h @ p"
    using assms(1) by (simp add: Encode_Some)
  have "length p = unat (PayloadLen ?h)"
    using assms(2) by (simp only: PayloadLen_wire) simp
  with assms bs show ?thesis
    by (intro Decode_truncated[of ?h _ _ p]) simp_all
qed

theorem decode_truncated_frame_witness:
  "Decode \<lparr>avail = take 4 (header_bytes (wire_header zero_header 1) @ [7]), fin = EOF\<rparr>
     = (Inl EOF, \<lparr>avail = [], fin = EOF\<rparr>) \<and>
   Decode \<lparr>avail = take 5 (header_bytes (wire_header zero_header 1) @ [7]), fin = EOF\<rparr>
     = (Inl ErrUnexpectedEOF, \<lparr>avail = [], fin = EOF\<rparr>)"
proof -
  let ?bs = "header_bytes (wire_header zero_header 1) @ [7]"
  have e: "Encode (Some (HTcp zero_header)) [7] = Ret (Inr ?bs)"
    by (simp add: Encode_HTcp)
  show ?thesis
    using decode_truncated_frame[OF e, of 4 "\<lparr>avail = take 4 ?bs, fin = EOF\<rparr>"]
      decode_truncated_frame[OF e, of 5 "\<lparr>avail = take 5 ?bs, fin = EOF\<rparr>"]
    by simp
qed

text \<open>
  Forward compatibility: a header of length \<open>32 + length ext\<close> decodes to the same fields and
  payload as its first 32 bytes say; the extension bytes are read and ignored.
\<close>
theorem decode_ignores_extension:
  assumes "valid_prefix h" and "unat (HdrLen h) = 32 + length ext"
    and "length p = unat (PayloadLen h)" and "avail r = header_bytes h @ ext @ p @ rest"
  shows "Decode r = (Inr (hop_default h, p), r\<lparr>avail := rest\<rparr>)"
proof -
  have "Decode r = decode_payload (hop_default h) (r\<lparr>avail := p @ rest\<rparr>)"
    using assms by (intro Decode_header) simp_all
  then show ?thesis
    using decode_payload_append[of "r\<lparr>avail := p @ rest\<rparr>" p rest "hop_default h"] assms(3) by simp
qed

theorem decode_ignores_extension_witness:
  "Decode \<lparr>avail = header_bytes ((wire_header zero_header 1)\<lparr>HdrLen := 34\<rparr>) @ [1, 2] @ [7] @ [], fin = EOF\<rparr>
     = (Inr (hop_default ((wire_header zero_header 1)\<lparr>HdrLen := 34\<rparr>), [7]), \<lparr>avail = [], fin = EOF\<rparr>)"
proof -
  let ?h = "(wire_header zero_header 1)\<lparr>HdrLen := 34\<rparr>"
  have "valid_prefix ?h" "unat (HdrLen ?h) = 32 + length [1, 2 :: byte]" "length [7 :: byte] = unat (PayloadLen ?h)"
    by (simp_all add: valid_prefix_def wire_header_def headerTcpSize_def)
  from decode_ignores_extension[OF this, of "\<lparr>avail = header_bytes ?h @ [1, 2] @ [7] @ [], fin = EOF\<rparr>" "[]"]
  show ?thesis by simp
qed

text \<open>
  Major class and sub-protocol share the byte \<open>TypeFmt\<close> without disturbing each other: each
  setter stores its argument modulo the field width and leaves the other field alone, and
  setting both determines the whole byte.
\<close>
theorem type_fmt_fields_independent:
  "Major (WithMajor m h) = m AND 3 \<and> SubProto (WithMajor m h) = SubProto h \<and>
   SubProto (WithSubProto s h) = s AND 63 \<and> Major (WithSubProto s h) = Major h \<and>
   TypeFmt (WithSubProto s (WithMajor m h)) = (m AND 3) OR push_bit 2 (s AND 63)"
proof -
  have "TypeFmt (WithSubProto s (WithMajor m h)) = (m AND 3) OR push_bit 2 (s AND 63)"
    by (rule bit_word_eqI) (auto simp: WithSubProto_def WithMajor_def bit_simps)
  then show ?thesis by simp
qed

text \<open>
  The forwarding clone: a nil header or an effective hop limit of at most 1 (0 counts as 16)
  refuses the forward; otherwise the clone is the header with the effective hop limit lowered
  by one, which is never 0, so the next hop cannot take it for an unset limit.
\<close>
theorem clone_for_forward_spends_one_hop:
  "CloneToTCPForForward None = None \<and>
   CloneToTCPForForward (Some ih) =
     (let h = hop_default (CloneToTCP (Some ih))
      in if unat (HopLimit h) \<le> 1 then None else Some (h\<lparr>HopLimit := HopLimit h - 1\<rparr>)) \<and>
   (\<forall>h'. CloneToTCPForForward (Some ih) = Some h' \<longrightarrow>
      HopLimit h' \<noteq> 0 \<and> unat (HopLimit h') + 1 = unat (HopLimit (hop_default (CloneToTCP (Some ih)))))"
proof -
  have "x \<noteq> 0 \<and> unat x + 1 = unat y" if "x = y - 1" "\<not> y \<le> 1" for x y :: u8
  proof -
    have y: "2 \<le> unat y" using that(2) by (simp add: u8_gt_1_iff)
    then have "y \<noteq> 0" by auto
    then have "unat x = unat y - 1" using that(1) by (simp add: unat_pred_u8)
    with y show ?thesis by auto
  qed
  then show ?thesis
    by (auto simp: CloneToTCPForForward_def Let_def hop_default_def word_le_nat_alt[symmetric]
        word_le_nat_alt[of _ 1, simplified])
qed

theorem clone_for_forward_spends_one_hop_witness:
  "\<exists>h'. CloneToTCPForForward (Some (HTcp zero_header)) = Some h' \<and> HopLimit h' \<noteq> 0 \<and>
     unat (HopLimit h') + 1 = 16"
proof -
  have "CloneToTCPForForward (Some (HTcp zero_header)) = Some (zero_header\<lparr>HopLimit := 15\<rparr>)"
    by (simp add: CloneToTCPForForward_def CloneToTCP_def Let_def zero_header_def DefaultHopLimit_def
        word_le_nat_alt)
  with clone_for_forward_spends_one_hop[of "HTcp zero_header"] show ?thesis
    by (simp add: CloneToTCP_def hop_default_def zero_header_def DefaultHopLimit_def)
qed

text \<open>
  A response goes back where the request came from: source and target are swapped, message
  and trace ids are kept, the class is OK, the sub-protocol is the given one, the hop limit is
  fresh, and flags and route flags are inherited.
\<close>
theorem build_response_mirrors_request:
  "\<exists>resp. BuildTCPResponse now (Some req) n sub = Ret resp \<and>
     Source resp = iv_TargetID (view req) \<and> Target resp = iv_SourceID (view req) \<and>
     MsgID resp = iv_MsgID (view req) \<and> TraceID resp = iv_TraceID (view req) \<and>
     Major resp = MajorOKResp \<and> SubProto resp = sub AND 63 \<and> HopLimit resp = DefaultHopLimit \<and>
     Timestamp resp = ucast now \<and> PayloadLen resp = n \<and>
     Flags resp = iv_Flags (view req) \<and> RouteFlags resp = iv_RouteFlags (view req)"
proof -
  obtain resp where r: "BuildTCPResponse now (Some req) n sub = Ret resp"
    by (simp add: BuildTCPResponse_def)
  then have "Major resp = MajorOKResp" "SubProto resp = sub AND 63"
    by (auto simp: BuildTCPResponse_def MajorOKResp_def)
  moreover have "Flags (CloneToTCP (Some req)) = iv_Flags (view req)"
    "RouteFlags (CloneToTCP (Some req)) = iv_RouteFlags (view req)"
    by (cases req; simp add: CloneToTCP_def with_defs view_def)+
  ultimately show ?thesis
    using r by (auto simp: BuildTCPResponse_def with_defs simp del: Major_def SubProto_def)
qed

end
