(* ===== verification/Frame_IO.thy ===== *)
theory Frame_IO
  imports Header
begin

text \<open>
  Byte-stream input and output of frames: \<open>WriteAll\<close> and \<open>WriteAllBuffers\<close> (writeutil.go), the
  frame writer (process/frame_writer.go), the frame reader and the read loop (package reader).

  An \<open>io.Writer\<close> is a state and a function that takes the bytes to write and returns the next
  state, the count \<open>n\<close> and an optional error. Its documented contract is the locale
  \<open>io_writer\<close>; everything proved in the locale holds for every writer that keeps it. The write
  loop itself is a partial function, because a writer that breaks the contract by returning a
  negative count and no error makes it run forever.
\<close>

section \<open>WriteAll\<close>

type_synonym 's writer = "'s \<Rightarrow> byte list \<Rightarrow> 's \<times> int \<times> error option"

text \<open>
  The loop of \<open>WriteAll\<close>. \<open>None\<close>: it does not return. \<open>Panic\<close>: \<open>data[n:]\<close> with \<open>n > len(data)\<close>.
\<close>

partial_function (option) write_loop ::
    "'s writer \<Rightarrow> 's \<Rightarrow> byte list \<Rightarrow> ('s \<times> error option) outcome option" where
  "write_loop w s data =
     (if data = [] then Some (Ret (s, None))
      else case w s data of (s', n, err) \<Rightarrow>
        if n > int (length data) then Some Panic
        else if (if n > 0 then drop (nat n) data else data) = [] then Some (Ret (s', None))
        else if err \<noteq> None then Some (Ret (s', err))
        else if n = 0 then Some (Ret (s', Some ErrShortWrite))
        else write_loop w s' (if n > 0 then drop (nat n) data else data))"

lemma write_loop_Nil [simp]: "write_loop w s [] = Some (Ret (s, None))"
  by (simp add: write_loop.simps)

lemma write_loop_step:
  assumes "data \<noteq> []" and "w s data = (s', n, err)" and "0 \<le> n" and "n \<le> int (length data)"
  shows "write_loop w s data =
    (if drop (nat n) data = [] then Some (Ret (s', None))
     else if err \<noteq> None then Some (Ret (s', err))
     else if n = 0 then Some (Ret (s', Some ErrShortWrite))
     else write_loop w s' (drop (nat n) data))"
  using assms by (subst write_loop.simps, cases "n = 0") simp_all

definition WriteAll ::
    "'s writer option \<Rightarrow> 's \<Rightarrow> byte list \<Rightarrow> ('s \<times> error option) outcome option" where
  "WriteAll w s data =
     (case w of None \<Rightarrow> Some (Ret (s, Some (Err ''writer nil''))) | Some w' \<Rightarrow> write_loop w' s data)"

fun WriteAllBuffers ::
    "'s writer option \<Rightarrow> 's \<Rightarrow> byte list list \<Rightarrow> ('s \<times> error option) outcome option" where
  "WriteAllBuffers w s [] = Some (Ret (s, None))"
| "WriteAllBuffers w s (chunk # chunks) =
     (if chunk = [] then WriteAllBuffers w s chunks
      else case WriteAll w s chunk of
             Some (Ret (s', None)) \<Rightarrow> WriteAllBuffers w s' chunks
           | other \<Rightarrow> other)"

text \<open>
  The contract of \<open>io.Writer\<close>: the count is between 0 and the length of the argument, and that
  many bytes of it, from the front, have been written. \<open>written\<close> reads the bytes off the state.
\<close>

locale io_writer =
  fixes w :: "'s writer" and written :: "'s \<Rightarrow> byte list"
  assumes count_range: "w s data = (s', n, err) \<Longrightarrow> 0 \<le> n \<and> n \<le> int (length data)"
    and count_written: "w s data = (s', n, err) \<Longrightarrow> written s' = written s @ take (nat n) data"
begin

text \<open>The write loop returns; it has written a prefix, and all of it when it reports no error.\<close>

lemma write_loop_returns:
  "\<exists>s' err k. write_loop w s data = Some (Ret (s', err)) \<and> k \<le> length data \<and>
     written s' = written s @ take k data \<and> (err = None \<longrightarrow> k = length data)"
proof (induction data arbitrary: s rule: length_induct)
  case (1 data)
  show ?case
  proof (cases "data = []")
    case True
    then show ?thesis by (simp add: write_loop.simps)
  next
    case False
    obtain s1 n err where step: "w s data = (s1, n, err)" by (metis prod_cases3)
    note range = count_range[OF step] and wr = count_written[OF step]
    define rest where "rest = drop (nat n) data"
    have unfold: "write_loop w s data =
      (if rest = [] then Some (Ret (s1, None)) else if err \<noteq> None then Some (Ret (s1, err))
       else if n = 0 then Some (Ret (s1, Some ErrShortWrite)) else write_loop w s1 rest)"
      using write_loop_step[of data w s s1 n err] False step range by (simp add: rest_def)
    have le: "nat n \<le> length data" using range by (simp add: nat_le_iff)
    have len: "nat n + length rest = length data" using le by (simp add: rest_def)
    consider "rest = [] \<or> err \<noteq> None \<or> n = 0" | "rest \<noteq> []" "err = None" "n \<noteq> 0" by blast
    then show ?thesis
    proof cases
      case 1
      define e where "e = (if rest = [] then None else if err \<noteq> None then err else Some ErrShortWrite)"
      have "write_loop w s data = Some (Ret (s1, e))"
        using 1 by (auto simp: unfold e_def)
      moreover have "e = None \<longrightarrow> nat n = length data"
        using len by (auto simp: e_def)
      ultimately show ?thesis
        using le wr by blast
    next
      case 2
      have eq: "write_loop w s data = write_loop w s1 rest"
        using 2 by (simp add: unfold)
      have "length rest < length data"
        using 2 range len by arith
      then obtain s' e k where IH: "write_loop w s1 rest = Some (Ret (s', e))" "k \<le> length rest"
        "written s' = written s1 @ take k rest" "e = None \<longrightarrow> k = length rest"
        using "1.IH" by blast
      have "take (nat n + k) data = take (nat n) data @ take k rest"
        by (simp add: take_add rest_def)
      then show ?thesis
        using IH wr eq len by (intro exI[of _ s'] exI[of _ e] exI[of _ "nat n + k"]) auto
    qed
  qed
qed

lemma WriteAll_returns:
  "\<exists>s' err k. WriteAll (Some w) s data = Some (Ret (s', err)) \<and> k \<le> length data \<and>
     written s' = written s @ take k data \<and> (err = None \<longrightarrow> k = length data)"
  using write_loop_returns by (simp add: WriteAll_def)

lemma WriteAllBuffers_returns:
  "\<exists>s' err k. WriteAllBuffers (Some w) s chunks = Some (Ret (s', err)) \<and> k \<le> length (concat chunks) \<and>
     written s' = written s @ take k (concat chunks) \<and> (err = None \<longrightarrow> k = length (concat chunks))"
proof (induction chunks arbitrary: s)
  case Nil
  then show ?case by simp
next
  case (Cons c cs)
  show ?case
  proof (cases "c = []")
    case True
    with Cons.IH[of s] show ?thesis by simp
  next
    case False
    obtain s1 err k where c: "WriteAll (Some w) s c = Some (Ret (s1, err))" "k \<le> length c"
      "written s1 = written s @ take k c" "err = None \<longrightarrow> k = length c"
      using WriteAll_returns[of s c] by blast
    show ?thesis
    proof (cases err)
      case None
      obtain s' e j where cs: "WriteAllBuffers (Some w) s1 cs = Some (Ret (s', e))"
        "j \<le> length (concat cs)" "written s' = written s1 @ take j (concat cs)"
        "e = None \<longrightarrow> j = length (concat cs)"
        using Cons.IH[of s1] by blast
      show ?thesis
        using False None c cs
        by (intro exI[of _ s'] exI[of _ e] exI[of _ "length c + j"]) auto
    next
      case (Some e)
      with False c show ?thesis
        by (intro exI[of _ s1] exI[of _ err] exI[of _ k]) auto
    qed
  qed
qed

end


section \<open>Frame, WriteFrame\<close>

record Frame =
  Header :: "iheader option"
  Payload :: "byte list"

text \<open>
  A codec argument: \<open>HeaderTcpCodec\<close> by value or by pointer, or another implementation of
  \<open>IHeaderCodec\<close>, given by its \<open>Encode\<close>.
\<close>

datatype codec = TcpCodec | OtherCodec "iheader option \<Rightarrow> byte list \<Rightarrow> byte list result"

text \<open>
  \<open>writeTCPFrame\<close>: header and payload go out as two buffers, so that the payload is not
  copied. \<open>CloneToTCP\<close> never returns nil, so its nil check has no branch here.
\<close>

definition writeTCPFrame :: "'s writer option \<Rightarrow> 's \<Rightarrow> Frame \<Rightarrow> ('s \<times> error option) outcome option" where
  "writeTCPFrame dst s frame =
     (let tcpHdr = CloneToTCP (Header frame);
          tcpHdr = (if HopLimit tcpHdr = 0 then tcpHdr\<lparr>HopLimit := DefaultHopLimit\<rparr> else tcpHdr);
          tcpHdr = (if of_nat (length (Payload frame)) \<noteq> PayloadLen tcpHdr
                    then tcpHdr\<lparr>PayloadLen := of_nat (length (Payload frame))\<rparr> else tcpHdr);
          buf = PutUint16 HeaderTcpMagicV2 @
                [HeaderTcpVersionV2, 32, TypeFmt tcpHdr, Flags tcpHdr, HopLimit tcpHdr, RouteFlags tcpHdr]
                @ PutUint32 (MsgID tcpHdr) @ PutUint32 (Source tcpHdr) @ PutUint32 (Target tcpHdr)
                @ PutUint32 (TraceID tcpHdr) @ PutUint32 (Timestamp tcpHdr) @ PutUint32 (PayloadLen tcpHdr)
      in WriteAllBuffers dst s [buf, Payload frame])"

definition WriteFrame ::
    "'s writer option \<Rightarrow> 's \<Rightarrow> codec \<Rightarrow> Frame \<Rightarrow> ('s \<times> error option) outcome option" where
  "WriteFrame dst s codec frame =
     (case codec of
        TcpCodec \<Rightarrow> writeTCPFrame dst s frame
      | OtherCodec enc \<Rightarrow>
          (case enc (Header frame) (Payload frame) of
             Inl err \<Rightarrow> Some (Ret (s, Some err))
           | Inr encoded \<Rightarrow> WriteAll dst s encoded))"

text \<open>The bytes a frame has on the wire.\<close>

definition frame_bytes :: "Frame \<Rightarrow> byte list" where
  "frame_bytes f = header_bytes (wire_header (CloneToTCP (Header f)) (length (Payload f))) @ Payload f"

lemma writeTCPFrame_eq:
  "writeTCPFrame dst s f =
   WriteAllBuffers dst s [header_bytes (wire_header (CloneToTCP (Header f)) (length (Payload f))), Payload f]"
  unfolding writeTCPFrame_def Let_def
  by (rule arg_cong[where f = "WriteAllBuffers dst s"])
    (simp add: header_bytes_def wire_header_def hop_default_def headerTcpSize_def)

context io_writer
begin

lemma WriteFrame_returns:
  "\<exists>s' err k. WriteFrame (Some w) s TcpCodec f = Some (Ret (s', err)) \<and> k \<le> length (frame_bytes f) \<and>
     written s' = written s @ take k (frame_bytes f) \<and> (err = None \<longrightarrow> k = length (frame_bytes f))"
  using WriteAllBuffers_returns[of s "[header_bytes (wire_header (CloneToTCP (Header f)) (length (Payload f))), Payload f]"]
  by (simp add: WriteFrame_def writeTCPFrame_eq frame_bytes_def)

text \<open>Writing a list of frames one after the other, as a connection's writer goroutine does.\<close>

lemma write_frames_written:
  assumes "\<And>i. i < length fs \<Longrightarrow> WriteFrame (Some w) (st i) TcpCodec (fs ! i) = Some (Ret (st (Suc i), None))"
  shows "written (st (length fs)) = written (st 0) @ concat (map frame_bytes fs)"
  using assms
proof (induction fs rule: rev_induct)
  case Nil
  then show ?case by simp
next
  case (snoc f fs)
  have "written (st (length fs)) = written (st 0) @ concat (map frame_bytes fs)"
    using snoc.prems by (intro snoc.IH) (metis length_append_singleton less_SucI nth_append)
  moreover have "WriteFrame (Some w) (st (length fs)) TcpCodec f = Some (Ret (st (Suc (length fs)), None))"
    using snoc.prems[of "length fs"] by simp
  ultimately show ?case
    using WriteFrame_returns[of "st (length fs)" f] by auto
qed

end


section \<open>ReadFrame and the read loop\<close>

type_synonym 'h decoder = "reader \<Rightarrow> ('h \<times> byte list) result \<times> reader"

definition ReadFrame :: "reader \<Rightarrow> 'h decoder \<Rightarrow> ('h \<times> byte list) result \<times> reader" where
  "ReadFrame rd dec =
     (case dec rd of
        (Inl err, rd') \<Rightarrow> (Inl err, rd')
      | (Inr (hdr, payload), rd') \<Rightarrow> (Inr (hdr, payload), rd'))"

text \<open>
  \<open>ReadLoop\<close>. \<open>cancelled i\<close> says whether the context is done at the \<open>i\<close>-th test of the loop;
  the frames handed to \<open>conn.DispatchReceive\<close> are collected in order. The goroutine that
  closes the pipe when the context ends shows in the reader as the error after the last
  byte. The loop returns the error it stops with; \<open>None\<close> is a loop that never stops.
\<close>

partial_function (option) ReadLoop ::
    "'h decoder \<Rightarrow> (nat \<Rightarrow> bool) \<Rightarrow> nat \<Rightarrow> reader \<Rightarrow> ('h \<times> byte list) list
       \<Rightarrow> (('h \<times> byte list) list \<times> error) option" where
  "ReadLoop dec cancelled i r dispatched =
     (if cancelled i then Some (dispatched, Err ''context canceled'')
      else case ReadFrame r dec of
             (Inl err, r') \<Rightarrow> Some (dispatched, err)
           | (Inr fr, r') \<Rightarrow> ReadLoop dec cancelled (Suc i) r' (dispatched @ [fr]))"

text \<open>
  What a reader relies on in a codec: a frame that was encoded comes back, whatever follows
  it in the stream; every decoded frame takes bytes off the stream; an empty stream reports
  its error.
\<close>

locale frame_codec =
  fixes enc :: "'f \<Rightarrow> byte list" and dec :: "'h decoder"
    and norm :: "'f \<Rightarrow> 'h \<times> byte list" and ok :: "'f \<Rightarrow> bool"
  assumes dec_enc: "ok f \<Longrightarrow> avail r = enc f @ rest \<Longrightarrow> dec r = (Inr (norm f), r\<lparr>avail := rest\<rparr>)"
    and dec_consumes: "dec r = (Inr g, r') \<Longrightarrow> length (avail r') < length (avail r)"
    and dec_end: "avail r = [] \<Longrightarrow> dec r = (Inl (fin r), r)"
begin

lemma ReadFrame_dec: "ReadFrame r dec = dec r"
  by (auto simp: ReadFrame_def split: prod.splits sum.splits)

text \<open>The read loop stops on every finite stream.\<close>

lemma read_loop_stops: "\<exists>res. ReadLoop dec cancelled i r acc = Some res"
proof (induction "length (avail r)" arbitrary: i r acc rule: less_induct)
  case less
  show ?case
  proof (cases "cancelled i")
    case True
    then show ?thesis by (simp add: ReadLoop.simps)
  next
    case False
    show ?thesis
    proof (cases "dec r")
      case (Pair x r')
      show ?thesis
      proof (cases x)
        case (Inl e)
        with False Pair show ?thesis
          by (subst ReadLoop.simps) (simp add: ReadFrame_dec)
      next
        case (Inr g)
        with Pair have "length (avail r') < length (avail r)" by (simp add: dec_consumes)
        then have "\<exists>res. ReadLoop dec cancelled (Suc i) r' (acc @ [g]) = Some res" by (rule less)
        with False Pair Inr show ?thesis
          by (subst ReadLoop.simps) (simp add: ReadFrame_dec)
      qed
    qed
  qed
qed

text \<open>Frames written back to back are read back in order, and then the loop ends.\<close>

lemma read_loop_frames:
  assumes "\<forall>i. \<not> cancelled i" and "\<forall>f \<in> set fs. ok f" and "avail r = concat (map enc fs)"
  shows "ReadLoop dec cancelled i r acc = Some (acc @ map norm fs, fin r)"
  using assms(2,3)
proof (induction fs arbitrary: i r acc)
  case Nil
  then have "dec r = (Inl (fin r), r)" by (simp add: dec_end)
  with assms(1) show ?case
    by (subst ReadLoop.simps) (simp add: ReadFrame_dec)
next
  case (Cons f fs)
  have d: "dec r = (Inr (norm f), r\<lparr>avail := concat (map enc fs)\<rparr>)"
    using Cons.prems by (intro dec_enc) simp_all
  have "ReadLoop dec cancelled i r acc
      = ReadLoop dec cancelled (Suc i) (r\<lparr>avail := concat (map enc fs)\<rparr>) (acc @ [norm f])"
    using assms(1) d by (subst ReadLoop.simps) (simp add: ReadFrame_dec)
  also have "\<dots> = Some ((acc @ [norm f]) @ map norm fs, fin r)"
    using Cons.IH[of "r\<lparr>avail := concat (map enc fs)\<rparr>" "Suc i" "acc @ [norm f]"] Cons.prems by simp
  finally show ?case by simp
qed

end

text \<open>\<open>HeaderTcpCodec\<close> keeps this contract for payloads that fit the length field.\<close>

lemma Decode_consumes: "Decode r = (Inr g, r') \<Longrightarrow> length (avail r') < length (avail r)"
proof -
  assume d: "Decode r = (Inr g, r')"
  obtain h p where "g = (h, p)" by (cases g)
  with d show ?thesis
    by (auto elim!: Decode_Inr_cases dest!: ReadFull_Inr decode_payload_Inr)
qed

definition received :: "Frame \<Rightarrow> HeaderTcp \<times> byte list" where
  "received f = (wire_header (CloneToTCP (Header f)) (length (Payload f)), Payload f)"

interpretation tcp_codec: frame_codec frame_bytes Decode received "\<lambda>f. length (Payload f) < 2 ^ 32"
proof
  show "Decode r = (Inr (received f), r\<lparr>avail := rest\<rparr>)"
    if "length (Payload f) < 2 ^ 32" "avail r = frame_bytes f @ rest" for f and r :: reader and rest
    using Decode_encoded[of r "CloneToTCP (Header f)" "Payload f" rest] that
    by (simp add: frame_bytes_def received_def)
  show "length (avail r') < length (avail r)" if "Decode r = (Inr g, r')" for r r' :: reader and g
    using that by (rule Decode_consumes)
  show "Decode r = (Inl (fin r), r)" if "avail r = []" for r :: reader
    using that by (auto simp: Decode_def ReadFull_def)
qed


section \<open>Properties\<close>

text \<open>
  A writer that takes at most two bytes at a time, for the witnesses; its state is the list of
  the bytes it has taken.
\<close>

definition half_writer :: "byte list writer" where
  "half_writer s data = (s @ take 2 data, int (length (take 2 data)), None)"

lemma half_writer_ok: "io_writer half_writer (\<lambda>s. s)"
  by unfold_locales (auto simp: half_writer_def min_def)

lemma half_writer_loop: "write_loop half_writer s data = Some (Ret (s @ data, None))"
proof (induction data arbitrary: s rule: length_induct)
  case (1 data)
  then show ?case
  proof (cases "data = []")
    case False
    then have "write_loop half_writer s data =
      (if drop 2 data = [] then Some (Ret (s @ take 2 data, None))
       else write_loop half_writer (s @ take 2 data) (drop 2 data))"
      by (subst write_loop_step[OF False]) (auto simp: half_writer_def min_def)
    with "1"[THEN spec, of "drop 2 data"] False show ?thesis
      by (auto simp: take_all_iff[symmetric] simp del: take_all_iff)
  qed simp
qed

text \<open>
  C16. For every writer that keeps the contract of \<open>io.Writer\<close>, however short its writes are,
  \<open>WriteAll\<close> returns: it has written a prefix of the data, it reports success only when it has
  written all of it, and it does not panic.
\<close>
theorem write_all_complete:
  assumes "io_writer w written"
  shows "\<exists>s' err k. WriteAll (Some w) s data = Some (Ret (s', err)) \<and> k \<le> length data \<and>
     written s' = written s @ take k data \<and> (err = None \<longrightarrow> k = length data)"
  using assms by (rule io_writer.WriteAll_returns)

theorem write_all_complete_witness:
  "\<exists>s' err k. WriteAll (Some half_writer) [] [1, 2, 3] = Some (Ret (s', err)) \<and> k \<le> length [1, 2, 3 :: byte] \<and>
     s' = [] @ take k [1, 2, 3] \<and> (err = None \<longrightarrow> k = length [1, 2, 3 :: byte])"
  by (rule write_all_complete[OF half_writer_ok])

text \<open>
  C17. The zero-copy path and the codec agree: when \<open>WriteFrame\<close> with the TCP codec reports
  success on a frame with a header, the bytes on the wire are exactly the ones \<open>Encode\<close>
  returns; when it reports an error, they are a prefix of them.
\<close>
theorem write_frame_matches_encode:
  assumes "io_writer w written" and "Header f = Some ih" and "Encode (Some ih) (Payload f) = Ret (Inr bs)"
  shows "\<exists>s' err k. WriteFrame (Some w) s TcpCodec f = Some (Ret (s', err)) \<and>
     written s' = written s @ take k bs \<and> (err = None \<longrightarrow> written s' = written s @ bs)"
proof -
  have "bs = frame_bytes f"
    using assms(2,3) by (simp add: Encode_Some frame_bytes_def)
  moreover obtain s' err k where "WriteFrame (Some w) s TcpCodec f = Some (Ret (s', err))"
    "written s' = written s @ take k (frame_bytes f)" "err = None \<longrightarrow> k = length (frame_bytes f)"
    using io_writer.WriteFrame_returns[OF assms(1), of s f] by blast
  ultimately show ?thesis
    by (intro exI[of _ s'] exI[of _ err] exI[of _ k]) simp
qed

theorem write_frame_matches_encode_witness:
  "\<exists>s' err k. WriteFrame (Some half_writer) [] TcpCodec \<lparr>Header = Some (HTcp zero_header), Payload = [7]\<rparr>
      = Some (Ret (s', err)) \<and>
     s' = [] @ take k (header_bytes (wire_header zero_header 1) @ [7]) \<and>
     (err = None \<longrightarrow> s' = [] @ header_bytes (wire_header zero_header 1) @ [7])"
proof -
  let ?f = "\<lparr>Header = Some (HTcp zero_header), Payload = [7]\<rparr>"
  have "Header ?f = Some (HTcp zero_header)" by simp
  moreover have "Encode (Some (HTcp zero_header)) (Payload ?f)
      = Ret (Inr (header_bytes (wire_header zero_header 1) @ [7]))"
    by (simp add: Encode_HTcp)
  ultimately show ?thesis
    using write_frame_matches_encode[OF half_writer_ok] by blast
qed

text \<open>
  The read loop of \<open>TCPReader\<close> stops on every finite stream, whatever bytes it holds and
  whenever the context is cancelled.
\<close>
theorem tcp_read_loop_stops:
  "\<exists>frames err. ReadLoop Decode cancelled i r [] = Some (frames, err)"
  using tcp_codec.read_loop_stops[of cancelled i r "[]"] by auto

text \<open>
  End to end over one connection: frames written one after the other through \<open>WriteFrame\<close> to
  a writer that keeps its contract, each successfully, are dispatched by the read loop at the
  other end, all of them and in order, before the loop ends with the error of the stream.
\<close>
theorem frames_sent_are_dispatched_in_order:
  assumes "io_writer w written" and "written (st 0) = []"
    and "\<forall>i < length fs. WriteFrame (Some w) (st i) TcpCodec (fs ! i) = Some (Ret (st (Suc i), None))"
    and "\<forall>f \<in> set fs. length (Payload f) < 2 ^ 32" and "\<forall>i. \<not> cancelled i"
  shows "ReadLoop Decode cancelled 0 \<lparr>avail = written (st (length fs)), fin = e\<rparr> []
    = Some (map received fs, e)"
proof -
  have "written (st (length fs)) = concat (map frame_bytes fs)"
    using io_writer.write_frames_written[OF assms(1), of fs st] assms(2,3) by simp
  then show ?thesis
    using tcp_codec.read_loop_frames[OF assms(5,4), of "\<lparr>avail = written (st (length fs)), fin = e\<rparr>" 0 "[]"]
    by simp
qed


theorem frames_sent_are_dispatched_in_order_witness:
  "ReadLoop Decode (\<lambda>_. False) 0
     \<lparr>avail = frame_bytes \<lparr>Header = None, Payload = [7]\<rparr>, fin = EOF\<rparr> []
   = Some ([received \<lparr>Header = None, Payload = [7]\<rparr>], EOF)"
proof -
  let ?f = "\<lparr>Header = None, Payload = [7]\<rparr>"
  let ?st = "\<lambda>i :: nat. if i = 0 then [] else frame_bytes ?f"
  have "\<forall>i < length [?f]. WriteFrame (Some half_writer) (?st i) TcpCodec ([?f] ! i) = Some (Ret (?st (Suc i), None))"
    by (simp add: WriteFrame_def writeTCPFrame_eq WriteAll_def half_writer_loop frame_bytes_def)
  from frames_sent_are_dispatched_in_order[OF half_writer_ok _ this, of "\<lambda>_. False" EOF]
  show ?thesis by simp
qed

end
