(* ===== verification/Win_Pipe.thy ===== *)
theory Win_Pipe
  imports Frame_IO
begin

text \<open>
  The byte pipe over a Windows RFCOMM socket (\<open>winSockPipe\<close> in
  listener/rfcomm_listener/native_windows.go): writes are cut into chunks of at most 127 bytes,
  a chunk that Winsock refuses with WSAEMSGSIZE is retried in halves, and reads are served
  from a cache that one receive call fills.

  The Winsock calls \<open>WSASend\<close> and \<open>WSARecv\<close> are arguments of the definitions. What the code
  relies on in \<open>WSASend\<close> is the locale \<open>native_send\<close>: it reports at most the length of the
  buffer and has sent that many bytes from its front. Under it the pipe is an \<open>io_writer\<close>.
\<close>

section \<open>Write\<close>

definition winRFCOMMReadChunkBytes :: nat where "winRFCOMMReadChunkBytes = 2048"
definition winRFCOMMWriteChunkBytes :: nat where "winRFCOMMWriteChunkBytes = 127"

abbreviation WSAEMSGSIZE :: error where "WSAEMSGSIZE \<equiv> Err ''WSAEMSGSIZE''"

type_synonym 's native_sender = "'s \<Rightarrow> byte list \<Rightarrow> 's \<times> nat \<times> error option"

definition writeOnce :: "'s native_sender \<Rightarrow> 's \<Rightarrow> byte list \<Rightarrow> 's \<times> nat \<times> error option" where
  "writeOnce wsaSend s b =
     (case wsaSend s b of
        (s', sent, Some err) \<Rightarrow> (s', sent, Some err)
      | (s', sent, None) \<Rightarrow> (s', sent, None))"

text \<open>\<open>slice b i j\<close> is \<open>b[i:j]\<close>.\<close>

definition slice :: "'a list \<Rightarrow> nat \<Rightarrow> nat \<Rightarrow> 'a list" where
  "slice b i j = take (j - i) (drop i b)"

text \<open>The loop of \<open>writeWithMsgSizeFallback\<close>; it makes progress or halves the chunk.\<close>

function fallback_loop ::
    "'s native_sender \<Rightarrow> 's \<Rightarrow> byte list \<Rightarrow> nat \<Rightarrow> nat \<Rightarrow> 's \<times> nat \<times> error option" where
  "fallback_loop wsaSend s b tot chunk =
     (if tot < length b
      then (case writeOnce wsaSend s (slice b tot (min (tot + chunk) (length b))) of
              (s', n, Some err) \<Rightarrow>
                if err = WSAEMSGSIZE \<and> n = 0 \<and> 1 < chunk
                then fallback_loop wsaSend s' b tot (max 1 (chunk div 2))
                else (s', tot + n, Some err)
            | (s', n, None) \<Rightarrow>
                if n = 0 then (s', tot + n, Some ErrShortWrite)
                else fallback_loop wsaSend s' b (tot + n) chunk)
      else (s, tot, None))"
  by pat_completeness auto
termination
  by (relation "measures [\<lambda>(wsaSend, s, b, tot, chunk). length b - tot,
                          \<lambda>(wsaSend, s, b, tot, chunk). chunk]") auto

declare fallback_loop.simps [simp del]

definition writeWithMsgSizeFallback ::
    "'s native_sender \<Rightarrow> 's \<Rightarrow> byte list \<Rightarrow> nat \<Rightarrow> 's \<times> nat \<times> error option" where
  "writeWithMsgSizeFallback wsaSend s b offset =
     (if length b \<le> offset then (s, offset, None)
      else fallback_loop wsaSend s b offset
             (max 1 (min winRFCOMMWriteChunkBytes ((length b - offset) div 2))))"

definition writeChunkWithFallback ::
    "'s native_sender \<Rightarrow> 's \<Rightarrow> byte list \<Rightarrow> 's \<times> nat \<times> error option" where
  "writeChunkWithFallback wsaSend s b =
     (case writeOnce wsaSend s b of (s', n, err) \<Rightarrow>
        if err = None \<or> err \<noteq> Some WSAEMSGSIZE then (s', n, err)
        else if length b \<le> n then (s', n, None)
        else writeWithMsgSizeFallback wsaSend s' b n)"

function win_write_loop :: "'s native_sender \<Rightarrow> 's \<Rightarrow> byte list \<Rightarrow> nat \<Rightarrow> 's \<times> nat \<times> error option" where
  "win_write_loop wsaSend s b tot =
     (if tot < length b
      then (case writeChunkWithFallback wsaSend s
                   (slice b tot (min (tot + winRFCOMMWriteChunkBytes) (length b))) of
              (s', n, Some err) \<Rightarrow> (s', tot + n, Some err)
            | (s', n, None) \<Rightarrow>
                if n = 0 then (s', tot + n, Some ErrShortWrite)
                else win_write_loop wsaSend s' b (tot + n))
      else (s, tot, None))"
  by pat_completeness auto
termination
  by (relation "measure (\<lambda>(wsaSend, s, b, tot). length b - tot)") auto

declare win_write_loop.simps [simp del]

definition winSockPipe_Write :: "'s native_sender \<Rightarrow> 's writer" where
  "winSockPipe_Write wsaSend s b =
     (if b = [] then (s, 0, None)
      else case win_write_loop wsaSend s b 0 of (s', tot, err) \<Rightarrow> (s', int tot, err))"

lemma slice_progress:
  "tot < length b \<Longrightarrow> n \<le> length (slice b tot e) \<Longrightarrow> e \<le> length b \<Longrightarrow>
   tot + n \<le> length b \<and> take (tot + n) b = take tot b @ take n (slice b tot e)"
  by (auto simp: slice_def take_add min_def split: if_splits)

locale native_send =
  fixes snd_native :: "'s native_sender" and sent :: "'s \<Rightarrow> byte list"
  assumes native_count: "snd_native s b = (s', n, err) \<Longrightarrow> n \<le> length b"
    and native_sent: "snd_native s b = (s', n, err) \<Longrightarrow> sent s' = sent s @ take n b"
begin

lemma writeOnce_eq: "writeOnce snd_native s b = snd_native s b"
  by (auto simp: writeOnce_def split: prod.splits option.splits)

end

text \<open>
  Invariant of both loops: the first \<open>tot\<close> bytes of \<open>b\<close> have been sent. At the exit without
  error \<open>tot\<close> is the length of \<open>b\<close>.
\<close>

lemma fallback_loop_contract:
  assumes "native_send wsaSend sent"
  shows "fallback_loop wsaSend s b tot chunk = (s', t, err) \<Longrightarrow> tot \<le> length b \<Longrightarrow>
    sent s = base @ take tot b \<Longrightarrow>
    t \<le> length b \<and> sent s' = base @ take t b \<and> (err = None \<longrightarrow> t = length b)"
  using assms
proof (induction wsaSend s b tot chunk arbitrary: s' t err rule: fallback_loop.induct)
  case (1 wsaSend s b tot chunk)
  show ?case
  proof (cases "tot < length b")
    case False
    with 1(3,4,5) show ?thesis by (simp add: fallback_loop.simps)
  next
    case True
    let ?e = "min (tot + chunk) (length b)"
    obtain s1 n er where w: "wsaSend s (slice b tot ?e) = (s1, n, er)" by (metis prod_cases3)
    note eq = native_send.writeOnce_eq[OF 1(6), of s "slice b tot ?e", unfolded w]
    have n: "n \<le> length (slice b tot ?e)" "sent s1 = sent s @ take n (slice b tot ?e)"
      using native_send.native_count[OF 1(6) w] native_send.native_sent[OF 1(6) w] by simp_all
    have prog: "tot + n \<le> length b" "sent s1 = base @ take (tot + n) b"
      using slice_progress[OF True n(1)] n(2) 1(5) by auto
    show ?thesis
      using True eq 1(3) 1(1)[OF True eq[symmetric] refl] 1(2)[OF True eq[symmetric] refl] prog n 1(5) 1(6)
      by (subst (asm) fallback_loop.simps) (cases er; auto split: if_splits)
  qed
qed


lemma writeChunkWithFallback_contract:
  assumes ns: "native_send wsaSend sent" and "writeChunkWithFallback wsaSend s b = (s', n, err)"
  shows "n \<le> length b \<and> sent s' = sent s @ take n b"
proof -
  obtain s1 k er where w: "wsaSend s b = (s1, k, er)" by (metis prod_cases3)
  note k = native_send.native_count[OF ns w] native_send.native_sent[OF ns w]
  note eq = native_send.writeOnce_eq[OF ns, of s b, unfolded w]
  have fb: "n \<le> length b \<and> sent s' = sent s @ take n b"
    if "fallback_loop wsaSend s1 b k c = (s', n, err)" for c
    using fallback_loop_contract[OF ns that] k by simp
  show ?thesis
    using assms(2) k fb
    by (auto simp: writeChunkWithFallback_def eq writeWithMsgSizeFallback_def split: if_splits)
qed

lemma win_write_loop_contract:
  assumes "native_send wsaSend sent"
  shows "win_write_loop wsaSend s b tot = (s', t, err) \<Longrightarrow> tot \<le> length b \<Longrightarrow>
    sent s = base @ take tot b \<Longrightarrow>
    t \<le> length b \<and> sent s' = base @ take t b \<and> (err = None \<longrightarrow> t = length b)"
  using assms
proof (induction wsaSend s b tot arbitrary: s' t err rule: win_write_loop.induct)
  case (1 wsaSend s b tot)
  show ?case
  proof (cases "tot < length b")
    case False
    with 1(2,3,4) show ?thesis by (simp add: win_write_loop.simps)
  next
    case True
    let ?e = "min (tot + winRFCOMMWriteChunkBytes) (length b)"
    obtain s1 n er where w: "writeChunkWithFallback wsaSend s (slice b tot ?e) = (s1, n, er)"
      by (metis prod_cases3)
    note n = writeChunkWithFallback_contract[OF 1(5) w]
    have prog: "tot + n \<le> length b" "sent s1 = base @ take (tot + n) b"
      using slice_progress[OF True, of n ?e] n 1(4) by auto
    show ?thesis
      using True 1(2) 1(1)[OF True w[symmetric] refl] prog 1(5) w
      by (subst (asm) win_write_loop.simps) (cases er; auto split: if_splits)
  qed
qed

text \<open>A pipe over a socket that keeps the contract of \<open>WSASend\<close> is an \<open>io.Writer\<close>.\<close>

lemma winSockPipe_contract:
  assumes ns: "native_send wsaSend sent" and "winSockPipe_Write wsaSend s b = (s', n, err)"
  shows "0 \<le> n \<and> n \<le> int (length b) \<and> sent s' = sent s @ take (nat n) b \<and>
    (err = None \<longrightarrow> n = int (length b))"
proof (cases "b = []")
  case True
  with assms show ?thesis by (simp add: winSockPipe_Write_def)
next
  case False
  obtain s1 t er where w: "win_write_loop wsaSend s b 0 = (s1, t, er)" by (metis prod_cases3)
  with win_write_loop_contract[OF ns w, of "sent s"] assms(2) False show ?thesis
    by (auto simp: winSockPipe_Write_def)
qed

sublocale native_send \<subseteq> win_pipe: io_writer "winSockPipe_Write snd_native" sent
proof
  fix s data s' n err
  assume w: "winSockPipe_Write snd_native s data = (s', n, err)"
  show "0 \<le> n \<and> n \<le> int (length data)"
    using winSockPipe_contract[OF native_send_axioms w] by simp
  show "sent s' = sent s @ take (nat n) data"
    using winSockPipe_contract[OF native_send_axioms w] by simp
qed

text \<open>
  The environment of the pipe as a script: each call of \<open>WSASend\<close> takes the next answer, a
  limit on the bytes it accepts and an optional error. Every behaviour that keeps the
  contract is a script; when the script ends the connection is gone.
\<close>

record socket =
  wire :: "byte list"
  script :: "(nat \<times> error option) list"

fun scripted_send :: "socket native_sender" where
  "scripted_send s b =
     (case script s of
        [] \<Rightarrow> (s, 0, Some (ErrExt 10054))
      | (n, err) # rest \<Rightarrow>
          (s\<lparr>wire := wire s @ take n b, script := rest\<rparr>, min n (length b), err))"

interpretation scripted: native_send scripted_send wire
  by unfold_locales (auto split: list.splits simp: min_def)


section \<open>Read\<close>

text \<open>
  \<open>WSARecv\<close> returns the bytes it has put into the buffer (at most its length) and an optional
  error. \<open>readCache\<close> holds the bytes received and not yet delivered.
\<close>

type_synonym 's native_receiver = "'s \<Rightarrow> nat \<Rightarrow> 's \<times> byte list \<times> error option"

definition fillReadCacheLocked ::
    "'s native_receiver \<Rightarrow> 's \<Rightarrow> byte list \<Rightarrow> 's \<times> byte list \<times> error option" where
  "fillReadCacheLocked wsaRecv s readCache =
     (case wsaRecv s winRFCOMMReadChunkBytes of
        (s', recvd, Some err) \<Rightarrow>
          if recvd \<noteq> [] \<and> err = WSAEMSGSIZE then (s', recvd, None) else (s', readCache, Some err)
      | (s', recvd, None) \<Rightarrow>
          if recvd = [] then (s', readCache, Some EOF) else (s', recvd, None))"

text \<open>\<open>Read(b)\<close> with \<open>len(b) = k\<close>: the delivered bytes, the remaining cache, the error.\<close>

definition winSockPipe_Read ::
    "'s native_receiver \<Rightarrow> 's \<Rightarrow> byte list \<Rightarrow> nat \<Rightarrow> 's \<times> byte list \<times> byte list \<times> error option" where
  "winSockPipe_Read wsaRecv s readCache k =
     (if k = 0 then (s, readCache, [], None)
      else case (if readCache = [] then fillReadCacheLocked wsaRecv s readCache else (s, readCache, None)) of
             (s', cache, Some err) \<Rightarrow> (s', cache, [], Some err)
           | (s', cache, None) \<Rightarrow> (s', drop k cache, take k cache, None))"


section \<open>Properties\<close>

text \<open>
  C26. The Windows pipe keeps the contract of \<open>io.Writer\<close> for every behaviour of \<open>WSASend\<close> that
  keeps its own: the write terminates, the count it returns is the number of bytes sent, they
  are the first bytes of the argument in order (the retries after WSAEMSGSIZE neither repeat
  nor skip a byte), and success means all of them were sent.
\<close>
theorem win_pipe_write_contract:
  assumes "native_send wsaSend sent"
  shows "\<exists>s' n err. winSockPipe_Write wsaSend s b = (s', n, err) \<and> 0 \<le> n \<and> n \<le> int (length b) \<and>
    sent s' = sent s @ take (nat n) b \<and> (err = None \<longrightarrow> n = int (length b))"
  by (metis winSockPipe_contract[OF assms] prod_cases3)

theorem win_pipe_write_contract_witness:
  "\<exists>s' n err. winSockPipe_Write scripted_send \<lparr>wire = [], script = [(0, Some WSAEMSGSIZE), (1, None), (9, None)]\<rparr> [1, 2]
     = (s', n, err) \<and> 0 \<le> n \<and> n \<le> int (length [1, 2 :: byte]) \<and>
    wire s' = wire \<lparr>wire = [], script = [(0, Some WSAEMSGSIZE), (1, None), (9, None)]\<rparr> @ take (nat n) [1, 2] \<and>
    (err = None \<longrightarrow> n = int (length [1, 2 :: byte]))"
  by (rule win_pipe_write_contract[OF scripted.native_send_axioms])

text \<open>
  A read with room for at least one byte delivers at least one byte or an error, never both
  nothing and no error; what it delivers is the front of the cached bytes, or of a fresh
  receive when the cache is empty, and the rest stays in the cache.
\<close>
theorem win_pipe_read_delivers_in_order:
  assumes "0 < k" and "winSockPipe_Read wsaRecv s cache k = (s', cache', out, err)"
  shows "(err = None \<longrightarrow> out \<noteq> [] \<and> length out \<le> k \<and>
           out @ cache' = (if cache = [] then fst (snd (wsaRecv s winRFCOMMReadChunkBytes)) else cache)) \<and>
         (err \<noteq> None \<longrightarrow> out = [] \<and> cache = [] \<and> cache' = [])"
proof (cases "cache = []")
  case False
  with assms show ?thesis by (auto simp: winSockPipe_Read_def)
next
  case True
  obtain s1 recvd er where "wsaRecv s winRFCOMMReadChunkBytes = (s1, recvd, er)" by (metis prod_cases3)
  with True assms show ?thesis
    by (cases er) (auto simp: winSockPipe_Read_def fillReadCacheLocked_def split: if_splits)
qed

theorem win_pipe_read_delivers_in_order_witness:
  "(0 :: nat) < 2 \<and> winSockPipe_Read (\<lambda>s n. (s, [1, 2, 3], None)) () [] 2 = ((), [3], [1, 2], None) \<and>
   [1, 2 :: byte] @ [3] = [1, 2, 3]"
proof -
  have r: "winSockPipe_Read (\<lambda>s n. (s, [1, 2, 3 :: byte], None)) () [] 2 = ((), [3], [1, 2], None)"
    by (simp add: winSockPipe_Read_def fillReadCacheLocked_def)
  from win_pipe_read_delivers_in_order[OF _ r] r show ?thesis by simp
qed

end
