(* ===== verification/Event_Bus.thy ===== *)
theory Event_Bus
  imports Hub_Prelude Go_Strings
begin

text \<open>
  The event bus: \<^verbatim>\<open>eventbus/bus.go\<close> and \<^verbatim>\<open>eventbus/bucket.go\<close>. A bus keeps one bucket per event
  name, and a bucket a bounded queue, a table of handlers under their tokens and a group of
  workers that take events off the queue.

  Buckets are shared by pointer, so they live in a heap; the table \<open>buckets\<close> is \<open>None\<close> when it is
  the nil map that \<open>Close\<close> leaves behind. The read lock of a bucket is a count of readers: a
  handler runs while its bucket is read-locked, and an operation that needs the write lock
  meanwhile does not return. Not returning is the value \<open>None\<close>. A handler is an identity; what
  its code does to the bus is the argument \<open>run\<close>, which answers the state it leaves and whether
  it panicked, or \<open>None\<close> if it does not return. An operation that waits in a \<open>select\<close> answers the
  list of its possible outcomes, none when it has to wait; contexts are not nil.
\<close>


section \<open>Events and buckets\<close>

record 'd Event =
  evt_Name :: string
  evt_Data :: 'd
  evt_Meta :: "string \<rightharpoonup> 'd"
  evt_Time :: int

record bus_Options =
  DefaultBuffer :: int
  DefaultWorkers :: int

record ('h, 'd) bucket =
  b_ch :: "'d Event list"
  b_cap :: int
  b_handlers :: "(string \<times> 'h) list"
  b_readers :: nat
  b_workers :: int
  b_cancelled :: bool

text \<open>\<open>newBucket\<close>: \<open>make\<close> panics on a negative buffer size, which \<open>New\<close> rules out.\<close>

definition newBucket :: "bus_Options \<Rightarrow> ('h, 'd) bucket outcome" where
  "newBucket opts =
     (if DefaultBuffer opts < 0 then Panic
      else Ret \<lparr>b_ch = [], b_cap = DefaultBuffer opts, b_handlers = [], b_readers = 0,
                b_workers = (if DefaultWorkers opts \<le> 0 then 1 else DefaultWorkers opts), b_cancelled = False\<rparr>)"

definition addHandler :: "string \<Rightarrow> 'h \<Rightarrow> ('h, 'd) bucket \<Rightarrow> ('h, 'd) bucket option" where
  "addHandler token h b =
     (if b_readers b > 0 then None else Some (b\<lparr>b_handlers := AList.update token h (b_handlers b)\<rparr>))"

definition removeHandler :: "string \<Rightarrow> ('h, 'd) bucket \<Rightarrow> ('h, 'd) bucket option" where
  "removeHandler token b =
     (if b_readers b > 0 then None else Some (b\<lparr>b_handlers := AList.delete token (b_handlers b)\<rparr>))"

definition bucket_close :: "('h, 'd) bucket \<Rightarrow> ('h, 'd) bucket" where
  "bucket_close b = b\<lparr>b_cancelled := True\<rparr>"

text \<open>One round of a worker's \<open>loop\<close> that receives an event; a cancelled bucket's worker may still take it.\<close>

definition loop_take :: "('h, 'd) bucket \<Rightarrow> ('d Event \<times> ('h, 'd) bucket) option" where
  "loop_take b = (case b_ch b of [] \<Rightarrow> None | e # es \<Rightarrow> Some (e, b\<lparr>b_ch := es\<rparr>))"


section \<open>The bus\<close>

type_synonym bref = nat

record ('h, 'd) bus =
  buckets :: "(string \<times> bref) list option"
  bheap :: "bref \<Rightarrow> ('h, 'd) bucket"
  bnext :: bref
  bus_opts :: bus_Options
  closed :: bool
  counter :: u64

definition zero_bucket :: "('h, 'd) bucket" where
  "zero_bucket = \<lparr>b_ch = [], b_cap = 0, b_handlers = [], b_readers = 0, b_workers = 0, b_cancelled = False\<rparr>"

definition bus_New :: "bus_Options \<Rightarrow> ('h, 'd) bus" where
  "bus_New opts =
     (let opts = (if DefaultBuffer opts \<le> 0 then opts\<lparr>DefaultBuffer := 64\<rparr> else opts);
          opts = (if DefaultWorkers opts \<le> 0 then opts\<lparr>DefaultWorkers := 1\<rparr> else opts)
      in \<lparr>buckets = Some [], bheap = (\<lambda>_. zero_bucket), bnext = 0, bus_opts = opts, closed = False, counter = 0\<rparr>)"

definition normalize_name :: "(string \<Rightarrow> string) \<Rightarrow> string \<Rightarrow> string" where
  "normalize_name ulow name = ToLower ulow (TrimSpace name)"

text \<open>Reading the nil map finds nothing, writing to it panics.\<close>

definition lookup :: "string \<Rightarrow> ('h, 'd, 'x) bus_scheme \<Rightarrow> bref option" where
  "lookup key b = (case buckets b of None \<Rightarrow> None | Some m \<Rightarrow> map_of m key)"

definition getOrCreateBucket ::
  "string \<Rightarrow> ('h, 'd, 'x) bus_scheme \<Rightarrow> (bref \<times> ('h, 'd, 'x) bus_scheme) outcome" where
  "getOrCreateBucket key b =
     (case lookup key b of
        Some r \<Rightarrow> Ret (r, b)
      | None \<Rightarrow>
          (case newBucket (bus_opts b) of
             Panic \<Rightarrow> Panic
           | Ret bkt \<Rightarrow>
               (case buckets b of
                  None \<Rightarrow> Panic
                | Some m \<Rightarrow> Ret (bnext b,
                    b\<lparr>buckets := Some (AList.update key (bnext b) m),
                      bheap := (bheap b)(bnext b := bkt), bnext := Suc (bnext b)\<rparr>))))"

abbreviation set_bucket :: "bref \<Rightarrow> ('h, 'd) bucket \<Rightarrow> ('h, 'd, 'x) bus_scheme \<Rightarrow> ('h, 'd, 'x) bus_scheme" where
  "set_bucket r bkt b \<equiv> b\<lparr>bheap := (bheap b)(r := bkt)\<rparr>"

text \<open>
  \<open>dispatch\<close>: the handlers in the order in which the map is ranged over, given as a list of
  tokens, each call with its panic recovered, between locking and unlocking for reading.
\<close>

fun dispatch_each ::
  "('h \<Rightarrow> 'd Event \<Rightarrow> ('h, 'd, 'x) bus_scheme \<Rightarrow> (('h, 'd, 'x) bus_scheme \<times> bool) option)
   \<Rightarrow> bref \<Rightarrow> 'd Event \<Rightarrow> string list \<Rightarrow> ('h, 'd, 'x) bus_scheme \<Rightarrow> ('h, 'd, 'x) bus_scheme option" where
  "dispatch_each run r ev [] b = Some b"
| "dispatch_each run r ev (tok # toks) b =
     (case map_of (b_handlers (bheap b r)) tok of
        None \<Rightarrow> dispatch_each run r ev toks b
      | Some h \<Rightarrow>
          (case run h ev b of
             None \<Rightarrow> None
           | Some (b', panicked) \<Rightarrow> dispatch_each run r ev toks b'))"

definition RLock :: "bref \<Rightarrow> ('h, 'd, 'x) bus_scheme \<Rightarrow> ('h, 'd, 'x) bus_scheme" where
  "RLock r b = set_bucket r ((bheap b r)\<lparr>b_readers := Suc (b_readers (bheap b r))\<rparr>) b"

definition RUnlock :: "bref \<Rightarrow> ('h, 'd, 'x) bus_scheme \<Rightarrow> ('h, 'd, 'x) bus_scheme" where
  "RUnlock r b = set_bucket r ((bheap b r)\<lparr>b_readers := b_readers (bheap b r) - 1\<rparr>) b"

definition bucket_dispatch ::
  "('h \<Rightarrow> 'd Event \<Rightarrow> ('h, 'd, 'x) bus_scheme \<Rightarrow> (('h, 'd, 'x) bus_scheme \<times> bool) option)
   \<Rightarrow> string list \<Rightarrow> bref \<Rightarrow> 'd Event \<Rightarrow> ('h, 'd, 'x) bus_scheme \<Rightarrow> ('h, 'd, 'x) bus_scheme option" where
  "bucket_dispatch run order r ev b = map_option (RUnlock r) (dispatch_each run r ev order (RLock r b))"

text \<open>
  \<open>Publish\<close>, in two parts, since another goroutine can run between the test of \<open>closed\<close> and the
  rest. \<open>ctx_err\<close> is the error of the context when it is done. The buffer is never of size 0, so a
  send is possible exactly when there is room.
\<close>

definition publish_rest ::
  "error option \<Rightarrow> string \<Rightarrow> 'd \<Rightarrow> (string \<rightharpoonup> 'd) \<Rightarrow> int \<Rightarrow> ('h, 'd, 'x) bus_scheme
   \<Rightarrow> (error option \<times> ('h, 'd, 'x) bus_scheme) outcome list" where
  "publish_rest ctx_err key dat meta now b =
     (if key = [] then [Ret (None, b)]
      else case getOrCreateBucket key b of
             Panic \<Rightarrow> [Panic]
           | Ret (r, b1) \<Rightarrow>
               (let bkt = bheap b1 r;
                    ev = \<lparr>evt_Name = key, evt_Data = dat, evt_Meta = meta, evt_Time = now\<rparr>
                in (case ctx_err of Some e \<Rightarrow> [Ret (Some e, b1)] | None \<Rightarrow> [])
                 @ (if int (length (b_ch bkt)) < b_cap bkt
                    then [Ret (None, set_bucket r (bkt\<lparr>b_ch := b_ch bkt @ [ev]\<rparr>) b1)] else [])))"

definition Publish ::
  "(string \<Rightarrow> string) \<Rightarrow> error option \<Rightarrow> string \<Rightarrow> 'd \<Rightarrow> (string \<rightharpoonup> 'd) \<Rightarrow> int \<Rightarrow> ('h, 'd, 'x) bus_scheme
   \<Rightarrow> (error option \<times> ('h, 'd, 'x) bus_scheme) outcome list" where
  "Publish ulow ctx_err name dat meta now b =
     (if closed b then [Ret (Some (Err ''eventbus closed''), b)]
      else publish_rest ctx_err (normalize_name ulow name) dat meta now b)"

definition PublishSync ::
  "('h \<Rightarrow> 'd Event \<Rightarrow> ('h, 'd, 'x) bus_scheme \<Rightarrow> (('h, 'd, 'x) bus_scheme \<times> bool) option)
   \<Rightarrow> string list \<Rightarrow> (string \<Rightarrow> string) \<Rightarrow> string \<Rightarrow> 'd \<Rightarrow> (string \<rightharpoonup> 'd) \<Rightarrow> int \<Rightarrow> ('h, 'd, 'x) bus_scheme
   \<Rightarrow> ('h, 'd, 'x) bus_scheme outcome option" where
  "PublishSync run order ulow name dat meta now b =
     (if closed b then Some (Ret b)
      else let key = normalize_name ulow name
           in if key = [] then Some (Ret b)
              else case getOrCreateBucket key b of
                     Panic \<Rightarrow> Some Panic
                   | Ret (r, b1) \<Rightarrow>
                       map_option Ret (bucket_dispatch run order r
                         \<lparr>evt_Name = key, evt_Data = dat, evt_Meta = meta, evt_Time = now\<rparr> b1))"

definition subscribe_rest ::
  "string \<Rightarrow> 'h \<Rightarrow> ('h, 'd, 'x) bus_scheme \<Rightarrow> (string \<times> ('h, 'd, 'x) bus_scheme) outcome option" where
  "subscribe_rest key h b =
     (if key = [] then Some (Ret ([], b))
      else case getOrCreateBucket key b of
             Panic \<Rightarrow> Some Panic
           | Ret (r, b1) \<Rightarrow>
               (let n = counter b1 + 1;
                    b2 = b1\<lparr>counter := n\<rparr>;
                    token = key @ ''#'' @ itoa (unat n)
                in map_option (\<lambda>bkt. Ret (token, set_bucket r bkt b2)) (addHandler token h (bheap b2 r))))"

definition Subscribe ::
  "(string \<Rightarrow> string) \<Rightarrow> string \<Rightarrow> 'h option \<Rightarrow> ('h, 'd, 'x) bus_scheme
   \<Rightarrow> (string \<times> ('h, 'd, 'x) bus_scheme) outcome option" where
  "Subscribe ulow name h b =
     (if closed b then Some (Ret ([], b))
      else case h of
             None \<Rightarrow> Some (Ret ([], b))
           | Some hh \<Rightarrow> subscribe_rest (normalize_name ulow name) hh b)"

definition Unsubscribe ::
  "(string \<Rightarrow> string) \<Rightarrow> string \<Rightarrow> string \<Rightarrow> ('h, 'd, 'x) bus_scheme \<Rightarrow> ('h, 'd, 'x) bus_scheme option" where
  "Unsubscribe ulow name token b =
     (let key = normalize_name ulow name
      in if key = [] \<or> token = [] then Some b
         else case lookup key b of
                None \<Rightarrow> Some b
              | Some r \<Rightarrow> map_option (\<lambda>bkt. set_bucket r bkt b) (removeHandler token (bheap b r)))"

definition bus_Close :: "('h, 'd, 'x) bus_scheme \<Rightarrow> ('h, 'd, 'x) bus_scheme" where
  "bus_Close b =
     (if closed b then b
      else b\<lparr>closed := True,
             bheap := (\<lambda>r. if r \<in> snd ` set (case buckets b of None \<Rightarrow> [] | Some m \<Rightarrow> m)
                           then bucket_close (bheap b r) else bheap b r),
             buckets := None\<rparr>)"


section \<open>The invariant\<close>

definition token_of :: "string \<Rightarrow> nat \<Rightarrow> string" where
  "token_of key n = key @ ''#'' @ itoa n"

definition bucket_ok :: "bus_Options \<Rightarrow> nat \<Rightarrow> string \<Rightarrow> ('h, 'd) bucket \<Rightarrow> bool" where
  "bucket_ok opts n key bkt =
     (b_cap bkt = DefaultBuffer opts \<and> int (length (b_ch bkt)) \<le> b_cap bkt \<and> b_readers bkt = 0
      \<and> distinct (map fst (b_handlers bkt))
      \<and> (\<forall>t \<in> set (map fst (b_handlers bkt)). \<exists>i \<le> n. t = token_of key i))"

text \<open>
  An open bus: the table has distinct non-empty names with a bucket each, the buckets hold at
  most their buffer, nobody is inside a dispatch, and the tokens of a bucket are its name with a
  number that the counter has already given out.
\<close>

definition bus_inv :: "('h, 'd, 'x) bus_scheme \<Rightarrow> bool" where
  "bus_inv b =
     (DefaultBuffer (bus_opts b) > 0 \<and> closed b = (buckets b = None)
      \<and> (\<forall>k r. lookup k b = Some r \<longrightarrow>
            k \<noteq> [] \<and> r < bnext b \<and> bucket_ok (bus_opts b) (unat (counter b)) k (bheap b r))
      \<and> (\<forall>k k' r. lookup k b = Some r \<and> lookup k' b = Some r \<longrightarrow> k = k'))"

text \<open>The handlers and the queue of an event name: what a client can observe.\<close>

definition subs :: "('h, 'd, 'x) bus_scheme \<Rightarrow> string \<Rightarrow> (string \<times> 'h) list" where
  "subs b key = (case lookup key b of None \<Rightarrow> [] | Some r \<Rightarrow> b_handlers (bheap b r))"

definition pending :: "('h, 'd, 'x) bus_scheme \<Rightarrow> string \<Rightarrow> 'd Event list" where
  "pending b key = (case lookup key b of None \<Rightarrow> [] | Some r \<Rightarrow> b_ch (bheap b r))"

lemma token_of_inj: "token_of k i = token_of k j \<longleftrightarrow> i = j"
  using digits_val_itoa by (auto simp: token_of_def) (metis option.inject)

lemma token_of_nonempty [simp]: "token_of k i \<noteq> []"
  by (simp add: token_of_def)

lemma bus_New_inv: "bus_inv (bus_New opts)" "subs (bus_New opts) k = []" "pending (bus_New opts) k = []"
  "\<not> closed (bus_New opts)" "counter (bus_New opts) = 0"
  by (auto simp: bus_New_def bus_inv_def subs_def pending_def lookup_def Let_def)

lemma lookup_bucket_ok:
  "bus_inv b \<Longrightarrow> lookup k b = Some r \<Longrightarrow>
   bucket_ok (bus_opts b) (unat (counter b)) k (bheap b r) \<and> r < bnext b \<and> k \<noteq> []"
  by (simp add: bus_inv_def)

lemma bus_invI:
  assumes "DefaultBuffer (bus_opts b) > 0" "closed b = (buckets b = None)"
    and "\<And>k r. lookup k b = Some r \<Longrightarrow>
      k \<noteq> [] \<and> r < bnext b \<and> bucket_ok (bus_opts b) (unat (counter b)) k (bheap b r)"
    and "\<And>k k' r. lookup k b = Some r \<Longrightarrow> lookup k' b = Some r \<Longrightarrow> k = k'"
  shows "bus_inv b"
  using assms unfolding bus_inv_def by blast

lemma lookup_inj: "bus_inv b \<Longrightarrow> lookup k b = Some r \<Longrightarrow> lookup k' b = Some r \<Longrightarrow> k' = k"
  unfolding bus_inv_def by blast

lemma lookup_update [simp]:
  "lookup k (b\<lparr>bheap := hp\<rparr>) = lookup k b" "lookup k (b\<lparr>counter := c\<rparr>) = lookup k b"
  by (simp_all add: lookup_def)

text \<open>Replacing a bucket of an open bus by one that is well formed.\<close>

lemma set_bucket_inv:
  assumes "bus_inv b" "lookup k b = Some r" "bucket_ok (bus_opts b) (unat (counter b)) k bkt"
  shows "bus_inv (set_bucket r bkt b)"
proof -
  have "k' = k" if "lookup k' b = Some r" for k'
    using lookup_inj[OF assms(1,2) that] .
  then show ?thesis
    using assms(1,3) unfolding bus_inv_def by (simp add: fun_upd_def) metis
qed

lemma set_bucket_observe:
  assumes "bus_inv b" "lookup k b = Some r"
  shows "subs (set_bucket r bkt b) = (subs b)(k := b_handlers bkt)"
    and "pending (set_bucket r bkt b) = (pending b)(k := b_ch bkt)"
proof -
  have "lookup j b = Some r \<Longrightarrow> j = k" for j
    using lookup_inj[OF assms] by blast
  then have other: "j \<noteq> k \<Longrightarrow> lookup j b \<noteq> Some r" for j
    by blast
  show "subs (set_bucket r bkt b) = (subs b)(k := b_handlers bkt)"
    using assms(2) by (rule_tac ext, rename_tac j, case_tac "j = k")
      (simp_all add: subs_def other split: option.splits)
  show "pending (set_bucket r bkt b) = (pending b)(k := b_ch bkt)"
    using assms(2) by (rule_tac ext, rename_tac j, case_tac "j = k")
      (simp_all add: pending_def other split: option.splits)
qed

lemma lookup_observe: "lookup k b = Some r \<Longrightarrow> b_handlers (bheap b r) = subs b k \<and> b_ch (bheap b r) = pending b k"
  by (simp add: subs_def pending_def)

lemma bucket_ok_mono: "bucket_ok opts n k bkt \<Longrightarrow> n \<le> n' \<Longrightarrow> bucket_ok opts n' k bkt"
  unfolding bucket_ok_def by (meson order_trans)

lemma counter_inv:
  assumes "bus_inv b" "unat (counter b) \<le> unat c"
  shows "bus_inv (b\<lparr>counter := c\<rparr>)"
  using assms(1) bucket_ok_mono[OF _ assms(2)] unfolding bus_inv_def by (simp; blast)

lemma counter_observe [simp]:
  "subs (b\<lparr>counter := c\<rparr>) = subs b" "pending (b\<lparr>counter := c\<rparr>) = pending b"
  by (auto simp: subs_def pending_def fun_eq_iff split: option.splits)

text \<open>Creating a bucket is invisible, and fails on a closed bus only.\<close>

lemma getOrCreateBucket_open:
  assumes "bus_inv b" "\<not> closed b" "key \<noteq> []"
  obtains r b1 where "getOrCreateBucket key b = Ret (r, b1)" "bus_inv b1" "lookup key b1 = Some r"
    "subs b1 = subs b" "pending b1 = pending b" "counter b1 = counter b" "closed b1 = closed b"
    "bus_opts b1 = bus_opts b" "b1 = b\<lparr>buckets := buckets b1, bheap := bheap b1, bnext := bnext b1\<rparr>"
proof (cases "lookup key b")
  case (Some r)
  then show thesis
    using that[of r b] assms by (simp add: getOrCreateBucket_def)
next
  case None
  obtain m where m: "buckets b = Some m"
    using assms(1,2) by (auto simp: bus_inv_def)
  have "DefaultBuffer (bus_opts b) > 0"
    using assms(1) by (simp add: bus_inv_def)
  then obtain bkt :: "('a, 'b) bucket" where bkt: "newBucket (bus_opts b) = Ret bkt"
    "bucket_ok (bus_opts b) (unat (counter b)) key bkt" "b_handlers bkt = []" "b_ch bkt = []"
    by (simp add: newBucket_def bucket_ok_def)
  let ?b1 = "b\<lparr>buckets := Some (AList.update key (bnext b) m), bheap := (bheap b)(bnext b := bkt), bnext := Suc (bnext b)\<rparr>"
  have g: "getOrCreateBucket key b = Ret (bnext b, ?b1)"
    using None m bkt(1) by (simp add: getOrCreateBucket_def)
  have old: "r < bnext b" if "lookup k b = Some r" for k r
    using lookup_bucket_ok[OF assms(1) that] by blast
  have l: "lookup k ?b1 = (if k = key then Some (bnext b) else lookup k b)" for k
    using m by (simp add: lookup_def update_conv)
  have entry: "r = bnext b \<and> k = key \<or> lookup k b = Some r \<and> r < bnext b \<and> k \<noteq> key"
    if "lookup k ?b1 = Some r" for k r
    using that old[of k r] None by (auto simp: l split: if_splits)
  have inv: "bus_inv ?b1"
  proof (rule bus_invI)
    fix k r assume "lookup k ?b1 = Some r"
    from entry[OF this] show "k \<noteq> [] \<and> r < bnext ?b1
        \<and> bucket_ok (bus_opts ?b1) (unat (counter ?b1)) k (bheap ?b1 r)"
      using assms(3) bkt(2) lookup_bucket_ok[OF assms(1), of k r] by auto
  next
    fix k k' r assume "lookup k ?b1 = Some r" "lookup k' ?b1 = Some r"
    from entry[OF this(1)] entry[OF this(2)] show "k = k'"
      using lookup_inj[OF assms(1), of k' r k] by auto
  qed (use assms in \<open>simp_all add: bus_inv_def\<close>)
  have "subs ?b1 k = subs b k \<and> pending ?b1 k = pending b k" for k
  proof (cases "lookup k b")
    case None
    then show ?thesis using bkt(3,4) by (simp add: subs_def pending_def l)
  next
    case (Some r)
    then have "k \<noteq> key" "r \<noteq> bnext b" using old[OF Some] \<open>lookup key b = None\<close> by auto
    with Some show ?thesis by (simp add: subs_def pending_def l)
  qed
  then have "subs ?b1 = subs b" "pending ?b1 = pending b" by auto
  then show thesis
    using that[OF g inv] l by simp
qed


section \<open>The operations on an open bus\<close>

lemma Subscribe_open:
  assumes "bus_inv b" "\<not> closed b" "normalize_name ulow name \<noteq> []" "unat (counter b) + 1 < 2 ^ 64"
  defines "key \<equiv> normalize_name ulow name" and "tok \<equiv> token_of (normalize_name ulow name) (unat (counter b) + 1)"
  shows "\<exists>b'. Subscribe ulow name (Some h) b = Some (Ret (tok, b')) \<and> bus_inv b' \<and> \<not> closed b'
          \<and> unat (counter b') = unat (counter b) + 1 \<and> pending b' = pending b
          \<and> tok \<notin> fst ` set (subs b key) \<and> subs b' = (subs b)(key := subs b key @ [(tok, h)])"
proof -
  obtain r b1 where g: "getOrCreateBucket key b = Ret (r, b1)" and inv1: "bus_inv b1" and l: "lookup key b1 = Some r"
    and obs: "subs b1 = subs b" "pending b1 = pending b" "counter b1 = counter b" "closed b1 = closed b"
    using getOrCreateBucket_open[OF assms(1-3)] unfolding key_def by metis
  let ?c = "counter b + 1"
  have c: "unat ?c = unat (counter b) + 1"
    using assms(4) by (simp add: unat_word_ariths)
  let ?b2 = "b1\<lparr>counter := ?c\<rparr>"
  let ?k = "bheap b1 r"
  have ok: "bucket_ok (bus_opts b1) (unat (counter b)) key ?k"
    using lookup_bucket_ok[OF inv1 l] obs(3) by simp
  have subs_k: "b_handlers ?k = subs b key"
    using lookup_observe[OF l] obs(1) by simp
  have fresh: "tok \<notin> fst ` set (subs b key)"
    using ok unfolding bucket_ok_def tok_def subs_k key_def by (auto simp: token_of_inj)
  let ?k' = "?k\<lparr>b_handlers := subs b key @ [(tok, h)]\<rparr>"
  have inv2: "bus_inv ?b2"
    using counter_inv[OF inv1, of ?c] c obs(3) by simp
  have "bucket_ok (bus_opts ?b2) (unat (counter ?b2)) key ?k'"
    using bucket_ok_mono[OF ok, of "unat ?c"] fresh c subs_k
    unfolding bucket_ok_def tok_def key_def by auto
  then have inv: "bus_inv (set_bucket r ?k' ?b2)"
    using set_bucket_inv[OF inv2] l by simp
  have "addHandler tok h ?k = Some ?k'"
    using ok fresh by (simp add: addHandler_def bucket_ok_def subs_k update_new)
  then have "Subscribe ulow name (Some h) b = Some (Ret (tok, set_bucket r ?k' ?b2))"
    using g assms(2,3) c obs(3)
    by (simp add: Subscribe_def subscribe_rest_def key_def tok_def token_of_def Let_def)
  then show ?thesis
    using inv set_bucket_observe[OF inv2, of key r ?k'] l fresh c obs assms(2)
      lookup_observe[OF l]
    by (intro exI[of _ "set_bucket r ?k' ?b2"]) (simp add: fun_upd_idem_iff)
qed

lemma Unsubscribe_open:
  assumes "bus_inv b" "normalize_name ulow name \<noteq> []" "tok \<noteq> []"
  shows "\<exists>b'. Unsubscribe ulow name tok b = Some b' \<and> bus_inv b' \<and> closed b' = closed b
          \<and> counter b' = counter b \<and> pending b' = pending b
          \<and> subs b' = (subs b)(normalize_name ulow name := AList.delete tok (subs b (normalize_name ulow name)))"
proof (cases "lookup (normalize_name ulow name) b")
  case None
  then show ?thesis
    using assms by (auto simp: Unsubscribe_def subs_def)
next
  case (Some r)
  let ?k = "bheap b r"
  let ?k' = "?k\<lparr>b_handlers := AList.delete tok (b_handlers ?k)\<rparr>"
  have ok: "bucket_ok (bus_opts b) (unat (counter b)) (normalize_name ulow name) ?k"
    using lookup_bucket_ok[OF assms(1) Some] by simp
  then have "bucket_ok (bus_opts b) (unat (counter b)) (normalize_name ulow name) ?k'"
    by (auto simp: bucket_ok_def distinct_delete dest: in_set_delete[THEN iffD1])
  then have "bus_inv (set_bucket r ?k' b)"
    by (rule set_bucket_inv[OF assms(1) Some])
  moreover have "Unsubscribe ulow name tok b = Some (set_bucket r ?k' b)"
    using Some assms(2,3) ok by (simp add: Unsubscribe_def removeHandler_def bucket_ok_def)
  ultimately show ?thesis
    using set_bucket_observe[OF assms(1) Some, of ?k'] lookup_observe[OF Some]
    by (simp add: fun_upd_idem_iff)
qed

lemma Publish_open:
  assumes "bus_inv b" "\<not> closed b" "Ret (e, b') \<in> set (Publish ulow ctx_err name dat meta now b)"
  defines "key \<equiv> normalize_name ulow name"
  shows "bus_inv b' \<and> \<not> closed b' \<and> counter b' = counter b \<and> subs b' = subs b
       \<and> pending b' = (if e = None \<and> key \<noteq> []
           then (pending b)(key := pending b key @
             [\<lparr>evt_Name = key, evt_Data = dat, evt_Meta = meta, evt_Time = now\<rparr>])
           else pending b)"
proof (cases "key = []")
  case True
  then show ?thesis
    using assms by (simp add: Publish_def publish_rest_def)
next
  case False
  obtain r b1 where g: "getOrCreateBucket key b = Ret (r, b1)" and inv1: "bus_inv b1" and l: "lookup key b1 = Some r"
    and obs: "subs b1 = subs b" "pending b1 = pending b" "counter b1 = counter b" "closed b1 = closed b"
    using getOrCreateBucket_open[OF assms(1,2) False] by metis
  let ?k = "bheap b1 r"
  let ?ev = "\<lparr>evt_Name = key, evt_Data = dat, evt_Meta = meta, evt_Time = now\<rparr>"
  let ?k' = "?k\<lparr>b_ch := b_ch ?k @ [?ev]\<rparr>"
  have ok: "bucket_ok (bus_opts b1) (unat (counter b1)) key ?k"
    using lookup_bucket_ok[OF inv1 l] by simp
  consider "e \<noteq> None" "b' = b1" | "e = None" "b' = set_bucket r ?k' b1" "int (length (b_ch ?k)) < b_cap ?k"
    using assms(2,3) False g
    by (auto simp: Publish_def publish_rest_def key_def Let_def split: if_splits option.splits)
  then show ?thesis
  proof cases
    case 1
    then show ?thesis using inv1 obs assms(2) by auto
  next
    case 2
    then have "bucket_ok (bus_opts b1) (unat (counter b1)) key ?k'"
      using ok by (auto simp: bucket_ok_def)
    then have "bus_inv b'"
      using set_bucket_inv[OF inv1 l] 2(2) by blast
    moreover have "b_ch ?k = pending b key" "b_handlers ?k = subs b key"
      using lookup_observe[OF l] obs(1,2) by simp_all
    ultimately show ?thesis
      using set_bucket_observe[OF inv1 l, of ?k'] 2 obs assms(2) False by simp
  qed
qed


section \<open>Subscriptions as an interface\<close>

text \<open>
  What a client of the bus relies on: a table of subscriptions per event name to which \<open>sub\<close> adds
  an entry under a new token and from which \<open>unsub\<close> takes the entry of a token. \<open>quota\<close> is how
  many tokens are left.
\<close>

fun sub_all :: "(string \<Rightarrow> 'h \<Rightarrow> 's \<Rightarrow> (string \<times> 's) option) \<Rightarrow> string \<Rightarrow> 'h list \<Rightarrow> 's \<Rightarrow> (string list \<times> 's) option" where
  "sub_all sub name [] s = Some ([], s)"
| "sub_all sub name (h # hs) s =
     (case sub name h s of
        None \<Rightarrow> None
      | Some (tok, s') \<Rightarrow> map_option (\<lambda>(toks, s''). (tok # toks, s'')) (sub_all sub name hs s'))"

fun unsub_all :: "(string \<Rightarrow> string \<Rightarrow> 's \<Rightarrow> 's option) \<Rightarrow> string \<Rightarrow> string list \<Rightarrow> 's \<Rightarrow> 's option" where
  "unsub_all unsub name [] s = Some s"
| "unsub_all unsub name (tok # toks) s =
     (case unsub name tok s of None \<Rightarrow> None | Some s' \<Rightarrow> unsub_all unsub name toks s')"

locale subscriptions =
  fixes inv :: "'s \<Rightarrow> bool" and quota :: "'s \<Rightarrow> nat" and norm :: "string \<Rightarrow> string"
    and table :: "'s \<Rightarrow> string \<Rightarrow> (string \<times> 'h) list"
    and sub :: "string \<Rightarrow> 'h \<Rightarrow> 's \<Rightarrow> (string \<times> 's) option"
    and unsub :: "string \<Rightarrow> string \<Rightarrow> 's \<Rightarrow> 's option"
  assumes sub_law: "inv s \<Longrightarrow> 0 < quota s \<Longrightarrow> norm name \<noteq> [] \<Longrightarrow>
      \<exists>tok s'. sub name h s = Some (tok, s') \<and> inv s' \<and> quota s = Suc (quota s') \<and> tok \<noteq> []
        \<and> tok \<notin> fst ` set (table s (norm name))
        \<and> table s' = (table s)(norm name := table s (norm name) @ [(tok, h)])"
    and unsub_law: "inv s \<Longrightarrow> norm name \<noteq> [] \<Longrightarrow> tok \<noteq> [] \<Longrightarrow>
      \<exists>s'. unsub name tok s = Some s' \<and> inv s' \<and> quota s' = quota s
        \<and> table s' = (table s)(norm name := AList.delete tok (table s (norm name)))"
begin

lemma sub_all_adds:
  assumes "inv s" "length hs \<le> quota s" "norm name \<noteq> []"
  shows "\<exists>toks s'. sub_all sub name hs s = Some (toks, s') \<and> inv s' \<and> length toks = length hs \<and> [] \<notin> set toks
           \<and> distinct toks \<and> set toks \<inter> fst ` set (table s (norm name)) = {}
           \<and> table s' = (table s)(norm name := table s (norm name) @ zip toks hs)"
  using assms(1,2)
proof (induction hs arbitrary: s)
  case Nil
  then show ?case by auto
next
  case (Cons h hs)
  obtain tok s1 where s1: "sub name h s = Some (tok, s1)" "inv s1" "quota s = Suc (quota s1)" "tok \<noteq> []"
    "tok \<notin> fst ` set (table s (norm name))" "table s1 = (table s)(norm name := table s (norm name) @ [(tok, h)])"
    using sub_law[OF Cons.prems(1) _ assms(3)] Cons.prems(2) by fastforce
  then have "length hs \<le> quota s1" using Cons.prems(2) by simp
  from Cons.IH[OF s1(2) this]
  obtain toks s' where "sub_all sub name hs s1 = Some (toks, s')" "inv s'" "length toks = length hs" "[] \<notin> set toks"
    "distinct toks" "set toks \<inter> fst ` set (table s1 (norm name)) = {}"
    "table s' = (table s1)(norm name := table s1 (norm name) @ zip toks hs)"
    by blast
  then show ?case
    using s1 by (intro exI[of _ "tok # toks"] exI[of _ s']) auto
qed

lemma unsub_all_removes:
  assumes "inv s" "norm name \<noteq> []" "[] \<notin> set toks"
  shows "\<exists>s'. unsub_all unsub name toks s = Some s' \<and> inv s' \<and> quota s' = quota s
           \<and> table s' = (table s)(norm name := filter (\<lambda>e. fst e \<notin> set toks) (table s (norm name)))"
  using assms(1,3)
proof (induction toks arbitrary: s)
  case Nil
  then show ?case by simp
next
  case (Cons tok toks)
  have "tok \<noteq> []" using Cons.prems(2) by auto
  then obtain s1 where s1: "unsub name tok s = Some s1" "inv s1" "quota s1 = quota s"
    "table s1 = (table s)(norm name := AList.delete tok (table s (norm name)))"
    using unsub_law[OF Cons.prems(1) assms(2)] by blast
  obtain s' where "unsub_all unsub name toks s1 = Some s'" "inv s'" "quota s' = quota s1"
    "table s' = (table s1)(norm name := filter (\<lambda>e. fst e \<notin> set toks) (table s1 (norm name)))"
    using Cons.IH[OF s1(2)] Cons.prems(2) by fastforce
  then show ?case
    using s1 by (simp add: filter_delete fun_eq_iff)
qed

text \<open>Cancelling subscriptions in any order undoes them, whatever spelling of the name is used.\<close>

lemma sub_unsub_all:
  assumes "inv s" "length hs \<le> quota s" "norm name \<noteq> []" "norm name' = norm name"
    and "sub_all sub name hs s = Some (toks, s1)" "set toks' = set toks"
  shows "\<exists>s'. unsub_all unsub name' toks' s1 = Some s' \<and> inv s' \<and> table s' = table s"
proof -
  obtain a: "inv s1" "[] \<notin> set toks" "set toks \<inter> fst ` set (table s (norm name)) = {}"
      "length toks = length hs" "table s1 = (table s)(norm name := table s (norm name) @ zip toks hs)"
    using sub_all_adds[OF assms(1-3)] assms(5) by auto
  obtain s' where s': "unsub_all unsub name' toks' s1 = Some s'" "inv s'"
    "table s' = (table s1)(norm name := filter (\<lambda>e. fst e \<notin> set toks) (table s1 (norm name)))"
    using unsub_all_removes[OF a(1), of name' toks'] a(2) assms(3,4,6) by auto
  have "filter (\<lambda>e. fst e \<notin> set toks) (table s (norm name)) = table s (norm name)"
    using a(3) by (auto simp: filter_id_conv)
  moreover have "filter (\<lambda>e. fst e \<notin> set toks) (zip toks hs) = []"
    by (auto simp: filter_empty_conv dest: set_zip_leftD)
  ultimately have "table s' = table s"
    using s'(3) a(5) by simp
  then show ?thesis
    using s' by blast
qed

end

definition bus_sub :: "(string \<Rightarrow> string) \<Rightarrow> string \<Rightarrow> 'h \<Rightarrow> ('h, 'd, 'x) bus_scheme \<Rightarrow> (string \<times> ('h, 'd, 'x) bus_scheme) option" where
  "bus_sub ulow name h b = (case Subscribe ulow name (Some h) b of Some (Ret p) \<Rightarrow> Some p | _ \<Rightarrow> None)"

interpretation bus_subs: subscriptions "\<lambda>b. bus_inv b \<and> \<not> closed b" "\<lambda>b. 2 ^ 64 - 1 - unat (counter b)"
  "normalize_name ulow" subs "bus_sub ulow" "Unsubscribe ulow" for ulow
proof (unfold_locales, goal_cases)
  case (1 s name h)
  then have "unat (counter s) + 1 < 2 ^ 64" by simp
  with 1 show ?case
    using Subscribe_open[of s ulow name h] by (fastforce simp: bus_sub_def)
next
  case (2 s name tok)
  then show ?case
    using Unsubscribe_open[of s ulow name tok] by fastforce
qed


section \<open>Dispatching\<close>

text \<open>Handlers that only leave a mark of each call, and may panic after it.\<close>

record ('h, 'd) traced_bus = "('h, 'd) bus" +
  calls :: "('h \<times> 'd Event) list"

lemma calls_observe [simp]:
  "lookup k (b\<lparr>calls := c\<rparr>) = lookup k b" "subs (b\<lparr>calls := c\<rparr>) = subs b" "pending (b\<lparr>calls := c\<rparr>) = pending b"
  "bus_inv (b\<lparr>calls := c\<rparr>) = bus_inv b"
  by (simp_all add: lookup_def subs_def pending_def bus_inv_def fun_eq_iff cong: option.case_cong)

definition marking :: "('h \<Rightarrow> 'd Event \<Rightarrow> bool) \<Rightarrow> 'h \<Rightarrow> 'd Event \<Rightarrow> ('h, 'd) traced_bus \<Rightarrow> (('h, 'd) traced_bus \<times> bool) option" where
  "marking pan h ev b = Some (b\<lparr>calls := calls b @ [(h, ev)]\<rparr>, pan h ev)"

text \<open>Handlers of which one subscribes to an event again, the others do nothing to the bus.\<close>

definition resubscribing ::
  "(string \<Rightarrow> string) \<Rightarrow> 'h \<Rightarrow> string \<Rightarrow> 'h \<Rightarrow> 'd Event \<Rightarrow> ('h, 'd) bus \<Rightarrow> (('h, 'd) bus \<times> bool) option" where
  "resubscribing ulow h0 name h ev b =
     (if h = h0
      then (case Subscribe ulow name (Some h0) b of
              None \<Rightarrow> None | Some Panic \<Rightarrow> Some (b, True) | Some (Ret (tok, b')) \<Rightarrow> Some (b', False))
      else Some (b, False))"

lemma dispatch_each_marking:
  assumes "set order \<subseteq> fst ` set hs" "b_handlers (bheap b r) = hs"
  shows "dispatch_each (marking pan) r ev order b =
     Some (b\<lparr>calls := calls b @ map (\<lambda>t. (the (map_of hs t), ev)) order\<rparr>)"
  using assms
proof (induction order arbitrary: b)
  case (Cons tok order)
  then obtain h where "map_of hs tok = Some h"
    by (metis (no_types, lifting) list.set_intros(1) map_of_eq_None_iff not_Some_eq subset_iff)
  then show ?case
    using Cons by (simp add: marking_def)
qed simp

lemma RUnlock_RLock:
  "bheap b' = bheap (RLock r b) \<Longrightarrow> RUnlock r b' = b'\<lparr>bheap := bheap b\<rparr>"
  by (simp add: RUnlock_def RLock_def)

lemma Subscribe_read_locked:
  assumes "lookup (normalize_name ulow name) b = Some r" "b_readers (bheap b r) > 0" "\<not> closed b"
    and "normalize_name ulow name \<noteq> []"
  shows "Subscribe ulow name (Some h) b = None"
  using assms by (simp add: Subscribe_def subscribe_rest_def getOrCreateBucket_def addHandler_def Let_def)

lemma dispatch_each_resubscribing:
  assumes "lookup (normalize_name ulow name) b = Some r" "b_readers (bheap b r) > 0" "\<not> closed b"
    and "normalize_name ulow name \<noteq> []" "tok \<in> set order" "map_of (b_handlers (bheap b r)) tok = Some h"
  shows "dispatch_each (resubscribing ulow h name) r ev order b = None"
  using assms(5)
proof (induction order)
  case (Cons t order)
  show ?case
  proof (cases "map_of (b_handlers (bheap b r)) t = Some h")
    case True
    then show ?thesis
      using Subscribe_read_locked[OF assms(1-4)] by (simp add: resubscribing_def)
  next
    case False
    then have "tok \<in> set order" using Cons.prems assms(6) by auto
    from Cons.IH[OF this] False show ?thesis
      by (auto simp: resubscribing_def split: option.splits)
  qed
qed simp


section \<open>The bus as a transition system\<close>

text \<open>
  Any interleaving of publishers, subscribers, workers and \<open>Close\<close>, with the events that were
  accepted and those that workers took, per event name. Handlers do not use the bus, so a
  dispatch leaves it as it was.
\<close>

record ('h, 'd) bus_run =
  rbus :: "('h, 'd) bus"
  published :: "string \<Rightarrow> 'd Event list"
  consumed :: "string \<Rightarrow> 'd Event list"

inductive bus_step :: "(string \<Rightarrow> string) \<Rightarrow> ('h, 'd) bus_run \<Rightarrow> ('h, 'd) bus_run \<Rightarrow> bool" for ulow where
  pub: "Ret (e, b') \<in> set (Publish ulow ctx_err name dat meta now (rbus s)) \<Longrightarrow> key = normalize_name ulow name \<Longrightarrow>
     bus_step ulow s (s\<lparr>rbus := b', published := (if e = None \<and> key \<noteq> []
       then (published s)(key := published s key @
         [\<lparr>evt_Name = key, evt_Data = dat, evt_Meta = meta, evt_Time = now\<rparr>]) else published s)\<rparr>)"
| sub: "Subscribe ulow name h (rbus s) = Some (Ret (tok, b')) \<Longrightarrow> bus_step ulow s (s\<lparr>rbus := b'\<rparr>)"
| unsub: "Unsubscribe ulow name tok (rbus s) = Some b' \<Longrightarrow> bus_step ulow s (s\<lparr>rbus := b'\<rparr>)"
| take: "lookup key (rbus s) = Some r \<Longrightarrow> loop_take (bheap (rbus s) r) = Some (ev, bkt) \<Longrightarrow>
     bus_step ulow s (s\<lparr>rbus := set_bucket r bkt (rbus s), consumed := (consumed s)(key := consumed s key @ [ev])\<rparr>)"
| close: "bus_step ulow s (s\<lparr>rbus := bus_Close (rbus s)\<rparr>)"

inductive bus_reachable :: "(string \<Rightarrow> string) \<Rightarrow> bus_Options \<Rightarrow> nat \<Rightarrow> ('h, 'd) bus_run \<Rightarrow> bool" for ulow opts where
  new: "bus_reachable ulow opts 0 \<lparr>rbus = bus_New opts, published = (\<lambda>_. []), consumed = (\<lambda>_. [])\<rparr>"
| step: "bus_reachable ulow opts n s \<Longrightarrow> bus_step ulow s s' \<Longrightarrow> bus_reachable ulow opts (Suc n) s'"

inductive_cases bus_stepE: "bus_step ulow s s'"

definition buffer_size :: "bus_Options \<Rightarrow> int" where
  "buffer_size opts = (if DefaultBuffer opts \<le> 0 then 64 else DefaultBuffer opts)"

definition run_ok :: "bus_Options \<Rightarrow> nat \<Rightarrow> ('h, 'd) bus_run \<Rightarrow> bool" where
  "run_ok opts n s =
     (bus_inv (rbus s) \<and> unat (counter (rbus s)) \<le> n \<and> DefaultBuffer (bus_opts (rbus s)) = buffer_size opts
      \<and> (\<not> closed (rbus s) \<longrightarrow> (\<forall>k. published s k = consumed s k @ pending (rbus s) k)))"

lemma bus_New_buffer: "DefaultBuffer (bus_opts (bus_New opts)) = buffer_size opts"
  by (simp add: bus_New_def buffer_size_def Let_def)

lemma getOrCreateBucket_opts: "getOrCreateBucket k b = Ret (r, b1) \<Longrightarrow> bus_opts b1 = bus_opts b"
  by (auto simp: getOrCreateBucket_def split: option.splits outcome.splits)

lemma Publish_opts: "Ret (e, b') \<in> set (Publish ulow ctx_err name dat meta now b) \<Longrightarrow> bus_opts b' = bus_opts b"
  by (auto simp: Publish_def publish_rest_def Let_def dest!: getOrCreateBucket_opts
      split: if_splits outcome.splits option.splits)

lemma Subscribe_opts: "Subscribe ulow name h b = Some (Ret (tok, b')) \<Longrightarrow> bus_opts b' = bus_opts b"
  by (auto simp: Subscribe_def subscribe_rest_def Let_def dest!: getOrCreateBucket_opts
      split: if_splits outcome.splits option.splits)

lemma Unsubscribe_opts: "Unsubscribe ulow name tok b = Some b' \<Longrightarrow> bus_opts b' = bus_opts b"
  by (auto simp: Unsubscribe_def Let_def split: if_splits option.splits)

lemma closed_lookup: "bus_inv b \<Longrightarrow> closed b \<Longrightarrow> lookup k b = None"
  by (simp add: bus_inv_def lookup_def)

lemma closed_ops:
  assumes "closed b"
  shows "Publish ulow ctx_err name dat meta now b = [Ret (Some (Err ''eventbus closed''), b)]"
    and "Subscribe ulow name h b = Some (Ret ([], b))"
    and "PublishSync run order ulow name dat meta now b = Some (Ret b)"
  using assms by (simp_all add: Publish_def Subscribe_def PublishSync_def)

lemma Unsubscribe_trivial:
  "normalize_name ulow name = [] \<or> tok = [] \<or> lookup (normalize_name ulow name) b = None \<Longrightarrow> Unsubscribe ulow name tok b = Some b"
  by (auto simp: Unsubscribe_def Let_def)

lemma bus_Close_inv: "bus_inv b \<Longrightarrow> bus_inv (bus_Close b)"
  by (cases "closed b") (simp_all add: bus_Close_def bus_inv_def lookup_def)

lemma run_ok_pub:
  assumes "run_ok opts n s" "Ret (e, b') \<in> set (Publish ulow ctx_err name dat meta now (rbus s))"
    and "key = normalize_name ulow name"
  shows "run_ok opts n (s\<lparr>rbus := b', published := (if e = None \<and> key \<noteq> []
       then (published s)(key := published s key @
         [\<lparr>evt_Name = key, evt_Data = dat, evt_Meta = meta, evt_Time = now\<rparr>]) else published s)\<rparr>)"
proof (cases "closed (rbus s)")
  case True
  then show ?thesis
    using assms closed_ops(1)[OF True] by (auto simp: run_ok_def)
next
  case False
  with assms(1) have "bus_inv (rbus s)" by (simp add: run_ok_def)
  from Publish_open[OF this False assms(2)] show ?thesis
    using assms(1,3) Publish_opts[OF assms(2)] False by (auto simp: run_ok_def)
qed

lemma run_ok_sub:
  assumes "run_ok opts n s" "n + 1 < 2 ^ 64" "Subscribe ulow name h (rbus s) = Some (Ret (tok, b'))"
  shows "run_ok opts (Suc n) (s\<lparr>rbus := b'\<rparr>)"
proof (cases "closed (rbus s) \<or> h = None \<or> normalize_name ulow name = []")
  case True
  then have "b' = rbus s"
    using assms(3) by (auto simp: Subscribe_def subscribe_rest_def split: if_splits option.splits)
  then show ?thesis
    using assms(1) by (auto simp: run_ok_def)
next
  case False
  then obtain hh where h: "h = Some hh" by auto
  have inv: "bus_inv (rbus s)" and "unat (counter (rbus s)) + 1 < 2 ^ 64"
    using assms(1,2) by (auto simp: run_ok_def)
  then show ?thesis
    using Subscribe_open[OF inv, of ulow name hh] assms(1,3) Subscribe_opts[OF assms(3)] False h
    by (auto simp: run_ok_def)
qed

lemma run_ok_unsub:
  assumes "run_ok opts n s" "Unsubscribe ulow name tok (rbus s) = Some b'"
  shows "run_ok opts n (s\<lparr>rbus := b'\<rparr>)"
proof (cases "normalize_name ulow name = [] \<or> tok = []")
  case True
  then show ?thesis
    using assms Unsubscribe_trivial[of ulow name tok "rbus s"] by (auto simp: run_ok_def)
next
  case False
  then show ?thesis
    using Unsubscribe_open[of "rbus s" ulow name tok] Unsubscribe_opts[OF assms(2)] assms
    by (auto simp: run_ok_def)
qed

lemma run_ok_take:
  assumes "run_ok opts n s" "lookup key (rbus s) = Some r" "loop_take (bheap (rbus s) r) = Some (ev, bkt)"
  shows "run_ok opts n (s\<lparr>rbus := set_bucket r bkt (rbus s), consumed := (consumed s)(key := consumed s key @ [ev])\<rparr>)"
proof -
  have inv: "bus_inv (rbus s)" using assms(1) by (simp add: run_ok_def)
  have bkt: "b_ch (bheap (rbus s) r) = ev # b_ch bkt" "bkt = (bheap (rbus s) r)\<lparr>b_ch := b_ch bkt\<rparr>"
    using assms(3) by (auto simp: loop_take_def split: list.splits)
  have "bucket_ok (bus_opts (rbus s)) (unat (counter (rbus s))) key (bheap (rbus s) r)"
    using lookup_bucket_ok[OF inv assms(2)] by blast
  then have "bucket_ok (bus_opts (rbus s)) (unat (counter (rbus s))) key bkt"
    using bkt(1) by (subst bkt(2)) (simp add: bucket_ok_def)
  from set_bucket_inv[OF inv assms(2) this] show ?thesis
    using assms(1) set_bucket_observe(2)[OF inv assms(2), of bkt] lookup_observe[OF assms(2)] bkt(1)
    by (auto simp: run_ok_def)
qed

lemma run_ok_step:
  assumes "bus_step ulow s s'" "run_ok opts n s" "n + 1 < 2 ^ 64"
  shows "run_ok opts (Suc n) s'"
proof -
  have mono: "run_ok opts n t \<Longrightarrow> run_ok opts (Suc n) t" for t :: "('a, 'b) bus_run"
    by (auto simp: run_ok_def)
  from assms(1) show ?thesis
  proof cases
    case pub
    then show ?thesis using mono run_ok_pub[OF assms(2)] by metis
  next
    case sub
    then show ?thesis using run_ok_sub[OF assms(2,3)] by metis
  next
    case unsub
    then show ?thesis using mono run_ok_unsub[OF assms(2)] by metis
  next
    case take
    then show ?thesis using mono run_ok_take[OF assms(2)] by metis
  next
    case close
    then show ?thesis
      using assms(2) bus_Close_inv[of "rbus s"] by (auto simp: run_ok_def bus_Close_def)
  qed
qed

lemma reachable_run_ok: "bus_reachable ulow opts n s \<Longrightarrow> n < 2 ^ 64 \<Longrightarrow> run_ok opts n s"
proof (induction rule: bus_reachable.induct)
  case new
  then show ?case
    by (simp add: run_ok_def bus_New_inv bus_New_buffer)
next
  case (step n s s')
  then show ?case using run_ok_step[OF step(2)] by simp
qed


section \<open>Properties\<close>

text \<open>
  C29. Events are taken in the order they were published. In every state that fewer than
  \<open>2 ^ 64\<close> steps of publishers, subscribers and workers reach on a bus that is not closed, the
  events accepted under a name are those its workers have taken, followed by those that wait
  in its queue, in the order of publication: none is lost, doubled, reordered or mixed with
  those of another name. No queue exceeds the buffer, and the tokens of an event are distinct.
\<close>

theorem events_taken_in_order:
  assumes "bus_reachable ulow opts n s" "n < 2 ^ 64" "\<not> closed (rbus s)"
  shows "published s k = consumed s k @ pending (rbus s) k
       \<and> int (length (pending (rbus s) k)) \<le> buffer_size opts \<and> distinct (map fst (subs (rbus s) k))"
proof -
  note ok = reachable_run_ok[OF assms(1,2), unfolded run_ok_def]
  have "int (length (pending (rbus s) k)) \<le> buffer_size opts \<and> distinct (map fst (subs (rbus s) k))"
  proof (cases "lookup k (rbus s)")
    case None
    then show ?thesis by (simp add: pending_def subs_def buffer_size_def)
  next
    case (Some r)
    then show ?thesis
      using ok lookup_bucket_ok[OF _ Some] by (auto simp: pending_def subs_def bucket_ok_def)
  qed
  then show ?thesis
    using ok assms(3) by blast
qed

text \<open>
  C30. A subscription lasts until it is cancelled. On an open bus each \<open>Subscribe\<close> of a handler
  to a non-blank name adds that handler under a token no other subscription of the event has
  and changes nothing else; cancelling a number of subscriptions by their tokens, in any order
  and under any spelling of the name, leaves exactly the subscriptions there were before.
\<close>

theorem subscriptions_last_until_cancelled:
  assumes "bus_inv b" "\<not> closed b" "unat (counter b) + length hs < 2 ^ 64" "normalize_name ulow name \<noteq> []"
    and "normalize_name ulow name' = normalize_name ulow name"
  defines "key \<equiv> normalize_name ulow name"
  shows "\<exists>toks b1. sub_all (bus_sub ulow) name hs b = Some (toks, b1) \<and> length toks = length hs \<and> distinct toks
           \<and> subs b1 = (subs b)(key := subs b key @ zip toks hs)
           \<and> (\<forall>toks'. set toks' = set toks \<longrightarrow>
                (\<exists>b2. unsub_all (Unsubscribe ulow) name' toks' b1 = Some b2 \<and> subs b2 = subs b))"
proof -
  have q: "length hs \<le> 2 ^ 64 - 1 - unat (counter b)"
    using assms(3) by simp
  from bus_subs.sub_all_adds[of b hs ulow name] assms(1,2,4) q
  obtain toks b1 where "sub_all (bus_sub ulow) name hs b = Some (toks, b1)" "length toks = length hs" "distinct toks"
    "subs b1 = (subs b)(key := subs b key @ zip toks hs)"
    unfolding key_def by blast
  moreover from this have "\<exists>b2. unsub_all (Unsubscribe ulow) name' toks' b1 = Some b2 \<and> subs b2 = subs b"
    if "set toks' = set toks" for toks'
    using bus_subs.sub_unsub_all[of b hs ulow name name' toks b1 toks'] assms(1,2,4,5) q that by blast
  ultimately show ?thesis by blast
qed

text \<open>
  A synchronous publication calls every subscriber once. Whichever order the map is ranged
  over in, each subscription of the event is called exactly once with the event, also when
  others panic, the panics do not reach the publisher, and the bus keeps its subscriptions.
\<close>

theorem publish_sync_calls_each_subscriber:
  fixes b :: "('h, 'd) traced_bus" and dat :: 'd and meta :: "string \<rightharpoonup> 'd" and now :: int
  assumes "bus_inv b" "\<not> closed b" "normalize_name ulow name \<noteq> []"
    and "distinct order" "set order = fst ` set (subs b (normalize_name ulow name))"
  defines "key \<equiv> normalize_name ulow name"
  defines "ev \<equiv> \<lparr>evt_Name = key, evt_Data = dat, evt_Meta = meta, evt_Time = now\<rparr>"
  shows "\<exists>b'. PublishSync (marking pan) order ulow name dat meta now b = Some (Ret b') \<and> bus_inv b'
           \<and> subs b' = subs b \<and> pending b' = pending b
           \<and> calls b' = calls b @ map (\<lambda>t. (the (map_of (subs b key) t), ev)) order
           \<and> length order = length (subs b key)"
proof -
  obtain r b1 where g: "getOrCreateBucket key b = Ret (r, b1)" and inv1: "bus_inv b1" and l: "lookup key b1 = Some r"
    and obs: "subs b1 = subs b" "pending b1 = pending b" "b1 = b\<lparr>buckets := buckets b1, bheap := bheap b1, bnext := bnext b1\<rparr>"
    using getOrCreateBucket_open[OF assms(1-3)] unfolding key_def by metis
  have hs: "b_handlers (bheap (RLock r b1) r) = subs b key" "b_handlers (bheap b1 r) = subs b key"
    using lookup_observe[OF l] obs(1) by (simp_all add: RLock_def)
  have "distinct (map fst (subs b key))"
    using lookup_bucket_ok[OF inv1 l] hs(2) by (simp add: bucket_ok_def)
  then have len: "length order = length (subs b key)"
    using assms(4,5) unfolding key_def by (metis distinct_card length_map list.set_map)
  let ?c = "calls b @ map (\<lambda>t. (the (map_of (subs b key) t), ev)) order"
  have "calls (RLock r b1) = calls b"
    by (subst obs(3)) (simp add: RLock_def)
  then have "dispatch_each (marking pan) r ev order (RLock r b1) = Some ((RLock r b1)\<lparr>calls := ?c\<rparr>)"
    using dispatch_each_marking[OF _ hs(1), of order pan ev] assms(5) by (simp add: key_def)
  then have "bucket_dispatch (marking pan) order r ev b1 = Some (b1\<lparr>calls := ?c\<rparr>)"
    by (simp add: bucket_dispatch_def RUnlock_RLock[of _ r b1]) (simp add: RLock_def)
  then have "PublishSync (marking pan) order ulow name dat meta now b = Some (Ret (b1\<lparr>calls := ?c\<rparr>))"
    using g assms(2,3) by (simp add: PublishSync_def key_def ev_def Let_def)
  moreover have "bus_inv (b1\<lparr>calls := ?c\<rparr>)" "subs (b1\<lparr>calls := ?c\<rparr>) = subs b" "pending (b1\<lparr>calls := ?c\<rparr>) = pending b"
    using inv1 obs(1,2) by simp_all
  ultimately show ?thesis
    using len by fastforce
qed

text \<open>
  A handler must not subscribe to its own event. The handlers run under the bucket's read
  lock and \<open>Subscribe\<close> needs its write lock, so that a synchronous publication that reaches
  a handler which subscribes to the event, under whatever spelling, never returns.
\<close>

theorem reentrant_subscription_deadlocks:
  assumes "bus_inv b" "\<not> closed b" "normalize_name ulow name \<noteq> []" "normalize_name ulow name' = normalize_name ulow name"
    and "(tok, h) \<in> set (subs b (normalize_name ulow name))" "tok \<in> set order"
  shows "PublishSync (resubscribing ulow h name') order ulow name dat meta now b = None"
proof -
  define key where "key = normalize_name ulow name"
  obtain r where l: "lookup key b = Some r"
    using assms(5) by (cases "lookup key b") (simp_all add: subs_def key_def)
  have ok: "bucket_ok (bus_opts b) (unat (counter b)) key (bheap b r)"
    using lookup_bucket_ok[OF assms(1) l] by blast
  then have "map_of (b_handlers (bheap b r)) tok = Some h"
    using assms(5) lookup_observe[OF l] by (auto simp: bucket_ok_def key_def in_set_map_of[symmetric])
  then have "dispatch_each (resubscribing ulow h name') r ev order (RLock r b) = None" for ev
    using l assms(2-4,6) dispatch_each_resubscribing[of ulow name' "RLock r b" r tok order h ev]
    by (simp add: RLock_def key_def)
  then show ?thesis
    using l assms(2,3)
    by (simp add: PublishSync_def key_def Let_def getOrCreateBucket_def bucket_dispatch_def)
qed

text \<open>
  Closing while others use the bus. After \<open>Close\<close>, publications and subscriptions are
  refused without effect. But a \<open>Publish\<close> or a \<open>Subscribe\<close> that has passed the test of \<open>closed\<close>
  before \<open>Close\<close> runs writes to the nil map that \<open>Close\<close> left, which is a run-time panic.
\<close>

theorem close_races_with_publish:
  assumes "key \<noteq> []" "\<not> closed b"
  shows "Publish ulow ctx_err name dat meta now (bus_Close b) = [Ret (Some (Err ''eventbus closed''), bus_Close b)]
       \<and> Subscribe ulow name h (bus_Close b) = Some (Ret ([], bus_Close b))
       \<and> publish_rest ctx_err key dat meta now (bus_Close b) = [Panic]
       \<and> subscribe_rest key hh (bus_Close b) = Some Panic"
proof -
  have c: "closed (bus_Close b)" "buckets (bus_Close b) = None"
    using assms(2) by (simp_all add: bus_Close_def)
  have "getOrCreateBucket key (bus_Close b) = Panic"
    using c(2) by (auto simp: getOrCreateBucket_def lookup_def split: outcome.splits)
  then show ?thesis
    using assms(1) closed_ops[OF c(1)] by (simp add: publish_rest_def subscribe_rest_def)
qed


section \<open>Witnesses\<close>

definition ex_bus :: "(nat, nat) bus" where
  "ex_bus = bus_New \<lparr>DefaultBuffer = 0, DefaultWorkers = 0\<rparr>"

lemma lower_ready: "map lower_char ''Ready'' = ''ready''" "map lower_char ''ready'' = ''ready''"
  by code_simp+

lemma normalize_ready: "normalize_name ulow ''Ready'' = ''ready''" "normalize_name ulow ''ready'' = ''ready''"
proof -
  have "TrimSpace ''Ready'' = ''Ready''" "TrimSpace ''ready'' = ''ready''"
    by (rule TrimSpace_graphic, simp add: graphic_def)+
  then show "normalize_name ulow ''Ready'' = ''ready''" "normalize_name ulow ''ready'' = ''ready''"
    using lower_ready by (simp_all add: normalize_name_def ToLower_def is_ascii_def del: list.map)
qed

lemma ex_bus_ready: "bus_inv ex_bus" "\<not> closed ex_bus" "counter ex_bus = 0" "subs ex_bus k = []"
  by (simp_all add: ex_bus_def bus_New_inv)

theorem subscriptions_last_until_cancelled_witness:
  "\<exists>toks b1. sub_all (bus_sub id) ''Ready'' [3, 4] ex_bus = Some (toks, b1) \<and> distinct toks
     \<and> (\<exists>b2. unsub_all (Unsubscribe id) ''ready'' (rev toks) b1 = Some b2 \<and> subs b2 = subs ex_bus)"
proof -
  have "unat (counter ex_bus) + length [3, 4 :: nat] < 2 ^ 64" "normalize_name id ''Ready'' \<noteq> []"
    "normalize_name id ''ready'' = normalize_name id ''Ready''"
    by (simp_all add: ex_bus_ready normalize_ready)
  from subscriptions_last_until_cancelled[OF ex_bus_ready(1,2) this]
  show ?thesis by (metis set_rev)
qed

text \<open>A bus with one subscription.\<close>

definition ex_subscribed :: "(nat, nat) bus" where
  "ex_subscribed = \<lparr>buckets = Some [(''ready'', 0)],
     bheap = (\<lambda>_. zero_bucket\<lparr>b_cap := 64, b_handlers := [(token_of ''ready'' 1, 3)], b_workers := 1\<rparr>), bnext = 1,
     bus_opts = \<lparr>DefaultBuffer = 64, DefaultWorkers = 1\<rparr>, closed = False, counter = 1\<rparr>"

definition ex_traced :: "(nat, nat) traced_bus" where
  "ex_traced = bus.extend ex_subscribed \<lparr>calls = []\<rparr>"

lemma ex_subscribed_ok: "bus_inv ex_subscribed" "\<not> closed ex_subscribed" "subs ex_subscribed ''ready'' = [(token_of ''ready'' 1, 3)]"
  by (auto simp: ex_subscribed_def bus_inv_def lookup_def subs_def bucket_ok_def zero_bucket_def split: if_splits)

lemma ex_traced_ok: "bus_inv ex_traced" "\<not> closed ex_traced" "subs ex_traced ''ready'' = [(token_of ''ready'' 1, 3)]"
  "calls ex_traced = []"
  by (auto simp: ex_traced_def ex_subscribed_def bus.defs bus_inv_def lookup_def subs_def bucket_ok_def zero_bucket_def
      split: if_splits)

theorem publish_sync_calls_each_subscriber_witness:
  "\<exists>b'. PublishSync (marking (\<lambda>_ _. True)) [token_of ''ready'' 1] id ''Ready'' 7 Map.empty 0 ex_traced = Some (Ret b')
     \<and> calls b' = [(3, \<lparr>evt_Name = ''ready'', evt_Data = 7, evt_Meta = Map.empty, evt_Time = 0\<rparr>)]"
proof -
  have "normalize_name id ''Ready'' \<noteq> []" "distinct [token_of ''ready'' 1]"
    "set [token_of ''ready'' 1] = fst ` set (subs ex_traced (normalize_name id ''Ready''))"
    by (simp_all add: normalize_ready ex_traced_ok)
  from publish_sync_calls_each_subscriber[OF ex_traced_ok(1,2) this, of "\<lambda>_ _. True" 7 Map.empty 0]
  show ?thesis
    by (auto simp: normalize_ready ex_traced_ok)
qed

theorem reentrant_subscription_deadlocks_witness:
  "PublishSync (resubscribing id 3 ''ready'') [token_of ''ready'' 1] id ''Ready'' 7 Map.empty 0 ex_subscribed = None"
  using reentrant_subscription_deadlocks[OF ex_subscribed_ok(1,2), of id "''Ready''" "''ready''" "token_of ''ready'' 1" 3]
  by (simp add: normalize_ready ex_subscribed_ok)

theorem events_taken_in_order_witness:
  "\<exists>s :: (nat, nat) bus_run. bus_reachable id \<lparr>DefaultBuffer = 0, DefaultWorkers = 0\<rparr> 1 s
     \<and> map evt_Data (consumed s ''ready'' @ pending (rbus s) ''ready'') = [7]"
proof -
  let ?o = "\<lparr>DefaultBuffer = 0, DefaultWorkers = 0\<rparr>"
  let ?ev = "\<lparr>evt_Name = ''ready'', evt_Data = 7, evt_Meta = Map.empty, evt_Time = 0\<rparr> :: nat Event"
  let ?s0 = "\<lparr>rbus = ex_bus, published = (\<lambda>_. []), consumed = (\<lambda>_. [])\<rparr>"
  obtain b' where p: "Ret (None, b') \<in> set (Publish id None ''Ready'' 7 Map.empty 0 ex_bus)"
    by (simp add: Publish_def publish_rest_def normalize_ready getOrCreateBucket_def ex_bus_def bus_New_def
        lookup_def newBucket_def Let_def)
  have "bus_step id ?s0 \<lparr>rbus = b', published = (\<lambda>_. [])(''ready'' := [?ev]), consumed = (\<lambda>_. [])\<rparr>"
    using bus_step.pub[of None b' id None "''Ready''" 7 Map.empty 0 ?s0, OF _ refl] p by (simp add: normalize_ready)
  then have r: "bus_reachable id ?o 1 \<lparr>rbus = b', published = (\<lambda>_. [])(''ready'' := [?ev]), consumed = (\<lambda>_. [])\<rparr>"
    using bus_reachable.step[OF bus_reachable.new] by (simp add: ex_bus_def)
  have "\<not> closed b'"
    using Publish_open[OF ex_bus_ready(1,2) p] by simp
  then have "pending b' ''ready'' = [?ev]"
    using events_taken_in_order[OF r, of "''ready''"] by simp
  then have "map evt_Data (pending b' ''ready'') = [7]"
    by simp
  then show ?thesis
    using r by (intro exI conjI) (assumption, simp)
qed

theorem close_races_with_publish_witness:
  "publish_rest None ''ready'' 7 Map.empty 0 (bus_Close ex_bus) = [Panic]
   \<and> Publish id None ''ready'' 7 Map.empty 0 (bus_Close ex_bus) = [Ret (Some (Err ''eventbus closed''), bus_Close ex_bus)]"
  using close_races_with_publish[OF _ ex_bus_ready(2), of "''ready''" id None "''ready''" 7 Map.empty 0] by simp

end
