(* ===== verification/Config.thy ===== *)
theory Config
  imports Go_Strings "HOL-Library.List_Lexorder" "HOL-Library.Char_ord"
begin

text \<open>
  Package config and its builders: the in-memory configuration \<open>MapConfig\<close>, the defaults that
  \<open>NewMap\<close> fills in, the environment and YAML loaders, and the two numeric readers of package
  process (\<open>readPositiveInt\<close>, \<open>readDurationMs\<close>) that every other component goes through.

  \<open>MapConfig.data\<close> is an association list with distinct keys. A client sees a configuration
  through \<open>Get\<close> only, so its argument is a lookup function, or \<open>None\<close> for a nil interface.
  The locale \<open>iconfig\<close> is the interface: what \<open>Get\<close> returns after \<open>Set\<close>.
\<close>

type_synonym config_get = "string \<Rightarrow> string option"

section \<open>Keys and defaults\<close>

abbreviation KeyProcChannelCount :: string where "KeyProcChannelCount \<equiv> ''process.channel_count''"
abbreviation KeyProcWorkersPerChan :: string where "KeyProcWorkersPerChan \<equiv> ''process.workers_per_channel''"
abbreviation KeyProcChannelBuffer :: string where "KeyProcChannelBuffer \<equiv> ''process.channel_buffer''"
abbreviation KeyAuthDefaultRole :: string where "KeyAuthDefaultRole \<equiv> ''auth.default_role''"
abbreviation KeyAuthDefaultPerms :: string where "KeyAuthDefaultPerms \<equiv> ''auth.default_perms''"
abbreviation KeyAuthNodeRoles :: string where "KeyAuthNodeRoles \<equiv> ''auth.node_roles''"
abbreviation KeyAuthRolePerms :: string where "KeyAuthRolePerms \<equiv> ''auth.role_perms''"
abbreviation KeySendChannelCount :: string where "KeySendChannelCount \<equiv> ''send.channel_count''"
abbreviation KeySendWorkersPerChan :: string where "KeySendWorkersPerChan \<equiv> ''send.workers_per_channel''"
abbreviation KeySendChannelBuffer :: string where "KeySendChannelBuffer \<equiv> ''send.channel_buffer''"
abbreviation KeySendConnBuffer :: string where "KeySendConnBuffer \<equiv> ''send.conn_buffer''"
abbreviation KeySendEnqueueTimeoutMS :: string where "KeySendEnqueueTimeoutMS \<equiv> ''send.enqueue_timeout_ms''"
abbreviation KeyRoutingForwardRemote :: string where "KeyRoutingForwardRemote \<equiv> ''routing.forward_remote''"
abbreviation KeyProcQueueStrategy :: string where "KeyProcQueueStrategy \<equiv> ''process.queue_strategy''"
abbreviation KeyParentEnable :: string where "KeyParentEnable \<equiv> ''parent.enable''"
abbreviation KeyParentAddr :: string where "KeyParentAddr \<equiv> ''parent.addr''"
abbreviation KeyParentReconnectSec :: string where "KeyParentReconnectSec \<equiv> ''parent.reconnect_sec''"

definition DefaultAuthRolePerms :: string where
  "DefaultAuthRolePerms = ''superadmin:*;admin:file.read,file.write,flow.set,flow.delete,flow.run,flow.read,exec.call,exec.cap.query,exec.cap.sync,var.private_set,var.revoke,var.subscribe,auth.revoke,auth.pending.list,auth.register.approve,auth.register.reject,auth.permit.issue,auth.permit.revoke;node:file.read,file.write,flow.set,flow.run,flow.read,exec.call,exec.cap.query,exec.cap.sync''"

definition config_defaults :: "(string \<times> string) list" where
  "config_defaults =
     [(KeyProcChannelCount, ''1''), (KeyProcWorkersPerChan, ''1''), (KeyProcChannelBuffer, ''64''),
      (KeyAuthDefaultRole, ''node''), (KeyAuthDefaultPerms, ''''), (KeyAuthNodeRoles, ''''),
      (KeyAuthRolePerms, DefaultAuthRolePerms),
      (''auth.register.require_approval'', ''false''),
      (''auth.register.pending_ttl_sec'', ''86400''), (''auth.register.permit_ttl_sec'', ''3600''),
      (''auth.bootstrap.first_register.enabled'', ''false''),
      (''auth.bootstrap.first_register.role'', ''superadmin''),
      (''auth.bootstrap.first_register.device_id'', ''''),
      (''auth.bootstrap.first_register.pubkey'', ''''),
      (''auth.bootstrap.first_register.epoch'', ''0''),
      (KeySendChannelCount, ''1''), (KeySendWorkersPerChan, ''1''), (KeySendChannelBuffer, ''64''),
      (KeySendConnBuffer, ''64''), (KeySendEnqueueTimeoutMS, ''100''),
      (KeyRoutingForwardRemote, ''true''), (KeyProcQueueStrategy, ''conn''),
      (''routing.default_forward_enable'', ''''), (''routing.default_forward_target'', ''''),
      (''routing.default_forward_map'', ''''),
      (KeyParentEnable, ''false''), (KeyParentAddr, ''''), (''parent.join_permit'', ''''),
      (KeyParentReconnectSec, ''3'')]"


section \<open>MapConfig\<close>

record MapConfig =
  data :: "(string \<times> string) list"

definition ensureDefault :: "string \<times> string \<Rightarrow> (string \<times> string) list \<Rightarrow> (string \<times> string) list" where
  "ensureDefault kv m = (if map_of m (fst kv) = None then AList.update (fst kv) (snd kv) m else m)"

text \<open>The loop \<open>for k, v := range d { m[k] = v }\<close> of \<open>NewMap\<close>, \<open>MergeFile\<close> and \<open>Merge\<close>.\<close>

definition overlay :: "(string \<times> string) list \<Rightarrow> (string \<times> string) list \<Rightarrow> (string \<times> string) list" where
  "overlay d m = fold (\<lambda>(k, v). AList.update k v) d m"

definition NewMap :: "(string \<times> string) list \<Rightarrow> MapConfig" where
  "NewMap d = \<lparr>data = fold ensureDefault config_defaults (overlay d [])\<rparr>"

definition MapConfig_Get :: "MapConfig \<Rightarrow> config_get" where
  "MapConfig_Get m key = map_of (data m) key"

definition MapConfig_Set :: "MapConfig \<Rightarrow> string \<Rightarrow> string \<Rightarrow> MapConfig" where
  "MapConfig_Set m key val = m\<lparr>data := AList.update key val (data m)\<rparr>"

text \<open>\<open>MergeFile\<close> with a nil argument does nothing.\<close>

definition MergeFile :: "MapConfig \<Rightarrow> (string \<times> string) list option \<Rightarrow> MapConfig" where
  "MergeFile m d = (case d of None \<Rightarrow> m | Some d' \<Rightarrow> m\<lparr>data := overlay d' (data m)\<rparr>)"

text \<open>
  \<open>Merge\<close>: only another \<open>MapConfig\<close> can be enumerated; any other implementation, or nil, leaves
  the receiver as it is.
\<close>

datatype iconfig_arg = NilConfig | MapCfg MapConfig | OtherConfig

definition MapConfig_Merge :: "MapConfig \<Rightarrow> iconfig_arg \<Rightarrow> MapConfig" where
  "MapConfig_Merge m other =
     (case other of
        MapCfg c \<Rightarrow> m\<lparr>data := overlay (data c) (data m)\<rparr>
      | NilConfig \<Rightarrow> m
      | OtherConfig \<Rightarrow> m)"

definition MapConfig_Keys :: "MapConfig \<Rightarrow> string list" where
  "MapConfig_Keys m = sort (map fst (data m))"

definition config_wf :: "MapConfig \<Rightarrow> bool" where
  "config_wf m \<longleftrightarrow> distinct (map fst (data m))"

lemma map_of_overlay:
  "distinct (map fst d) \<Longrightarrow> map_of (overlay d m) = map_of m ++ map_of d"
proof (induction d arbitrary: m)
  case Nil
  then show ?case by (simp add: overlay_def)
next
  case (Cons kv d)
  obtain k v where kv: "kv = (k, v)" by (cases kv)
  have "map_of (overlay (kv # d) m) = map_of (AList.update k v m) ++ map_of d"
    using Cons by (simp add: overlay_def kv)
  moreover have "map_of d k = None"
    using Cons.prems kv by (simp add: map_of_eq_None_iff)
  ultimately show ?case
    by (auto simp: kv update_conv' map_add_def fun_eq_iff split: option.splits)
qed

lemma distinct_overlay: "distinct (map fst m) \<Longrightarrow> distinct (map fst (overlay d m))"
  unfolding overlay_def by (induction d arbitrary: m) (auto simp: distinct_update)

lemma map_of_fold_ensureDefault:
  "map_of (fold ensureDefault ds m) k =
     (case map_of m k of Some v \<Rightarrow> Some v | None \<Rightarrow> map_of ds k)"
proof (induction ds arbitrary: m)
  case Nil
  then show ?case by (simp split: option.splits)
next
  case (Cons kv ds)
  then show ?case
    by (cases kv) (auto simp: ensureDefault_def update_conv' split: option.splits)
qed

lemma distinct_fold_ensureDefault:
  "distinct (map fst m) \<Longrightarrow> distinct (map fst (fold ensureDefault ds m))"
  by (induction ds arbitrary: m) (auto simp: ensureDefault_def distinct_update)

lemma Get_Set [simp]: "MapConfig_Get (MapConfig_Set m k v) k' = (if k' = k then Some v else MapConfig_Get m k')"
  by (simp add: MapConfig_Get_def MapConfig_Set_def update_conv')

lemma config_wf_NewMap [inv_intros]: "config_wf (NewMap d)"
  by (simp add: config_wf_def NewMap_def distinct_fold_ensureDefault distinct_overlay)

lemma config_wf_Set [inv_intros]: "config_wf m \<Longrightarrow> config_wf (MapConfig_Set m k v)"
  by (simp add: config_wf_def MapConfig_Set_def distinct_update)

lemma config_wf_MergeFile [inv_intros]: "config_wf m \<Longrightarrow> config_wf (MergeFile m d)"
  by (auto simp: config_wf_def MergeFile_def distinct_overlay split: option.splits)

lemma config_wf_Merge [inv_intros]: "config_wf m \<Longrightarrow> config_wf (MapConfig_Merge m c)"
  by (auto simp: config_wf_def MapConfig_Merge_def distinct_overlay split: iconfig_arg.splits)


section \<open>Numeric readers\<close>

definition readPositiveInt :: "config_get option \<Rightarrow> string \<Rightarrow> int \<Rightarrow> int" where
  "readPositiveInt cfg key def =
     (case cfg of
        None \<Rightarrow> def
      | Some get \<Rightarrow>
          (case get key of
             None \<Rightarrow> def
           | Some raw \<Rightarrow>
               (case Atoi raw of
                  None \<Rightarrow> def
                | Some v \<Rightarrow> if v > 0 then v else def)))"

text \<open>
  \<open>readDurationMs\<close>: milliseconds times \<open>time.Millisecond\<close>, in nanoseconds, on a 64-bit
  integer that wraps.
\<close>

definition wrap64 :: "int \<Rightarrow> int" where
  "wrap64 x = sint (word_of_int x :: u64)"

definition duration_ms :: "int \<Rightarrow> int" where
  "duration_ms v = wrap64 (v * 1000000)"

definition readDurationMs :: "config_get option \<Rightarrow> string \<Rightarrow> int \<Rightarrow> int" where
  "readDurationMs cfg key def =
     (case cfg of
        None \<Rightarrow> duration_ms def
      | Some get \<Rightarrow>
          (case get key of
             None \<Rightarrow> duration_ms def
           | Some raw \<Rightarrow>
               (case Atoi raw of
                  None \<Rightarrow> duration_ms def
                | Some v \<Rightarrow> if v \<ge> 0 then duration_ms v else duration_ms def)))"

lemma readPositiveInt_pos: "0 < def \<Longrightarrow> 0 < readPositiveInt cfg key def"
  by (auto simp: readPositiveInt_def split: option.splits)

lemma wrap64_id: "- (2 ^ 63) \<le> x \<Longrightarrow> x < 2 ^ 63 \<Longrightarrow> wrap64 x = x"
  unfolding wrap64_def by (simp add: signed_of_int signed_take_bit_int_eq_self)


section \<open>The configuration interface\<close>

locale iconfig =
  fixes get :: "'c \<Rightarrow> string \<Rightarrow> string option" and set_key :: "'c \<Rightarrow> string \<Rightarrow> string \<Rightarrow> 'c"
  assumes get_set: "get (set_key c k v) k' = (if k' = k then Some v else get c k')"
begin

text \<open>A later \<open>Set\<close> wins, and readers of other keys do not notice it.\<close>

lemma readPositiveInt_set:
  "readPositiveInt (Some (get (set_key c k v))) k' def =
     (if k' = k then (case Atoi v of Some n \<Rightarrow> if n > 0 then n else def | None \<Rightarrow> def)
      else readPositiveInt (Some (get c)) k' def)"
  by (auto simp: readPositiveInt_def get_set split: option.splits)

lemma readDurationMs_set:
  "readDurationMs (Some (get (set_key c k v))) k' def =
     (if k' = k then (case Atoi v of Some n \<Rightarrow> duration_ms (if n \<ge> 0 then n else def) | None \<Rightarrow> duration_ms def)
      else readDurationMs (Some (get c)) k' def)"
  by (auto simp: readDurationMs_def get_set split: option.splits)

end

interpretation map_config: iconfig MapConfig_Get MapConfig_Set
  by unfold_locales (rule Get_Set)


section \<open>EnvBuilder and YAMLBuilder\<close>

text \<open>The loop of \<open>normalizeEnvKey\<close>: a double underscore is consumed in one round.\<close>

fun envkey_loop :: "string \<Rightarrow> string" where
  "envkey_loop [] = []"
| "envkey_loop (c # cs) =
     (if c = CHR ''_''
      then (case cs of
              [] \<Rightarrow> ''.''
            | d # ds \<Rightarrow> if d = CHR ''_'' then CHR ''_'' # envkey_loop ds else CHR ''.'' # envkey_loop cs)
      else c # envkey_loop cs)"

definition normalizeEnvKey :: "(string \<Rightarrow> string) \<Rightarrow> string \<Rightarrow> string" where
  "normalizeEnvKey ulow k =
     (let k1 = TrimSpace k
      in if k1 = [] then [] else envkey_loop (ToLower ulow k1))"

text \<open>
  One round of \<open>EnvBuilder.Load\<close>. \<open>environ\<close> is what \<open>os.Environ\<close> returns.
\<close>

definition env_step ::
  "(string \<Rightarrow> string) \<Rightarrow> string \<Rightarrow> string \<Rightarrow> (string \<times> string) list \<Rightarrow> (string \<times> string) list" where
  "env_step ulow pfx kv dat =
     (case SplitN2 (CHR ''='') kv of
        [k, v] \<Rightarrow>
          (if pfx \<noteq> [] \<and> \<not> HasPrefix k pfx then dat
           else let k1 = (if pfx \<noteq> [] then TrimPrefix k pfx else k)
                in if k1 = [] then dat
                   else let norm = normalizeEnvKey ulow k1
                        in if norm = [] then dat else AList.update norm v dat)
      | _ \<Rightarrow> dat)"

definition EnvBuilder_Load :: "(string \<Rightarrow> string) \<Rightarrow> string \<Rightarrow> string list \<Rightarrow> MapConfig result" where
  "EnvBuilder_Load ulow Prefix environ =
     Inr (NewMap (fold (env_step ulow (TrimSpace Prefix)) environ []))"

definition EnvBuilder_Reload :: "(string \<Rightarrow> string) \<Rightarrow> string \<Rightarrow> string list \<Rightarrow> MapConfig result" where
  "EnvBuilder_Reload ulow Prefix environ = EnvBuilder_Load ulow Prefix environ"

text \<open>
  \<open>YAMLBuilder.Load\<close>. \<open>os.ReadFile\<close> and \<open>yaml.Unmarshal\<close> into a string map are parameters.
\<close>

datatype read_file = NotExist | ReadFailed error | Content string

definition YAMLBuilder_Load ::
  "(string \<Rightarrow> read_file) \<Rightarrow> (string \<Rightarrow> (string \<times> string) list result) \<Rightarrow> string \<Rightarrow> MapConfig result" where
  "YAMLBuilder_Load ReadFile Unmarshal Path =
     (if Path = [] then Inr (NewMap [])
      else case ReadFile Path of
             NotExist \<Rightarrow> Inr (NewMap [])
           | ReadFailed e \<Rightarrow> Inl e
           | Content c \<Rightarrow>
               (case Unmarshal c of
                  Inl e \<Rightarrow> Inl e
                | Inr raw \<Rightarrow> Inr (NewMap raw)))"

definition YAMLBuilder_Reload ::
  "(string \<Rightarrow> read_file) \<Rightarrow> (string \<Rightarrow> (string \<times> string) list result) \<Rightarrow> string \<Rightarrow> MapConfig result" where
  "YAMLBuilder_Reload ReadFile Unmarshal Path = YAMLBuilder_Load ReadFile Unmarshal Path"

text \<open>
  The documented spelling of a configuration key as an environment variable: upper case, a dot
  as one underscore, an underscore as two. A key is made of lower-case letters, digits,
  underscores and dots.
\<close>

definition upper_char :: "char \<Rightarrow> char" where
  "upper_char c =
     (if 97 \<le> (of_char c :: nat) \<and> (of_char c :: nat) \<le> 122 then char_of (of_char c - 32 :: nat) else c)"

definition env_spelling :: "string \<Rightarrow> string" where
  "env_spelling k =
     concat (map (\<lambda>c. if c = CHR ''.'' then ''_'' else if c = CHR ''_'' then ''__'' else [upper_char c]) k)"

definition key_char :: "char \<Rightarrow> bool" where
  "key_char c \<longleftrightarrow> c = CHR ''.'' \<or> c = CHR ''_''
     \<or> 48 \<le> (of_char c :: nat) \<and> (of_char c :: nat) \<le> 57
     \<or> 97 \<le> (of_char c :: nat) \<and> (of_char c :: nat) \<le> 122"

fun dot_separates :: "string \<Rightarrow> bool" where
  "dot_separates (c # d # ds) \<longleftrightarrow>
     \<not> (c = CHR ''.'' \<and> (d = CHR ''.'' \<or> d = CHR ''_'')) \<and> dot_separates (d # ds)"
| "dot_separates _ \<longleftrightarrow> True"

lemma lower_upper_char: "key_char c \<Longrightarrow> lower_char (upper_char c) = c"
  by (auto simp: key_char_def lower_char_def upper_char_def)

lemma upper_char_ascii: "key_char c \<Longrightarrow> (of_char (upper_char c) :: nat) < 128"
  by (auto simp: key_char_def upper_char_def)

lemma lower_underscore: "lower_char (CHR ''_'') = CHR ''_''"
  by (simp add: lower_char_def)

lemma upper_char_not_eq: "key_char c \<Longrightarrow> upper_char c \<noteq> CHR ''=''"
  using lower_upper_char[of c] by (auto simp: key_char_def lower_char_def)

lemma upper_char_graphic: "key_char c \<Longrightarrow> graphic (upper_char c)"
  by (auto simp: key_char_def upper_char_def graphic_def)

lemma map_lower_env_spelling:
  "list_all key_char k \<Longrightarrow>
   map lower_char (env_spelling k) =
     concat (map (\<lambda>c. if c = CHR ''.'' then ''_'' else if c = CHR ''_'' then ''__'' else [c]) k)"
  by (induction k) (auto simp: env_spelling_def lower_upper_char lower_underscore)

lemma envkey_loop_spelling:
  "dot_separates k \<Longrightarrow>
   envkey_loop (concat (map (\<lambda>c. if c = CHR ''.'' then ''_'' else if c = CHR ''_'' then ''__'' else [c]) k)) = k"
  by (induction k rule: dot_separates.induct) auto

lemma env_spelling_chars:
  assumes "list_all key_char k"
  shows "list_all graphic (env_spelling k)" "is_ascii (env_spelling k)" "CHR ''='' \<notin> set (env_spelling k)"
proof -
  have "graphic (CHR ''_'')"
    by (simp add: graphic_def)
  then show g: "list_all graphic (env_spelling k)"
    using assms upper_char_graphic
    by (induction k) (auto simp: env_spelling_def list_all_iff)
  show "is_ascii (env_spelling k)"
    using g by (auto simp: is_ascii_def list_all_iff graphic_def)
  show "CHR ''='' \<notin> set (env_spelling k)"
    using assms upper_char_not_eq by (induction k) (auto simp: env_spelling_def dest: sym)
qed

lemma env_spelling_nonempty: "k \<noteq> [] \<Longrightarrow> env_spelling k \<noteq> []"
  by (cases k) (auto simp: env_spelling_def)

lemma normalizeEnvKey_spelling:
  assumes "list_all key_char k" "dot_separates k"
  shows "normalizeEnvKey ulow (env_spelling k) = k"
proof (cases "k = []")
  case True
  then show ?thesis by (simp add: normalizeEnvKey_def env_spelling_def)
next
  case False
  then show ?thesis
    using assms env_spelling_chars[OF assms(1)] env_spelling_nonempty[OF False]
    by (simp add: normalizeEnvKey_def TrimSpace_graphic ToLower_def map_lower_env_spelling
        envkey_loop_spelling)
qed

lemma distinct_env_steps: "distinct (map fst dat) \<Longrightarrow> distinct (map fst (fold (env_step ulow pfx) es dat))"
proof (induction es arbitrary: dat)
  case (Cons e es)
  have "distinct (map fst (env_step ulow pfx e dat))"
    using Cons.prems by (auto simp: env_step_def Let_def distinct_update split: list.splits)
  then show ?case using Cons.IH by simp
qed simp

lemma Get_NewMap:
  "distinct (map fst d) \<Longrightarrow>
   MapConfig_Get (NewMap d) k =
     (case map_of d k of Some v \<Rightarrow> Some v | None \<Rightarrow> map_of config_defaults k)"
  by (simp add: MapConfig_Get_def NewMap_def map_of_fold_ensureDefault map_of_overlay)


section \<open>Properties\<close>

text \<open>
  \<open>NewMap\<close> keeps every value it is given, fills each missing key of the default table, adds
  nothing else, and its result is well formed, with \<open>Keys\<close> sorted, free of duplicates and equal
  to the set of keys \<open>Get\<close> answers.
\<close>

theorem new_map_overlays_defaults:
  assumes "distinct (map fst d)"
  shows "MapConfig_Get (NewMap d) k =
           (case map_of d k of Some v \<Rightarrow> Some v | None \<Rightarrow> map_of config_defaults k)
         \<and> sorted (MapConfig_Keys (NewMap d)) \<and> distinct (MapConfig_Keys (NewMap d))
         \<and> set (MapConfig_Keys (NewMap d)) = dom (MapConfig_Get (NewMap d))"
proof -
  have "distinct (map fst (data (NewMap d)))"
    using config_wf_NewMap[of d] by (simp add: config_wf_def)
  moreover have "dom (MapConfig_Get c) = set (map fst (data c))" for c
    using dom_map_of_conv_image_fst[of "data c"] by (simp add: MapConfig_Get_def[abs_def])
  ultimately show ?thesis
    using Get_NewMap[OF assms] by (simp add: MapConfig_Keys_def)
qed

theorem new_map_overlays_defaults_witness:
  "MapConfig_Get (NewMap [(KeyProcChannelBuffer, ''7'')]) KeyProcChannelBuffer = Some ''7''
   \<and> MapConfig_Get (NewMap [(KeyProcChannelBuffer, ''7'')]) KeySendConnBuffer = Some ''64''"
  using new_map_overlays_defaults[of "[(KeyProcChannelBuffer, ''7'')]" KeyProcChannelBuffer]
    new_map_overlays_defaults[of "[(KeyProcChannelBuffer, ''7'')]" KeySendConnBuffer]
  by (simp add: config_defaults_def)

text \<open>
  The environment loader inverts the documented spelling of a key: a variable named by the
  prefix and the upper-case spelling of a key (a dot written \<open>_\<close>, an underscore written \<open>__\<close>)
  sets exactly that key to its value, whatever variables come before it, provided that in the
  key no dot is followed by a dot or an underscore.
\<close>

theorem env_spelling_roundtrip:
  assumes "k \<noteq> []" "list_all key_char k" "dot_separates k"
    and "TrimSpace pfx = pfx" "CHR ''='' \<notin> set pfx"
  shows "\<exists>m. EnvBuilder_Load ulow pfx (es @ [pfx @ env_spelling k @ ''='' @ v]) = Inr m
           \<and> MapConfig_Get m k = Some v"
proof -
  let ?e = "pfx @ env_spelling k @ ''='' @ v"
  define dat where "dat = fold (env_step ulow pfx) es []"
  have "CHR ''='' \<notin> set (pfx @ env_spelling k)"
    using env_spelling_chars[OF assms(2)] assms(5) by simp
  from SplitN2_append_sep[OF this, of v] have "SplitN2 (CHR ''='') ?e = [pfx @ env_spelling k, v]"
    by simp
  then have "env_step ulow pfx ?e dat = AList.update k v dat"
    using assms(1) env_spelling_nonempty[OF assms(1)] normalizeEnvKey_spelling[OF assms(2,3), of ulow]
    by (simp add: env_step_def HasPrefix_def TrimPrefix_def)
  then have "EnvBuilder_Load ulow pfx (es @ [?e]) = Inr (NewMap (AList.update k v dat))"
    by (simp add: EnvBuilder_Load_def assms(4) dat_def)
  moreover have "distinct (map fst (AList.update k v dat))"
    by (simp add: dat_def distinct_update distinct_env_steps)
  ultimately show ?thesis
    by (simp add: Get_NewMap update_conv')
qed

theorem env_spelling_roundtrip_witness:
  "\<exists>m. EnvBuilder_Load id ''HUB_'' ([''HUB_PROCESS_CHANNEL__COUNT=9''] @
          [''HUB_'' @ env_spelling ''process.channel_count'' @ ''='' @ ''4'']) = Inr m
      \<and> MapConfig_Get m ''process.channel_count'' = Some ''4''"
proof -
  have "TrimSpace ''HUB_'' = ''HUB_''"
    by (rule TrimSpace_graphic) (simp add: graphic_def)
  then show ?thesis
    by (intro env_spelling_roundtrip) (simp_all add: key_char_def)
qed

end
