(* ===== verification/Conn_Manager.thy ===== *)
theory Conn_Manager
  imports Hub_Prelude "HOL-Library.Multiset"
begin

text \<open>
  connmgr/manager.go, with the parts of iface.go and link.go it is written against.

  A connection is a handle (\<open>cref\<close>, a Go interface value compared by identity) into a heap
  of connections, each with its immutable \<open>ID()\<close> and its metadata map; \<open>None\<close> is a nil
  connection. The manager keeps the connections by id, with the node and device indexes beside
  them. What the transport does when a connection is written or closed, and what the registered
  hooks do, is a parameter: the record \<open>env\<close>. A hook runs after the lock is released and may
  change any part of the world; a hook that is stored in the manager is a number, which \<open>env\<close>
  interprets. The \<open>world\<close> record is extended by the components that keep state of their own.

  The mutex makes every operation a single step between its lock and unlock; the hooks and the
  close of a connection follow it.
\<close>

section \<open>Connections\<close>

type_synonym cref = nat

text \<open>The dynamic type of a metadata value, as the type switches of the code distinguish it.\<close>

datatype any = VUint32 u32 | VUint64 u64 | VInt int | VInt64 int | VString string | VOther nat

record conn =
  conn_ID :: string
  meta :: "string \<rightharpoonup> any"

definition GetMeta :: "conn \<Rightarrow> string \<Rightarrow> any option" where
  "GetMeta c key = meta c key"

definition SetMeta :: "string \<Rightarrow> any \<Rightarrow> conn \<Rightarrow> conn" where
  "SetMeta key val c = c\<lparr>meta := (meta c)(key \<mapsto> val)\<rparr>"

definition asUint32 :: "any \<Rightarrow> u32 option" where
  "asUint32 v =
     (case v of
        VUint32 vv \<Rightarrow> Some vv
      | VUint64 vv \<Rightarrow> Some (ucast vv)
      | VInt vv \<Rightarrow> if vv < 0 then None else Some (word_of_int vv)
      | VInt64 vv \<Rightarrow> if vv < 0 then None else Some (word_of_int vv)
      | _ \<Rightarrow> None)"


section \<open>The manager\<close>

record hooks =
  OnAdd :: "nat option"
  OnRemove :: "nat option"

record Manager =
  conns :: "(string \<times> cref) list"
  conn_hooks :: hooks
  linkHooks :: hooks
  nodeIndex :: "u32 \<rightharpoonup> cref"
  devIndex :: "string \<rightharpoonup> cref"

record world =
  heap :: "cref \<Rightarrow> conn"
  mgr :: Manager

record 'w env =
  run_hook :: "nat \<Rightarrow> cref \<Rightarrow> 'w \<Rightarrow> 'w"
  conn_Send :: "cref \<Rightarrow> byte list \<Rightarrow> 'w \<Rightarrow> error option \<times> 'w"
  conn_Close :: "cref \<Rightarrow> 'w \<Rightarrow> error option \<times> 'w"

definition Manager_New :: Manager where
  "Manager_New = \<lparr>conns = [], conn_hooks = \<lparr>OnAdd = None, OnRemove = None\<rparr>,
                  linkHooks = \<lparr>OnAdd = None, OnRemove = None\<rparr>,
                  nodeIndex = (\<lambda>_. None), devIndex = (\<lambda>_. None)\<rparr>"

definition SetHooks :: "hooks \<Rightarrow> 'x world_scheme \<Rightarrow> 'x world_scheme" where
  "SetHooks h w = w\<lparr>mgr := (mgr w)\<lparr>conn_hooks := h\<rparr>\<rparr>"

definition SetLinkHooks :: "hooks \<Rightarrow> 'x world_scheme \<Rightarrow> 'x world_scheme" where
  "SetLinkHooks h w = w\<lparr>mgr := (mgr w)\<lparr>linkHooks := h\<rparr>\<rparr>"

text \<open>\<open>if h.OnAdd != nil { h.OnAdd(conn) }\<close>\<close>

definition call_hook :: "'x world_scheme env \<Rightarrow> nat option \<Rightarrow> cref \<Rightarrow> 'x world_scheme \<Rightarrow> 'x world_scheme" where
  "call_hook env h c w = (case h of None \<Rightarrow> w | Some i \<Rightarrow> run_hook env i c w)"

definition addNodeIndexLocked :: "conn \<Rightarrow> cref \<Rightarrow> Manager \<Rightarrow> Manager" where
  "addNodeIndexLocked conn c m =
     (case GetMeta conn ''nodeID'' of
        Some (VUint32 nid) \<Rightarrow> if nid \<noteq> 0 then m\<lparr>nodeIndex := (nodeIndex m)(nid \<mapsto> c)\<rparr> else m
      | _ \<Rightarrow> m)"

definition addDeviceIndexLocked :: "conn \<Rightarrow> cref \<Rightarrow> Manager \<Rightarrow> Manager" where
  "addDeviceIndexLocked conn c m =
     (case GetMeta conn ''deviceID'' of
        Some (VString s) \<Rightarrow> if s \<noteq> [] then m\<lparr>devIndex := (devIndex m)(s \<mapsto> c)\<rparr> else m
      | _ \<Rightarrow> m)"

definition Add :: "'x world_scheme env \<Rightarrow> cref option \<Rightarrow> 'x world_scheme \<Rightarrow> error option \<times> 'x world_scheme" where
  "Add env conn w =
     (case conn of
        None \<Rightarrow> (Some (Err ''conn nil''), w)
      | Some c \<Rightarrow>
          (let m = mgr w; cn = heap w c
           in if map_of (conns m) (conn_ID cn) \<noteq> None then (Some (Err ''conn exists''), w)
              else let m1 = m\<lparr>conns := AList.update (conn_ID cn) c (conns m)\<rparr>;
                       m2 = addDeviceIndexLocked cn c (addNodeIndexLocked cn c m1);
                       w1 = call_hook env (OnAdd (conn_hooks m)) c (w\<lparr>mgr := m2\<rparr>);
                       w2 = call_hook env (OnAdd (linkHooks m)) c w1
                   in (None, w2)))"

text \<open>The loops delete every index entry whose value is the connection itself.\<close>

definition removeNodeIndexLocked :: "cref \<Rightarrow> Manager \<Rightarrow> Manager" where
  "removeNodeIndexLocked c m =
     m\<lparr>nodeIndex := (\<lambda>n. if nodeIndex m n = Some c then None else nodeIndex m n)\<rparr>"

definition removeDeviceIndexLocked :: "cref \<Rightarrow> Manager \<Rightarrow> Manager" where
  "removeDeviceIndexLocked c m =
     m\<lparr>devIndex := (\<lambda>d. if devIndex m d = Some c then None else devIndex m d)\<rparr>"

definition Remove :: "'x world_scheme env \<Rightarrow> string \<Rightarrow> 'x world_scheme \<Rightarrow> error option \<times> 'x world_scheme" where
  "Remove env cid w =
     (let m = mgr w
      in case map_of (conns m) cid of
           None \<Rightarrow> (Some (Err ''conn not found''), w)
         | Some c \<Rightarrow>
             (let m1 = removeDeviceIndexLocked c (removeNodeIndexLocked c m);
                  m2 = m1\<lparr>conns := AList.delete cid (conns m1)\<rparr>;
                  w1 = call_hook env (OnRemove (conn_hooks m)) c (w\<lparr>mgr := m2\<rparr>);
                  w2 = call_hook env (OnRemove (linkHooks m)) c w1
              in conn_Close env c w2))"

definition Get :: "Manager \<Rightarrow> string \<Rightarrow> cref option" where
  "Get m cid = map_of (conns m) cid"

definition GetByNode :: "Manager \<Rightarrow> u32 \<Rightarrow> cref option" where
  "GetByNode m n = nodeIndex m n"

definition GetByDevice :: "Manager \<Rightarrow> string \<Rightarrow> cref option" where
  "GetByDevice m d = devIndex m d"

definition isDirectBind :: "u32 \<Rightarrow> conn \<Rightarrow> bool" where
  "isDirectBind nodeID conn =
     (case GetMeta conn ''nodeID'' of
        None \<Rightarrow> False
      | Some v \<Rightarrow>
          (case asUint32 v of
             None \<Rightarrow> False
           | Some nid \<Rightarrow> nid \<noteq> 0 \<and> nid = nodeID))"

definition UpdateNodeIndex ::
  "'x world_scheme env \<Rightarrow> u32 \<Rightarrow> cref option \<Rightarrow> 'x world_scheme \<Rightarrow> 'x world_scheme" where
  "UpdateNodeIndex env nodeID conn w =
     (if nodeID = 0 then w
      else let m = mgr w
           in case conn of
                None \<Rightarrow> w\<lparr>mgr := m\<lparr>nodeIndex := (nodeIndex m)(nodeID := None)\<rparr>\<rparr>
              | Some c \<Rightarrow>
                  (let existing = nodeIndex m nodeID;
                       w1 = w\<lparr>mgr := m\<lparr>nodeIndex := (nodeIndex m)(nodeID \<mapsto> c)\<rparr>\<rparr>;
                       oldDirectConnID =
                         (case existing of
                            None \<Rightarrow> []
                          | Some e \<Rightarrow>
                              if e \<noteq> c \<and> isDirectBind nodeID (heap w c) \<and> isDirectBind nodeID (heap w e)
                              then conn_ID (heap w e) else [])
                   in if oldDirectConnID \<noteq> [] then snd (Remove env oldDirectConnID w1) else w1))"

definition AddNodeIndex ::
  "'x world_scheme env \<Rightarrow> u32 \<Rightarrow> cref option \<Rightarrow> 'x world_scheme \<Rightarrow> 'x world_scheme" where
  "AddNodeIndex env nodeID conn w = UpdateNodeIndex env nodeID conn w"

definition RemoveNodeIndex :: "'x world_scheme env \<Rightarrow> u32 \<Rightarrow> 'x world_scheme \<Rightarrow> 'x world_scheme" where
  "RemoveNodeIndex env nodeID w = UpdateNodeIndex env nodeID None w"

text \<open>The index never holds a nil connection, so the inner nil check of the delete has no branch.\<close>

definition UpdateDeviceIndex :: "string \<Rightarrow> cref option \<Rightarrow> 'x world_scheme \<Rightarrow> 'x world_scheme" where
  "UpdateDeviceIndex devID conn w =
     (let m = mgr w
      in if devID = [] then w
         else case conn of
                None \<Rightarrow> w\<lparr>mgr := m\<lparr>devIndex := (devIndex m)(devID := None)\<rparr>\<rparr>
              | Some c \<Rightarrow> w\<lparr>mgr := m\<lparr>devIndex := (devIndex m)(devID \<mapsto> c)\<rparr>\<rparr>)"

text \<open>
  \<open>Range\<close> copies the connections in map order, which Go leaves open, and calls \<open>fn\<close> on them
  until it returns false: \<open>order\<close> is the snapshot, a rearrangement of the connections.
\<close>

fun Range :: "cref list \<Rightarrow> (cref \<Rightarrow> 'w \<Rightarrow> bool \<times> 'w) \<Rightarrow> 'w \<Rightarrow> 'w" where
  "Range [] fn w = w"
| "Range (c # cs) fn w = (let (cont, w') = fn c w in if cont then Range cs fn w' else w')"

definition snapshot :: "Manager \<Rightarrow> cref list \<Rightarrow> bool" where
  "snapshot m order \<longleftrightarrow> mset order = mset (map snd (conns m))"

definition Count :: "Manager \<Rightarrow> nat" where
  "Count m = length (conns m)"

definition Broadcast ::
  "'x world_scheme env \<Rightarrow> cref list \<Rightarrow> byte list \<Rightarrow> 'x world_scheme \<Rightarrow> error option \<times> 'x world_scheme" where
  "Broadcast env order dat w = (None, Range order (\<lambda>c w. (True, snd (conn_Send env c dat w))) w)"

fun close_each ::
  "'x world_scheme env \<Rightarrow> hooks \<Rightarrow> hooks \<Rightarrow> cref list \<Rightarrow> 'x world_scheme \<Rightarrow> 'x world_scheme" where
  "close_each env h lh [] w = w"
| "close_each env h lh (c # cs) w =
     (let w1 = call_hook env (OnRemove h) c w;
          w2 = call_hook env (OnRemove lh) c w1
      in close_each env h lh cs (snd (conn_Close env c w2)))"

definition CloseAll ::
  "'x world_scheme env \<Rightarrow> cref list \<Rightarrow> 'x world_scheme \<Rightarrow> error option \<times> 'x world_scheme" where
  "CloseAll env order w =
     (let m = mgr w
      in (None, close_each env (conn_hooks m) (linkHooks m) order
                  (w\<lparr>mgr := m\<lparr>conns := [], nodeIndex := (\<lambda>_. None), devIndex := (\<lambda>_. None)\<rparr>\<rparr>)))"


section \<open>The link view\<close>

text \<open>
  A link is nil, a connection, or another implementation of \<open>ILink\<close>, which the compatibility
  manager refuses.
\<close>

datatype ilink = NilLink | ConnLink cref | ForeignLink nat

definition errCompatLinkRequiresConnection :: error where
  "errCompatLinkRequiresConnection = Err ''compat link manager requires link to implement IConnection''"

definition ConnectionFromLink :: "ilink \<Rightarrow> cref option" where
  "ConnectionFromLink link = (case link of ConnLink c \<Rightarrow> Some c | _ \<Rightarrow> None)"

definition AddLink :: "'x world_scheme env \<Rightarrow> ilink \<Rightarrow> 'x world_scheme \<Rightarrow> error option \<times> 'x world_scheme" where
  "AddLink env link w =
     (case ConnectionFromLink link of
        None \<Rightarrow> (Some errCompatLinkRequiresConnection, w)
      | Some c \<Rightarrow> Add env (Some c) w)"

definition RemoveLink :: "'x world_scheme env \<Rightarrow> string \<Rightarrow> 'x world_scheme \<Rightarrow> error option \<times> 'x world_scheme" where
  "RemoveLink env cid w = Remove env cid w"

definition GetLink :: "Manager \<Rightarrow> string \<Rightarrow> ilink option" where
  "GetLink m cid = (case Get m cid of None \<Rightarrow> None | Some c \<Rightarrow> Some (ConnLink c))"

definition GetLinkByNode :: "Manager \<Rightarrow> u32 \<Rightarrow> ilink option" where
  "GetLinkByNode m n = (case GetByNode m n of None \<Rightarrow> None | Some c \<Rightarrow> Some (ConnLink c))"

definition GetLinkByDevice :: "Manager \<Rightarrow> string \<Rightarrow> ilink option" where
  "GetLinkByDevice m d = (case GetByDevice m d of None \<Rightarrow> None | Some c \<Rightarrow> Some (ConnLink c))"

definition UpdateNodeLink ::
  "'x world_scheme env \<Rightarrow> u32 \<Rightarrow> ilink \<Rightarrow> 'x world_scheme \<Rightarrow> error option \<times> 'x world_scheme" where
  "UpdateNodeLink env nodeID link w =
     (if link = NilLink then (None, UpdateNodeIndex env nodeID None w)
      else case ConnectionFromLink link of
             None \<Rightarrow> (Some errCompatLinkRequiresConnection, w)
           | Some c \<Rightarrow> (None, UpdateNodeIndex env nodeID (Some c) w))"

definition AddNodeLink ::
  "'x world_scheme env \<Rightarrow> u32 \<Rightarrow> ilink \<Rightarrow> 'x world_scheme \<Rightarrow> error option \<times> 'x world_scheme" where
  "AddNodeLink env nodeID link w = UpdateNodeLink env nodeID link w"

definition RemoveNodeLink :: "'x world_scheme env \<Rightarrow> u32 \<Rightarrow> 'x world_scheme \<Rightarrow> 'x world_scheme" where
  "RemoveNodeLink env nodeID w = RemoveNodeIndex env nodeID w"

definition UpdateDeviceLink :: "string \<Rightarrow> ilink \<Rightarrow> 'x world_scheme \<Rightarrow> error option \<times> 'x world_scheme" where
  "UpdateDeviceLink devID link w =
     (if link = NilLink then (None, UpdateDeviceIndex devID None w)
      else case ConnectionFromLink link of
             None \<Rightarrow> (Some errCompatLinkRequiresConnection, w)
           | Some c \<Rightarrow> (None, UpdateDeviceIndex devID (Some c) w))"

definition RangeLinks :: "cref list \<Rightarrow> (ilink \<Rightarrow> 'w \<Rightarrow> bool \<times> 'w) \<Rightarrow> 'w \<Rightarrow> 'w" where
  "RangeLinks order fn w = Range order (\<lambda>c. fn (ConnLink c)) w"


section \<open>The invariant\<close>

text \<open>
  Connection ids are distinct and each connection is stored under its own id; the indexes
  refer to managed connections only, never under the key zero or the empty string.
\<close>

definition managed :: "Manager \<Rightarrow> cref \<Rightarrow> bool" where
  "managed m c \<longleftrightarrow> c \<in> set (map snd (conns m))"

definition mgr_inv :: "'x world_scheme \<Rightarrow> bool" where
  "mgr_inv w \<longleftrightarrow>
     distinct (map fst (conns (mgr w)))
   \<and> (\<forall>(k, c) \<in> set (conns (mgr w)). conn_ID (heap w c) = k)
   \<and> (\<forall>n c. nodeIndex (mgr w) n = Some c \<longrightarrow> n \<noteq> 0 \<and> managed (mgr w) c)
   \<and> (\<forall>d c. devIndex (mgr w) d = Some c \<longrightarrow> d \<noteq> [] \<and> managed (mgr w) c)"

text \<open>
  The index updates do not look at the table: they accept a connection that the manager does not hold.
  The invariant up to a set of such connections: an index entry may point to one of them as well.
\<close>

definition mgr_inv_upto :: "cref set \<Rightarrow> 'x world_scheme \<Rightarrow> bool" where
  "mgr_inv_upto L w \<longleftrightarrow>
     distinct (map fst (conns (mgr w)))
   \<and> (\<forall>(k, c) \<in> set (conns (mgr w)). conn_ID (heap w c) = k)
   \<and> (\<forall>n c. nodeIndex (mgr w) n = Some c \<longrightarrow> n \<noteq> 0 \<and> (managed (mgr w) c \<or> c \<in> L))
   \<and> (\<forall>d c. devIndex (mgr w) d = Some c \<longrightarrow> d \<noteq> [] \<and> (managed (mgr w) c \<or> c \<in> L))"

lemma mgr_inv_upto_empty: "mgr_inv_upto {} w = mgr_inv w"
  by (simp add: mgr_inv_upto_def mgr_inv_def)

lemma mgr_inv_upto_mono: "mgr_inv_upto L w \<Longrightarrow> L \<subseteq> L' \<Longrightarrow> mgr_inv_upto L' w"
  unfolding mgr_inv_upto_def by blast

text \<open>What the invariant says of the table alone.\<close>

lemma mgr_inv_upto_table:
  "mgr_inv_upto L w \<Longrightarrow> mgr_inv (w\<lparr>mgr := (mgr w)\<lparr>nodeIndex := (\<lambda>_. None), devIndex := (\<lambda>_. None)\<rparr>\<rparr>)"
  by (simp add: mgr_inv_upto_def mgr_inv_def)

lemma mgr_invD:
  assumes "mgr_inv w"
  shows "distinct (map fst (conns (mgr w)))"
    and "(k, c) \<in> set (conns (mgr w)) \<Longrightarrow> conn_ID (heap w c) = k"
    and "nodeIndex (mgr w) n = Some c \<Longrightarrow> n \<noteq> 0 \<and> managed (mgr w) c"
    and "devIndex (mgr w) d = Some c \<Longrightarrow> d \<noteq> [] \<and> managed (mgr w) c"
  using assms by (auto simp: mgr_inv_def)

lemma mgr_inv_cong:
  "mgr w' = mgr w \<Longrightarrow> heap w' = heap w \<Longrightarrow> mgr_inv w' = mgr_inv w"
  by (simp add: mgr_inv_def)

lemma mgr_inv_New: "mgr w = Manager_New \<Longrightarrow> mgr_inv w"
  by (simp add: mgr_inv_def Manager_New_def)

lemma managed_index_update [simp]:
  "managed (m\<lparr>nodeIndex := f\<rparr>) c = managed m c" "managed (m\<lparr>devIndex := g\<rparr>) c = managed m c"
  by (simp_all add: managed_def)

lemma managed_iff_Get:
  assumes "mgr_inv w"
  shows "managed (mgr w) c \<longleftrightarrow> Get (mgr w) (conn_ID (heap w c)) = Some c"
proof
  assume "managed (mgr w) c"
  then obtain k where k: "(k, c) \<in> set (conns (mgr w))"
    by (auto simp: managed_def)
  then have "conn_ID (heap w c) = k" by (rule mgr_invD(2)[OF assms])
  then show "Get (mgr w) (conn_ID (heap w c)) = Some c"
    using k mgr_invD(1)[OF assms] by (simp add: Get_def in_set_map_of[symmetric])
next
  assume "Get (mgr w) (conn_ID (heap w c)) = Some c"
  then show "managed (mgr w) c"
    by (force simp: Get_def managed_def dest: map_of_SomeD)
qed

text \<open>A connection is stored once: removing its id removes the handle.\<close>

lemma managed_delete:
  assumes "mgr_inv w" "Get (mgr w) cid = Some c"
  shows "c' \<in> snd ` set (AList.delete cid (conns (mgr w))) \<longleftrightarrow> managed (mgr w) c' \<and> c' \<noteq> c"
proof -
  have mem: "(cid, c) \<in> set (conns (mgr w))"
    using assms(2) by (simp add: Get_def map_of_SomeD)
  have "k = cid" if "(k, c) \<in> set (conns (mgr w))" for k
    using mgr_invD(2)[OF assms(1) that] mgr_invD(2)[OF assms(1) mem] by simp
  moreover have "c' = c" if "(cid, c') \<in> set (conns (mgr w))"
    using eq_key_imp_eq_value[OF mgr_invD(1)[OF assms(1)] that mem] .
  ultimately have "(\<exists>k. (k, c') \<in> set (conns (mgr w)) \<and> k \<noteq> cid)
      \<longleftrightarrow> (\<exists>k. (k, c') \<in> set (conns (mgr w))) \<and> c' \<noteq> c"
    by blast
  moreover have "c' \<in> snd ` set ps \<longleftrightarrow> (\<exists>k. (k, c') \<in> set ps)" for ps :: "(string \<times> cref) list"
    by force
  ultimately show ?thesis
    by (simp add: managed_def in_set_delete)
qed

lemma managed_delete_upto:
  assumes "mgr_inv_upto L w" "Get (mgr w) cid = Some c"
  shows "c' \<in> snd ` set (AList.delete cid (conns (mgr w))) \<longleftrightarrow> managed (mgr w) c' \<and> c' \<noteq> c"
  using managed_delete[OF mgr_inv_upto_table[OF assms(1)], of cid c c'] assms(2) by (simp add: Get_def)

lemma conns_after_add_indexes [state_simps]:
  "conns (addNodeIndexLocked cn c m) = conns m"
  "conns (addDeviceIndexLocked cn c m) = conns m"
  "devIndex (addNodeIndexLocked cn c m) = devIndex m"
  "nodeIndex (addDeviceIndexLocked cn c m) = nodeIndex m"
  by (auto simp: addNodeIndexLocked_def addDeviceIndexLocked_def split: option.splits any.splits)

lemma nodeIndex_addNodeIndexLocked [state_simps]:
  "nodeIndex (addNodeIndexLocked cn c m) n =
     (if n \<noteq> 0 \<and> GetMeta cn ''nodeID'' = Some (VUint32 n) then Some c else nodeIndex m n)"
  by (auto simp: addNodeIndexLocked_def split: option.splits any.splits)

lemma devIndex_addDeviceIndexLocked [state_simps]:
  "devIndex (addDeviceIndexLocked cn c m) d =
     (if d \<noteq> [] \<and> GetMeta cn ''deviceID'' = Some (VString d) then Some c else devIndex m d)"
  by (auto simp: addDeviceIndexLocked_def split: option.splits any.splits)

lemma remove_indexes [state_simps]:
  "conns (removeNodeIndexLocked c m) = conns m"
  "conns (removeDeviceIndexLocked c m) = conns m"
  "devIndex (removeNodeIndexLocked c m) = devIndex m"
  "nodeIndex (removeDeviceIndexLocked c m) = nodeIndex m"
  "nodeIndex (removeNodeIndexLocked c m) n = (if nodeIndex m n = Some c then None else nodeIndex m n)"
  "devIndex (removeDeviceIndexLocked c m) d = (if devIndex m d = Some c then None else devIndex m d)"
  by (simp_all add: removeNodeIndexLocked_def removeDeviceIndexLocked_def)

text \<open>The manager right after the critical sections of \<open>Add\<close> and \<open>Remove\<close>.\<close>

definition added :: "conn \<Rightarrow> cref \<Rightarrow> Manager \<Rightarrow> Manager" where
  "added cn c m =
     addDeviceIndexLocked cn c (addNodeIndexLocked cn c (m\<lparr>conns := AList.update (conn_ID cn) c (conns m)\<rparr>))"

definition removed :: "string \<Rightarrow> cref \<Rightarrow> Manager \<Rightarrow> Manager" where
  "removed cid c m =
     (let m1 = removeDeviceIndexLocked c (removeNodeIndexLocked c m)
      in m1\<lparr>conns := AList.delete cid (conns m1)\<rparr>)"

lemma added_fields [state_simps]:
  "conns (added cn c m) = AList.update (conn_ID cn) c (conns m)"
  "nodeIndex (added cn c m) n =
     (if n \<noteq> 0 \<and> GetMeta cn ''nodeID'' = Some (VUint32 n) then Some c else nodeIndex m n)"
  "devIndex (added cn c m) d =
     (if d \<noteq> [] \<and> GetMeta cn ''deviceID'' = Some (VString d) then Some c else devIndex m d)"
  by (simp_all add: added_def state_simps)

lemma removed_fields [state_simps]:
  "conns (removed cid c m) = AList.delete cid (conns m)"
  "nodeIndex (removed cid c m) n = (if nodeIndex m n = Some c then None else nodeIndex m n)"
  "devIndex (removed cid c m) d = (if devIndex m d = Some c then None else devIndex m d)"
  by (simp_all add: removed_def Let_def state_simps)

lemma mgr_inv_upto_added:
  assumes "mgr_inv_upto L w" "Get (mgr w) (conn_ID (heap w c)) = None"
  shows "mgr_inv_upto L (w\<lparr>mgr := added (heap w c) c (mgr w)\<rparr>)"
proof -
  let ?k = "conn_ID (heap w c)"
  have new: "?k \<notin> set (map fst (conns (mgr w)))"
    using assms(2) by (simp add: Get_def map_of_None_iff)
  have "managed (added (heap w c) c (mgr w)) c' \<longleftrightarrow> c' = c \<or> managed (mgr w) c'" for c'
    using new by (auto simp: managed_def state_simps update_new)
  then show ?thesis
    using assms(1) new unfolding mgr_inv_upto_def
    by (auto simp: state_simps update_new distinct_update)
qed

lemma mgr_inv_upto_removed:
  assumes "mgr_inv_upto L w" "Get (mgr w) cid = Some c"
  shows "mgr_inv_upto L (w\<lparr>mgr := removed cid c (mgr w)\<rparr>)"
proof -
  have "managed (removed cid c (mgr w)) c' \<longleftrightarrow> managed (mgr w) c' \<and> c' \<noteq> c" for c'
    using managed_delete_upto[OF assms] by (simp add: managed_def state_simps)
  then show ?thesis
    using assms(1) unfolding mgr_inv_upto_def
    by (auto simp: state_simps in_set_delete distinct_delete)
qed


section \<open>Environments that leave the manager alone\<close>

text \<open>
  The hooks and the transport keep the manager and the connection ids as they are; the
  metadata of a connection may change. The hooks the server installs are of this kind.
\<close>

definition same_ids :: "'x world_scheme \<Rightarrow> 'x world_scheme \<Rightarrow> bool" where
  "same_ids w' w \<longleftrightarrow> mgr w' = mgr w \<and> (\<forall>c. conn_ID (heap w' c) = conn_ID (heap w c))"

lemma same_ids_trans [trans]: "same_ids a b \<Longrightarrow> same_ids b c \<Longrightarrow> same_ids a c"
  by (simp add: same_ids_def)

lemma same_ids_refl [simp]: "same_ids w w"
  by (simp add: same_ids_def)

lemma mgr_inv_upto_same_ids: "same_ids w' w \<Longrightarrow> mgr_inv_upto L w' = mgr_inv_upto L w"
  by (simp add: same_ids_def mgr_inv_upto_def)

lemmas mgr_inv_same_ids = mgr_inv_upto_same_ids[where L = "{}", unfolded mgr_inv_upto_empty]

definition unmanaged :: "Manager \<Rightarrow> cref option \<Rightarrow> cref set" where
  "unmanaged m conn = (case conn of None \<Rightarrow> {} | Some c \<Rightarrow> if managed m c then {} else {c})"

lemma in_unmanaged [simp]: "c \<in> unmanaged m conn \<longleftrightarrow> conn = Some c \<and> \<not> managed m c"
  by (auto simp: unmanaged_def split: option.splits)

locale quiet_env =
  fixes env :: "'x world_scheme env"
  assumes hook_quiet: "same_ids (run_hook env i c w) w"
    and send_quiet: "same_ids (snd (conn_Send env c dat w)) w"
    and close_quiet: "same_ids (snd (conn_Close env c w)) w"
begin

lemma call_hook_quiet: "same_ids (call_hook env h c w) w"
  by (simp add: call_hook_def hook_quiet split: option.splits)

text \<open>What \<open>Add\<close> and \<open>Remove\<close> leave of the manager, on each branch.\<close>

lemma Add_new:
  assumes "Get (mgr w) (conn_ID (heap w c)) = None"
  shows "fst (Add env (Some c) w) = None"
    and "same_ids (snd (Add env (Some c) w)) (w\<lparr>mgr := added (heap w c) c (mgr w)\<rparr>)"
proof -
  let ?w0 = "w\<lparr>mgr := added (heap w c) c (mgr w)\<rparr>"
  have eq: "Add env (Some c) w =
      (None, call_hook env (OnAdd (linkHooks (mgr w))) c (call_hook env (OnAdd (conn_hooks (mgr w))) c ?w0))"
    using assms by (simp add: Add_def Get_def added_def Let_def)
  show "fst (Add env (Some c) w) = None"
    by (simp add: eq)
  show "same_ids (snd (Add env (Some c) w)) ?w0"
    unfolding eq snd_conv by (rule same_ids_trans[OF call_hook_quiet call_hook_quiet])
qed

lemma Add_refused:
  assumes "Get (mgr w) (conn_ID (heap w c)) = Some c'"
  shows "Add env (Some c) w = (Some (Err ''conn exists''), w)"
  using assms by (simp add: Add_def Get_def)

lemma Remove_found:
  assumes "Get (mgr w) cid = Some c"
  shows "same_ids (snd (Remove env cid w)) (w\<lparr>mgr := removed cid c (mgr w)\<rparr>)"
proof -
  let ?w0 = "w\<lparr>mgr := removed cid c (mgr w)\<rparr>"
  have "Remove env cid w = conn_Close env c (call_hook env (OnRemove (linkHooks (mgr w))) c
          (call_hook env (OnRemove (conn_hooks (mgr w))) c ?w0))"
    using assms by (simp add: Remove_def Get_def removed_def Let_def)
  then show ?thesis
    using same_ids_trans[OF close_quiet same_ids_trans[OF call_hook_quiet call_hook_quiet]] by simp
qed

lemma Remove_missing:
  "Get (mgr w) cid = None \<Longrightarrow> Remove env cid w = (Some (Err ''conn not found''), w)"
  by (simp add: Remove_def Get_def Let_def)

lemma mgr_inv_upto_Add:
  assumes "mgr_inv_upto L w"
  shows "mgr_inv_upto L (snd (Add env conn w))"
proof (cases conn)
  case None
  then show ?thesis using assms by (simp add: Add_def)
next
  case (Some c)
  show ?thesis
  proof (cases "Get (mgr w) (conn_ID (heap w c))")
    case None
    then show ?thesis
      using mgr_inv_upto_same_ids[OF Add_new(2)[OF None]] mgr_inv_upto_added[OF assms None] by (simp add: Some)
  next
    case (Some c')
    then show ?thesis using assms Add_refused[OF Some] by (simp add: \<open>conn = _\<close>)
  qed
qed

lemma mgr_inv_upto_Remove:
  assumes "mgr_inv_upto L w"
  shows "mgr_inv_upto L (snd (Remove env cid w))"
proof (cases "Get (mgr w) cid")
  case None
  then show ?thesis using assms by (simp add: Remove_missing)
next
  case (Some c)
  then show ?thesis
    using mgr_inv_upto_same_ids[OF Remove_found[OF Some]] mgr_inv_upto_removed[OF assms Some] by simp
qed

text \<open>The connections an index update binds although the manager does not hold them: at most one.\<close>

lemma mgr_inv_upto_UpdateNodeIndex:
  assumes "mgr_inv_upto L w"
  shows "mgr_inv_upto (L \<union> unmanaged (mgr w) conn) (UpdateNodeIndex env n conn w)"
proof -
  let ?L = "L \<union> unmanaged (mgr w) conn"
  have 0: "mgr_inv_upto ?L w"
    using assms by (rule mgr_inv_upto_mono) simp
  have 1: "mgr_inv_upto ?L (w\<lparr>mgr := (mgr w)\<lparr>nodeIndex := (nodeIndex (mgr w))(n := None)\<rparr>\<rparr>)"
    using 0 by (auto simp: mgr_inv_upto_def)
  have 2: "mgr_inv_upto ?L (w\<lparr>mgr := (mgr w)\<lparr>nodeIndex := (nodeIndex (mgr w))(n \<mapsto> c)\<rparr>\<rparr>)"
    if "n \<noteq> 0" "conn = Some c" for c
    using 0 that unfolding mgr_inv_upto_def by simp blast
  show ?thesis
    using 0 1 2 mgr_inv_upto_Remove
    by (auto simp: UpdateNodeIndex_def Let_def split: option.splits)
qed

lemma mgr_inv_upto_UpdateDeviceIndex:
  assumes "mgr_inv_upto L w"
  shows "mgr_inv_upto (L \<union> unmanaged (mgr w) conn) (UpdateDeviceIndex d conn w)"
  using mgr_inv_upto_mono[OF assms, of "L \<union> unmanaged (mgr w) conn"]
  by (auto simp: UpdateDeviceIndex_def Let_def mgr_inv_upto_def split: option.splits)

lemmas mgr_inv_Add = mgr_inv_upto_Add[where L = "{}", unfolded mgr_inv_upto_empty]
lemmas mgr_inv_Remove = mgr_inv_upto_Remove[where L = "{}", unfolded mgr_inv_upto_empty]

lemma close_each_quiet: "same_ids (close_each env h lh cs w) w"
proof (induction cs arbitrary: w)
  case Nil
  then show ?case by simp
next
  case (Cons c cs)
  have "same_ids (snd (conn_Close env c (call_hook env (OnRemove lh) c (call_hook env (OnRemove h) c w)))) w"
    by (rule same_ids_trans[OF close_quiet same_ids_trans[OF call_hook_quiet call_hook_quiet]])
  then show ?case
    using Cons same_ids_trans by (simp add: Let_def) blast
qed

lemma CloseAll_empties:
  "fst (CloseAll env order w) = None"
  "conns (mgr (snd (CloseAll env order w))) = []"
  "nodeIndex (mgr (snd (CloseAll env order w))) n = None"
  "devIndex (mgr (snd (CloseAll env order w))) d = None"
  using close_each_quiet[of "conn_hooks (mgr w)" "linkHooks (mgr w)" order]
  by (simp_all add: CloseAll_def Let_def same_ids_def)

lemma mgr_inv_CloseAll: "mgr_inv_upto L (snd (CloseAll env order w))"
  using CloseAll_empties[of order w] by (simp add: mgr_inv_upto_def)

end


section \<open>The table of connections as an interface\<close>

text \<open>
  What a client of \<open>IConnectionManager\<close> relies on: the manager is a map from ids to
  connections that \<open>Add\<close> extends, unless the id is taken, and \<open>Remove\<close> shrinks.
\<close>

locale conn_table =
  fixes get :: "'w \<Rightarrow> string \<Rightarrow> cref option"
    and add :: "cref \<Rightarrow> 'w \<Rightarrow> error option \<times> 'w"
    and remove :: "string \<Rightarrow> 'w \<Rightarrow> error option \<times> 'w"
    and ident :: "'w \<Rightarrow> cref \<Rightarrow> string"
  assumes add_new: "get w (ident w c) = None \<Longrightarrow>
      fst (add c w) = None \<and> get (snd (add c w)) = (get w)(ident w c \<mapsto> c)"
    and add_taken: "get w (ident w c) \<noteq> None \<Longrightarrow> fst (add c w) \<noteq> None \<and> snd (add c w) = w"
    and get_remove: "get (snd (remove k w)) = (get w)(k := None)"
    and ident_add: "ident (snd (add c w)) = ident w"
    and ident_remove: "ident (snd (remove k w)) = ident w"
begin

text \<open>A connection that comes and goes leaves the table as it was.\<close>

lemma add_remove_restores:
  "get w (ident w c) = None \<Longrightarrow> get (snd (remove (ident w c) (snd (add c w)))) = get w"
  by (auto simp: get_remove add_new fun_eq_iff)

text \<open>Once the old connection is removed, another with the same id is accepted.\<close>

lemma reconnect:
  assumes "get w k = Some c" "ident w c' = k"
  shows "fst (add c' w) \<noteq> None"
    and "fst (add c' (snd (remove k w))) = None"
    and "get (snd (add c' (snd (remove k w)))) = (get w)(k \<mapsto> c')"
  using assms add_taken[of w c'] add_new[of "snd (remove k w)" c']
  by (simp_all add: get_remove ident_remove)

end

sublocale quiet_env \<subseteq> conn_table: conn_table
  "\<lambda>w. Get (mgr w)" "\<lambda>c. Add env (Some c)" "Remove env" "\<lambda>w c. conn_ID (heap w c)"
proof
  fix w :: "'x world_scheme" and c k
  show "fst (Add env (Some c) w) = None
      \<and> Get (mgr (snd (Add env (Some c) w))) = (Get (mgr w))(conn_ID (heap w c) \<mapsto> c)"
    if "Get (mgr w) (conn_ID (heap w c)) = None"
    using Add_new[OF that] by (auto simp: same_ids_def Get_def fun_eq_iff state_simps update_conv')
  show "fst (Add env (Some c) w) \<noteq> None \<and> snd (Add env (Some c) w) = w"
    if "Get (mgr w) (conn_ID (heap w c)) \<noteq> None"
    using that Add_refused[of w c] by auto
  show "Get (mgr (snd (Remove env k w))) = (Get (mgr w))(k := None)"
  proof (cases "Get (mgr w) k")
    case None
    then show ?thesis by (auto simp: Remove_missing)
  next
    case (Some c)
    from Remove_found[OF this] show ?thesis
      by (auto simp: same_ids_def Get_def fun_eq_iff state_simps delete_conv')
  qed
  show "(\<lambda>c'. conn_ID (heap (snd (Add env (Some c) w)) c')) = (\<lambda>c'. conn_ID (heap w c'))"
    using Add_new(2)[of w c] Add_refused[of w c]
    by (cases "Get (mgr w) (conn_ID (heap w c))") (auto simp: same_ids_def)
  show "(\<lambda>c'. conn_ID (heap (snd (Remove env k w)) c')) = (\<lambda>c'. conn_ID (heap w c'))"
    using Remove_found[of w k] Remove_missing[of w k]
    by (cases "Get (mgr w) k") (auto simp: same_ids_def)
qed

text \<open>
  An environment that records what it is asked to do. It serves the witnesses below.
\<close>

datatype event = EHook nat cref | ESend cref "byte list" | EClose cref

record traced = world +
  trace :: "event list"

definition emit :: "event \<Rightarrow> traced \<Rightarrow> traced" where
  "emit e w = w\<lparr>trace := trace w @ [e]\<rparr>"

definition trace_env :: "traced env" where
  "trace_env = \<lparr>run_hook = (\<lambda>i c. emit (EHook i c)),
                conn_Send = (\<lambda>c dat w. (None, emit (ESend c dat) w)),
                conn_Close = (\<lambda>c w. (None, emit (EClose c) w))\<rparr>"

interpretation traced_mgr: quiet_env trace_env
  by unfold_locales (simp_all add: trace_env_def emit_def same_ids_def)


section \<open>The manager as a state machine\<close>

text \<open>
  Every operation of the manager, and the metadata writes of the connections, in any order. The
  label of a step is the set of connections that it binds to an index while the manager does not
  hold them; the code has no check against that. A reachable state comes with the union of the labels.
\<close>

inductive mgr_step :: "'x world_scheme env \<Rightarrow> cref set \<Rightarrow> 'x world_scheme \<Rightarrow> 'x world_scheme \<Rightarrow> bool" for env where
  add: "mgr_step env {} w (snd (Add env conn w))"
| remove: "mgr_step env {} w (snd (Remove env cid w))"
| bind_node: "mgr_step env (unmanaged (mgr w) conn) w (UpdateNodeIndex env n conn w)"
| bind_device: "mgr_step env (unmanaged (mgr w) conn) w (UpdateDeviceIndex d conn w)"
| send_all: "mgr_step env {} w (snd (Broadcast env order dat w))"
| close_all: "mgr_step env {} w (snd (CloseAll env order w))"
| set_hooks: "mgr_step env {} w (SetHooks h w)"
| set_link_hooks: "mgr_step env {} w (SetLinkHooks h w)"
| set_meta: "mgr_step env {} w (w\<lparr>heap := (heap w)(c := SetMeta key val (heap w c))\<rparr>)"

inductive mgr_reachable :: "'x world_scheme env \<Rightarrow> cref set \<Rightarrow> 'x world_scheme \<Rightarrow> bool" for env where
  init: "mgr w = Manager_New \<Longrightarrow> mgr_reachable env {} w"
| step: "mgr_reachable env L w \<Longrightarrow> mgr_step env B w w' \<Longrightarrow> mgr_reachable env (L \<union> B) w'"

context quiet_env
begin

lemma Range_send_quiet: "same_ids (Range order (\<lambda>c w. (True, snd (conn_Send env c dat w))) w) w"
proof (induction order arbitrary: w)
  case Nil
  then show ?case by simp
next
  case (Cons c cs)
  then show ?case
    using same_ids_trans[OF Cons.IH send_quiet] by simp
qed

lemma refines_map:
  "Get (mgr (snd (Add env (Some c) w))) =
     (if Get (mgr w) (conn_ID (heap w c)) = None
      then (Get (mgr w))(conn_ID (heap w c) \<mapsto> c) else Get (mgr w))
   \<and> fst (Add env (Some c) w) =
     (if Get (mgr w) (conn_ID (heap w c)) = None then None else Some (Err ''conn exists''))
   \<and> Get (mgr (snd (Remove env k w))) = (Get (mgr w))(k := None)
   \<and> fst (Add env (Some c) (snd (Remove env (conn_ID (heap w c)) w))) = None"
proof -
  have "conn_ID (heap (snd (Remove env k w)) c) = conn_ID (heap w c)" for k
    using fun_cong[OF conn_table.ident_remove[of k w], of c] by simp
  then have "fst (Add env (Some c) (snd (Remove env (conn_ID (heap w c)) w))) = None"
    using conn_table.add_new[of "snd (Remove env (conn_ID (heap w c)) w)" c]
    by (simp add: conn_table.get_remove)
  then show ?thesis
    using conn_table.add_new[of w c] Add_refused[of w c] by (auto simp: conn_table.get_remove)
qed

lemma mgr_inv_step: "mgr_step env B w w' \<Longrightarrow> mgr_inv_upto L w \<Longrightarrow> mgr_inv_upto (L \<union> B) w'"
proof (induction rule: mgr_step.induct)
  case (send_all w order dat)
  then show ?case
    using mgr_inv_upto_same_ids[OF Range_send_quiet] by (simp add: Broadcast_def)
next
  case (set_hooks w h)
  then show ?case by (simp add: SetHooks_def mgr_inv_upto_def managed_def)
next
  case (set_link_hooks w h)
  then show ?case by (simp add: SetLinkHooks_def mgr_inv_upto_def managed_def)
next
  case (set_meta w c key val)
  have "conn_ID (((heap w)(c := SetMeta key val (heap w c))) c') = conn_ID (heap w c')" for c'
    by (simp add: SetMeta_def)
  with set_meta show ?case by (simp add: mgr_inv_upto_def)
qed (simp_all add: mgr_inv_upto_Add mgr_inv_upto_Remove mgr_inv_upto_UpdateNodeIndex mgr_inv_upto_UpdateDeviceIndex
      mgr_inv_CloseAll)

lemma mgr_inv_reachable: "mgr_reachable env L w \<Longrightarrow> mgr_inv_upto L w"
proof (induction rule: mgr_reachable.induct)
  case (init w)
  then show ?case by (simp add: mgr_inv_upto_empty mgr_inv_New)
qed (rule mgr_inv_step)

end


text \<open>Two connections that claim the same node, for the witnesses.\<close>

definition ex_conn :: "string \<Rightarrow> conn" where
  "ex_conn cid = \<lparr>conn_ID = cid, meta = [''nodeID'' \<mapsto> VUint32 5, ''deviceID'' \<mapsto> VString ''dev'']\<rparr>"

definition ex_world :: traced where
  "ex_world = \<lparr>heap = (\<lambda>c. if c = 1 then ex_conn ''a'' else if c = 2 then ex_conn ''b'' else ex_conn ''z''),
               mgr = Manager_New, trace = []\<rparr>"

definition ex_world1 :: traced where
  "ex_world1 = snd (Add trace_env (Some 1) ex_world)"

definition ex_world2 :: traced where
  "ex_world2 = snd (Add trace_env (Some 2) (UpdateNodeIndex trace_env 6 (Some 1) ex_world1))"

lemmas ex_eval = ex_world_def ex_world1_def ex_world2_def ex_conn_def Add_def Manager_New_def GetMeta_def
  addNodeIndexLocked_def addDeviceIndexLocked_def call_hook_def Get_def GetByNode_def
  UpdateNodeIndex_def isDirectBind_def managed_def

lemma reachable_ex_world1: "mgr_reachable trace_env {} ex_world1"
  using mgr_reachable.step[OF mgr_reachable.init mgr_step.add[of trace_env ex_world "Some 1"]]
  by (simp add: ex_world1_def) (simp add: ex_world_def)

lemma reachable_ex_world2: "mgr_reachable trace_env {} ex_world2"
  using mgr_reachable.step[OF mgr_reachable.step[OF reachable_ex_world1 mgr_step.bind_node[of trace_env ex_world1 "Some 1" 6]]
      mgr_step.add[of trace_env _ "Some 2"]]
  by (simp add: ex_world2_def unmanaged_def) (simp add: ex_eval)

lemmas mgr_inv_ex_world1 = traced_mgr.mgr_inv_reachable[OF reachable_ex_world1, unfolded mgr_inv_upto_empty]
lemmas mgr_inv_ex_world2 = traced_mgr.mgr_inv_reachable[OF reachable_ex_world2, unfolded mgr_inv_upto_empty]


section \<open>Properties\<close>

text \<open>
  C4. The manager's invariant. In every state that any sequence of operations reaches from an
  empty manager, connection ids are distinct, every connection is stored under its own id, the
  node and device indexes have no entry under a zero node id or an empty device id, and an index
  entry points to a connection the manager holds, or else to one of the connections (\<open>L\<close>) that a
  caller bound at a time when the manager did not hold it. In particular \<open>Remove\<close>, \<open>CloseAll\<close> and the
  eviction of an old connection leave no entry behind for a connection that was bound while managed.
\<close>

theorem manager_invariant:
  assumes "quiet_env env" "mgr_reachable env L w"
  shows "distinct (map fst (conns (mgr w)))
       \<and> (\<forall>cid c. Get (mgr w) cid = Some c \<longrightarrow> conn_ID (heap w c) = cid)
       \<and> (\<forall>n c. GetByNode (mgr w) n = Some c \<longrightarrow> n \<noteq> 0 \<and> (Get (mgr w) (conn_ID (heap w c)) = Some c \<or> c \<in> L))
       \<and> (\<forall>d c. GetByDevice (mgr w) d = Some c \<longrightarrow> d \<noteq> [] \<and> (Get (mgr w) (conn_ID (heap w c)) = Some c \<or> c \<in> L))"
proof -
  have inv: "mgr_inv_upto L w"
    using assms by (rule quiet_env.mgr_inv_reachable)
  have m: "managed (mgr w) c \<longleftrightarrow> Get (mgr w) (conn_ID (heap w c)) = Some c" for c
    using managed_iff_Get[OF mgr_inv_upto_table[OF inv], of c] by (simp add: Get_def)
  have "conn_ID (heap w c) = cid" if "Get (mgr w) cid = Some c" for cid c
    using inv map_of_SomeD[OF that[unfolded Get_def]] by (auto simp: mgr_inv_upto_def)
  then show ?thesis
    using inv unfolding mgr_inv_upto_def m GetByNode_def GetByDevice_def by blast
qed

theorem manager_invariant_witness:
  "GetByNode (mgr ex_world2) 6 = Some 1 \<and> Get (mgr ex_world2) (conn_ID (heap ex_world2 1)) = Some 1"
proof -
  have "GetByNode (mgr ex_world2) 6 = Some 1"
    by (simp add: ex_eval)
  then show ?thesis
    using manager_invariant[OF traced_mgr.quiet_env_axioms reachable_ex_world2] by blast
qed

text \<open>
  A binding that comes too late stays. When a connection is bound to a node after it has been removed,
  the node index names a connection the manager does not hold, and no later \<open>Remove\<close> of its id finds it.
\<close>

theorem late_binding_is_stale:
  assumes "quiet_env env" "mgr_inv w" "Get (mgr w) cid = Some c" "n \<noteq> 0"
  defines "w2 \<equiv> UpdateNodeIndex env n (Some c) (snd (Remove env cid w))"
  shows "GetByNode (mgr w2) n = Some c \<and> \<not> managed (mgr w2) c
       \<and> Remove env cid w2 = (Some (Err ''conn not found''), w2)"
proof -
  define w1 where "w1 = snd (Remove env cid w)"
  have m1: "mgr w1 = removed cid c (mgr w)"
    using quiet_env.Remove_found[OF assms(1,3)] by (simp add: w1_def same_ids_def)
  have gone: "\<not> managed (mgr w1) c" "Get (mgr w1) cid = None"
    using managed_delete[OF assms(2,3), of c] by (simp_all add: m1 managed_def Get_def state_simps delete_conv')
  let ?v = "w1\<lparr>mgr := (mgr w1)\<lparr>nodeIndex := (nodeIndex (mgr w1))(n \<mapsto> c)\<rparr>\<rparr>"
  have v: "GetByNode (mgr ?v) n = Some c" "\<not> managed (mgr ?v) c" "Get (mgr ?v) cid = None"
    using gone by (simp_all add: GetByNode_def managed_def Get_def)
  have rem: "GetByNode (mgr (snd (Remove env k ?v))) n = Some c \<and> \<not> managed (mgr (snd (Remove env k ?v))) c
      \<and> Get (mgr (snd (Remove env k ?v))) cid = None" for k
  proof (cases "Get (mgr ?v) k")
    case None
    then show ?thesis using v quiet_env.Remove_missing[OF assms(1) None] by simp
  next
    case (Some e)
    then have "managed (mgr ?v) e" by (force simp: Get_def managed_def dest: map_of_SomeD)
    then have "e \<noteq> c" using v(2) by blast
    moreover have "mgr (snd (Remove env k ?v)) = removed k e (mgr ?v)"
      using quiet_env.Remove_found[OF assms(1) Some] by (simp add: same_ids_def)
    ultimately show ?thesis
      using v by (auto simp: GetByNode_def managed_def Get_def state_simps in_set_delete delete_conv')
  qed
  consider "w2 = ?v" | k where "w2 = snd (Remove env k ?v)"
    using assms(4) by (simp only: w2_def w1_def[symmetric] UpdateNodeIndex_def Let_def if_False option.case) metis
  then have "GetByNode (mgr w2) n = Some c \<and> \<not> managed (mgr w2) c \<and> Get (mgr w2) cid = None"
    using v rem by cases simp_all
  then show ?thesis
    using quiet_env.Remove_missing[OF assms(1)] by blast
qed

theorem late_binding_is_stale_witness:
  "GetByNode (mgr (UpdateNodeIndex trace_env 5 (Some 1) (snd (Remove trace_env ''a'' ex_world1)))) 5 = Some 1"
proof -
  have "Get (mgr ex_world1) ''a'' = Some 1"
    by (simp add: ex_eval)
  then show ?thesis
    using late_binding_is_stale[OF traced_mgr.quiet_env_axioms mgr_inv_ex_world1, of "''a''" 1 5] by simp
qed

text \<open>
  A removed connection is gone from every index. After \<open>Remove\<close> finds the connection, no
  lookup by id, node or device returns it, every other lookup answers as before, and the
  number of connections drops by one.
\<close>

theorem remove_forgets_connection:
  assumes "quiet_env env" "mgr_inv w" "Get (mgr w) cid = Some c"
  shows "let m' = mgr (snd (Remove env cid w)) in
         (\<forall>k. Get m' k = (if Get (mgr w) k = Some c then None else Get (mgr w) k))
       \<and> (\<forall>n. GetByNode m' n = (if GetByNode (mgr w) n = Some c then None else GetByNode (mgr w) n))
       \<and> (\<forall>d. GetByDevice m' d = (if GetByDevice (mgr w) d = Some c then None else GetByDevice (mgr w) d))
       \<and> Count m' + 1 = Count (mgr w)"
proof -
  define m' where "m' = mgr (snd (Remove env cid w))"
  have m': "m' = removed cid c (mgr w)"
    using quiet_env.Remove_found[OF assms(1,3)] by (simp add: m'_def same_ids_def)
  have uniq: "k = cid" if "Get (mgr w) k = Some c" for k
  proof -
    have "(k, c) \<in> set (conns (mgr w))" "(cid, c) \<in> set (conns (mgr w))"
      using that assms(3) by (simp_all add: Get_def map_of_SomeD)
    then show ?thesis
      using mgr_invD(2)[OF assms(2)] by metis
  qed
  have "Get m' k = (if Get (mgr w) k = Some c then None else Get (mgr w) k)" for k
  proof (cases "k = cid")
    case True
    then show ?thesis using assms(3) by (simp add: m' Get_def state_simps delete_conv')
  next
    case False
    then have "Get (mgr w) k \<noteq> Some c" using uniq by blast
    then show ?thesis using False by (simp add: m' Get_def state_simps delete_conv')
  qed
  moreover have "Count m' + 1 = Count (mgr w)"
    using length_delete_key[OF mgr_invD(1)[OF assms(2)], of cid c] assms(3)
    by (simp add: m' Count_def state_simps Get_def)
  ultimately show ?thesis
    by (simp add: m'_def[symmetric] Let_def) (simp add: m' GetByNode_def GetByDevice_def state_simps)
qed

theorem remove_forgets_connection_witness:
  "GetByNode (mgr (snd (Remove trace_env ''a'' ex_world1))) 5 = None \<and> GetByNode (mgr ex_world1) 5 = Some 1"
proof -
  have "Get (mgr ex_world1) ''a'' = Some 1" "GetByNode (mgr ex_world1) 5 = Some 1"
    by (simp_all add: ex_eval)
  then show ?thesis
    using remove_forgets_connection[OF traced_mgr.quiet_env_axioms mgr_inv_ex_world1, of "''a''" 1] by (simp add: Let_def)
qed



text \<open>
  C20. The manager refines a map from ids to connections: \<open>Add\<close> of a connection with a free id
  extends the map and reports no error, \<open>Add\<close> with a taken id reports an error and changes
  nothing, \<open>Remove\<close> deletes the id, so that adding and removing a connection restores the map
  and a connection with the id of a removed one can join.
\<close>

theorem manager_refines_map:
  assumes "quiet_env env"
  shows "Get (mgr (snd (Add env (Some c) w))) =
           (if Get (mgr w) (conn_ID (heap w c)) = None
            then (Get (mgr w))(conn_ID (heap w c) \<mapsto> c) else Get (mgr w))
       \<and> fst (Add env (Some c) w) =
           (if Get (mgr w) (conn_ID (heap w c)) = None then None else Some (Err ''conn exists''))
       \<and> Get (mgr (snd (Remove env k w))) = (Get (mgr w))(k := None)
       \<and> fst (Add env (Some c) (snd (Remove env (conn_ID (heap w c)) w))) = None"
  using assms by (rule quiet_env.refines_map)

theorem manager_refines_map_witness:
  "fst (Add trace_env (Some 1) ex_world1) = Some (Err ''conn exists'')
   \<and> fst (Add trace_env (Some 1) (snd (Remove trace_env ''a'' ex_world1))) = None"
proof -
  have "conn_ID (heap ex_world1 1) = ''a''" "Get (mgr ex_world1) ''a'' \<noteq> None"
    by (simp_all add: ex_eval)
  then show ?thesis
    using manager_refines_map[OF traced_mgr.quiet_env_axioms, of 1 ex_world1] by simp
qed

end
