(* ===== verification/Routing.thy ===== *)
theory Routing
  imports Header Config Conn_Manager
begin

text \<open>
  process/header_router.go and process/prerouting.go: the decision that looks at the header
  only, and the pre-routing stage that drops, broadcasts or forwards a frame before the local
  dispatcher sees it.

  \<open>PreRoute\<close> calls \<open>srv.Send\<close> of the server it finds in the context. That method is an argument
  (\<open>send\<close>): a call has a list of possible outcomes, each a panic or an error with the state of the
  program after it; the list is empty while the call blocks. An error is only logged, a panic
  ends \<open>PreRoute\<close>, and the next call sees the state the last one left. An outcome of \<open>PreRoute\<close> tells
  whether the frame still goes to the local dispatcher and, as a ghost log, the calls of \<open>Send\<close>
  that were made. The order in which \<open>Range\<close> visits the connections is
  an argument (\<open>order\<close> for the children, \<open>porder\<close> for the search of the parent). Headers are
  \<open>HeaderTcp\<close>, the only implementation of \<open>IHeader\<close> in the repository. A nil ingress
  connection is \<open>None\<close>; broadcasting then calls a method on it and panics.
\<close>

section \<open>HeaderRouter\<close>

datatype RouteDecisionKind =
    RouteDecisionDrop
  | RouteDecisionHopDispatch
  | RouteDecisionLocalDispatch
  | RouteDecisionFastForward
  | RouteDecisionBroadcastChildren

definition RouteDecisionKind_String :: "RouteDecisionKind \<Rightarrow> string" where
  "RouteDecisionKind_String k =
     (case k of
        RouteDecisionDrop \<Rightarrow> ''drop''
      | RouteDecisionHopDispatch \<Rightarrow> ''hop_dispatch''
      | RouteDecisionLocalDispatch \<Rightarrow> ''local_dispatch''
      | RouteDecisionFastForward \<Rightarrow> ''fast_forward''
      | RouteDecisionBroadcastChildren \<Rightarrow> ''broadcast_children'')"

record RouteDecision =
  Kind :: RouteDecisionKind
  Reason :: string

definition Decide :: "u32 \<Rightarrow> HeaderTcp option \<Rightarrow> RouteDecision" where
  "Decide localNodeID hdr =
     (case hdr of
        None \<Rightarrow> \<lparr>Kind = RouteDecisionDrop, Reason = ''nil_header''\<rparr>
      | Some h \<Rightarrow>
          if Source h = 0 \<and> SubProto h \<noteq> 2
          then \<lparr>Kind = RouteDecisionDrop, Reason = ''source_zero_non_auth''\<rparr>
          else if SubProto h = 2
          then \<lparr>Kind = RouteDecisionHopDispatch, Reason = ''auth_subproto''\<rparr>
          else if Major h = MajorCmd
          then \<lparr>Kind = RouteDecisionHopDispatch, Reason = ''major_cmd''\<rparr>
          else if Target h = 0
          then \<lparr>Kind = RouteDecisionBroadcastChildren, Reason = ''broadcast_children''\<rparr>
          else if Target h \<noteq> localNodeID
          then \<lparr>Kind = RouteDecisionFastForward, Reason = ''remote_target''\<rparr>
          else \<lparr>Kind = RouteDecisionLocalDispatch, Reason = ''local_target''\<rparr>)"


section \<open>Connection roles and node ids\<close>

abbreviation MetaRoleKey :: string where "MetaRoleKey \<equiv> ''role''"
abbreviation RoleParent :: string where "RoleParent \<equiv> ''parent''"
abbreviation RoleChild :: string where "RoleChild \<equiv> ''child''"

definition isParentConn :: "conn option \<Rightarrow> bool" where
  "isParentConn c =
     (case c of
        None \<Rightarrow> False
      | Some cn \<Rightarrow>
          (case GetMeta cn MetaRoleKey of
             Some (VString s) \<Rightarrow> s = RoleParent
           | _ \<Rightarrow> False))"

definition extractNodeID :: "conn option \<Rightarrow> u32" where
  "extractNodeID c =
     (case c of
        None \<Rightarrow> 0
      | Some cn \<Rightarrow>
          (case GetMeta cn ''nodeID'' of
             Some (VUint32 nid) \<Rightarrow> nid
           | _ \<Rightarrow> 0))"

text \<open>The loop of \<open>findParentConn\<close> stops at the first parent connection of the snapshot.\<close>

definition findParentConn :: "(cref \<Rightarrow> conn) \<Rightarrow> cref list \<Rightarrow> cref option" where
  "findParentConn hp porder = find (\<lambda>c. isParentConn (Some (hp c))) porder"


section \<open>PreRoutingProcess\<close>

record PreRoutingProcess =
  forwardMode :: bool

definition NewPreRoutingProcess :: PreRoutingProcess where
  "NewPreRoutingProcess = \<lparr>forwardMode = True\<rparr>"

definition WithConfig :: "(string \<Rightarrow> string) \<Rightarrow> config_get option \<Rightarrow> PreRoutingProcess \<Rightarrow> PreRoutingProcess" where
  "WithConfig ulow cfg p =
     (case cfg of
        None \<Rightarrow> p
      | Some get \<Rightarrow>
          (case get KeyRoutingForwardRemote of
             None \<Rightarrow> p
           | Some raw \<Rightarrow> p\<lparr>forwardMode := ParseBool ulow raw True\<rparr>))"

definition WithForwardMode :: "bool \<Rightarrow> PreRoutingProcess \<Rightarrow> PreRoutingProcess" where
  "WithForwardMode enable p = p\<lparr>forwardMode := enable\<rparr>"

text \<open>A call \<open>srv.Send(ctx, connID, hdr, payload)\<close>.\<close>

record send_req =
  req_conn :: string
  req_hdr :: HeaderTcp
  req_payload :: "byte list"

text \<open>The method \<open>Send\<close> of a server whose state is part of \<open>'w\<close>.\<close>

type_synonym 'w send_fn = "send_req \<Rightarrow> 'w \<Rightarrow> (error option \<times> 'w) outcome list"

definition forwardOrDrop :: "PreRoutingProcess \<Rightarrow> 'w send_fn \<Rightarrow> send_req \<Rightarrow> 'w \<Rightarrow> (send_req list \<times> 'w) outcome list" where
  "forwardOrDrop p send req w =
     (if \<not> forwardMode p then [Ret ([], w)]
      else map (map_outcome (\<lambda>(err, w'). ([req], w'))) (send req w))"

definition cloneForForward :: "HeaderTcp option \<Rightarrow> HeaderTcp option" where
  "cloneForForward hdr =
     (case hdr of
        None \<Rightarrow> None
      | Some h \<Rightarrow>
          (let clone = Clone (Some h);
               hop = (if HopLimit clone = 0 then DefaultHopLimit else HopLimit clone)
           in if hop \<le> 1 then None else Some (WithHopLimit (hop - 1) clone)))"

text \<open>
  The callback of \<open>handleBroadcast\<close> for one connection; \<open>src\<close> is the ingress connection, whose id
  is read first.
\<close>

definition broadcast_one ::
  "PreRoutingProcess \<Rightarrow> 'x world_scheme send_fn \<Rightarrow> cref option \<Rightarrow> HeaderTcp \<Rightarrow> byte list \<Rightarrow> cref
   \<Rightarrow> 'x world_scheme \<Rightarrow> (send_req list \<times> 'x world_scheme) outcome list" where
  "broadcast_one p send src hdr payload c w =
     (case src of
        None \<Rightarrow> [Panic]
      | Some s \<Rightarrow>
          if conn_ID (heap w c) = conn_ID (heap w s) then [Ret ([], w)]
          else if isParentConn (Some (heap w c)) then [Ret ([], w)]
          else if \<not> forwardMode p then [Ret ([], w)]
          else forwardOrDrop p send
                 \<lparr>req_conn = conn_ID (heap w c), req_hdr = Clone (Some hdr), req_payload = payload\<rparr> w)"

text \<open>The callback always asks \<open>Range\<close> to go on.\<close>

fun handleBroadcast ::
  "PreRoutingProcess \<Rightarrow> 'x world_scheme send_fn \<Rightarrow> cref option \<Rightarrow> HeaderTcp \<Rightarrow> byte list \<Rightarrow> cref list
   \<Rightarrow> 'x world_scheme \<Rightarrow> (send_req list \<times> 'x world_scheme) outcome list" where
  "handleBroadcast p send src hdr payload [] w = [Ret ([], w)]"
| "handleBroadcast p send src hdr payload (c # cs) w =
     bind_outcomes (broadcast_one p send src hdr payload c w)
       (\<lambda>(reqs, w1). map (map_outcome (\<lambda>(reqs', w2). (reqs @ reqs', w2)))
                       (handleBroadcast p send src hdr payload cs w1))"

definition forwardToLocalChild ::
  "PreRoutingProcess \<Rightarrow> 'x world_scheme send_fn \<Rightarrow> cref list \<Rightarrow> HeaderTcp \<Rightarrow> byte list \<Rightarrow> u32
   \<Rightarrow> 'x world_scheme \<Rightarrow> (bool \<times> send_req list \<times> 'x world_scheme) outcome list" where
  "forwardToLocalChild p send order hdr payload target w =
     (case GetByNode (mgr w) target of
        Some c \<Rightarrow>
          map (map_outcome (Pair True))
            (forwardOrDrop p send
               \<lparr>req_conn = conn_ID (heap w c), req_hdr = Clone (Some hdr), req_payload = payload\<rparr> w)
      | None \<Rightarrow>
          (case find (\<lambda>c. extractNodeID (Some (heap w c)) = target) order of
             Some c \<Rightarrow>
               map (map_outcome (Pair True))
                 (forwardOrDrop p send
                    \<lparr>req_conn = conn_ID (heap w c), req_hdr = Clone (Some hdr), req_payload = payload\<rparr> w)
           | None \<Rightarrow> [Ret (False, [], w)]))"

definition forwardToParent ::
  "PreRoutingProcess \<Rightarrow> 'x world_scheme send_fn \<Rightarrow> cref list \<Rightarrow> HeaderTcp \<Rightarrow> byte list \<Rightarrow> bool
   \<Rightarrow> 'x world_scheme \<Rightarrow> (send_req list \<times> 'x world_scheme) outcome list" where
  "forwardToParent p send porder hdr payload srcIsParent w =
     (if srcIsParent then [Ret ([], w)]
      else if \<not> forwardMode p then [Ret ([], w)]
      else case findParentConn (heap w) porder of
             Some c \<Rightarrow>
               forwardOrDrop p send \<lparr>req_conn = conn_ID (heap w c), req_hdr = hdr, req_payload = payload\<rparr> w
           | None \<Rightarrow> [Ret ([], w)])"

text \<open>
  \<open>srv\<close> is the node id of the server found in the context, if there is one; its manager is the
  manager of the state.
\<close>

definition PreRoute ::
  "PreRoutingProcess \<Rightarrow> 'x world_scheme send_fn \<Rightarrow> u32 option \<Rightarrow> cref list \<Rightarrow> cref list
   \<Rightarrow> cref option \<Rightarrow> HeaderTcp option \<Rightarrow> byte list \<Rightarrow> 'x world_scheme
   \<Rightarrow> (bool \<times> send_req list \<times> 'x world_scheme) outcome list" where
  "PreRoute p send srv order porder conn hdr payload w =
     (case srv of
        None \<Rightarrow> [Ret (True, [], w)]
      | Some nodeID \<Rightarrow>
          (case hdr of
             None \<Rightarrow> [Ret (True, [], w)]
           | Some h \<Rightarrow>
               (case Kind (Decide nodeID (Some h)) of
                  RouteDecisionDrop \<Rightarrow> [Ret (False, [], w)]
                | RouteDecisionHopDispatch \<Rightarrow> [Ret (True, [], w)]
                | RouteDecisionLocalDispatch \<Rightarrow> [Ret (True, [], w)]
                | RouteDecisionBroadcastChildren \<Rightarrow>
                    (case cloneForForward (Some h) of
                       None \<Rightarrow> [Ret (False, [], w)]
                     | Some fwdHdr \<Rightarrow>
                         map (map_outcome (Pair False)) (handleBroadcast p send conn fwdHdr payload order w))
                | RouteDecisionFastForward \<Rightarrow>
                    if \<not> forwardMode p then [Ret (False, [], w)]
                    else
                      (case cloneForForward (Some h) of
                         None \<Rightarrow> [Ret (False, [], w)]
                       | Some fwdHdr \<Rightarrow>
                           (let srcIsParent = isParentConn (map_option (heap w) conn)
                            in bind_outcomes (forwardToLocalChild p send order fwdHdr payload (Target h) w)
                                 (\<lambda>(done, reqs, w1).
                                    if done then [Ret (False, reqs, w1)]
                                    else map (map_outcome (Pair False))
                                           (forwardToParent p send porder fwdHdr payload srcIsParent w1)))))))"

text \<open>\<open>OnReceive\<close> runs \<open>PreRoute\<close> and ignores whether the frame was consumed.\<close>

definition PreRouting_OnReceive ::
  "PreRoutingProcess \<Rightarrow> 'x world_scheme send_fn \<Rightarrow> u32 option \<Rightarrow> cref list \<Rightarrow> cref list
   \<Rightarrow> cref option \<Rightarrow> HeaderTcp option \<Rightarrow> byte list \<Rightarrow> 'x world_scheme
   \<Rightarrow> (send_req list \<times> 'x world_scheme) outcome list" where
  "PreRouting_OnReceive p send srv order porder conn hdr payload w =
     map (map_outcome snd) (PreRoute p send srv order porder conn hdr payload w)"


section \<open>Hop counting\<close>

text \<open>The hops a frame has left: an unset limit counts as the default.\<close>

definition hops_left :: "HeaderTcp \<Rightarrow> nat" where
  "hops_left h = unat (if HopLimit h = 0 then DefaultHopLimit else HopLimit h)"

definition hop_of :: "HeaderTcp \<Rightarrow> u8" where
  "hop_of h = (if HopLimit h = 0 then DefaultHopLimit else HopLimit h)"

lemma hops_left_hop_of: "hops_left h = unat (hop_of h)"
  by (simp add: hops_left_def hop_of_def)

lemma cloneForForward_eq:
  "cloneForForward (Some h) = (if hop_of h \<le> 1 then None else Some (h\<lparr>HopLimit := hop_of h - 1\<rparr>))"
  by (simp add: cloneForForward_def Clone_def WithHopLimit_def hop_of_def Let_def)

lemma cloneForForward_None: "cloneForForward (Some h) = None \<longleftrightarrow> hops_left h \<le> 1"
  by (simp add: cloneForForward_eq hops_left_hop_of word8_le_iff)

lemma hops_left_forward:
  assumes "cloneForForward (Some h) = Some h'"
  shows "hops_left h = Suc (hops_left h')" "HopLimit h' \<noteq> 0" "h' = h\<lparr>HopLimit := HopLimit h'\<rparr>"
proof -
  have ge: "2 \<le> unat (hop_of h)" and h': "h' = h\<lparr>HopLimit := hop_of h - 1\<rparr>"
    using assms by (simp_all add: cloneForForward_eq u8_gt_1_iff split: if_splits)
  have "hop_of h \<noteq> 0"
    using ge by auto
  then have u: "unat (hop_of h - 1) = unat (hop_of h) - 1"
    by (rule unat_pred_u8)
  with ge have "unat (hop_of h - 1) \<noteq> 0"
    by linarith
  then have nz: "hop_of h - 1 \<noteq> 0"
    by (simp only: unsigned_eq_0_iff not_False_eq_True)
  show "HopLimit h' \<noteq> 0" using h' nz by simp
  show "h' = h\<lparr>HopLimit := HopLimit h'\<rparr>" using h' by simp
  have "hops_left h' = unat (hop_of h - 1)"
    using h' nz by (simp add: hops_left_def)
  then show "hops_left h = Suc (hops_left h')"
    using ge u by (simp only: hops_left_hop_of[of h])
qed

lemma hops_left_bounds: "1 \<le> hops_left h" "hops_left h \<le> 255"
proof -
  have "hop_of h \<noteq> 0"
    by (simp add: hop_of_def DefaultHopLimit_def)
  then have "unat (hop_of h) \<noteq> 0"
    by (simp only: unsigned_eq_0_iff not_False_eq_True)
  then show "1 \<le> hops_left h"
    by (simp only: hops_left_hop_of)
  show "hops_left h \<le> 255"
  proof -
    have "unat (hop_of h) < 2 ^ LENGTH(8)" by (rule unsigned_less)
    then show ?thesis by (simp add: hops_left_hop_of)
  qed
qed


section \<open>Which connections a frame is sent to\<close>

definition req_to :: "(cref \<Rightarrow> conn) \<Rightarrow> HeaderTcp \<Rightarrow> byte list \<Rightarrow> cref \<Rightarrow> send_req" where
  "req_to hp hdr payload c = \<lparr>req_conn = conn_ID (hp c), req_hdr = hdr, req_payload = payload\<rparr>"

lemma req_to_fields [simp]:
  "req_conn (req_to hp h pl c) = conn_ID (hp c)" "req_hdr (req_to hp h pl c) = h"
  "req_payload (req_to hp h pl c) = pl"
  by (simp_all add: req_to_def)

definition broadcast_target :: "(cref \<Rightarrow> conn) \<Rightarrow> cref \<Rightarrow> cref \<Rightarrow> bool" where
  "broadcast_target hp src c \<longleftrightarrow> conn_ID (hp c) \<noteq> conn_ID (hp src) \<and> \<not> isParentConn (Some (hp c))"

text \<open>
  The specification of a list of calls of \<open>Send\<close>: one after the other, errors ignored, until one panics.
\<close>

fun perform :: "'w send_fn \<Rightarrow> send_req list \<Rightarrow> 'w \<Rightarrow> 'w outcome list" where
  "perform send [] w = [Ret w]"
| "perform send (r # rs) w = bind_outcomes (send r w) (\<lambda>(err, w'). perform send rs w')"

text \<open>
  What pre-routing relies on when it sends several frames: \<open>Send\<close> of the server leaves the connections
  and the manager alone.
\<close>

locale quiet_send =
  fixes send :: "'x world_scheme send_fn"
  assumes send_keeps: "Ret (err, w') \<in> set (send r w) \<Longrightarrow> heap w' = heap w \<and> mgr w' = mgr w"
begin

lemma handleBroadcast_eq:
  "handleBroadcast p send (Some s) h pl order w =
     (let reqs = (if forwardMode p then map (req_to (heap w) h pl) (filter (broadcast_target (heap w) s) order) else [])
      in map (map_outcome (Pair reqs)) (perform send reqs w))"
proof (induction order arbitrary: w)
  case (Cons c cs)
  have one: "broadcast_one p send (Some s) h pl c w =
      (if forwardMode p \<and> broadcast_target (heap w) s c
       then map (map_outcome (\<lambda>(err, w'). ([req_to (heap w) h pl c], w'))) (send (req_to (heap w) h pl c) w)
       else [Ret ([], w)])"
    by (simp add: broadcast_one_def forwardOrDrop_def broadcast_target_def req_to_def Clone_def)
  show ?case
  proof (cases "forwardMode p \<and> broadcast_target (heap w) s c")
    case True
    have "map (map_outcome (\<lambda>(reqs', w2). ([req_to (heap w) h pl c] @ reqs', w2))) (handleBroadcast p send (Some s) h pl cs w1) =
        map (map_outcome (Pair (map (req_to (heap w) h pl) (filter (broadcast_target (heap w) s) (c # cs)))))
          (perform send (map (req_to (heap w) h pl) (filter (broadcast_target (heap w) s) cs)) w1)"
      if "Ret (err, w1) \<in> set (send (req_to (heap w) h pl c) w)" for err w1
      using send_keeps[OF that] True Cons.IH[of w1] by (simp add: Let_def outcome.map_comp comp_def)
    then have "bind_outcomes (send (req_to (heap w) h pl c) w)
          ((\<lambda>(reqs, w1). map (map_outcome (\<lambda>(reqs', w2). (reqs @ reqs', w2))) (handleBroadcast p send (Some s) h pl cs w1))
             \<circ> (\<lambda>(err, w'). ([req_to (heap w) h pl c], w'))) =
        bind_outcomes (send (req_to (heap w) h pl c) w)
          (map (map_outcome (Pair (map (req_to (heap w) h pl) (filter (broadcast_target (heap w) s) (c # cs)))))
             \<circ> (\<lambda>(err, w'). perform send (map (req_to (heap w) h pl) (filter (broadcast_target (heap w) s) cs)) w'))"
      by (intro bind_outcomes_cong) auto
    then show ?thesis
      using True by (simp add: one bind_outcomes_map map_bind_outcomes)
  next
    case False
    then show ?thesis
      using Cons.IH[of w] by (auto simp: one Let_def outcome.map_comp comp_def split_def)
  qed
qed simp

end

text \<open>The next hop of a unicast frame.\<close>

definition next_hop :: "'x world_scheme \<Rightarrow> cref list \<Rightarrow> cref list \<Rightarrow> cref option \<Rightarrow> u32 \<Rightarrow> cref option" where
  "next_hop w order porder conn target =
     (case GetByNode (mgr w) target of
        Some c \<Rightarrow> Some c
      | None \<Rightarrow>
          (case find (\<lambda>c. extractNodeID (Some (heap w c)) = target) order of
             Some c \<Rightarrow> Some c
           | None \<Rightarrow>
               if isParentConn (map_option (heap w) conn) then None
               else findParentConn (heap w) porder))"

lemma Kind_Decide:
  "Kind (Decide n (Some h)) =
     (if SubProto h = 2 then RouteDecisionHopDispatch
      else if Source h = 0 then RouteDecisionDrop
      else if Major h = MajorCmd then RouteDecisionHopDispatch
      else if Target h = 0 then RouteDecisionBroadcastChildren
      else if Target h \<noteq> n then RouteDecisionFastForward
      else RouteDecisionLocalDispatch)"
  by (simp add: Decide_def)

lemma PreRoute_unicast:
  assumes "Kind (Decide n (Some h)) = RouteDecisionFastForward"
  shows "PreRoute p send (Some n) order porder conn (Some h) pl w =
     (let reqs = (if forwardMode p
                  then (case cloneForForward (Some h) of
                          None \<Rightarrow> []
                        | Some h' \<Rightarrow> map (req_to (heap w) h' pl)
                            (case next_hop w order porder conn (Target h) of None \<Rightarrow> [] | Some c \<Rightarrow> [c]))
                  else [])
      in map (map_outcome (\<lambda>w'. (False, reqs, w'))) (perform send reqs w))"
  using assms
  by (auto simp: PreRoute_def Let_def forwardToLocalChild_def forwardToParent_def forwardOrDrop_def
      next_hop_def req_to_def Clone_def bind_outcomes_map map_bind_outcomes bind_outcomes_return outcome.map_comp
      comp_def split_def split: option.splits)

lemma PreRoute_broadcast:
  assumes "quiet_send send" "Kind (Decide n (Some h)) = RouteDecisionBroadcastChildren"
  shows "PreRoute p send (Some n) order porder (Some s) (Some h) pl w =
     (let reqs = (case cloneForForward (Some h) of
                    None \<Rightarrow> []
                  | Some h' \<Rightarrow> if forwardMode p
                      then map (req_to (heap w) h' pl) (filter (broadcast_target (heap w) s) order)
                      else [])
      in map (map_outcome (\<lambda>w'. (False, reqs, w'))) (perform send reqs w))"
  using assms(2) by (auto simp: PreRoute_def quiet_send.handleBroadcast_eq[OF assms(1)] Let_def outcome.map_comp comp_def
      split: option.splits)

text \<open>
  Whatever is sent is the forwarded clone of the header, with the payload as it came; so is the frame
  of a call of \<open>Send\<close> that panics.
\<close>

definition forwarded_req :: "HeaderTcp \<Rightarrow> byte list \<Rightarrow> send_req \<Rightarrow> bool" where
  "forwarded_req h pl r \<longleftrightarrow> cloneForForward (Some h) = Some (req_hdr r) \<and> req_payload r = pl"

lemma handleBroadcast_sends:
  assumes "\<And>c. Q \<lparr>req_conn = c, req_hdr = h, req_payload = pl\<rparr>"
  shows "Ret (reqs, w') \<in> set (handleBroadcast p send src h pl order w) \<Longrightarrow> list_all Q reqs \<and> (reqs \<noteq> [] \<longrightarrow> forwardMode p)"
proof (induction order arbitrary: reqs w)
  case (Cons c cs)
  then obtain rs v rs' where c: "Ret (rs, v) \<in> set (broadcast_one p send src h pl c w)"
    and cs: "Ret (rs', w') \<in> set (handleBroadcast p send src h pl cs v)" and reqs: "reqs = rs @ rs'"
    by (auto simp: split_def)
  have "list_all Q rs \<and> (rs \<noteq> [] \<longrightarrow> forwardMode p)"
    using c assms by (auto simp: broadcast_one_def forwardOrDrop_def Clone_def split: option.splits if_splits)
  then show ?case
    using Cons.IH[OF cs] reqs by auto
qed simp

lemma handleBroadcast_panics:
  assumes "\<And>c. Q \<lparr>req_conn = c, req_hdr = h, req_payload = pl\<rparr>"
  shows "Panic \<in> set (handleBroadcast p send (Some s) h pl order w) \<Longrightarrow> \<exists>r v. Q r \<and> Panic \<in> set (send r v)"
proof (induction order arbitrary: w)
  case (Cons c cs)
  then consider "Panic \<in> set (broadcast_one p send (Some s) h pl c w)"
    | v where "Panic \<in> set (handleBroadcast p send (Some s) h pl cs v)"
    by (auto simp: split_def)
  then show ?case
  proof cases
    case 1
    then show ?thesis using assms by (auto simp: broadcast_one_def forwardOrDrop_def Clone_def split: if_splits)
  qed (rule Cons.IH)
qed simp

lemma PreRoute_sends_all:
  assumes "Ret (cont, reqs, w') \<in> set (PreRoute p send (Some n) order porder conn (Some h) pl w)" "reqs \<noteq> []"
  shows "list_all (forwarded_req h pl) reqs \<and> \<not> cont \<and> forwardMode p
       \<and> Source h \<noteq> 0 \<and> SubProto h \<noteq> 2 \<and> Major h \<noteq> MajorCmd \<and> (Target h = 0 \<or> Target h \<noteq> n)"
proof (cases "Kind (Decide n (Some h))")
  case RouteDecisionFastForward
  then show ?thesis
    using assms unfolding PreRoute_unicast[OF RouteDecisionFastForward]
    by (auto simp: Kind_Decide forwarded_req_def split: option.splits if_splits)
next
  case RouteDecisionBroadcastChildren
  then obtain h' where h': "cloneForForward (Some h) = Some h'"
      "Ret (reqs, w') \<in> set (handleBroadcast p send conn h' pl order w)" "\<not> cont"
    using assms by (auto simp: PreRoute_def split: option.splits)
  have "list_all (forwarded_req h pl) reqs \<and> (reqs \<noteq> [] \<longrightarrow> forwardMode p)"
    by (rule handleBroadcast_sends[OF _ h'(2)]) (simp add: forwarded_req_def h'(1))
  then show ?thesis
    using assms(2) h'(3) RouteDecisionBroadcastChildren by (auto simp: Kind_Decide split: if_splits)
qed (use assms in \<open>simp_all add: PreRoute_def\<close>)

lemma PreRoute_sends:
  assumes "Ret (cont, reqs, w') \<in> set (PreRoute p send (Some n) order porder conn (Some h) pl w)" "r \<in> set reqs"
  shows "cloneForForward (Some h) = Some (req_hdr r) \<and> req_payload r = pl \<and> \<not> cont \<and> forwardMode p
       \<and> Source h \<noteq> 0 \<and> SubProto h \<noteq> 2 \<and> Major h \<noteq> MajorCmd \<and> (Target h = 0 \<or> Target h \<noteq> n)"
proof -
  have "reqs \<noteq> []" using assms(2) by auto
  from PreRoute_sends_all[OF assms(1) this] show ?thesis
    using assms(2) by (auto simp: list_all_iff forwarded_req_def)
qed

text \<open>Which frames go on to the local dispatcher.\<close>

lemma PreRoute_continues:
  assumes "Ret (cont, reqs, w') \<in> set (PreRoute p send (Some n) order porder conn (Some h) pl w)"
  shows "cont \<longleftrightarrow> SubProto h = 2 \<or> Source h \<noteq> 0 \<and> (Major h = MajorCmd \<or> Target h \<noteq> 0 \<and> Target h = n)"
    and "cont \<Longrightarrow> reqs = []"
proof -
  have "cont \<longleftrightarrow> Kind (Decide n (Some h)) \<in> {RouteDecisionHopDispatch, RouteDecisionLocalDispatch}"
    using assms by (cases "Kind (Decide n (Some h))") (auto simp: PreRoute_def Let_def split: option.splits if_splits)
  then show "cont \<longleftrightarrow> SubProto h = 2 \<or> Source h \<noteq> 0 \<and> (Major h = MajorCmd \<or> Target h \<noteq> 0 \<and> Target h = n)"
    by (auto simp: Kind_Decide)
  show "cont \<Longrightarrow> reqs = []"
    using PreRoute_sends_all[OF assms] by blast
qed

lemma PreRoute_panics:
  assumes "Panic \<in> set (PreRoute p send srv order porder (Some s) hdr pl w)"
  shows "\<exists>n h r v. srv = Some n \<and> hdr = Some h \<and> forwarded_req h pl r \<and> Panic \<in> set (send r v)"
proof -
  obtain n h where nh: "srv = Some n" "hdr = Some h"
    using assms by (auto simp: PreRoute_def split: option.splits)
  have "\<exists>r v. forwarded_req h pl r \<and> Panic \<in> set (send r v)"
  proof (cases "Kind (Decide n (Some h))")
    case RouteDecisionFastForward
    then obtain h' c where "cloneForForward (Some h) = Some h'" "Panic \<in> set (send (req_to (heap w) h' pl c) w)"
      using assms unfolding nh PreRoute_unicast[OF RouteDecisionFastForward]
      by (auto simp: Let_def split: option.splits if_splits)
    then show ?thesis
      by (intro exI[of _ "req_to (heap w) h' pl c"] exI[of _ w]) (simp add: forwarded_req_def)
  next
    case RouteDecisionBroadcastChildren
    then obtain h' where h': "cloneForForward (Some h) = Some h'"
        "Panic \<in> set (handleBroadcast p send (Some s) h' pl order w)"
      using assms by (auto simp: nh PreRoute_def split: option.splits)
    show ?thesis
      by (rule handleBroadcast_panics[OF _ h'(2)]) (simp add: forwarded_req_def h'(1))
  qed (use assms in \<open>simp_all add: PreRoute_def nh\<close>)
  then show ?thesis using nh by blast
qed

text \<open>When every call of \<open>Send\<close> comes to an end, so does \<open>PreRoute\<close>.\<close>

lemma handleBroadcast_nonempty:
  assumes "\<And>r v. send r v \<noteq> []"
  shows "handleBroadcast p send src h pl order w \<noteq> []"
proof (induction order arbitrary: w)
  case (Cons c cs)
  have "broadcast_one p send src h pl c w \<noteq> []"
    using assms by (simp add: broadcast_one_def forwardOrDrop_def split: option.split)
  then show ?case
    unfolding handleBroadcast.simps by (rule bind_outcomes_nonempty) (simp add: Cons.IH split_def)
qed simp

lemma PreRoute_nonempty:
  assumes "\<And>r v. send r v \<noteq> []"
  shows "PreRoute p send srv order porder conn hdr pl w \<noteq> []"
proof -
  have "forwardToLocalChild p send order h pl t w \<noteq> []" "forwardToParent p send porder h pl b v \<noteq> []" for h t b v
    using assms by (simp_all add: forwardToLocalChild_def forwardToParent_def forwardOrDrop_def split: option.split)
  then show ?thesis
    using handleBroadcast_nonempty[OF assms, where p = p and src = conn and order = order and w = w]
    by (simp add: PreRoute_def Let_def split_def bind_outcomes_nonempty split: option.split RouteDecisionKind.split)
qed

text \<open>A snapshot of the managed connections has each connection once, with distinct ids.\<close>

lemma snapshot_distinct_ids:
  assumes "mgr_inv w" "snapshot (mgr w) order"
  shows "distinct (map (\<lambda>c. conn_ID (heap w c)) order)" "set order = {c. managed (mgr w) c}"
proof -
  have "mset (map (\<lambda>c. conn_ID (heap w c)) order) = mset (map (\<lambda>c. conn_ID (heap w c)) (map snd (conns (mgr w))))"
    using assms(2) by (simp only: snapshot_def mset_map)
  also have "map (\<lambda>c. conn_ID (heap w c)) (map snd (conns (mgr w))) = map fst (conns (mgr w))"
    using mgr_invD(2)[OF assms(1)] by auto
  finally show "distinct (map (\<lambda>c. conn_ID (heap w c)) order)"
    using mgr_invD(1)[OF assms(1)] by (metis mset_eq_imp_distinct_iff)
  show "set order = {c. managed (mgr w) c}"
    using mset_eq_setD[OF assms(2)[unfolded snapshot_def]] by (auto simp: managed_def)
qed


lemma next_hop_Some:
  assumes "mgr_inv w" "snapshot (mgr w) order" "snapshot (mgr w) porder"
    and "next_hop w order porder conn t = Some c"
  shows "managed (mgr w) c
     \<and> (GetByNode (mgr w) t = Some c
        \<or> GetByNode (mgr w) t = None
          \<and> (extractNodeID (Some (heap w c)) = t
             \<or> isParentConn (Some (heap w c)) \<and> \<not> isParentConn (map_option (heap w) conn)
               \<and> \<not> (\<exists>c'. managed (mgr w) c' \<and> extractNodeID (Some (heap w c')) = t)))"
proof -
  have set: "set order = {c. managed (mgr w) c}" "set porder = {c. managed (mgr w) c}"
    using snapshot_distinct_ids(2)[OF assms(1)] assms(2,3) by auto
  show ?thesis
  proof (cases "GetByNode (mgr w) t")
    case (Some c')
    then have "managed (mgr w) c'"
      using mgr_invD(3)[OF assms(1)] by (simp add: GetByNode_def)
    then show ?thesis using Some assms(4) by (simp add: next_hop_def)
  next
    case none: None
    show ?thesis
    proof (cases "find (\<lambda>c. extractNodeID (Some (heap w c)) = t) order")
      case (Some c')
      then show ?thesis
        using find_SomeD[OF Some] none assms(4) set by (simp add: next_hop_def)
    next
      case None
      then have "\<not> (\<exists>c'. managed (mgr w) c' \<and> extractNodeID (Some (heap w c')) = t)"
        using set by (auto simp: find_None_iff)
      moreover have "\<not> isParentConn (map_option (heap w) conn)" "findParentConn (heap w) porder = Some c"
        using None none assms(4) by (simp_all add: next_hop_def split: if_splits)
      ultimately show ?thesis
        using find_SomeD[of _ porder c] none set by (auto simp: findParentConn_def)
    qed
  qed
qed

lemma next_hop_None:
  assumes "snapshot (mgr w) order" "snapshot (mgr w) porder"
  shows "next_hop w order porder conn t = None \<longleftrightarrow>
     GetByNode (mgr w) t = None
     \<and> \<not> (\<exists>c. managed (mgr w) c \<and> extractNodeID (Some (heap w c)) = t)
     \<and> (isParentConn (map_option (heap w) conn)
        \<or> \<not> (\<exists>c. managed (mgr w) c \<and> isParentConn (Some (heap w c))))"
proof -
  have set: "set order = {c. managed (mgr w) c}" "set porder = {c. managed (mgr w) c}"
    using assms mset_eq_setD[of _ "map snd (conns (mgr w))"] by (auto simp: snapshot_def managed_def)
  have "find (\<lambda>c. extractNodeID (Some (heap w c)) = t) order = None \<longleftrightarrow>
      \<not> (\<exists>c. managed (mgr w) c \<and> extractNodeID (Some (heap w c)) = t)"
    "findParentConn (heap w) porder = None \<longleftrightarrow>
      \<not> (\<exists>c. managed (mgr w) c \<and> isParentConn (Some (heap w c)))"
    using set by (auto simp: find_None_iff findParentConn_def)
  then show ?thesis
    by (auto simp: next_hop_def split: option.splits)
qed

text \<open>
  A frame that travels: it leaves a node as one of the frames \<open>PreRoute\<close> sends there, and
  enters the next node with the hop limit it left with (a sender may fill in the trace id, the
  codec rewrites magic, version and lengths). The nodes, their tables and their configuration
  are arbitrary at each step.
\<close>

inductive relayed :: "'x world_scheme send_fn \<Rightarrow> HeaderTcp \<Rightarrow> nat \<Rightarrow> HeaderTcp \<Rightarrow> bool" for send where
  start: "relayed send h 0 h"
| hop: "\<lbrakk>relayed send h k h'; Ret (cont, reqs, w') \<in> set (PreRoute p send (Some n) order porder conn (Some h') pl w);
         r \<in> set reqs; HopLimit h'' = HopLimit (req_hdr r)\<rbrakk> \<Longrightarrow> relayed send h (Suc k) h''"

lemma relayed_hops: "relayed send h k h' \<Longrightarrow> k + hops_left h' = hops_left h"
proof (induction rule: relayed.induct)
  case (start h)
  then show ?case by simp
next
  case (hop h k h' cont reqs w' p n order porder conn pl w r h'')
  have "cloneForForward (Some h') = Some (req_hdr r)"
    using PreRoute_sends[OF hop.hyps(2,3)] by blast
  then have "hops_left h' = Suc (hops_left (req_hdr r))"
    by (rule hops_left_forward)
  moreover have "hops_left h'' = hops_left (req_hdr r)"
    using hop.hyps(4) by (simp add: hops_left_def)
  ultimately show ?case
    using hop.IH by simp
qed

text \<open>A hub with a parent and two children, for the witnesses.\<close>

definition hub_heap :: "cref \<Rightarrow> conn" where
  "hub_heap c =
     (if c = 0 then \<lparr>conn_ID = ''up'', meta = [MetaRoleKey \<mapsto> VString RoleParent]\<rparr>
      else if c = 1 then \<lparr>conn_ID = ''c1'', meta = [MetaRoleKey \<mapsto> VString RoleChild, ''nodeID'' \<mapsto> VUint32 11]\<rparr>
      else \<lparr>conn_ID = ''c2'', meta = [MetaRoleKey \<mapsto> VString RoleChild, ''nodeID'' \<mapsto> VUint32 12]\<rparr>)"

definition hub_world :: world where
  "hub_world = \<lparr>heap = hub_heap,
                mgr = Manager_New\<lparr>conns := [(''up'', 0), (''c1'', 1), (''c2'', 2)], nodeIndex := [11 \<mapsto> 1, 12 \<mapsto> 2]\<rparr>\<rparr>"

definition msg :: "u32 \<Rightarrow> u32 \<Rightarrow> HeaderTcp" where
  "msg s t = zero_header\<lparr>TypeFmt := 6, Source := s, Target := t\<rparr>"

lemma mgr_inv_hub_world: "mgr_inv hub_world"
  by (auto simp: mgr_inv_def hub_world_def hub_heap_def managed_def Manager_New_def split: if_splits)

lemma snapshot_hub_world: "snapshot (mgr hub_world) [2, 0, 1]"
  by (simp add: snapshot_def hub_world_def)

lemma msg_fields [simp]:
  "SubProto (msg s t) = 1" "Major (msg s t) = 2" "Source (msg s t) = s" "Target (msg s t) = t"
  "hops_left (msg s t) = 16"
  by (simp_all add: msg_def SubProto_def Major_def zero_header_def hops_left_def DefaultHopLimit_def)


section \<open>Properties\<close>

text \<open>
  Forwarding spends a hop. Every frame \<open>PreRoute\<close> sends is the received one with exactly one
  hop less and nothing else changed, its hop limit is not zero (a zero limit would count as
  unset and start anew at the next node), its payload is untouched, and the frame is not
  dispatched locally as well.
\<close>

theorem forwarding_spends_one_hop:
  assumes "Ret (cont, reqs, w') \<in> set (PreRoute p send (Some n) order porder conn (Some h) pl w)" "r \<in> set reqs"
  shows "\<not> cont \<and> req_payload r = pl \<and> HopLimit (req_hdr r) \<noteq> 0
       \<and> req_hdr r = h\<lparr>HopLimit := HopLimit (req_hdr r)\<rparr> \<and> hops_left h = Suc (hops_left (req_hdr r))"
proof -
  have c: "cloneForForward (Some h) = Some (req_hdr r)" and rest: "\<not> cont" "req_payload r = pl"
    using PreRoute_sends[OF assms] by blast+
  show ?thesis
    using hops_left_forward[OF c] rest by simp
qed

definition send_ok :: "'w send_fn" where
  "send_ok r w = [Ret (None, w)]"

lemma quiet_send_ok: "quiet_send (send_ok :: 'x world_scheme send_fn)"
  by unfold_locales (simp add: send_ok_def)

lemma hub_forward:
  "PreRoute NewPreRoutingProcess send_ok (Some 5) [2, 0, 1] [0, 1, 2] (Some 1) (Some (msg 11 12)) pl hub_world =
     [Ret (False, [\<lparr>req_conn = ''c2'', req_hdr = (msg 11 12)\<lparr>HopLimit := 15\<rparr>, req_payload = pl\<rparr>], hub_world)]"
  by (simp add: PreRoute_unicast Kind_Decide MajorCmd_def NewPreRoutingProcess_def cloneForForward_eq
      hop_of_def DefaultHopLimit_def msg_def zero_header_def SubProto_def Major_def next_hop_def GetByNode_def
      hub_world_def req_to_def hub_heap_def word8_le_iff send_ok_def)

lemma hub_forwards:
  "Ret (False, [\<lparr>req_conn = ''c2'', req_hdr = (msg 11 12)\<lparr>HopLimit := 15\<rparr>, req_payload = pl\<rparr>], hub_world)
     \<in> set (PreRoute NewPreRoutingProcess send_ok (Some 5) [2, 0, 1] [0, 1, 2] (Some 1) (Some (msg 11 12)) pl hub_world)"
  unfolding hub_forward by simp

theorem forwarding_spends_one_hop_witness:
  "hops_left (msg 11 12) = Suc (hops_left ((msg 11 12)\<lparr>HopLimit := 15\<rparr>))"
  using forwarding_spends_one_hop[OF hub_forwards[of "[]"]] by simp

text \<open>
  C1. Loops end. However the nodes of a network are connected and configured, and whatever their \<open>Send\<close> does, a frame is
  forwarded fewer times than the hops it starts with: at most 254 times in a row, and at most
  15 times when the sender leaves the hop limit unset.
\<close>

theorem forwarding_terminates:
  assumes "relayed send h k h'"
  shows "k < hops_left h \<and> k \<le> 254 \<and> (HopLimit h = 0 \<longrightarrow> k \<le> 15)"
proof -
  have "k + hops_left h' = hops_left h" "1 \<le> hops_left h'" "hops_left h \<le> 255"
    using relayed_hops[OF assms] hops_left_bounds by auto
  then show ?thesis
    by (auto simp: hops_left_def DefaultHopLimit_def split: if_splits)
qed

theorem forwarding_terminates_witness:
  "relayed (send_ok :: world send_fn) (msg 11 12) 1 ((msg 11 12)\<lparr>HopLimit := 15\<rparr>) \<and> 1 < hops_left (msg 11 12)"
proof -
  have r: "relayed (send_ok :: world send_fn) (msg 11 12) 1 ((msg 11 12)\<lparr>HopLimit := 15\<rparr>)"
    using relayed.hop[OF relayed.start hub_forwards[of "[]"], of _ "(msg 11 12)\<lparr>HopLimit := 15\<rparr>"] by simp
  then show ?thesis
    using forwarding_terminates[OF r] by simp
qed

text \<open>
  C11. A broadcast reaches each child once. At a node with a server, pre-routing of a frame with target 0 (a
  message with a source) makes exactly the calls of \<open>Send\<close> in \<open>reqs\<close>, one after the other, and consumes the
  frame. They name every connection of the manager other than the one the frame came from and the
  parent connections, exactly once each, in whatever order \<open>Range\<close> visits them, provided forwarding is
  enabled and at least two hops are left; otherwise there are none. A call that fails does not stop the
  next one; a call that panics does.
\<close>

theorem broadcast_reaches_each_child_once:
  assumes "quiet_send send" "mgr_inv w" "snapshot (mgr w) order" "managed (mgr w) s"
    and "Source h \<noteq> 0" "SubProto h \<noteq> 2" "Major h \<noteq> MajorCmd" "Target h = 0"
  shows "\<exists>reqs. PreRoute p send (Some n) order porder (Some s) (Some h) pl w
             = map (map_outcome (\<lambda>w'. (False, reqs, w'))) (perform send reqs w)
           \<and> distinct (map req_conn reqs)
           \<and> set (map req_conn reqs) =
               (if forwardMode p \<and> 2 \<le> hops_left h
                then {conn_ID (heap w c) |c. managed (mgr w) c \<and> c \<noteq> s \<and> \<not> isParentConn (Some (heap w c))}
                else {})"
proof -
  have kind: "Kind (Decide n (Some h)) = RouteDecisionBroadcastChildren"
    using assms(5-8) by (simp add: Kind_Decide)
  note dist = snapshot_distinct_ids[OF assms(2,3)]
  have target: "broadcast_target (heap w) s c \<longleftrightarrow> c \<noteq> s \<and> \<not> isParentConn (Some (heap w c))"
    if "managed (mgr w) c" for c
    using that assms(4) dist by (auto simp: broadcast_target_def distinct_map inj_on_def)
  show ?thesis
  proof (cases "forwardMode p \<and> 2 \<le> hops_left h")
    case True
    then obtain h' where h': "cloneForForward (Some h) = Some h'"
      using cloneForForward_None[of h] by (cases "cloneForForward (Some h)") auto
    let ?reqs = "map (req_to (heap w) h' pl) (filter (broadcast_target (heap w) s) order)"
    have ids: "map req_conn ?reqs = map (\<lambda>c. conn_ID (heap w c)) (filter (broadcast_target (heap w) s) order)"
      by simp
    have "distinct (map req_conn ?reqs)"
      unfolding ids using dist(1) by (rule distinct_map_filter)
    moreover have "set (map req_conn ?reqs) =
        {conn_ID (heap w c) |c. managed (mgr w) c \<and> c \<noteq> s \<and> \<not> isParentConn (Some (heap w c))}"
      unfolding ids using target dist(2) by auto
    moreover have "PreRoute p send (Some n) order porder (Some s) (Some h) pl w
        = map (map_outcome (\<lambda>w'. (False, ?reqs, w'))) (perform send ?reqs w)"
      using True h' PreRoute_broadcast[OF assms(1) kind, of p order porder s pl w] by (simp add: Let_def)
    ultimately show ?thesis
      unfolding if_P[OF True] by blast
  next
    case False
    then have "PreRoute p send (Some n) order porder (Some s) (Some h) pl w = [Ret (False, [], w)]"
      using cloneForForward_None[of h] by (auto simp: PreRoute_broadcast[OF assms(1) kind] split: option.splits)
    then show ?thesis unfolding if_not_P[OF False] by (intro exI[of _ "[]"]) simp
  qed
qed

theorem broadcast_reaches_each_child_once_witness:
  "\<exists>reqs. PreRoute NewPreRoutingProcess send_ok (Some 5) [2, 0, 1] [] (Some 1) (Some (msg 11 0)) [7] hub_world
            = map (map_outcome (\<lambda>w'. (False, reqs, w'))) (perform send_ok reqs hub_world)
          \<and> set (map req_conn reqs) = {conn_ID (heap hub_world c) |c.
               managed (mgr hub_world) c \<and> c \<noteq> 1 \<and> \<not> isParentConn (Some (heap hub_world c))}"
proof -
  have "managed (mgr hub_world) 1"
    by (simp add: managed_def hub_world_def)
  from broadcast_reaches_each_child_once[OF quiet_send_ok mgr_inv_hub_world snapshot_hub_world this,
      of "msg 11 0" NewPreRoutingProcess 5 "[]" "[7]"]
  show ?thesis
    by (auto simp: MajorCmd_def NewPreRoutingProcess_def)
qed



end
