(* ===== verification/Queue_Strategy.thy ===== *)
theory Queue_Strategy
  imports Header Config
begin

text \<open>
  process/queuestrategy.go: the four strategies that map an incoming frame to a queue index,
  with the FNV-1a hashes of hash/fnv they use and the configuration string that selects one.

  A connection is given by its \<open>ID()\<close>, \<open>None\<close> for a nil connection; a header is \<open>None\<close> when
  nil. The queue count is a Go \<open>int\<close>, an integer below \<open>2 ^ 63\<close>. \<open>RoundRobinStrategy\<close> has a
  counter, which every strategy carries as its state here. The locales state the contract that
  the comment of \<open>QueueSelectStrategy\<close> asks for (the index is in range) and the ordering
  contract of the three strategies that hash a key.
\<close>

section \<open>FNV-1a\<close>

definition fnv32a :: "byte list \<Rightarrow> u32" where
  "fnv32a bs = fold (\<lambda>b h. (h XOR ucast b) * 16777619) bs 2166136261"

definition fnv64a :: "byte list \<Rightarrow> u64" where
  "fnv64a bs = fold (\<lambda>b h. (h XOR ucast b) * 1099511628211) bs 14695981039346656037"

definition bytes_of :: "string \<Rightarrow> byte list" where
  "bytes_of s = map (\<lambda>c. of_nat (of_char c)) s"


section \<open>The strategies\<close>

datatype strategy = ConnHashStrategy | SubProtoStrategy | SourceTargetStrategy | RoundRobinStrategy

type_synonym select_result = "int outcome \<times> u64"

text \<open>
  Unsigned remainder by a converted \<open>int\<close>: Go panics when the divisor is zero, which for
  \<open>uint32(n)\<close> is when \<open>n\<close> is a multiple of \<open>2 ^ 32\<close>. Converting the remainder back to \<open>int\<close>
  keeps a \<open>uint32\<close> and reads a \<open>uint64\<close> as signed.
\<close>

definition ConnHash_SelectQueue :: "string option \<Rightarrow> HeaderTcp option \<Rightarrow> int \<Rightarrow> int outcome" where
  "ConnHash_SelectQueue conn hdr n =
     (if n \<le> 1 then Ret 0
      else case conn of
        Some cid \<Rightarrow>
          (let m = (word_of_int n :: u32)
           in if m = 0 then Panic else Ret (uint (fnv32a (bytes_of cid) mod m)))
      | None \<Rightarrow>
          (case hdr of
             Some h \<Rightarrow> Ret (uint (SubProto h) mod n)
           | None \<Rightarrow> Ret 0))"

definition SubProto_SelectQueue :: "HeaderTcp option \<Rightarrow> int \<Rightarrow> int outcome" where
  "SubProto_SelectQueue hdr n =
     (if n \<le> 1 then Ret 0
      else case hdr of None \<Rightarrow> Ret 0 | Some h \<Rightarrow> Ret (uint (SubProto h) mod n))"

text \<open>The two loops that write a 32-bit id into eight bytes: a shift by 32 or more gives zero.\<close>

definition id_bytes8 :: "u32 \<Rightarrow> byte list" where
  "id_bytes8 s = map (\<lambda>i. ucast (drop_bit (56 - 8 * i) s)) [0..<8]"

definition SourceTarget_SelectQueue :: "HeaderTcp option \<Rightarrow> int \<Rightarrow> int outcome" where
  "SourceTarget_SelectQueue hdr n =
     (if n \<le> 1 then Ret 0
      else case hdr of
        None \<Rightarrow> Ret 0
      | Some h \<Rightarrow>
          (let buf = id_bytes8 (Source h) @ id_bytes8 (Target h);
               m = (word_of_int n :: u64)
           in if m = 0 then Panic else Ret (sint (fnv64a buf mod m))))"

text \<open>\<open>nextCounter\<close> returns the counter before the increment and wraps at \<open>2 ^ 64\<close>.\<close>

definition nextCounter :: "u64 \<Rightarrow> u64 \<times> u64" where
  "nextCounter c = (let c' = c + 1 in (c' - 1, c'))"

definition RoundRobin_SelectQueue :: "u64 \<Rightarrow> int \<Rightarrow> select_result" where
  "RoundRobin_SelectQueue c n =
     (if n \<le> 1 then (Ret 0, c)
      else let (v, c') = nextCounter c;
               m = (word_of_int n :: u64)
           in (if m = 0 then Panic else Ret (sint (v mod m)), c'))"

definition SelectQueue ::
  "strategy \<Rightarrow> u64 \<Rightarrow> string option \<Rightarrow> HeaderTcp option \<Rightarrow> int \<Rightarrow> select_result" where
  "SelectQueue st c conn hdr n =
     (case st of
        ConnHashStrategy \<Rightarrow> (ConnHash_SelectQueue conn hdr n, c)
      | SubProtoStrategy \<Rightarrow> (SubProto_SelectQueue hdr n, c)
      | SourceTargetStrategy \<Rightarrow> (SourceTarget_SelectQueue hdr n, c)
      | RoundRobinStrategy \<Rightarrow> RoundRobin_SelectQueue c n)"

definition strategy_Name :: "strategy \<Rightarrow> string" where
  "strategy_Name st =
     (case st of
        ConnHashStrategy \<Rightarrow> ''conn''
      | SubProtoStrategy \<Rightarrow> ''subproto''
      | SourceTargetStrategy \<Rightarrow> ''source_target''
      | RoundRobinStrategy \<Rightarrow> ''roundrobin'')"

definition StrategyFromConfig :: "(string \<Rightarrow> string) \<Rightarrow> string \<Rightarrow> strategy" where
  "StrategyFromConfig ulow raw =
     (let s = ToLower ulow (TrimSpace raw)
      in if s = ''subproto'' then SubProtoStrategy
         else if s = ''source_target'' then SourceTargetStrategy
         else if s = ''roundrobin'' then RoundRobinStrategy
         else ConnHashStrategy)"


section \<open>Ranges\<close>

lemma word_of_int_u32_zero_iff: "(word_of_int n :: u32) = 0 \<longleftrightarrow> 2 ^ 32 dvd n"
  by (simp add: word_of_int_eq_0_iff)

lemma word_of_int_u64_nonzero: "0 < n \<Longrightarrow> n < 2 ^ 63 \<Longrightarrow> (word_of_int n :: u64) \<noteq> 0"
  by (auto simp: word_of_int_eq_0_iff dest: zdvd_imp_le)

lemma uint_of_int_le: "0 \<le> n \<Longrightarrow> uint (word_of_int n :: 'a::len word) \<le> n"
  by (simp add: unsigned_of_int take_bit_int_less_eq_self_iff)

lemma uint_u64_id: "0 \<le> n \<Longrightarrow> n < 2 ^ 63 \<Longrightarrow> uint (word_of_int n :: u64) = n"
  by (simp add: unsigned_of_int take_bit_int_eq_self)

text \<open>A 64-bit remainder by \<open>n < 2 ^ 63\<close> is the mathematical one, read back as signed.\<close>

lemma sint_mod_u64:
  assumes "0 < n" "n < 2 ^ 63"
  shows "sint (v mod (word_of_int n :: u64)) = uint v mod n"
proof -
  have "uint (v mod (word_of_int n :: u64)) = uint v mod n"
    using assms by (simp add: uint_mod uint_u64_id)
  moreover have "0 \<le> uint v mod n"
    using assms by simp
  moreover have "uint v mod n < 2 ^ 63"
    using assms pos_mod_bound[of n "uint v"] by linarith
  ultimately show ?thesis
    by (simp add: sint_uint signed_take_bit_int_eq_self)
qed

lemma uint_mod_u32_range:
  assumes "0 < n" "(word_of_int n :: u32) \<noteq> 0"
  shows "0 \<le> uint (v mod (word_of_int n :: u32)) \<and> uint (v mod (word_of_int n :: u32)) < n"
proof -
  have "0 < uint (word_of_int n :: u32)"
    using assms(2) by (simp add: word_neq_0_conv[symmetric] uint_0_iff[symmetric] order_neq_le_trans)
  then have "uint v mod uint (word_of_int n :: u32) < uint (word_of_int n :: u32)"
    by (rule pos_mod_bound)
  moreover have "uint (word_of_int n :: u32) \<le> n"
    using assms(1) by (intro uint_of_int_le) simp
  moreover have "0 \<le> uint (v mod (word_of_int n :: u32))"
    by (rule unsigned_greater_eq)
  ultimately show ?thesis
    by (simp add: uint_mod)
qed


section \<open>The contracts as locales\<close>

type_synonym event_key_args = "string option \<times> HeaderTcp option"

text \<open>
  What a strategy does to a sequence of events: the events that land in queue \<open>q\<close>, in order.
\<close>

fun queue_contents ::
  "('s \<Rightarrow> string option \<Rightarrow> HeaderTcp option \<Rightarrow> int \<Rightarrow> int outcome \<times> 's) \<Rightarrow> 's \<Rightarrow> int \<Rightarrow> int
   \<Rightarrow> event_key_args list \<Rightarrow> event_key_args list" where
  "queue_contents sel s n q [] = []"
| "queue_contents sel s n q (e # es) =
     (let (r, s') = sel s (fst e) (snd e) n
      in (if r = Ret q then [e] else []) @ queue_contents sel s' n q es)"

locale queue_strategy =
  fixes sel :: "'s \<Rightarrow> string option \<Rightarrow> HeaderTcp option \<Rightarrow> int \<Rightarrow> int outcome \<times> 's"
    and ok :: "int \<Rightarrow> bool"
  assumes single: "n \<le> 1 \<Longrightarrow> sel s c h n = (Ret 0, s)"
    and in_range: "1 < n \<Longrightarrow> ok n \<Longrightarrow> \<exists>q. fst (sel s c h n) = Ret q \<and> 0 \<le> q \<and> q < n"
begin

text \<open>No event is lost or duplicated: each lands in exactly one of the \<open>n\<close> queues.\<close>

lemma index_exists:
  assumes "1 \<le> n" "ok n"
  shows "\<exists>q. fst (sel s c h n) = Ret q \<and> 0 \<le> q \<and> q < n"
proof (cases "n = 1")
  case True
  then show ?thesis by (simp add: single)
next
  case False
  with assms have "1 < n" by simp
  then show ?thesis using assms(2) by (rule in_range)
qed

lemma contents_subseq: "subseq (queue_contents sel s n q es) es"
  by (induction es arbitrary: s) (auto simp: Let_def split: prod.splits)

lemma contents_total:
  assumes "1 \<le> n" "ok n"
  shows "(\<Sum>q\<in>{0..<n}. length (queue_contents sel s n q es)) = length es"
proof (induction es arbitrary: s)
  case Nil
  then show ?case by simp
next
  case (Cons e es)
  obtain q s' where q: "sel s (fst e) (snd e) n = (Ret q, s')" "0 \<le> q" "q < n"
    using index_exists[OF assms, of s "fst e" "snd e"] by (metis prod.collapse)
  have "length (queue_contents sel s n q' (e # es)) =
          (if q' = q then 1 else 0) + length (queue_contents sel s' n q' es)" for q'
    using q by simp
  then have "(\<Sum>q'\<in>{0..<n}. length (queue_contents sel s n q' (e # es))) =
      (\<Sum>q'\<in>{0..<n}. if q' = q then 1 else 0) + (\<Sum>q'\<in>{0..<n}. length (queue_contents sel s' n q' es))"
    by (simp add: sum.distrib)
  also have "\<dots> = 1 + length es"
    using q Cons.IH by simp
  finally show ?case by simp
qed

end

text \<open>A strategy that hashes a key keeps the order of the events with the same key.\<close>

locale keyed_strategy = queue_strategy sel ok
  for sel :: "'s \<Rightarrow> string option \<Rightarrow> HeaderTcp option \<Rightarrow> int \<Rightarrow> int outcome \<times> 's"
    and ok :: "int \<Rightarrow> bool" +
  fixes key :: "string option \<Rightarrow> HeaderTcp option \<Rightarrow> 'k"
  assumes same_key: "key c h = key c' h' \<Longrightarrow> fst (sel s c h n) = fst (sel s' c' h' n)"
begin

lemma contents_of_key:
  assumes "fst (sel s\<^sub>0 c\<^sub>0 h\<^sub>0 n) = Ret q\<^sub>0" "key c\<^sub>0 h\<^sub>0 = k"
  shows "filter (\<lambda>e. key (fst e) (snd e) = k) (queue_contents sel s n q es) =
         (if q = q\<^sub>0 then filter (\<lambda>e. key (fst e) (snd e) = k) es else [])"
proof (induction es arbitrary: s)
  case Nil
  then show ?case by simp
next
  case (Cons e es)
  obtain r s' where r: "sel s (fst e) (snd e) n = (r, s')" by fastforce
  have "r = Ret q\<^sub>0" if "key (fst e) (snd e) = k"
    using same_key[of "fst e" "snd e" c\<^sub>0 h\<^sub>0 s n s\<^sub>0] assms r that by simp
  then show ?case
    using Cons.IH r by simp
qed

lemma key_order_kept:
  assumes "1 \<le> n" "ok n"
  shows "\<exists>q\<^sub>0\<in>{0..<n}. \<forall>q. filter (\<lambda>e. key (fst e) (snd e) = k) (queue_contents sel s n q es) =
           (if q = q\<^sub>0 then filter (\<lambda>e. key (fst e) (snd e) = k) es else [])"
proof (cases "\<exists>c h. key c h = k")
  case True
  then obtain c h where kh: "key c h = k" by blast
  obtain q\<^sub>0 where q0: "fst (sel s c h n) = Ret q\<^sub>0" "0 \<le> q\<^sub>0" "q\<^sub>0 < n"
    using index_exists[OF assms] by blast
  show ?thesis
    using contents_of_key[OF q0(1) kh] q0(2,3) by (intro bexI[of _ q\<^sub>0]) auto
next
  case False
  then show ?thesis using assms(1) by (intro bexI[of _ 0]) auto
qed

end

definition conn_key :: "string option \<Rightarrow> HeaderTcp option \<Rightarrow> string + u8 option" where
  "conn_key c h = (case c of Some cid \<Rightarrow> Inl cid | None \<Rightarrow> Inr (map_option SubProto h))"

definition pair_key :: "string option \<Rightarrow> HeaderTcp option \<Rightarrow> (u32 \<times> u32) option" where
  "pair_key c h = map_option (\<lambda>x. (Source x, Target x)) h"

interpretation conn_hash: keyed_strategy "SelectQueue ConnHashStrategy" "\<lambda>n. \<not> 2 ^ 32 dvd n" conn_key
proof
  show "SelectQueue ConnHashStrategy s c h n = (Ret 0, s)" if "n \<le> 1" for s c h n
    using that by (simp add: SelectQueue_def ConnHash_SelectQueue_def)
  show "\<exists>q. fst (SelectQueue ConnHashStrategy s c h n) = Ret q \<and> 0 \<le> q \<and> q < n"
    if "1 < n" "\<not> 2 ^ 32 dvd n" for s c h n
    using that uint_mod_u32_range[of n] word_of_int_u32_zero_iff[of n]
    by (auto simp: SelectQueue_def ConnHash_SelectQueue_def Let_def split: option.splits)
  show "fst (SelectQueue ConnHashStrategy s c h n) = fst (SelectQueue ConnHashStrategy s' c' h' n)"
    if "conn_key c h = conn_key c' h'" for s s' c c' h h' n
    using that by (auto simp: SelectQueue_def ConnHash_SelectQueue_def conn_key_def split: option.splits)
qed

interpretation sub_proto: keyed_strategy "SelectQueue SubProtoStrategy" "\<lambda>n. True"
  "\<lambda>c h. map_option SubProto h"
proof
  show "SelectQueue SubProtoStrategy s c h n = (Ret 0, s)" if "n \<le> 1" for s c h n
    using that by (simp add: SelectQueue_def SubProto_SelectQueue_def)
  show "\<exists>q. fst (SelectQueue SubProtoStrategy s c h n) = Ret q \<and> 0 \<le> q \<and> q < n"
    if "1 < n" for s c h n
    using that by (auto simp: SelectQueue_def SubProto_SelectQueue_def split: option.splits)
  show "fst (SelectQueue SubProtoStrategy s c h n) = fst (SelectQueue SubProtoStrategy s' c' h' n)"
    if "map_option SubProto h = map_option SubProto h'" for s s' c c' h h' n
    using that by (auto simp: SelectQueue_def SubProto_SelectQueue_def split: option.splits)
qed

interpretation source_target: keyed_strategy "SelectQueue SourceTargetStrategy" "\<lambda>n. n < 2 ^ 63" pair_key
proof
  show "SelectQueue SourceTargetStrategy s c h n = (Ret 0, s)" if "n \<le> 1" for s c h n
    using that by (simp add: SelectQueue_def SourceTarget_SelectQueue_def)
  show "\<exists>q. fst (SelectQueue SourceTargetStrategy s c h n) = Ret q \<and> 0 \<le> q \<and> q < n"
    if "1 < n" "n < 2 ^ 63" for s c h n
    using that word_of_int_u64_nonzero[of n] sint_mod_u64[of n]
    by (auto simp: SelectQueue_def SourceTarget_SelectQueue_def Let_def split: option.splits)
  show "fst (SelectQueue SourceTargetStrategy s c h n) = fst (SelectQueue SourceTargetStrategy s' c' h' n)"
    if "pair_key c h = pair_key c' h'" for s s' c c' h h' n
    using that by (auto simp: SelectQueue_def SourceTarget_SelectQueue_def pair_key_def Let_def split: option.splits)
qed

interpretation round_robin: queue_strategy "SelectQueue RoundRobinStrategy" "\<lambda>n. n < 2 ^ 63"
proof
  show "SelectQueue RoundRobinStrategy s c h n = (Ret 0, s)" if "n \<le> 1" for s c h n
    using that by (simp add: SelectQueue_def RoundRobin_SelectQueue_def)
  show "\<exists>q. fst (SelectQueue RoundRobinStrategy s c h n) = Ret q \<and> 0 \<le> q \<and> q < n"
    if "1 < n" "n < 2 ^ 63" for s c h n
    using that word_of_int_u64_nonzero[of n] sint_mod_u64[of n]
    by (auto simp: SelectQueue_def RoundRobin_SelectQueue_def nextCounter_def)
qed

text \<open>A name as configured selects its strategy, in any case and with white space around it.\<close>

lemma StrategyFromConfig_Name: "StrategyFromConfig ulow (strategy_Name st) = st"
proof -
  have "list_all graphic (strategy_Name st)"
    by (cases st) (simp_all add: strategy_Name_def graphic_def)
  moreover from this have "is_ascii (strategy_Name st)"
    by (auto simp: is_ascii_def list_all_iff graphic_def)
  moreover have "map lower_char (strategy_Name st) = strategy_Name st"
    by (cases st) (simp_all add: strategy_Name_def lower_char_def)
  ultimately show ?thesis
    by (cases st) (simp_all add: StrategyFromConfig_def TrimSpace_graphic ToLower_def strategy_Name_def)
qed

text \<open>The picks of \<open>k\<close> consecutive events under round robin, from counter \<open>c\<close>.\<close>

fun round_robin_picks :: "u64 \<Rightarrow> int \<Rightarrow> nat \<Rightarrow> int outcome list" where
  "round_robin_picks c n 0 = []"
| "round_robin_picks c n (Suc k) =
     (let (r, c') = SelectQueue RoundRobinStrategy c None None n
      in r # round_robin_picks c' n k)"

lemma round_robin_picks_eq:
  assumes "1 < n" "n < 2 ^ 63" "uint c + int k < 2 ^ 64"
  shows "round_robin_picks c n k = map (\<lambda>i. Ret ((uint c + int i) mod n)) [0..<k]"
  using assms(3)
proof (induction k arbitrary: c)
  case 0
  then show ?case by simp
next
  case (Suc k)
  have c1: "uint (c + 1) = uint c + 1"
    using Suc.prems uint_add_lem[of c 1] by simp
  have sel: "SelectQueue RoundRobinStrategy c None None n = (Ret (uint c mod n), c + 1)"
    using assms(1,2) word_of_int_u64_nonzero[of n] sint_mod_u64[of n c]
    by (simp add: SelectQueue_def RoundRobin_SelectQueue_def nextCounter_def)
  have "round_robin_picks (c + 1) n k = map (\<lambda>i. Ret ((uint c + int (Suc i)) mod n)) [0..<k]"
    using Suc.IH[of "c + 1"] Suc.prems c1 by (simp add: ac_simps)
  moreover have "[0..<Suc k] = 0 # map Suc [0..<k]"
    by (simp add: map_Suc_upt upt_conv_Cons del: upt_Suc)
  ultimately show ?case
    by (simp add: sel comp_def del: upt_Suc)
qed


lemma distinct_consecutive_mod:
  assumes "0 < n"
  shows "distinct (map (\<lambda>i. (a + int i) mod n) [0..<nat n])"
    and "set (map (\<lambda>i. (a + int i) mod n) [0..<nat n]) = {0..<n}"
proof -
  have inj: "inj_on (\<lambda>i. (a + int i) mod n) {0..<nat n}"
  proof (rule inj_onI)
    fix i j assume ij: "i \<in> {0..<nat n}" "j \<in> {0..<nat n}" "(a + int i) mod n = (a + int j) mod n"
    then have "n dvd (a + int i) - (a + int j)"
      by (simp add: mod_eq_dvd_iff)
    then have "n dvd int i - int j" by simp
    moreover have "\<bar>int i - int j\<bar> < n"
      using ij by auto
    ultimately have "int i - int j = 0"
      using assms dvd_imp_le_int[of "int i - int j" n] by (cases "int i - int j = 0") auto
    then show "i = j" by simp
  qed
  show "distinct (map (\<lambda>i. (a + int i) mod n) [0..<nat n])"
    using inj by (simp add: distinct_map)
  have "(\<lambda>i. (a + int i) mod n) ` {0..<nat n} \<subseteq> {0..<n}"
    using assms by auto
  moreover have "card ((\<lambda>i. (a + int i) mod n) ` {0..<nat n}) = card {0..<n}"
    using inj by (simp add: card_image)
  ultimately show "set (map (\<lambda>i. (a + int i) mod n) [0..<nat n]) = {0..<n}"
    by (simp add: card_subset_eq)
qed


section \<open>Properties\<close>

text \<open>
  C27. The contract that \<open>QueueSelectStrategy\<close> documents. With at most one queue every strategy
  answers 0; with more, every answer is a valid queue index. The one exception is a panic:
  \<open>ConnHashStrategy\<close> divides by \<open>uint32(n)\<close>, which is zero exactly when the queue count is a
  multiple of \<open>2 ^ 32\<close>.
\<close>

theorem select_queue_in_range:
  assumes "n < 2 ^ 63"
  shows "(n \<le> 1 \<longrightarrow> fst (SelectQueue st c conn hdr n) = Ret 0)
       \<and> (1 < n \<longrightarrow>
           (if st = ConnHashStrategy \<and> conn \<noteq> None \<and> 2 ^ 32 dvd n
            then fst (SelectQueue st c conn hdr n) = Panic
            else \<exists>q. fst (SelectQueue st c conn hdr n) = Ret q \<and> 0 \<le> q \<and> q < n))"
proof (cases st)
  case ConnHashStrategy
  show ?thesis
  proof (cases "2 ^ 32 dvd n")
    case True
    then have "(word_of_int n :: u32) = 0"
      by (simp add: word_of_int_u32_zero_iff)
    then show ?thesis
      using True by (auto simp: SelectQueue_def ConnHash_SelectQueue_def ConnHashStrategy split: option.splits)
  next
    case False
    then show ?thesis
      using conn_hash.single conn_hash.in_range[OF _ False] by (auto simp: ConnHashStrategy)
  qed
next
  case SubProtoStrategy
  then show ?thesis using sub_proto.single sub_proto.in_range by auto
next
  case SourceTargetStrategy
  then show ?thesis using source_target.single source_target.in_range assms by auto
next
  case RoundRobinStrategy
  then show ?thesis using round_robin.single round_robin.in_range assms by auto
qed

theorem select_queue_in_range_witness:
  "\<exists>q. fst (SelectQueue ConnHashStrategy 0 (Some ''c1'') None 5) = Ret q \<and> 0 \<le> q \<and> q < 5"
  using select_queue_in_range[of 5 ConnHashStrategy 0 "Some ''c1''" None] by simp

text \<open>
  Per-connection order. Under the default strategy all events of one connection go to one
  queue, in the order in which they arrived, and no other queue gets any of them; and no event
  is lost: the queue lengths add up to the number of events. This is the order the comment of
  \<open>ConnHashStrategy\<close> promises.
\<close>

theorem conn_strategy_keeps_order:
  assumes "1 \<le> n" "n < 2 ^ 32"
  shows "(\<exists>q\<^sub>0\<in>{0..<n}. \<forall>q.
            filter (\<lambda>e. fst e = Some cid) (queue_contents (SelectQueue ConnHashStrategy) c n q es) =
            (if q = q\<^sub>0 then filter (\<lambda>e. fst e = Some cid) es else []))
       \<and> (\<Sum>q\<in>{0..<n}. length (queue_contents (SelectQueue ConnHashStrategy) c n q es)) = length es"
proof -
  have ok: "\<not> 2 ^ 32 dvd n"
    using assms by (auto dest: zdvd_imp_le)
  have eq: "(\<lambda>e. conn_key (fst e) (snd e) = Inl cid) = (\<lambda>e. fst e = Some cid)"
    by (auto simp: conn_key_def fun_eq_iff split: option.splits)
  show ?thesis
    using conn_hash.key_order_kept[OF assms(1) ok, of "Inl cid" c es]
      conn_hash.contents_total[OF assms(1) ok, of c es]
    unfolding eq by blast
qed

theorem conn_strategy_keeps_order_witness:
  "(\<Sum>q\<in>{0..<4}. length (queue_contents (SelectQueue ConnHashStrategy) 0 4 q
       [(Some ''a'', None), (Some ''b'', None), (Some ''a'', Some zero_header)])) = 3"
  using conn_strategy_keeps_order[of 4 "''a''" 0
      "[(Some ''a'', None), (Some ''b'', None), (Some ''a'', Some zero_header)]"]
  by simp

text \<open>
  Round robin is even: as long as the 64-bit counter does not wrap, any \<open>n\<close> consecutive
  picks visit each of the \<open>n\<close> queues exactly once.
\<close>

theorem round_robin_is_even:
  assumes "1 < n" "n < 2 ^ 63" "uint c + n < 2 ^ 64"
  shows "distinct (round_robin_picks c n (nat n))
       \<and> set (round_robin_picks c n (nat n)) = Ret ` {0..<n}"
proof -
  have "round_robin_picks c n (nat n) = map Ret (map (\<lambda>i. (uint c + int i) mod n) [0..<nat n])"
    using assms round_robin_picks_eq[of n c "nat n"] by simp
  moreover have "distinct (map Ret (map (\<lambda>i. (uint c + int i) mod n) [0..<nat n]))"
    using distinct_consecutive_mod(1)[of n "uint c"] assms
    by (subst distinct_map) (simp add: inj_on_def)
  ultimately show ?thesis
    using distinct_consecutive_mod(2)[of n "uint c"] assms by (simp only: set_map)
qed

theorem round_robin_is_even_witness:
  "set (round_robin_picks 7 3 3) = Ret ` {0..<3}"
  using round_robin_is_even[of 3 7] by simp

end
