(* ===== verification/Dispatcher.thy ===== *)
theory Dispatcher
  imports Routing Queue_Strategy
begin

text \<open>
  process/dispatcher.go: handler registration, the queueing of received frames and the routing
  of a queued frame to its sub-protocol handler.

  A handler (\<open>ISubProcess\<close>) is what the dispatcher asks of it: its number, whether \<open>Init\<close>
  succeeds, and its two flags. Routing a frame yields which handler is called, if any, beside the
  frames that pre-routing sends; a panic of the dispatcher is \<open>Panic\<close>. The call of the handler and
  the recovery of its panics are in \<open>Worker_Pool\<close>.

  Channels are bounded lists, with a flag for the closed state. A Go \<open>select\<close> picks any ready
  case: \<open>OnReceive\<close> returns the list of its possible outcomes.
\<close>

section \<open>State\<close>

record handler =
  h_id :: nat
  h_SubProto :: u8
  h_Init :: bool
  AcceptCmd :: bool
  AllowSourceMismatch :: bool

text \<open>
  The base process: none, a pre-routing process, or a \<open>SimpleProcess\<close>, which does not decide: its
  \<open>OnReceive\<close> only logs the id of the connection, which panics when there is none.
\<close>

datatype base = NoBase | PreRouteBase PreRoutingProcess | ObserverBase

record dispatchEvent =
  ev_srv :: bool
  ev_conn :: "cref option"
  ev_hdr :: "HeaderTcp option"
  ev_payload :: "byte list"

datatype runtime = NotStarted | Running | Cancelled

record Dispatcher =
  d_base :: base
  handlers :: "u8 \<rightharpoonup> handler"
  fallback :: "handler option"
  queues :: "dispatchEvent list list"
  q_closed :: "bool list"
  chanBuffer :: nat
  chanCount :: int
  workersPerChan :: int
  d_strategy :: strategy
  d_counter :: u64
  d_runtime :: runtime

record DispatchOptions =
  ChannelCount :: int
  WorkersPerChan :: int
  ChannelBuffer :: int
  Base :: base
  Strategy :: "strategy option"


section \<open>Construction\<close>

definition NewDispatcher :: "DispatchOptions \<Rightarrow> Dispatcher result" where
  "NewDispatcher opts =
     (let channels = (if ChannelCount opts \<le> 0 then 1 else ChannelCount opts);
          workers = (if WorkersPerChan opts \<le> 0 then 1 else WorkersPerChan opts);
          buffer = (if ChannelBuffer opts < 0 then 0 else ChannelBuffer opts);
          strat = (case Strategy opts of None \<Rightarrow> ConnHashStrategy | Some s \<Rightarrow> s)
      in Inr \<lparr>d_base = Base opts, handlers = (\<lambda>_. None), fallback = None,
              queues = replicate (nat channels) [], q_closed = replicate (nat channels) False, chanBuffer = nat buffer, chanCount = channels,
              workersPerChan = workers, d_strategy = strat, d_counter = 0, d_runtime = NotStarted\<rparr>)"

definition NewDispatcherFromConfig :: "(string \<Rightarrow> string) \<Rightarrow> config_get option \<Rightarrow> base \<Rightarrow> Dispatcher result" where
  "NewDispatcherFromConfig ulow cfg bs =
     (let rawStrategy = (case cfg of
                           None \<Rightarrow> []
                         | Some get \<Rightarrow> (case get KeyProcQueueStrategy of Some v \<Rightarrow> v | None \<Rightarrow> []))
      in NewDispatcher
           \<lparr>ChannelCount = readPositiveInt cfg KeyProcChannelCount 1,
            WorkersPerChan = readPositiveInt cfg KeyProcWorkersPerChan 1,
            ChannelBuffer = readPositiveInt cfg KeyProcChannelBuffer 64,
            Base = bs, Strategy = Some (StrategyFromConfig ulow rawStrategy)\<rparr>)"

text \<open>\<open>RegisterHandler\<close>; the errors carry the sub-protocol number in their text.\<close>

definition RegisterHandler :: "handler option \<Rightarrow> Dispatcher \<Rightarrow> error option \<times> Dispatcher" where
  "RegisterHandler h p =
     (case h of
        None \<Rightarrow> (Some (Err ''sub process nil''), p)
      | Some sp \<Rightarrow>
          (let sub = h_SubProto sp
           in if sub > 63 then (Some (Err (''sub proto '' @ itoa (unat sub) @ '' out of range'')), p)
              else if \<not> h_Init sp then (Some (Err (''sub proto '' @ itoa (unat sub) @ '' init failed'')), p)
              else if handlers p sub \<noteq> None
              then (Some (Err (''sub proto '' @ itoa (unat sub) @ '' already registered'')), p)
              else (None, p\<lparr>handlers := (handlers p)(sub \<mapsto> sp)\<rparr>)))"

definition RegisterDefaultHandler :: "handler option \<Rightarrow> Dispatcher \<Rightarrow> Dispatcher" where
  "RegisterDefaultHandler h p = (case h of None \<Rightarrow> p | Some sp \<Rightarrow> p\<lparr>fallback := Some sp\<rparr>)"

definition ConfigSnapshot :: "Dispatcher \<Rightarrow> int \<times> int \<times> int" where
  "ConfigSnapshot p =
     (let channels = int (length (queues p))
      in (channels, workersPerChan p, if channels > 0 then int (chanBuffer p) else 0))"


section \<open>Routing a queued frame\<close>

definition extractSubProto :: "HeaderTcp option \<Rightarrow> u8 option" where
  "extractSubProto h = (case h of None \<Rightarrow> None | Some hh \<Rightarrow> Some (SubProto hh))"

definition getHandler :: "Dispatcher \<Rightarrow> u8 \<Rightarrow> handler option" where
  [simp]: "getHandler p sub = handlers p sub"

definition getFallback :: "Dispatcher \<Rightarrow> handler option" where
  [simp]: "getFallback p = fallback p"

definition selectHandler :: "Dispatcher \<Rightarrow> HeaderTcp option \<Rightarrow> handler option \<times> u8" where
  "selectHandler p hdr =
     (case extractSubProto hdr of
        None \<Rightarrow> (getFallback p, 0)
      | Some sub \<Rightarrow>
          (case getHandler p sub of
             None \<Rightarrow> (getFallback p, sub)
           | Some h \<Rightarrow> (Some h, sub)))"

text \<open>\<open>mgr_of\<close> is the connection manager of the server in the context, if there is one.\<close>

definition sourceMismatch ::
  "'x world_scheme \<Rightarrow> bool \<Rightarrow> handler option \<Rightarrow> cref option \<Rightarrow> HeaderTcp option \<Rightarrow> bool" where
  "sourceMismatch w has_srv h conn hdr =
     (case (h, conn, hdr) of
        (Some sp, Some c, Some hh) \<Rightarrow>
          if AllowSourceMismatch sp then False
          else let metaNode = extractNodeID (Some (heap w c))
               in if metaNode = 0 then True
                  else let src = Source hh
                       in if src = metaNode then False
                          else if isParentConn (Some (heap w c)) then False
                          else if \<not> has_srv then True
                          else (case GetByNode (mgr w) src of
                                  Some mapped \<Rightarrow> conn_ID (heap w mapped) \<noteq> conn_ID (heap w c)
                                | None \<Rightarrow> True)
      | _ \<Rightarrow> False)"

definition shouldInterceptCmd :: "handler option \<Rightarrow> HeaderTcp option \<Rightarrow> bool" where
  "shouldInterceptCmd h hdr =
     (case (h, hdr) of
        (Some sp, Some hh) \<Rightarrow> if Major hh \<noteq> MajorCmd then False else AcceptCmd sp
      | _ \<Rightarrow> False)"

definition disp_preRoute ::
  "base \<Rightarrow> 'x world_scheme send_fn \<Rightarrow> u32 option \<Rightarrow> cref list \<Rightarrow> cref list
   \<Rightarrow> cref option \<Rightarrow> HeaderTcp option \<Rightarrow> byte list \<Rightarrow> 'x world_scheme
   \<Rightarrow> (bool \<times> send_req list \<times> 'x world_scheme) outcome list" where
  "disp_preRoute b send srv order porder conn hdr payload w =
     (case b of
        NoBase \<Rightarrow> [Ret (True, [], w)]
      | PreRouteBase p \<Rightarrow> PreRoute p send srv order porder conn hdr payload w
      | ObserverBase \<Rightarrow> (case conn of None \<Rightarrow> [Panic] | Some _ \<Rightarrow> [Ret (True, [], w)]))"

text \<open>
  What a worker does with an event, up to the call of the handler: the handler that is called, if
  any, the calls of \<open>Send\<close> that pre-routing made, and the state after them. Logging a missing
  handler calls \<open>evt.conn.ID()\<close>, which panics on a nil connection; a panic of \<open>Send\<close> passes through.
\<close>

record route_result =
  called :: "handler option"
  sent_reqs :: "send_req list"

definition route ::
  "Dispatcher \<Rightarrow> 'x world_scheme send_fn \<Rightarrow> u32 \<Rightarrow> cref list \<Rightarrow> cref list \<Rightarrow> dispatchEvent
   \<Rightarrow> 'x world_scheme \<Rightarrow> (route_result \<times> 'x world_scheme) outcome list" where
  "route p send nodeID order porder evt w =
     (case selectHandler p (ev_hdr evt) of
        (None, _) \<Rightarrow> if ev_conn evt = None then [Panic] else [Ret (\<lparr>called = None, sent_reqs = []\<rparr>, w)]
      | (Some h, sub) \<Rightarrow>
          if sourceMismatch w (ev_srv evt) (Some h) (ev_conn evt) (ev_hdr evt)
          then [Ret (\<lparr>called = None, sent_reqs = []\<rparr>, w)]
          else map (map_outcome (\<lambda>(cont, reqs, w').
                   if cont then (\<lparr>called = Some h, sent_reqs = reqs\<rparr>, w')
                   else if shouldInterceptCmd (Some h) (ev_hdr evt)
                   then (\<lparr>called = Some h, sent_reqs = reqs\<rparr>, w')
                   else (\<lparr>called = None, sent_reqs = reqs\<rparr>, w')))
                 (disp_preRoute (d_base p) send (if ev_srv evt then Some nodeID else None) order porder
                    (ev_conn evt) (ev_hdr evt) (ev_payload evt) w))"


text \<open>A frame that has any effect has a handler and passes the gate.\<close>

lemma route_acts:
  assumes "Ret (r, w') \<in> set (route p send nodeID order porder evt w)" "called r \<noteq> None \<or> sent_reqs r \<noteq> []"
  obtains sp sub where "selectHandler p (ev_hdr evt) = (Some sp, sub)"
    "\<not> sourceMismatch w (ev_srv evt) (Some sp) (ev_conn evt) (ev_hdr evt)"
proof -
  obtain ho sub where sel: "selectHandler p (ev_hdr evt) = (ho, sub)" by fastforce
  show thesis
  proof (cases ho)
    case None
    then show ?thesis using assms sel by (simp add: route_def split: if_splits)
  next
    case (Some sp)
    then have "\<not> sourceMismatch w (ev_srv evt) (Some sp) (ev_conn evt) (ev_hdr evt)"
      using assms sel by (auto simp: route_def)
    then show ?thesis using that sel Some by blast
  qed
qed


section \<open>Receiving\<close>

definition ensureRuntime :: "Dispatcher \<Rightarrow> Dispatcher" where
  "ensureRuntime p = (if d_runtime p = NotStarted then p\<lparr>d_runtime := Running\<rparr> else p)"

definition disp_selectQueue :: "Dispatcher \<Rightarrow> (cref \<Rightarrow> conn) \<Rightarrow> cref option \<Rightarrow> HeaderTcp option \<Rightarrow> int outcome \<times> Dispatcher" where
  "disp_selectQueue p hp conn hdr =
     (let (r, c) = SelectQueue (d_strategy p) (d_counter p) (map_option (\<lambda>x. conn_ID (hp x)) conn) hdr (chanCount p)
      in (r, p\<lparr>d_counter := c\<rparr>))"

definition enqueue :: "nat \<Rightarrow> dispatchEvent \<Rightarrow> Dispatcher \<Rightarrow> Dispatcher" where
  "enqueue i evt p = p\<lparr>queues := (queues p)[i := queues p ! i @ [evt]]\<rparr>"

text \<open>
  The ready cases of the \<open>select\<close> in \<open>OnReceive\<close>, each with its outcome. A send on a closed
  channel is ready and panics. A send on an open channel is ready while the buffer has room, or
  a worker waits for an element (\<open>waiting\<close> tells for which queues). When no case is ready the default drops the frame.
  An index outside the queues panics.
\<close>

definition disp_OnReceive ::
  "(cref \<Rightarrow> conn) \<Rightarrow> bool \<Rightarrow> (nat \<Rightarrow> bool) \<Rightarrow> dispatchEvent \<Rightarrow> Dispatcher \<Rightarrow> Dispatcher outcome list" where
  "disp_OnReceive hp ctx_done waiting evt p =
     (let p1 = ensureRuntime p;
          (r, p2) = disp_selectQueue p1 hp (ev_conn evt) (ev_hdr evt)
      in case r of
           Panic \<Rightarrow> [Panic]
         | Ret idx \<Rightarrow>
             if \<not> (0 \<le> idx \<and> nat idx < length (queues p2)) then [Panic]
             else let snd_case =
                        (if q_closed p2 ! nat idx then [Panic]
                         else if length (queues p2 ! nat idx) < chanBuffer p2 \<or> waiting (nat idx)
                         then [Ret (enqueue (nat idx) evt p2)] else []);
                      ctx_case = (if ctx_done then [Ret p2] else []);
                      rt_case = (if d_runtime p2 = Cancelled then [Ret p2] else [])
                  in if snd_case @ ctx_case @ rt_case = []
                     then (if ev_conn evt = None then [Panic] else [Ret p2])
                     else snd_case @ ctx_case @ rt_case)"

text \<open>
  The life of the worker pool: \<open>Shutdown\<close> cancels the runtime context, then each queue's
  supervisor closes its channel; the workers drain what is left.
\<close>

definition Shutdown_cancel :: "Dispatcher \<Rightarrow> Dispatcher" where
  "Shutdown_cancel p = (if d_runtime p = Running then p\<lparr>d_runtime := Cancelled\<rparr> else p)"

definition close_queue :: "nat \<Rightarrow> Dispatcher \<Rightarrow> Dispatcher" where
  "close_queue i p = (if d_runtime p = Cancelled then p\<lparr>q_closed := (q_closed p)[i := True]\<rparr> else p)"

text \<open>A worker of queue \<open>i\<close> takes the oldest event.\<close>

definition worker_take :: "nat \<Rightarrow> Dispatcher \<Rightarrow> (dispatchEvent \<times> Dispatcher) option" where
  "worker_take i p =
     (if i < length (queues p) \<and> d_runtime p \<noteq> NotStarted
      then (case queues p ! i of
              [] \<Rightarrow> None
            | e # es \<Rightarrow> Some (e, p\<lparr>queues := (queues p)[i := es]\<rparr>))
      else None)"


section \<open>Invariants\<close>

definition disp_wf :: "Dispatcher \<Rightarrow> bool" where
  "disp_wf p \<longleftrightarrow> 1 \<le> chanCount p \<and> length (queues p) = nat (chanCount p)
     \<and> length (q_closed p) = length (queues p)
     \<and> (\<forall>sub h. handlers p sub = Some h \<longrightarrow> h_SubProto h = sub \<and> sub \<le> 63 \<and> h_Init h)"

lemma disp_wf_NewDispatcher [inv_intros]: "NewDispatcher opts = Inr p \<Longrightarrow> disp_wf p"
  by (auto simp: NewDispatcher_def Let_def disp_wf_def)

lemma disp_wf_RegisterHandler [inv_intros]: "disp_wf p \<Longrightarrow> disp_wf (snd (RegisterHandler h p))"
  by (auto simp: RegisterHandler_def Let_def disp_wf_def not_less split: option.splits)

lemma disp_wf_RegisterDefaultHandler [inv_intros]: "disp_wf p \<Longrightarrow> disp_wf (RegisterDefaultHandler h p)"
  by (auto simp: RegisterDefaultHandler_def disp_wf_def split: option.splits)

text \<open>Everything \<open>OnReceive\<close> can do: panic, leave the queues alone, or append to one queue.\<close>

definition touched :: "Dispatcher \<Rightarrow> u64 \<Rightarrow> Dispatcher" where
  "touched p c = (ensureRuntime p)\<lparr>d_counter := c\<rparr>"

lemma touched_fields [simp]:
  "queues (touched p c) = queues p" "q_closed (touched p c) = q_closed p" "chanCount (touched p c) = chanCount p"
  "chanBuffer (touched p c) = chanBuffer p" "handlers (touched p c) = handlers p"
  "d_strategy (touched p c) = d_strategy p"
  by (simp_all add: touched_def ensureRuntime_def)

definition queue_index :: "(cref \<Rightarrow> conn) \<Rightarrow> Dispatcher \<Rightarrow> dispatchEvent \<Rightarrow> int outcome" where
  "queue_index hp p evt =
     fst (SelectQueue (d_strategy p) (d_counter p) (map_option (\<lambda>x. conn_ID (hp x)) (ev_conn evt)) (ev_hdr evt) (chanCount p))"

lemma OnReceive_cases:
  assumes "Ret p' \<in> set (disp_OnReceive hp ctx_done waiting evt p)"
  shows "\<exists>idx c. queue_index hp p evt = Ret idx \<and> 0 \<le> idx \<and> nat idx < length (queues p)
     \<and> (p' = touched p c
        \<or> p' = enqueue (nat idx) evt (touched p c) \<and> \<not> q_closed p ! nat idx
          \<and> (length (queues p ! nat idx) < chanBuffer p \<or> waiting (nat idx)))"
proof -
  have sel: "disp_selectQueue (ensureRuntime p) hp (ev_conn evt) (ev_hdr evt) =
      (queue_index hp p evt, touched p (snd (SelectQueue (d_strategy p) (d_counter p)
         (map_option (\<lambda>x. conn_ID (hp x)) (ev_conn evt)) (ev_hdr evt) (chanCount p))))"
    by (simp add: disp_selectQueue_def queue_index_def touched_def ensureRuntime_def split_def Let_def)
  show ?thesis
    using assms by (auto simp: disp_OnReceive_def Let_def sel split: outcome.splits if_splits)
qed

lemma disp_wf_OnReceive [inv_intros]:
  assumes "disp_wf p" "Ret p' \<in> set (disp_OnReceive hp ctx_done waiting evt p)"
  shows "disp_wf p'"
  using assms(1) OnReceive_cases[OF assms(2)] by (auto simp: disp_wf_def enqueue_def)

lemma worker_take_SomeD:
  assumes "worker_take i p = Some (e, p')"
  obtains es where "i < length (queues p)" "queues p ! i = e # es" "p' = p\<lparr>queues := (queues p)[i := es]\<rparr>"
  using assms by (auto simp: worker_take_def split: if_splits list.splits)

lemma disp_wf_worker_take [inv_intros]: "disp_wf p \<Longrightarrow> worker_take i p = Some (e, p') \<Longrightarrow> disp_wf p'"
  by (auto simp: disp_wf_def worker_take_def split: if_splits list.splits)


section \<open>The dispatcher as a state machine\<close>

text \<open>
  The dispatcher with two ghost logs: the frames in the order in which they were accepted, and
  per queue the frames its worker has taken, in order. \<open>hp\<close> is the heap of connections, whose
  ids do not change. A worker waits for an element only while its queue is empty.
\<close>

record disp_state =
  disp :: Dispatcher
  accepted :: "dispatchEvent list"
  taken :: "nat \<Rightarrow> dispatchEvent list"

inductive disp_step :: "(cref \<Rightarrow> conn) \<Rightarrow> disp_state \<Rightarrow> disp_state \<Rightarrow> bool" for hp where
  accept: "\<lbrakk>Ret p' \<in> set (disp_OnReceive hp ctx_done waiting evt (disp s)); queues p' \<noteq> queues (disp s);
            \<forall>i. waiting i \<longrightarrow> queues (disp s) ! i = []\<rbrakk>
           \<Longrightarrow> disp_step hp s (s\<lparr>disp := p', accepted := accepted s @ [evt]\<rparr>)"
| dropped: "\<lbrakk>Ret p' \<in> set (disp_OnReceive hp ctx_done waiting evt (disp s)); queues p' = queues (disp s)\<rbrakk>
           \<Longrightarrow> disp_step hp s (s\<lparr>disp := p'\<rparr>)"
| take_one: "worker_take i (disp s) = Some (e, p')
           \<Longrightarrow> disp_step hp s (s\<lparr>disp := p', taken := (taken s)(i := taken s i @ [e])\<rparr>)"
| cancel: "disp_step hp s (s\<lparr>disp := Shutdown_cancel (disp s)\<rparr>)"
| close_one: "disp_step hp s (s\<lparr>disp := close_queue i (disp s)\<rparr>)"
| register: "disp_step hp s (s\<lparr>disp := snd (RegisterHandler h (disp s))\<rparr>)"
| register_default: "disp_step hp s (s\<lparr>disp := RegisterDefaultHandler h (disp s)\<rparr>)"

inductive disp_reachable :: "(cref \<Rightarrow> conn) \<Rightarrow> DispatchOptions \<Rightarrow> disp_state \<Rightarrow> bool" for hp opts where
  init: "NewDispatcher opts = Inr p \<Longrightarrow> disp_reachable hp opts \<lparr>disp = p, accepted = [], taken = (\<lambda>_. [])\<rparr>"
| step: "disp_reachable hp opts s \<Longrightarrow> disp_step hp s s' \<Longrightarrow> disp_reachable hp opts s'"

text \<open>
  The invariant: the frames of queue \<open>i\<close>, in the order they were accepted, are those already
  taken followed by those waiting, and no queue is longer than its buffer (or the one element
  that is handed to a waiting worker).
\<close>

definition goes_to :: "(cref \<Rightarrow> conn) \<Rightarrow> Dispatcher \<Rightarrow> nat \<Rightarrow> dispatchEvent \<Rightarrow> bool" where
  "goes_to hp p i e \<longleftrightarrow> queue_index hp p e = Ret (int i)"

definition disp_inv :: "(cref \<Rightarrow> conn) \<Rightarrow> disp_state \<Rightarrow> bool" where
  "disp_inv hp s \<longleftrightarrow>
     disp_wf (disp s)
   \<and> (d_strategy (disp s) = ConnHashStrategy \<longrightarrow>
        (\<forall>i < length (queues (disp s)).
           filter (goes_to hp (disp s) i) (accepted s) = taken s i @ queues (disp s) ! i))
   \<and> (\<forall>i < length (queues (disp s)). length (queues (disp s) ! i) \<le> max 1 (chanBuffer (disp s)))"

lemma queue_index_conn_hash:
  "d_strategy p = ConnHashStrategy \<Longrightarrow>
   queue_index hp p e = ConnHash_SelectQueue (map_option (\<lambda>x. conn_ID (hp x)) (ev_conn e)) (ev_hdr e) (chanCount p)"
  by (simp add: queue_index_def SelectQueue_def)

lemma goes_to_cong:
  "d_strategy p' = ConnHashStrategy \<Longrightarrow> d_strategy p = ConnHashStrategy \<Longrightarrow> chanCount p' = chanCount p \<Longrightarrow>
   goes_to hp p' = goes_to hp p"
  by (simp add: goes_to_def queue_index_conn_hash fun_eq_iff)

lemma disp_inv_same_queues:
  assumes "disp_inv hp s" "disp_wf p'" "queues p' = queues (disp s)" "chanCount p' = chanCount (disp s)"
    "d_strategy p' = d_strategy (disp s)" "chanBuffer p' = chanBuffer (disp s)"
  shows "disp_inv hp (s\<lparr>disp := p'\<rparr>)"
  using assms goes_to_cong[of p' "disp s" hp] by (simp add: disp_inv_def)

lemma disp_inv_accept:
  assumes inv: "disp_inv hp s"
    and r: "Ret p' \<in> set (disp_OnReceive hp ctx_done waiting evt (disp s))"
    and changed: "queues p' \<noteq> queues (disp s)"
    and waiting: "\<forall>i. waiting i \<longrightarrow> queues (disp s) ! i = []"
  shows "disp_inv hp (s\<lparr>disp := p', accepted := accepted s @ [evt]\<rparr>)"
proof -
  let ?p = "disp s"
  obtain idx c where idx: "queue_index hp ?p evt = Ret idx" "0 \<le> idx" "nat idx < length (queues ?p)"
    and p': "p' = enqueue (nat idx) evt (touched ?p c)"
    and room: "length (queues ?p ! nat idx) < chanBuffer ?p \<or> waiting (nat idx)"
    using OnReceive_cases[OF r] changed by auto
  have f: "queues p' = (queues ?p)[nat idx := queues ?p ! nat idx @ [evt]]" "chanCount p' = chanCount ?p"
    "chanBuffer p' = chanBuffer ?p" "d_strategy p' = d_strategy ?p"
    by (simp_all add: p' enqueue_def)
  have gt: "goes_to hp ?p i evt \<longleftrightarrow> i = nat idx" for i
    using idx by (auto simp: goes_to_def)
  have "disp_wf p'"
    using inv r by (auto simp: disp_inv_def intro: disp_wf_OnReceive)
  moreover have "length (queues p' ! i) \<le> max 1 (chanBuffer p')" if "i < length (queues p')" for i
    using inv that room waiting f idx(3) by (auto simp: disp_inv_def nth_list_update)
  moreover have "filter (goes_to hp p' i) (accepted s @ [evt]) = taken s i @ queues p' ! i"
    if "d_strategy p' = ConnHashStrategy" "i < length (queues p')" for i
  proof -
    have "goes_to hp p' = goes_to hp ?p"
      using that(1) f by (intro goes_to_cong) simp_all
    moreover have "filter (goes_to hp ?p i) (accepted s) = taken s i @ queues ?p ! i"
      using inv that f by (simp add: disp_inv_def)
    ultimately show ?thesis
      using that(2) idx(3) f(1) gt by (auto simp: nth_list_update)
  qed
  ultimately show ?thesis
    by (simp add: disp_inv_def)
qed

lemma disp_inv_take:
  assumes inv: "disp_inv hp s" and t: "worker_take i (disp s) = Some (e, p')"
  shows "disp_inv hp (s\<lparr>disp := p', taken := (taken s)(i := taken s i @ [e])\<rparr>)"
proof -
  obtain es where i: "i < length (queues (disp s))" and q: "queues (disp s) ! i = e # es"
    and p': "p' = (disp s)\<lparr>queues := (queues (disp s))[i := es]\<rparr>"
    using t by (rule worker_take_SomeD)
  have f: "chanCount p' = chanCount (disp s)" "chanBuffer p' = chanBuffer (disp s)"
    "d_strategy p' = d_strategy (disp s)" "length (queues p') = length (queues (disp s))"
    "\<And>j. queues p' ! j = (if j = i then es else queues (disp s) ! j)"
    using i by (simp_all add: p')
  have len: "length (queues (disp s) ! j) \<le> max 1 (chanBuffer (disp s))" if "j < length (queues (disp s))" for j
    using inv that by (simp add: disp_inv_def)
  have "disp_wf p'"
    using inv t by (auto simp: disp_inv_def intro: disp_wf_worker_take)
  moreover have "length (queues p' ! j) \<le> max 1 (chanBuffer p')" if "j < length (queues p')" for j
    using len[of j] that f(2,4,5) q by (cases "j = i") auto
  moreover have "filter (goes_to hp p' j) (accepted s) = ((taken s)(i := taken s i @ [e])) j @ queues p' ! j"
    if "d_strategy p' = ConnHashStrategy" "j < length (queues p')" for j
  proof -
    have "filter (goes_to hp p' j) (accepted s) = taken s j @ queues (disp s) ! j"
      using inv that f goes_to_cong[of p' "disp s" hp] by (simp add: disp_inv_def)
    then show ?thesis
      using q f(5) by (cases "j = i") auto
  qed
  ultimately show ?thesis
    by (simp add: disp_inv_def)
qed


lemma disp_inv_step: "disp_step hp s s' \<Longrightarrow> disp_inv hp s \<Longrightarrow> disp_inv hp s'"
proof (induction rule: disp_step.induct)
  case (accept p' ctx_done waiting evt s)
  then show ?case by (intro disp_inv_accept)
next
  case (dropped p' ctx_done waiting evt s)
  have "disp_wf p'"
    using dropped by (auto simp: disp_inv_def intro: disp_wf_OnReceive)
  moreover have "chanCount p' = chanCount (disp s) \<and> d_strategy p' = d_strategy (disp s) \<and> chanBuffer p' = chanBuffer (disp s)"
    using OnReceive_cases[OF dropped.hyps(1)] by (auto simp: enqueue_def)
  ultimately show ?case
    using dropped disp_inv_same_queues by blast
next
  case (take_one i s e p')
  then show ?case by (intro disp_inv_take)
next
  case (cancel s)
  then show ?case
    by (intro disp_inv_same_queues) (auto simp: Shutdown_cancel_def disp_inv_def disp_wf_def)
next
  case (close_one s i)
  then show ?case
    by (intro disp_inv_same_queues) (auto simp: close_queue_def disp_inv_def disp_wf_def)
next
  case (register s h)
  have "disp_wf (snd (RegisterHandler h (disp s)))"
    using register by (simp add: disp_inv_def disp_wf_RegisterHandler)
  then show ?case
    using register
    by (intro disp_inv_same_queues) (auto simp: RegisterHandler_def Let_def split: option.splits)
next
  case (register_default s h)
  have "disp_wf (RegisterDefaultHandler h (disp s))"
    using register_default by (simp add: disp_inv_def disp_wf_RegisterDefaultHandler)
  then show ?case
    using register_default
    by (intro disp_inv_same_queues) (auto simp: RegisterDefaultHandler_def split: option.splits)
qed

lemma disp_inv_init:
  assumes "NewDispatcher opts = Inr p"
  shows "disp_inv hp \<lparr>disp = p, accepted = [], taken = (\<lambda>_. [])\<rparr>"
proof -
  have "queues p ! i = []" if "i < length (queues p)" for i
    using assms that by (auto simp: NewDispatcher_def Let_def)
  then show ?thesis
    using disp_wf_NewDispatcher[OF assms] by (simp add: disp_inv_def)
qed

lemma disp_inv_reachable: "disp_reachable hp opts s \<Longrightarrow> disp_inv hp s"
  by (induction rule: disp_reachable.induct) (auto intro: disp_inv_init disp_inv_step)

lemma disp_step_options:
  "disp_step hp s s' \<Longrightarrow> d_strategy (disp s') = d_strategy (disp s) \<and> chanCount (disp s') = chanCount (disp s)"
proof (induction rule: disp_step.induct)
  case (accept p' ctx_done waiting evt s)
  then show ?case using OnReceive_cases[OF accept.hyps(1)] by (auto simp: enqueue_def)
next
  case (dropped p' ctx_done waiting evt s)
  then show ?case using OnReceive_cases[OF dropped.hyps(1)] by (auto simp: enqueue_def)
qed (auto simp: worker_take_def Shutdown_cancel_def close_queue_def RegisterHandler_def RegisterDefaultHandler_def
      Let_def split: if_splits list.splits option.splits)

lemma disp_reachable_options:
  assumes "disp_reachable hp opts s" "NewDispatcher opts = Inr p"
  shows "d_strategy (disp s) = d_strategy p \<and> chanCount (disp s) = chanCount p"
  using assms by (induction rule: disp_reachable.induct) (auto dest: disp_step_options)


definition from_conn :: "(cref \<Rightarrow> conn) \<Rightarrow> string \<Rightarrow> dispatchEvent \<Rightarrow> bool" where
  "from_conn hp cid e \<longleftrightarrow> map_option (\<lambda>x. conn_ID (hp x)) (ev_conn e) = Some cid"

text \<open>Under connection hashing every frame of a connection has the index of that connection.\<close>

lemma conn_frames_share_queue:
  assumes "disp_wf p" "d_strategy p = ConnHashStrategy" "chanCount p < 2 ^ 32"
  obtains i\<^sub>0 where "i\<^sub>0 < length (queues p)" "\<And>e i. from_conn hp cid e \<Longrightarrow> goes_to hp p i e \<longleftrightarrow> i = i\<^sub>0"
proof -
  have n: "1 \<le> chanCount p" "length (queues p) = nat (chanCount p)"
    using assms(1) by (auto simp: disp_wf_def)
  have "\<not> 2 ^ 32 dvd chanCount p"
    using assms(3) n(1) by (auto dest: zdvd_imp_le)
  then obtain q where q: "fst (SelectQueue ConnHashStrategy 0 (Some cid) None (chanCount p)) = Ret q" "0 \<le> q" "q < chanCount p"
    using conn_hash.index_exists[OF n(1)] by blast
  have idx: "queue_index hp p e = Ret q" if "from_conn hp cid e" for e
  proof -
    have "conn_key (map_option (\<lambda>x. conn_ID (hp x)) (ev_conn e)) (ev_hdr e) = conn_key (Some cid) None"
      using that by (simp only: from_conn_def conn_key_def option.case)
    from conn_hash.same_key[OF this, of "d_counter p" "chanCount p" 0] show ?thesis
      using q(1) by (simp add: queue_index_def assms(2))
  qed
  show ?thesis
  proof (rule that[of "nat q"])
    show "nat q < length (queues p)" using q n by simp
    show "goes_to hp p i e \<longleftrightarrow> i = nat q" if "from_conn hp cid e" for e i
      using idx[OF that] q(2) by (auto simp: goes_to_def)
  qed
qed


lemma conn_frames_one_queue:
  assumes "disp_reachable hp opts s" "Strategy opts = None \<or> Strategy opts = Some ConnHashStrategy"
    and "ChannelCount opts < 2 ^ 32"
  shows "\<exists>i\<^sub>0 < length (queues (disp s)).
           filter (from_conn hp cid) (accepted s) =
             filter (from_conn hp cid) (taken s i\<^sub>0) @ filter (from_conn hp cid) (queues (disp s) ! i\<^sub>0)
         \<and> (\<forall>i < length (queues (disp s)). i \<noteq> i\<^sub>0 \<longrightarrow>
              filter (from_conn hp cid) (taken s i @ queues (disp s) ! i) = [])
         \<and> (\<forall>i < length (queues (disp s)). length (queues (disp s) ! i) \<le> max 1 (chanBuffer (disp s)))"
proof -
  obtain p\<^sub>0 where p0: "NewDispatcher opts = Inr p\<^sub>0"
    by (simp add: NewDispatcher_def Let_def)
  have "d_strategy p\<^sub>0 = ConnHashStrategy" "chanCount p\<^sub>0 < 2 ^ 32"
    using p0 assms(2,3) by (auto simp: NewDispatcher_def Let_def split: if_splits)
  then have str: "d_strategy (disp s) = ConnHashStrategy" and cnt: "chanCount (disp s) < 2 ^ 32"
    using disp_reachable_options[OF assms(1) p0] by auto
  have inv: "disp_inv hp s"
    using assms(1) by (rule disp_inv_reachable)
  have split: "filter (goes_to hp (disp s) i) (accepted s) = taken s i @ queues (disp s) ! i"
    if "i < length (queues (disp s))" for i
    using inv str that by (simp add: disp_inv_def)
  have "disp_wf (disp s)"
    using inv by (simp add: disp_inv_def)
  then obtain i\<^sub>0 where i0: "i\<^sub>0 < length (queues (disp s))"
    and here: "\<And>e i. from_conn hp cid e \<Longrightarrow> goes_to hp (disp s) i e \<longleftrightarrow> i = i\<^sub>0"
    using conn_frames_share_queue[OF _ str cnt, of hp cid] by blast
  have "filter (from_conn hp cid) (accepted s) =
      filter (from_conn hp cid) (filter (goes_to hp (disp s) i\<^sub>0) (accepted s))"
    unfolding filter_filter using here by (intro filter_cong) auto
  then have 1: "filter (from_conn hp cid) (accepted s) =
      filter (from_conn hp cid) (taken s i\<^sub>0) @ filter (from_conn hp cid) (queues (disp s) ! i\<^sub>0)"
    using split[OF i0] by simp
  have 2: "filter (from_conn hp cid) (taken s i @ queues (disp s) ! i) = []"
    if "i < length (queues (disp s))" "i \<noteq> i\<^sub>0" for i
    unfolding split[OF that(1), symmetric] using here that(2) by (auto simp: filter_empty_conv)
  have 3: "length (queues (disp s) ! i) \<le> max 1 (chanBuffer (disp s))" if "i < length (queues (disp s))" for i
    using inv that by (simp add: disp_inv_def)
  show ?thesis
    using i0 1 2 3 by blast
qed


text \<open>Whatever the strategy, the frames of a queue keep the order in which they were accepted.\<close>

definition queues_in_order :: "disp_state \<Rightarrow> bool" where
  "queues_in_order s \<longleftrightarrow> (\<forall>i < length (queues (disp s)). subseq (taken s i @ queues (disp s) ! i) (accepted s))"

lemma queues_in_order_same: "queues_in_order s \<Longrightarrow> queues p' = queues (disp s) \<Longrightarrow> queues_in_order (s\<lparr>disp := p'\<rparr>)"
  by (simp add: queues_in_order_def)

lemma queues_in_order_step: "disp_step hp s s' \<Longrightarrow> queues_in_order s \<Longrightarrow> queues_in_order s'"
proof (induction rule: disp_step.induct)
  case (accept p' ctx_done waiting evt s)
  obtain idx c where "p' = enqueue (nat idx) evt (touched (disp s) c)" "nat idx < length (queues (disp s))"
    using OnReceive_cases[OF accept.hyps(1)] accept.hyps(2) by auto
  then have q: "queues p' = (queues (disp s))[nat idx := queues (disp s) ! nat idx @ [evt]]"
    by (simp add: enqueue_def)
  have "subseq (taken s i @ queues p' ! i) (accepted s @ [evt])" if i: "i < length (queues (disp s))" for i
  proof -
    have "subseq (taken s i @ queues (disp s) ! i) (accepted s)"
      using accept.prems i by (simp add: queues_in_order_def)
    then show ?thesis
      using i q list_emb_append_mono[of "(=)" "taken s i @ queues (disp s) ! i" "accepted s" "[evt]" "[evt]"]
      by (cases "i = nat idx") (auto intro: list_emb_append2 subseq_order.trans)
  qed
  then show ?case
    using q by (simp add: queues_in_order_def)
next
  case (take_one i s e p')
  obtain es where "i < length (queues (disp s))" "queues (disp s) ! i = e # es"
    "p' = (disp s)\<lparr>queues := (queues (disp s))[i := es]\<rparr>"
    using take_one.hyps by (rule worker_take_SomeD)
  then show ?case
    using take_one.prems by (auto simp: queues_in_order_def nth_list_update)
qed (auto intro: queues_in_order_same simp: Shutdown_cancel_def close_queue_def RegisterHandler_def RegisterDefaultHandler_def
      Let_def split: option.splits)

lemma queues_in_order_reachable: "disp_reachable hp opts s \<Longrightarrow> queues_in_order s"
proof (induction rule: disp_reachable.induct)
  case (init p)
  then show ?case by (auto simp: queues_in_order_def NewDispatcher_def Let_def)
qed (rule queues_in_order_step)


section \<open>Properties\<close>

text \<open>
  C5. The order of frames. In every reachable state of a dispatcher, whatever its strategy, the frames
  of a queue, those its workers have taken and then those still waiting, are in the order in which they
  were accepted, and a queue holds at most its buffer; with a buffer of zero it holds at most the one
  frame that is being handed to a waiting worker. With the default strategy, and fewer than \<open>2^32\<close>
  queues, all accepted frames of a connection are in one queue: those taken first, in arrival order, then
  those still waiting, and no other queue ever held one of them. So with one worker per queue no frame
  overtakes another of the same connection, none is lost after it was accepted and none is handled twice.
\<close>

theorem conn_frames_in_order:
  assumes "disp_reachable hp opts s"
  shows "(\<forall>i < length (queues (disp s)). subseq (taken s i @ queues (disp s) ! i) (accepted s)
            \<and> length (queues (disp s) ! i) \<le> (if chanBuffer (disp s) = 0 then 1 else chanBuffer (disp s)))
       \<and> ((Strategy opts = None \<or> Strategy opts = Some ConnHashStrategy) \<and> ChannelCount opts < 2 ^ 32 \<longrightarrow>
          (\<exists>i\<^sub>0 < length (queues (disp s)).
             filter (from_conn hp cid) (accepted s) =
               filter (from_conn hp cid) (taken s i\<^sub>0) @ filter (from_conn hp cid) (queues (disp s) ! i\<^sub>0)
           \<and> (\<forall>i < length (queues (disp s)). i \<noteq> i\<^sub>0 \<longrightarrow>
                filter (from_conn hp cid) (taken s i @ queues (disp s) ! i) = [])))"
proof -
  have "length (queues (disp s) ! i) \<le> max 1 (chanBuffer (disp s))" if "i < length (queues (disp s))" for i
    using disp_inv_reachable[OF assms] that by (simp add: disp_inv_def)
  then show ?thesis
    using queues_in_order_reachable[OF assms] conn_frames_one_queue[OF assms, of cid]
    by (auto simp: queues_in_order_def max_def split: if_splits)
qed

definition ex_opts :: DispatchOptions where
  "ex_opts = \<lparr>ChannelCount = 1, WorkersPerChan = 1, ChannelBuffer = 4, Base = NoBase, Strategy = None\<rparr>"

definition ex_event :: dispatchEvent where
  "ex_event = \<lparr>ev_srv = True, ev_conn = Some 1, ev_hdr = Some (msg 11 5), ev_payload = [1]\<rparr>"

definition ex_disp :: Dispatcher where
  "ex_disp = \<lparr>d_base = NoBase, handlers = (\<lambda>_. None), fallback = None, queues = [[]], q_closed = [False],
              chanBuffer = 4, chanCount = 1, workersPerChan = 1, d_strategy = ConnHashStrategy,
              d_counter = 0, d_runtime = NotStarted\<rparr>"

lemma ex_disp_new: "NewDispatcher ex_opts = Inr ex_disp"
  by (simp add: NewDispatcher_def ex_opts_def ex_disp_def)

lemma ex_disp_receive:
  "disp_OnReceive hub_heap False (\<lambda>_. False) ex_event ex_disp =
     [Ret (ex_disp\<lparr>queues := [[ex_event]], d_runtime := Running\<rparr>)]"
  by (simp add: disp_OnReceive_def ensureRuntime_def disp_selectQueue_def SelectQueue_def
      ConnHash_SelectQueue_def enqueue_def ex_disp_def)

definition ex_state :: disp_state where
  "ex_state = \<lparr>disp = ex_disp\<lparr>queues := [[ex_event]], d_runtime := Running\<rparr>,
               accepted = [ex_event], taken = (\<lambda>_. [])\<rparr>"

lemma ex_state_reachable: "disp_reachable hub_heap ex_opts ex_state"
proof -
  let ?s = "\<lparr>disp = ex_disp, accepted = [], taken = (\<lambda>_. [])\<rparr>"
  have "disp_step hub_heap ?s ex_state"
    using disp_step.accept[of "ex_disp\<lparr>queues := [[ex_event]], d_runtime := Running\<rparr>" hub_heap False "\<lambda>_. False" ex_event ?s]
    by (simp add: ex_disp_receive ex_state_def) (simp add: ex_disp_def)
  then show ?thesis
    using disp_reachable.init[OF ex_disp_new] by (rule disp_reachable.step[rotated])
qed

theorem conn_frames_in_order_witness:
  "\<exists>i\<^sub>0 < length (queues (disp ex_state)).
      filter (from_conn hub_heap ''c1'') [ex_event] = filter (from_conn hub_heap ''c1'') (queues (disp ex_state) ! i\<^sub>0)"
  using conn_frames_in_order[OF ex_state_reachable, of "''c1''"]
  by (auto simp: ex_opts_def ex_state_def)



text \<open>
  C13. Which frames a handler sees. At a node with pre-routing and a server in the context, \<open>route\<close> calls a
  handler exactly when it is the one selected for the sub-protocol, the source gate lets the frame pass,
  and the frame is an authentication frame (sub-protocol 2), or a command that has a source or whose handler
  accepts commands, or any other frame that has a source and is addressed to this node. What is sent on
  is not handled here, and only frames with a source that are neither authentication nor commands nor
  addressed to this node are sent on; in particular a frame with source 0 never is.
\<close>

theorem frame_reaches_handler_exactly:
  assumes "Ret (r, w') \<in> set (route p send n order porder evt w)"
    and "d_base p = PreRouteBase pr" "ev_srv evt" "ev_hdr evt = Some h"
  shows "(called r = Some sp \<longleftrightarrow>
            fst (selectHandler p (Some h)) = Some sp \<and> \<not> sourceMismatch w True (Some sp) (ev_conn evt) (Some h)
          \<and> (SubProto h = 2 \<or> Major h = MajorCmd \<and> (Source h \<noteq> 0 \<or> AcceptCmd sp)
             \<or> Source h \<noteq> 0 \<and> Target h \<noteq> 0 \<and> Target h = n))
       \<and> (sent_reqs r \<noteq> [] \<longrightarrow> called r = None \<and> Source h \<noteq> 0 \<and> SubProto h \<noteq> 2 \<and> Major h \<noteq> MajorCmd
            \<and> (Target h = 0 \<or> Target h \<noteq> n))"
proof (cases "fst (selectHandler p (Some h))")
  case None
  then show ?thesis
    using assms by (cases "selectHandler p (Some h)") (auto simp: route_def split: if_splits)
next
  case (Some sp')
  then obtain sub where sel: "selectHandler p (Some h) = (Some sp', sub)"
    by (cases "selectHandler p (Some h)") auto
  show ?thesis
  proof (cases "sourceMismatch w True (Some sp') (ev_conn evt) (Some h)")
    case True
    then show ?thesis
      using assms sel by (auto simp: route_def)
  next
    case False
    then obtain cont reqs where pr: "Ret (cont, reqs, w') \<in> set (PreRoute pr send (Some n) order porder (ev_conn evt) (Some h) (ev_payload evt) w)"
      and r: "r = (if cont \<or> shouldInterceptCmd (Some sp') (Some h) then \<lparr>called = Some sp', sent_reqs = reqs\<rparr>
                   else \<lparr>called = None, sent_reqs = reqs\<rparr>)"
      using assms sel by (auto simp: route_def disp_preRoute_def split: if_splits)
    have i: "shouldInterceptCmd (Some sp') (Some h) \<longleftrightarrow> Major h = MajorCmd \<and> AcceptCmd sp'"
      by (simp add: shouldInterceptCmd_def)
    have s: "reqs \<noteq> [] \<Longrightarrow> \<not> cont \<and> Source h \<noteq> 0 \<and> SubProto h \<noteq> 2 \<and> Major h \<noteq> MajorCmd \<and> (Target h = 0 \<or> Target h \<noteq> n)"
      using PreRoute_sends_all[OF pr] by blast
    show ?thesis
      using PreRoute_continues(1)[OF pr] s False unfolding r i sel by auto
  qed
qed

theorem frame_reaches_handler_exactly_witness:
  "\<exists>r sp. Ret (r, hub_world) \<in> set (route (ex_disp\<lparr>d_base := PreRouteBase NewPreRoutingProcess, fallback := Some sp\<rparr>)
      send_ok 5 [] [] ex_event hub_world) \<and> called r = Some sp \<and> sent_reqs r = []"
proof -
  let ?sp = "\<lparr>h_id = 0, h_SubProto = 9, h_Init = True, AcceptCmd = False, AllowSourceMismatch = True\<rparr>"
  let ?p = "ex_disp\<lparr>d_base := PreRouteBase NewPreRoutingProcess, fallback := Some ?sp\<rparr>"
  have sel: "selectHandler ?p (Some (msg 11 5)) = (Some ?sp, 1)"
    by (simp add: selectHandler_def extractSubProto_def ex_disp_def)
  have ev: "ev_hdr ex_event = Some (msg 11 5)" "ev_srv ex_event" "ev_conn ex_event = Some 1"
    by (simp_all add: ex_event_def)
  obtain r where r: "Ret (r, hub_world) \<in> set (route ?p send_ok 5 [] [] ex_event hub_world)"
    by (simp add: route_def ev sel sourceMismatch_def disp_preRoute_def PreRoute_def Kind_Decide MajorCmd_def)
  have "called r = Some ?sp"
    using frame_reaches_handler_exactly[OF r, of NewPreRoutingProcess "msg 11 5" ?sp] ev sel
    by (simp add: sourceMismatch_def)
  moreover have "sent_reqs r = []"
    using frame_reaches_handler_exactly[OF r, of NewPreRoutingProcess "msg 11 5" ?sp] ev calculation by auto
  ultimately show ?thesis using r by blast
qed

text \<open>
  The command intercept only sees dropped frames. \<open>route\<close> calls a handler that accepts
  commands even when pre-routing has consumed the frame, which the comment explains by frames
  that were forwarded. But pre-routing lets every command with a source through, so the branch
  is reached exactly for a command frame with source 0 that the header router decided to drop,
  of which nothing was sent; such a frame still reaches the handler.
\<close>

theorem intercept_handles_dropped_commands:
  assumes "Ret (False, reqs, w') \<in> set (PreRoute pr send (Some n) order porder conn (Some h) pl w)"
    and "shouldInterceptCmd (Some sp) (Some h)"
  shows "Kind (Decide n (Some h)) = RouteDecisionDrop \<and> reqs = [] \<and> w' = w
       \<and> (ev_conn evt = conn \<and> ev_hdr evt = Some h \<and> ev_payload evt = pl \<and> ev_srv evt
          \<and> d_base p = PreRouteBase pr \<and> fst (selectHandler p (Some h)) = Some sp
          \<and> \<not> sourceMismatch w True (Some sp) conn (Some h)
          \<longrightarrow> route p send n order porder evt w = [Ret (\<lparr>called = Some sp, sent_reqs = []\<rparr>, w)])"
proof -
  have cmd: "Major h = MajorCmd"
    using assms(2) by (simp add: shouldInterceptCmd_def split: if_splits)
  have drop: "Kind (Decide n (Some h)) = RouteDecisionDrop"
    using assms(1) cmd by (auto simp: PreRoute_def Kind_Decide split: if_splits)
  then have "PreRoute pr send (Some n) order porder conn (Some h) pl w = [Ret (False, [], w)]"
    by (simp add: PreRoute_def)
  then show ?thesis
    using drop assms by (auto simp: route_def disp_preRoute_def split: prod.splits option.splits)
qed

theorem intercept_handles_dropped_commands_witness:
  "route (ex_disp\<lparr>d_base := PreRouteBase NewPreRoutingProcess,
            fallback := Some \<lparr>h_id = 0, h_SubProto = 9, h_Init = True, AcceptCmd = True, AllowSourceMismatch = True\<rparr>\<rparr>)
      send_ok 5 [] [] (ex_event\<lparr>ev_hdr := Some ((msg 0 5)\<lparr>TypeFmt := 7\<rparr>)\<rparr>) hub_world
     = [Ret (\<lparr>called = Some \<lparr>h_id = 0, h_SubProto = 9, h_Init = True, AcceptCmd = True, AllowSourceMismatch = True\<rparr>,
            sent_reqs = []\<rparr>, hub_world)]"
proof -
  let ?h = "(msg 0 5)\<lparr>TypeFmt := 7\<rparr>"
  let ?sp = "\<lparr>h_id = 0, h_SubProto = 9, h_Init = True, AcceptCmd = True, AllowSourceMismatch = True\<rparr>"
  have maj: "Major ?h = MajorCmd" "SubProto ?h = 1" "Source ?h = 0"
    by (simp_all add: Major_def SubProto_def MajorCmd_def msg_def)
  then have "Ret (False, [], hub_world) \<in> set (PreRoute NewPreRoutingProcess send_ok (Some 5) [] [] (Some 1) (Some ?h) [1] hub_world)"
    "shouldInterceptCmd (Some ?sp) (Some ?h)"
    by (simp_all add: PreRoute_def Kind_Decide shouldInterceptCmd_def)
  from intercept_handles_dropped_commands[OF this,
      of "ex_event\<lparr>ev_hdr := Some ?h\<rparr>" "ex_disp\<lparr>d_base := PreRouteBase NewPreRoutingProcess, fallback := Some ?sp\<rparr>"]
  show ?thesis
    by (simp add: ex_event_def ex_disp_def selectHandler_def extractSubProto_def sourceMismatch_def)
qed

text \<open>
  A frame that arrives after the shutdown can crash the process. Once a queue is closed, the
  send case of the \<open>select\<close> in \<open>OnReceive\<close> is ready and panics; the cancelled runtime context
  is ready as well, so the outcome is a matter of chance. Before the shutdown, no outcome is a
  panic for a frame with a connection.
\<close>

theorem receive_after_close_may_panic:
  assumes "disp_wf p" "chanCount p = 1" "ev_conn evt = Some c"
  shows "(q_closed p ! 0 \<and> d_runtime p = Cancelled \<longrightarrow>
            Panic \<in> set (disp_OnReceive hp ctx_done waiting evt p)
          \<and> (\<exists>p'. Ret p' \<in> set (disp_OnReceive hp ctx_done waiting evt p)))
       \<and> (\<not> q_closed p ! 0 \<longrightarrow> Panic \<notin> set (disp_OnReceive hp ctx_done waiting evt p))"
proof -
  have len: "length (queues p) = 1"
    using assms(1,2) by (simp add: disp_wf_def)
  have "fst (SelectQueue st k conn hdr 1) = Ret 0" for st k conn hdr
    by (cases st) (simp_all add: SelectQueue_def ConnHash_SelectQueue_def SubProto_SelectQueue_def
        SourceTarget_SelectQueue_def RoundRobin_SelectQueue_def)
  then have sel: "fst (disp_selectQueue (ensureRuntime p) hp (ev_conn evt) (ev_hdr evt)) = Ret 0"
    using assms(2) by (simp add: disp_selectQueue_def ensureRuntime_def split_def Let_def)
  obtain c' where p2: "snd (disp_selectQueue (ensureRuntime p) hp (ev_conn evt) (ev_hdr evt)) = touched p c'"
    by (auto simp: disp_selectQueue_def touched_def ensureRuntime_def split_def Let_def)
  have "d_runtime (touched p c') = Cancelled \<longleftrightarrow> d_runtime p = Cancelled"
    by (simp add: touched_def ensureRuntime_def)
  then show ?thesis
    using sel p2 len assms(3) by (auto simp: disp_OnReceive_def Let_def split_def)
qed

theorem receive_after_close_may_panic_witness:
  "Panic \<in> set (disp_OnReceive hub_heap False (\<lambda>_. False) ex_event
      (close_queue 0 (Shutdown_cancel (ex_disp\<lparr>d_runtime := Running\<rparr>))))"
proof -
  let ?p = "close_queue 0 (Shutdown_cancel (ex_disp\<lparr>d_runtime := Running\<rparr>))"
  have "disp_wf ?p" "chanCount ?p = 1" "ev_conn ex_event = Some 1" "q_closed ?p ! 0" "d_runtime ?p = Cancelled"
    by (simp_all add: disp_wf_def close_queue_def Shutdown_cancel_def ex_disp_def ex_event_def)
  then show ?thesis
    using receive_after_close_may_panic[of ?p ex_event 1 hub_heap False "\<lambda>_. False"] by blast
qed

end
