(* ===== verification/Send_Dispatcher.thy ===== *)
theory Send_Dispatcher
  imports Frame_IO Queue_Strategy Conn_Manager
begin

text \<open>
  process/senddispatcher.go: the outgoing side. \<open>Dispatch\<close> puts a frame into one of the shard
  queues, a worker per shard hands it to the writer of its connection, and the writer puts the
  bytes on the pipe, one frame at a time.

  Writers are objects with identity: they live in a heap indexed by \<open>wid\<close>, and the table
  \<open>writers\<close> names the current writer of a connection id. A \<open>select\<close> may pick any ready case:
  \<open>Dispatch\<close> and \<open>connWriter.enqueue\<close> return the list of their possible outcomes, an empty
  list while they block. The context given to the first \<open>Dispatch\<close> becomes the parent of the
  dispatcher's own context; contexts are numbers, a nil context is \<open>None\<close>, and \<open>ensureStarted\<close> takes the
  background context, which is never cancelled, in its place.
\<close>

section \<open>State\<close>

type_synonym wid = nat
type_synonym ctx = nat

record sendTask =
  t_conn :: "cref option"
  t_hdr :: "iheader option"
  t_payload :: "byte list"
  t_codec :: "codec option"

record connWriter =
  w_conn :: cref
  w_ch :: "sendTask list"
  w_encodeInWriter :: bool
  w_enqueueTimeout :: int
  w_closed :: bool

record SendOptions =
  so_ChannelCount :: int
  so_WorkersPerChan :: int
  so_ChannelBuffer :: int
  so_ConnBuffer :: int
  so_EnqueueTimeout :: int
  so_EncodeInWriter :: bool

record SendDispatcher =
  shards :: "sendTask list list"
  shard_closed :: "bool list"
  shardBuffer :: nat
  shardCount :: int
  sd_workersPerChan :: int
  connBuffer :: int
  enqueueTimeout :: int
  encodeInWriter :: bool
  sd_ctx :: "ctx option option"
  sd_cancelled :: bool
  writers :: "(string \<times> wid) list"
  wheap :: "wid \<rightharpoonup> connWriter"
  next_wid :: wid

abbreviation errNilConn :: error where "errNilConn \<equiv> Err ''nil connection''"
abbreviation errNilCodec :: error where "errNilCodec \<equiv> Err ''nil codec''"
abbreviation errNilPipe :: error where "errNilPipe \<equiv> Err ''nil pipe''"
abbreviation errWriterClosed :: error where "errWriterClosed \<equiv> Err ''writer closed''"
abbreviation errEnqueueTimeout :: error where "errEnqueueTimeout \<equiv> Err ''enqueue timeout''"
abbreviation errDispatcherClosed :: error where "errDispatcherClosed \<equiv> Err ''dispatcher closed''"
abbreviation errCtx :: error where "errCtx \<equiv> Err ''context done''"


section \<open>Construction\<close>

definition NewSendDispatcher :: "SendOptions \<Rightarrow> SendDispatcher result" where
  "NewSendDispatcher opts =
     (let channels = (if so_ChannelCount opts \<le> 0 then 1 else so_ChannelCount opts);
          workers = (if so_WorkersPerChan opts \<le> 0 then 1 else so_WorkersPerChan opts);
          buffer = (if so_ChannelBuffer opts < 0 then 0 else so_ChannelBuffer opts);
          cbuffer = (if so_ConnBuffer opts \<le> 0 then 64 else so_ConnBuffer opts);
          timeout = (if so_EnqueueTimeout opts < 0 then 0 else so_EnqueueTimeout opts);
          enc = (if \<not> so_EncodeInWriter opts then True else so_EncodeInWriter opts)
      in Inr \<lparr>shards = replicate (nat channels) [], shard_closed = replicate (nat channels) False,
              shardBuffer = nat buffer, shardCount = channels, sd_workersPerChan = workers,
              connBuffer = cbuffer, enqueueTimeout = timeout, encodeInWriter = enc,
              sd_ctx = None, sd_cancelled = False, writers = [], wheap = (\<lambda>_. None), next_wid = 0\<rparr>)"

definition NewSendDispatcherFromConfig :: "config_get option \<Rightarrow> SendDispatcher result" where
  "NewSendDispatcherFromConfig cfg =
     NewSendDispatcher
       \<lparr>so_ChannelCount = readPositiveInt cfg KeySendChannelCount 1,
        so_WorkersPerChan = readPositiveInt cfg KeySendWorkersPerChan 1,
        so_ChannelBuffer = readPositiveInt cfg KeySendChannelBuffer 64,
        so_ConnBuffer = readPositiveInt cfg KeySendConnBuffer 64,
        so_EnqueueTimeout = readDurationMs cfg KeySendEnqueueTimeoutMS 100,
        so_EncodeInWriter = True\<rparr>"

definition sd_Snapshot :: "SendDispatcher \<Rightarrow> int \<times> int \<times> int" where
  "sd_Snapshot d =
     (let channels = int (length (shards d))
      in (channels, sd_workersPerChan d, if channels > 0 then int (shardBuffer d) else 0))"


section \<open>The writer of a connection\<close>

text \<open>
  \<open>connWriter.write\<close>: the pipe is a writer of package io, \<open>None\<close> when \<open>Pipe()\<close> is nil. The
  outer option is the termination of the write loop.
\<close>

definition connWriter_write ::
  "connWriter \<Rightarrow> 's writer option \<Rightarrow> 's \<Rightarrow> sendTask \<Rightarrow> ('s \<times> error option) outcome option" where
  "connWriter_write cw pipe s task =
     (case t_codec task of
        None \<Rightarrow> Some (Ret (s, Some errNilCodec))
      | Some cd \<Rightarrow>
          (case pipe of
             None \<Rightarrow> Some (Ret (s, Some errNilPipe))
           | Some p \<Rightarrow>
               if w_encodeInWriter cw
               then WriteFrame (Some p) s cd \<lparr>Header = t_hdr task, Payload = t_payload task\<rparr>
               else WriteAll (Some p) s (t_payload task)))"

text \<open>
  \<open>connWriter.enqueue\<close>: the possible outcomes, an error or the writer with the task appended.
  \<open>fired\<close> tells that the timer has expired. A send on a channel closed meanwhile panics, is
  recovered, and reports a closed writer; the flag \<open>w_closed\<close> is set together with the close, so that one
  test covers both. When the writer is closed after the test of the flag, the \<open>select\<close> may also pick
  the expired timer.
\<close>

definition connWriter_enqueue ::
  "int \<Rightarrow> bool \<Rightarrow> bool \<Rightarrow> sendTask \<Rightarrow> connWriter \<Rightarrow> (error option \<times> connWriter) list" where
  "connWriter_enqueue cap fired waiting task cw =
     (if w_closed cw
      then [(Some errWriterClosed, cw)] @ (if w_enqueueTimeout cw > 0 \<and> fired then [(Some errEnqueueTimeout, cw)] else [])
      else (if int (length (w_ch cw)) < cap \<or> waiting then [(None, cw\<lparr>w_ch := w_ch cw @ [task]\<rparr>)] else [])
         @ (if w_enqueueTimeout cw > 0 \<and> fired then [(Some errEnqueueTimeout, cw)] else []))"

definition connWriter_stop :: "connWriter \<Rightarrow> connWriter" where
  "connWriter_stop cw = cw\<lparr>w_closed := True\<rparr>"


section \<open>SendDispatcher\<close>

text \<open>\<open>sd_ctx\<close> is the parent of the dispatcher's context once it is started; \<open>Some None\<close> is the background context.\<close>

definition ensureStarted :: "ctx option \<Rightarrow> SendDispatcher \<Rightarrow> SendDispatcher" where
  "ensureStarted c d = (if sd_ctx d = None then d\<lparr>sd_ctx := Some c\<rparr> else d)"

definition sd_selectQueue :: "SendDispatcher \<Rightarrow> string option \<Rightarrow> HeaderTcp option \<Rightarrow> int outcome" where
  "sd_selectQueue d conn hdr =
     (if shardCount d = 1 then Ret 0
      else case conn of
        Some cid \<Rightarrow>
          (let m = (word_of_int (shardCount d) :: u32)
           in if m = 0 then Panic else Ret (uint (fnv32a (bytes_of cid) mod m)))
      | None \<Rightarrow>
          (case hdr of
             Some h \<Rightarrow> Ret (uint (SubProto h) mod shardCount d)
           | None \<Rightarrow> Ret 0))"

text \<open>
  \<open>Dispatch\<close>. \<open>hp\<close> gives the connection ids; \<open>ctx_done\<close>, \<open>fired\<close> and \<open>waiting\<close> tell which of
  the other cases are ready: the caller's context, the timer, a shard worker that waits for a
  task. The dispatcher's own context is done once it is cancelled. The \<open>select\<close> evaluates the channels
  of all its cases first: an index out of range panics, and so does \<open>ctx.Done()\<close> of a nil context.
\<close>

definition Dispatch ::
  "(cref \<Rightarrow> conn) \<Rightarrow> ctx option \<Rightarrow> bool \<Rightarrow> bool \<Rightarrow> (nat \<Rightarrow> bool) \<Rightarrow> sendTask \<Rightarrow> SendDispatcher
   \<Rightarrow> (error option \<times> SendDispatcher) outcome list" where
  "Dispatch hp c ctx_done fired waiting task d0 =
     (case t_conn task of
        None \<Rightarrow> [Ret (Some errNilConn, d0)]
      | Some cr \<Rightarrow>
          (let d = ensureStarted c d0
           in case sd_selectQueue d (Some (conn_ID (hp cr))) None of
                Panic \<Rightarrow> [Panic]
              | Ret idx \<Rightarrow>
                  if \<not> (0 \<le> idx \<and> nat idx < length (shards d)) then [Panic]
                  else if c = None then [Panic]
                  else let i = nat idx
                       in (if shard_closed d ! i then [Panic]
                           else if length (shards d ! i) < shardBuffer d \<or> waiting i
                           then [Ret (None, d\<lparr>shards := (shards d)[i := shards d ! i @ [task]]\<rparr>)] else [])
                        @ (if enqueueTimeout d > 0 \<and> fired then [Ret (Some errEnqueueTimeout, d)] else [])
                        @ (if sd_cancelled d then [Ret (Some errDispatcherClosed, d)] else [])
                        @ (if ctx_done then [Ret (Some errCtx, d)] else [])))"

definition getOrCreateWriter :: "(cref \<Rightarrow> conn) \<Rightarrow> cref \<Rightarrow> SendDispatcher \<Rightarrow> wid \<times> SendDispatcher" where
  "getOrCreateWriter hp cr d =
     (let cid = conn_ID (hp cr)
      in case map_of (writers d) cid of
           Some w \<Rightarrow> (w, d)
         | None \<Rightarrow>
             (let w = next_wid d;
                  cw = \<lparr>w_conn = cr, w_ch = [], w_encodeInWriter = encodeInWriter d,
                        w_enqueueTimeout = enqueueTimeout d, w_closed = False\<rparr>
              in (w, d\<lparr>writers := AList.update cid w (writers d), wheap := (wheap d)(w \<mapsto> cw), next_wid := w + 1\<rparr>)))"

definition stop_writer :: "wid \<Rightarrow> SendDispatcher \<Rightarrow> SendDispatcher" where
  "stop_writer w d =
     (case wheap d w of None \<Rightarrow> d | Some cw \<Rightarrow> d\<lparr>wheap := (wheap d)(w \<mapsto> connWriter_stop cw)\<rparr>)"

definition CloseConn :: "string \<Rightarrow> SendDispatcher \<Rightarrow> SendDispatcher" where
  "CloseConn cid d =
     (case map_of (writers d) cid of
        None \<Rightarrow> d
      | Some w \<Rightarrow> stop_writer w (d\<lparr>writers := AList.delete cid (writers d)\<rparr>))"

text \<open>\<open>Shutdown\<close> cancels the dispatcher's context, if it was ever started.\<close>

definition sd_Shutdown :: "SendDispatcher \<Rightarrow> SendDispatcher" where
  "sd_Shutdown d = (if sd_ctx d = None then d else d\<lparr>sd_cancelled := True\<rparr>)"

text \<open>The cancellation of a context cancels the dispatcher whose parent it is.\<close>

definition ctx_cancelled :: "ctx \<Rightarrow> SendDispatcher \<Rightarrow> SendDispatcher" where
  "ctx_cancelled c d = (if sd_ctx d = Some (Some c) then d\<lparr>sd_cancelled := True\<rparr> else d)"

text \<open>The clean-up goroutine: closes the shards one by one, then stops every writer.\<close>

definition close_shard :: "nat \<Rightarrow> SendDispatcher \<Rightarrow> SendDispatcher" where
  "close_shard i d = (if sd_cancelled d then d\<lparr>shard_closed := (shard_closed d)[i := True]\<rparr> else d)"

definition stop_all_writers :: "SendDispatcher \<Rightarrow> SendDispatcher" where
  "stop_all_writers d =
     (if list_all (\<lambda>b. b) (shard_closed d)
      then (fold stop_writer (map snd (writers d)) d)\<lparr>writers := []\<rparr>
      else d)"


section \<open>The sending side as a state machine\<close>

text \<open>
  Ghost state: the tasks in the order in which \<open>Dispatch\<close> accepted them, the task a shard
  worker holds between looking up the writer and enqueueing, and what each writer has written.
\<close>

record sd_state =
  sd :: SendDispatcher
  sd_accepted :: "sendTask list"
  in_hand :: "nat \<Rightarrow> (sendTask \<times> wid) option"
  written :: "wid \<Rightarrow> sendTask list"

inductive sd_step :: "(cref \<Rightarrow> conn) \<Rightarrow> sd_state \<Rightarrow> sd_state \<Rightarrow> bool" for hp where
  dispatched: "Ret (None, d') \<in> set (Dispatch hp c ctx_done fired waiting t (sd s)) \<Longrightarrow>
     sd_step hp s (s\<lparr>sd := d', sd_accepted := sd_accepted s @ [t]\<rparr>)"
| refused: "Ret (Some e, d') \<in> set (Dispatch hp c ctx_done fired waiting t (sd s)) \<Longrightarrow>
     sd_step hp s (s\<lparr>sd := d'\<rparr>)"
| shard_take: "\<lbrakk>i < length (shards (sd s)); shards (sd s) ! i = t # ts; in_hand s i = None; t_conn t = Some cr;
     getOrCreateWriter hp cr ((sd s)\<lparr>shards := (shards (sd s))[i := ts]\<rparr>) = (w, d')\<rbrakk> \<Longrightarrow>
     sd_step hp s (s\<lparr>sd := d', in_hand := (in_hand s)(i \<mapsto> (t, w))\<rparr>)"
| shard_put: "\<lbrakk>in_hand s i = Some (t, w); wheap (sd s) w = Some cw;
     (e, cw') \<in> set (connWriter_enqueue (connBuffer (sd s)) fired wt t cw)\<rbrakk> \<Longrightarrow>
     sd_step hp s (s\<lparr>sd := (sd s)\<lparr>wheap := (wheap (sd s))(w \<mapsto> cw')\<rparr>, in_hand := (in_hand s)(i := None)\<rparr>)"
| writer_write: "\<lbrakk>wheap (sd s) w = Some cw; w_ch cw = t # ts\<rbrakk> \<Longrightarrow>
     sd_step hp s (s\<lparr>sd := (sd s)\<lparr>wheap := (wheap (sd s))(w \<mapsto> cw\<lparr>w_ch := ts\<rparr>)\<rparr>,
                      written := (written s)(w := written s w @ [t])\<rparr>)"
| close_conn: "sd_step hp s (s\<lparr>sd := CloseConn cid (sd s)\<rparr>)"
| shutdown: "sd_step hp s (s\<lparr>sd := sd_Shutdown (sd s)\<rparr>)"
| ctx_cancel: "sd_step hp s (s\<lparr>sd := ctx_cancelled c (sd s)\<rparr>)"
| close_shards: "sd_step hp s (s\<lparr>sd := close_shard i (sd s)\<rparr>)"
| stop_all: "sd_step hp s (s\<lparr>sd := stop_all_writers (sd s)\<rparr>)"

inductive sd_reachable :: "(cref \<Rightarrow> conn) \<Rightarrow> SendOptions \<Rightarrow> sd_state \<Rightarrow> bool" for hp opts where
  init: "NewSendDispatcher opts = Inr d \<Longrightarrow>
     sd_reachable hp opts \<lparr>sd = d, sd_accepted = [], in_hand = (\<lambda>_. None), written = (\<lambda>_. [])\<rparr>"
| step: "sd_reachable hp opts s \<Longrightarrow> sd_step hp s s' \<Longrightarrow> sd_reachable hp opts s'"

definition of_conn :: "(cref \<Rightarrow> conn) \<Rightarrow> string \<Rightarrow> sendTask \<Rightarrow> bool" where
  "of_conn hp cid t \<longleftrightarrow> map_option (\<lambda>x. conn_ID (hp x)) (t_conn t) = Some cid"

definition shard_of :: "int \<Rightarrow> string \<Rightarrow> int outcome" where
  "shard_of n cid = (if n = 1 then Ret 0
     else let m = (word_of_int n :: u32) in if m = 0 then Panic else Ret (uint (fnv32a (bytes_of cid) mod m)))"

lemma sd_selectQueue_shard_of: "sd_selectQueue d (Some cid) h = shard_of (shardCount d) cid"
  by (simp add: sd_selectQueue_def shard_of_def)

text \<open>
  What is still to come for a connection: the queue of a writer, the task a shard worker holds
  for it, and the tasks of its connection in the shard.
\<close>

definition writer_queue :: "SendDispatcher \<Rightarrow> wid \<Rightarrow> sendTask list" where
  "writer_queue d w = (case wheap d w of None \<Rightarrow> [] | Some cw \<Rightarrow> w_ch cw)"

definition held :: "sd_state \<Rightarrow> nat \<Rightarrow> wid \<Rightarrow> sendTask list" where
  "held s i w = (case in_hand s i of None \<Rightarrow> [] | Some (t, w') \<Rightarrow> if w' = w then [t] else [])"

definition pipeline :: "(cref \<Rightarrow> conn) \<Rightarrow> sd_state \<Rightarrow> wid \<Rightarrow> string \<Rightarrow> nat \<Rightarrow> sendTask list" where
  "pipeline hp s w cid i =
     written s w @ writer_queue (sd s) w @ held s i w @ filter (of_conn hp cid) (shards (sd s) ! i)"

text \<open>The connection id a writer serves.\<close>

definition serves :: "(cref \<Rightarrow> conn) \<Rightarrow> SendDispatcher \<Rightarrow> wid \<Rightarrow> string \<Rightarrow> bool" where
  "serves hp d w cid \<longleftrightarrow> (\<exists>cw. wheap d w = Some cw \<and> conn_ID (hp (w_conn cw)) = cid)"

definition sd_inv :: "(cref \<Rightarrow> conn) \<Rightarrow> sd_state \<Rightarrow> bool" where
  "sd_inv hp s \<longleftrightarrow>
     (\<forall>i < length (shards (sd s)). \<forall>t \<in> set (shards (sd s) ! i).
        \<exists>cr. t_conn t = Some cr \<and> shard_of (shardCount (sd s)) (conn_ID (hp cr)) = Ret (int i))
   \<and> (\<forall>i t w. in_hand s i = Some (t, w) \<longrightarrow> i < length (shards (sd s)) \<and>
        (\<exists>cr. t_conn t = Some cr \<and> serves hp (sd s) w (conn_ID (hp cr))
            \<and> shard_of (shardCount (sd s)) (conn_ID (hp cr)) = Ret (int i)))
   \<and> (\<forall>cid w. map_of (writers (sd s)) cid = Some w \<longrightarrow> serves hp (sd s) w cid)
   \<and> (\<forall>w. wheap (sd s) w \<noteq> None \<longrightarrow> w < next_wid (sd s))
   \<and> (\<forall>w. wheap (sd s) w = None \<longrightarrow> written s w = [])
   \<and> (\<forall>cid. \<forall>i < length (shards (sd s)).
        subseq (filter (of_conn hp cid) (shards (sd s) ! i)) (filter (of_conn hp cid) (sd_accepted s)))
   \<and> (\<forall>w cid. \<forall>i < length (shards (sd s)). serves hp (sd s) w cid \<and> shard_of (shardCount (sd s)) cid = Ret (int i) \<longrightarrow>
        subseq (pipeline hp s w cid i) (filter (of_conn hp cid) (sd_accepted s)))"


lemma sd_invD:
  assumes "sd_inv hp s"
  shows "\<And>i t. i < length (shards (sd s)) \<Longrightarrow> t \<in> set (shards (sd s) ! i) \<Longrightarrow>
        \<exists>cr. t_conn t = Some cr \<and> shard_of (shardCount (sd s)) (conn_ID (hp cr)) = Ret (int i)"
    and "\<And>i t w. in_hand s i = Some (t, w) \<Longrightarrow> i < length (shards (sd s)) \<and>
        (\<exists>cr. t_conn t = Some cr \<and> serves hp (sd s) w (conn_ID (hp cr))
            \<and> shard_of (shardCount (sd s)) (conn_ID (hp cr)) = Ret (int i))"
    and "\<And>cid w. map_of (writers (sd s)) cid = Some w \<Longrightarrow> serves hp (sd s) w cid"
    and "\<And>w. wheap (sd s) w \<noteq> None \<Longrightarrow> w < next_wid (sd s)"
    and "\<And>w. wheap (sd s) w = None \<Longrightarrow> written s w = []"
    and "\<And>cid i. i < length (shards (sd s)) \<Longrightarrow>
        subseq (filter (of_conn hp cid) (shards (sd s) ! i)) (filter (of_conn hp cid) (sd_accepted s))"
    and "\<And>w cid i. i < length (shards (sd s)) \<Longrightarrow> serves hp (sd s) w cid \<Longrightarrow> shard_of (shardCount (sd s)) cid = Ret (int i) \<Longrightarrow>
        subseq (pipeline hp s w cid i) (filter (of_conn hp cid) (sd_accepted s))"
  using assms by (auto simp: sd_inv_def)

text \<open>Steps that only close things keep the invariant.\<close>

definition wview :: "connWriter option \<Rightarrow> (cref \<times> sendTask list) option" where
  "wview cw = map_option (\<lambda>c. (w_conn c, w_ch c)) cw"

lemma wview_stop_writer: "wview (wheap (stop_writer v d) w) = wview (wheap d w)"
  by (simp add: stop_writer_def wview_def connWriter_stop_def split: option.split)

lemma wview_fold_stop: "wview (wheap (fold stop_writer vs d) w) = wview (wheap d w)"
  by (induction vs arbitrary: d) (simp_all add: wview_stop_writer)

lemma stop_writer_fields [simp]:
  "shards (stop_writer v d) = shards d" "shardCount (stop_writer v d) = shardCount d"
  "next_wid (stop_writer v d) = next_wid d" "writers (stop_writer v d) = writers d"
  by (simp_all add: stop_writer_def split: option.split)

lemma fold_stop_fields [simp]:
  "shards (fold stop_writer vs d) = shards d" "shardCount (fold stop_writer vs d) = shardCount d"
  "next_wid (fold stop_writer vs d) = next_wid d"
  by (induction vs arbitrary: d) simp_all

lemma serves_wview: "serves hp d w cid \<longleftrightarrow> (\<exists>c q. wview (wheap d w) = Some (c, q) \<and> conn_ID (hp c) = cid)"
  by (auto simp: serves_def wview_def)

lemma writer_queue_wview: "writer_queue d w = (case wview (wheap d w) of None \<Rightarrow> [] | Some (c, q) \<Rightarrow> q)"
  by (simp add: writer_queue_def wview_def split: option.splits)

lemma sd_inv_quiet:
  assumes "sd_inv hp s" "shards d' = shards (sd s)" "shardCount d' = shardCount (sd s)" "next_wid d' = next_wid (sd s)"
    and w: "\<And>cid w. map_of (writers d') cid = Some w \<Longrightarrow> map_of (writers (sd s)) cid = Some w"
    and v: "\<And>w. wview (wheap d' w) = wview (wheap (sd s) w)"
  shows "sd_inv hp (s\<lparr>sd := d'\<rparr>)"
proof -
  have sv: "serves hp d' = serves hp (sd s)"
    using v by (simp add: serves_wview fun_eq_iff)
  have wq: "writer_queue d' = writer_queue (sd s)"
    using v by (simp add: writer_queue_wview fun_eq_iff)
  have none: "wheap d' w = None \<longleftrightarrow> wheap (sd s) w = None" for w
    using v[of w] by (cases "wheap d' w"; cases "wheap (sd s) w") (simp_all add: wview_def)
  show ?thesis
    unfolding sd_inv_def using sd_invD[OF assms(1)] assms(2-4) w none
    by (simp add: sv pipeline_def wq held_def)
qed

lemma sd_inv_dispatched:
  assumes inv: "sd_inv hp s" and r: "Ret (None, d') \<in> set (Dispatch hp c ctx_done fired waiting t (sd s))"
  shows "sd_inv hp (s\<lparr>sd := d', sd_accepted := sd_accepted s @ [t]\<rparr>)"
proof -
  obtain cr idx where cr: "t_conn t = Some cr" and idx: "shard_of (shardCount (sd s)) (conn_ID (hp cr)) = Ret idx"
      "0 \<le> idx" "nat idx < length (shards (sd s))"
    and d': "d' = (ensureStarted c (sd s))\<lparr>shards := (shards (sd s))[nat idx := shards (sd s) ! nat idx @ [t]]\<rparr>"
    using r by (auto simp: Dispatch_def Let_def sd_selectQueue_shard_of ensureStarted_def
        split: option.splits outcome.splits if_splits)
  let ?s' = "s\<lparr>sd := d', sd_accepted := sd_accepted s @ [t]\<rparr>"
  have f: "shardCount d' = shardCount (sd s)" "writers d' = writers (sd s)" "wheap d' = wheap (sd s)"
    "next_wid d' = next_wid (sd s)" "length (shards d') = length (shards (sd s))"
    "\<And>i. i < length (shards (sd s)) \<Longrightarrow> shards d' ! i = (if i = nat idx then shards (sd s) ! i @ [t] else shards (sd s) ! i)"
    using idx(3) by (simp_all add: d' ensureStarted_def nth_list_update)
  have sv: "serves hp d' = serves hp (sd s)" and wq: "writer_queue d' = writer_queue (sd s)"
    using f by (simp_all add: serves_def writer_queue_def fun_eq_iff)
  have here: "of_conn hp cid t \<Longrightarrow> cid = conn_ID (hp cr)" for cid
    using cr by (simp add: of_conn_def)
  have pipe: "pipeline hp ?s' w cid i = pipeline hp s w cid i @ (if i = nat idx \<and> of_conn hp cid t then [t] else [])"
    if "i < length (shards (sd s))" for w cid i
    using that f(6)[OF that] by (simp add: pipeline_def wq held_def)
  show ?thesis
    unfolding sd_inv_def
  proof (intro conjI allI impI ballI)
    fix i u assume i: "i < length (shards (sd ?s'))" and u: "u \<in> set (shards (sd ?s') ! i)"
    then show "\<exists>cr. t_conn u = Some cr \<and> shard_of (shardCount (sd ?s')) (conn_ID (hp cr)) = Ret (int i)"
      using sd_invD(1)[OF inv, of i u] f cr idx by (auto split: if_splits)
  next
    fix cid i assume i: "i < length (shards (sd ?s'))"
    then show "subseq (filter (of_conn hp cid) (shards (sd ?s') ! i)) (filter (of_conn hp cid) (sd_accepted ?s'))"
      using sd_invD(6)[OF inv, of i cid] f by (auto intro: subseq_order.trans list_emb_append_mono)
  next
    fix w cid i assume i: "i < length (shards (sd ?s'))"
      and a: "serves hp (sd ?s') w cid \<and> shard_of (shardCount (sd ?s')) cid = Ret (int i)"
    then have "subseq (pipeline hp s w cid i) (filter (of_conn hp cid) (sd_accepted s))"
      using sd_invD(7)[OF inv, of i w cid] f sv by simp
    then show "subseq (pipeline hp ?s' w cid i) (filter (of_conn hp cid) (sd_accepted ?s'))"
      using i f pipe[of i w cid] by (auto intro: list_emb_append_mono subseq_order.trans)
  qed (use sd_invD(2-5)[OF inv] f sv in auto)
qed


lemma serves_unique: "serves hp d w cid \<Longrightarrow> serves hp d w cid' \<Longrightarrow> cid' = cid"
  by (auto simp: serves_def)

lemma getOrCreateWriter_cases:
  assumes "getOrCreateWriter hp cr d = (w, d')"
  obtains (found) "map_of (writers d) (conn_ID (hp cr)) = Some w" "d' = d"
  | (new) "map_of (writers d) (conn_ID (hp cr)) = None" "w = next_wid d"
      "d' = d\<lparr>writers := AList.update (conn_ID (hp cr)) w (writers d),
              wheap := (wheap d)(w \<mapsto> \<lparr>w_conn = cr, w_ch = [], w_encodeInWriter = encodeInWriter d,
                 w_enqueueTimeout = enqueueTimeout d, w_closed = False\<rparr>), next_wid := w + 1\<rparr>"
  using assms by (auto simp: getOrCreateWriter_def Let_def split: option.splits)

text \<open>
  A shard worker takes a task: the writer is the current one of the connection, or a new one
  that nothing refers to yet.
\<close>

lemma getOrCreateWriter_serves:
  assumes inv: "sd_inv hp s" and g: "getOrCreateWriter hp cr ((sd s)\<lparr>shards := sh\<rparr>) = (w, d')"
  shows "serves hp d' w (conn_ID (hp cr))"
    and "serves hp d' v cid \<Longrightarrow> serves hp (sd s) v cid \<or> v = w \<and> cid = conn_ID (hp cr) \<and> wheap (sd s) w = None"
    and "serves hp (sd s) v cid \<Longrightarrow> serves hp d' v cid"
    and "writer_queue d' = writer_queue (sd s)"
    and "shards d' = sh" "shardCount d' = shardCount (sd s)"
    and "map_of (writers d') k = Some u \<Longrightarrow> serves hp d' u k"
    and "wheap d' v \<noteq> None \<Longrightarrow> v < next_wid d'"
    and "wheap d' v = None \<Longrightarrow> wheap (sd s) v = None"
proof -
  have fresh: "wheap (sd s) (next_wid (sd s)) = None"
    using sd_invD(4)[OF inv] by (metis less_irrefl)
  note D3 = sd_invD(3)[OF inv] and D4 = sd_invD(4)[OF inv]
  from g show "serves hp d' w (conn_ID (hp cr))"
    by (cases rule: getOrCreateWriter_cases) (use D3 in \<open>auto simp: serves_def\<close>)
  from g show "serves hp (sd s) v cid \<or> v = w \<and> cid = conn_ID (hp cr) \<and> wheap (sd s) w = None"
    if "serves hp d' v cid"
    by (cases rule: getOrCreateWriter_cases) (use that fresh in \<open>auto simp: serves_def split: if_splits\<close>)
  from g show new: "serves hp d' v cid" if "serves hp (sd s) v cid" for v cid
    by (cases rule: getOrCreateWriter_cases) (use that fresh in \<open>auto simp: serves_def\<close>)
  from g show "writer_queue d' = writer_queue (sd s)"
    by (cases rule: getOrCreateWriter_cases) (use fresh in \<open>auto simp: writer_queue_def fun_eq_iff\<close>)
  from g show "shards d' = sh" "shardCount d' = shardCount (sd s)"
    by (cases rule: getOrCreateWriter_cases, simp_all)+
  from g show "serves hp d' u k" if "map_of (writers d') k = Some u"
  proof (cases rule: getOrCreateWriter_cases)
    case found
    then show ?thesis using that D3 new by simp
  next
    case new2: new
    show ?thesis
    proof (cases "k = conn_ID (hp cr)")
      case True
      then show ?thesis using that new2 by (simp add: update_conv' serves_def)
    next
      case False
      then have "map_of (writers (sd s)) k = Some u"
        using that new2 by (simp add: update_conv')
      then show ?thesis using D3 new by blast
    qed
  qed
  from g show "v < next_wid d'" if "wheap d' v \<noteq> None"
    by (cases rule: getOrCreateWriter_cases) (use that D4[of v] in \<open>auto split: if_splits\<close>)
  from g show "wheap (sd s) v = None" if "wheap d' v = None"
    by (cases rule: getOrCreateWriter_cases) (use that in \<open>auto split: if_splits\<close>)
qed

lemma sd_inv_shard_take:
  assumes inv: "sd_inv hp s" and i: "i < length (shards (sd s))" and q: "shards (sd s) ! i = t # ts"
    and free: "in_hand s i = None" and cr: "t_conn t = Some cr"
    and g: "getOrCreateWriter hp cr ((sd s)\<lparr>shards := (shards (sd s))[i := ts]\<rparr>) = (w, d')"
  shows "sd_inv hp (s\<lparr>sd := d', in_hand := (in_hand s)(i \<mapsto> (t, w))\<rparr>)"
proof -
  let ?s' = "s\<lparr>sd := d', in_hand := (in_hand s)(i \<mapsto> (t, w))\<rparr>" and ?cid = "conn_ID (hp cr)"
  note G = getOrCreateWriter_serves[OF inv g]
  have sh: "length (shards d') = length (shards (sd s))" "\<And>j. j \<noteq> i \<Longrightarrow> shards d' ! j = shards (sd s) ! j" "shards d' ! i = ts"
    using i by (simp_all add: G(5))
  have ti: "shard_of (shardCount (sd s)) ?cid = Ret (int i)"
    using sd_invD(1)[OF inv i, of t] q cr by simp
  have tc: "of_conn hp c t \<longleftrightarrow> c = ?cid" for c
    using cr by (auto simp: of_conn_def)
  have sub_shard: "subseq (filter (of_conn hp c) (shards d' ! j)) (filter (of_conn hp c) (shards (sd s) ! j))" for c j
    using q sh by (cases "j = i") auto
  show ?thesis
    unfolding sd_inv_def
  proof (intro conjI allI impI ballI)
    fix j u assume "j < length (shards (sd ?s'))" "u \<in> set (shards (sd ?s') ! j)"
    then show "\<exists>cr. t_conn u = Some cr \<and> shard_of (shardCount (sd ?s')) (conn_ID (hp cr)) = Ret (int j)"
      using sd_invD(1)[OF inv, of j u] q sh G(6) by (cases "j = i") auto
  next
    fix j u v assume "in_hand ?s' j = Some (u, v)"
    then show "j < length (shards (sd ?s'))"
      using sd_invD(2)[OF inv, of j u v] i sh by (cases "j = i") auto
  next
    fix j u v assume h: "in_hand ?s' j = Some (u, v)"
    show "\<exists>cr. t_conn u = Some cr \<and> serves hp (sd ?s') v (conn_ID (hp cr)) \<and> shard_of (shardCount (sd ?s')) (conn_ID (hp cr)) = Ret (int j)"
    proof (cases "j = i")
      case True
      then show ?thesis using h cr G(1,6) ti by simp
    next
      case False
      then show ?thesis using h sd_invD(2)[OF inv, of j u v] G(3,6) by auto
    qed
  next
    fix c j assume "j < length (shards (sd ?s'))"
    then show "subseq (filter (of_conn hp c) (shards (sd ?s') ! j)) (filter (of_conn hp c) (sd_accepted ?s'))"
      using subseq_order.trans[OF sub_shard sd_invD(6)[OF inv, of j c]] sh by simp
  next
    fix v c j assume j: "j < length (shards (sd ?s'))"
      and a: "serves hp (sd ?s') v c \<and> shard_of (shardCount (sd ?s')) c = Ret (int j)"
    show "subseq (pipeline hp ?s' v c j) (filter (of_conn hp c) (sd_accepted ?s'))"
    proof (cases "serves hp (sd s) v c")
      case True
      then have old: "subseq (pipeline hp s v c j) (filter (of_conn hp c) (sd_accepted s))"
        using sd_invD(7)[OF inv, of j v c] j a G(6) sh by simp
      have "subseq (pipeline hp ?s' v c j) (pipeline hp s v c j)"
      proof (cases "j = i \<and> v = w")
        case True
        then have "c = ?cid" using serves_unique[OF G(1)] a by simp
        then show ?thesis using True q sh free tc by (simp add: pipeline_def G(4) held_def)
      next
        case False
        then have "held ?s' j v = held s j v"
          using free by (cases "j = i") (auto simp: held_def)
        then show ?thesis
          using sub_shard[of c j] by (simp add: pipeline_def G(4) subseq_append_left)
      qed
      then show ?thesis using old by (auto intro: subseq_order.trans)
    next
      case False
      then have v: "v = w" "c = ?cid" "wheap (sd s) w = None"
        using G(2)[of v c] a by auto
      then have "j = i" using a ti G(6) by simp
      then have "pipeline hp ?s' v c j = filter (of_conn hp c) (shards (sd s) ! i)"
        using v sd_invD(5)[OF inv v(3)] sh q tc by (simp add: pipeline_def G(4) held_def writer_queue_def)
      then show ?thesis using sd_invD(6)[OF inv i, of c] by simp
    qed
  qed (use G(7-9) sd_invD(5)[OF inv] in auto)
qed


lemma sd_inv_shard_put:
  assumes inv: "sd_inv hp s" and h: "in_hand s i = Some (t, w)" and cw: "wheap (sd s) w = Some cw"
    and e: "(e, cw') \<in> set (connWriter_enqueue cap fired wt t cw)"
  shows "sd_inv hp (s\<lparr>sd := (sd s)\<lparr>wheap := (wheap (sd s))(w \<mapsto> cw')\<rparr>, in_hand := (in_hand s)(i := None)\<rparr>)"
proof -
  let ?s' = "s\<lparr>sd := (sd s)\<lparr>wheap := (wheap (sd s))(w \<mapsto> cw')\<rparr>, in_hand := (in_hand s)(i := None)\<rparr>"
  have cw': "w_conn cw' = w_conn cw" "w_ch cw' = w_ch cw \<or> w_ch cw' = w_ch cw @ [t]"
    using e by (auto simp: connWriter_enqueue_def split: if_splits)
  have sv: "serves hp (sd ?s') = serves hp (sd s)"
    using cw cw'(1) by (auto simp: serves_def fun_eq_iff)
  obtain cr where cr: "serves hp (sd s) w (conn_ID (hp cr))" "shard_of (shardCount (sd s)) (conn_ID (hp cr)) = Ret (int i)"
    using sd_invD(2)[OF inv h] by blast
  have pipe: "subseq (pipeline hp ?s' v c j) (pipeline hp s v c j)"
    if "serves hp (sd s) v c" "shard_of (shardCount (sd s)) c = Ret (int j)" for v c j
  proof (cases "v = w")
    case True
    then have "j = i"
      using serves_unique[OF cr(1)] that cr(2) by simp
    then show ?thesis
      using True h cw cw'(2) by (auto simp: pipeline_def held_def writer_queue_def intro!: subseq_append_left)
  next
    case False
    then have "held ?s' j v = held s j v"
      using h by (auto simp: held_def)
    then show ?thesis
      using False by (simp add: pipeline_def writer_queue_def)
  qed
  show ?thesis
    unfolding sd_inv_def
  proof (intro conjI allI impI ballI)
    fix v c j assume "j < length (shards (sd ?s'))" and a: "serves hp (sd ?s') v c \<and> shard_of (shardCount (sd ?s')) c = Ret (int j)"
    then have "subseq (pipeline hp s v c j) (filter (of_conn hp c) (sd_accepted s))"
      using sd_invD(7)[OF inv] unfolding sv by simp
    then show "subseq (pipeline hp ?s' v c j) (filter (of_conn hp c) (sd_accepted ?s'))"
      using pipe[of v c j] a unfolding sv by (auto intro: subseq_order.trans)
  qed (use sd_invD(1-6)[OF inv] cw in \<open>auto simp: sv[simplified] split: if_splits\<close>)
qed

lemma sd_inv_writer_write:
  assumes inv: "sd_inv hp s" and cw: "wheap (sd s) w = Some cw" and q: "w_ch cw = t # ts"
  shows "sd_inv hp (s\<lparr>sd := (sd s)\<lparr>wheap := (wheap (sd s))(w \<mapsto> cw\<lparr>w_ch := ts\<rparr>)\<rparr>,
                       written := (written s)(w := written s w @ [t])\<rparr>)"
proof -
  let ?s' = "s\<lparr>sd := (sd s)\<lparr>wheap := (wheap (sd s))(w \<mapsto> cw\<lparr>w_ch := ts\<rparr>)\<rparr>,
               written := (written s)(w := written s w @ [t])\<rparr>"
  have sv: "serves hp (sd ?s') = serves hp (sd s)"
    using cw by (auto simp: serves_def fun_eq_iff)
  have pipe: "pipeline hp ?s' v c j = pipeline hp s v c j" for v c j
    using cw q by (simp add: pipeline_def writer_queue_def held_def)
  show ?thesis
    unfolding sd_inv_def pipe
  proof (intro conjI allI impI ballI)
    fix v c j assume "j < length (shards (sd ?s'))" and a: "serves hp (sd ?s') v c \<and> shard_of (shardCount (sd ?s')) c = Ret (int j)"
    then show "subseq (pipeline hp s v c j) (filter (of_conn hp c) (sd_accepted ?s'))"
      using sd_invD(7)[OF inv] unfolding sv by simp
  qed (use sd_invD(1-6)[OF inv] cw in \<open>auto simp: sv[simplified] split: if_splits\<close>)
qed

lemma sd_inv_step: "sd_step hp s s' \<Longrightarrow> sd_inv hp s \<Longrightarrow> sd_inv hp s'"
proof (induction rule: sd_step.induct)
  case (dispatched d' c ctx_done fired waiting t s)
  then show ?case by (intro sd_inv_dispatched)
next
  case (refused e d' c ctx_done fired waiting t s)
  then have "d' = sd s \<or> d' = ensureStarted c (sd s)"
    by (auto simp: Dispatch_def Let_def split: option.splits outcome.splits if_splits)
  then show ?case
    using refused.prems by (intro sd_inv_quiet) (auto simp: ensureStarted_def split: if_splits)
next
  case (shard_take i s t ts cr w d')
  then show ?case by (intro sd_inv_shard_take)
next
  case (shard_put s i t w cw e cw' fired wt)
  then show ?case by (intro sd_inv_shard_put)
next
  case (writer_write s w cw t ts)
  then show ?case by (intro sd_inv_writer_write)
next
  case (close_conn s cid)
  then show ?case
    by (intro sd_inv_quiet) (auto simp: CloseConn_def wview_stop_writer delete_conv' split: option.splits if_splits)
next
  case (stop_all s)
  then show ?case
    by (intro sd_inv_quiet) (auto simp: stop_all_writers_def wview_fold_stop split: if_splits)
next
  case (shutdown s)
  then show ?case by (intro sd_inv_quiet) (auto simp: sd_Shutdown_def split: if_splits)
next
  case (ctx_cancel s c)
  then show ?case by (intro sd_inv_quiet) (auto simp: ctx_cancelled_def split: if_splits)
next
  case (close_shards s i)
  then show ?case by (intro sd_inv_quiet) (auto simp: close_shard_def split: if_splits)
qed

lemma sd_inv_init:
  assumes "NewSendDispatcher opts = Inr d"
  shows "sd_inv hp \<lparr>sd = d, sd_accepted = [], in_hand = (\<lambda>_. None), written = (\<lambda>_. [])\<rparr>"
proof -
  have "shards d ! i = []" if "i < length (shards d)" for i
    using assms that by (auto simp: NewSendDispatcher_def Let_def)
  moreover have "writers d = []" "wheap d = (\<lambda>_. None)"
    using assms by (auto simp: NewSendDispatcher_def Let_def)
  ultimately show ?thesis
    by (simp add: sd_inv_def serves_def)
qed

lemma sd_inv_reachable: "sd_reachable hp opts s \<Longrightarrow> sd_inv hp s"
  by (induction rule: sd_reachable.induct) (auto intro: sd_inv_init sd_inv_step)


definition sd_sizes :: "SendDispatcher \<Rightarrow> int \<times> nat" where
  "sd_sizes d = (shardCount d, length (shards d))"

lemma sd_sizes_step: "sd_step hp s s' \<Longrightarrow> sd_sizes (sd s') = sd_sizes (sd s)"
proof (induction rule: sd_step.induct)
  case (dispatched d' c ctx_done fired waiting t s)
  then show ?case
    by (auto simp: sd_sizes_def Dispatch_def ensureStarted_def Let_def split: option.splits outcome.splits if_splits)
next
  case (refused e d' c ctx_done fired waiting t s)
  then show ?case
    by (auto simp: sd_sizes_def Dispatch_def ensureStarted_def Let_def split: option.splits outcome.splits if_splits)
next
  case (shard_take i s t ts cr w d')
  then show ?case
    by (cases rule: getOrCreateWriter_cases[OF shard_take(5)]) (simp_all add: sd_sizes_def)
qed (simp_all add: sd_sizes_def CloseConn_def sd_Shutdown_def ctx_cancelled_def close_shard_def stop_all_writers_def
      split: option.split)

lemma sd_sizes_reachable:
  assumes "sd_reachable hp opts s" "so_ChannelCount opts < 2 ^ 32"
  shows "1 \<le> shardCount (sd s) \<and> shardCount (sd s) < 2 ^ 32 \<and> length (shards (sd s)) = nat (shardCount (sd s))"
  using assms
proof (induction rule: sd_reachable.induct)
  case (init d)
  then show ?case by (auto simp: NewSendDispatcher_def Let_def)
next
  case (step s s')
  then show ?case using sd_sizes_step[OF step.hyps(2)] by (simp add: sd_sizes_def)
qed

lemma shard_of_in_range:
  assumes "1 \<le> n" "n < 2 ^ 32"
  shows "\<exists>i. shard_of n cid = Ret (int i) \<and> i < nat n"
proof (cases "n = 1")
  case True
  then show ?thesis by (simp add: shard_of_def)
next
  case False
  have "(word_of_int n :: u32) \<noteq> 0"
    using assms word_of_int_u32_zero_iff[of n] by (auto dest: zdvd_imp_le)
  then have "shard_of n cid = Ret (uint (fnv32a (bytes_of cid) mod word_of_int n))"
    using False by (simp add: shard_of_def Let_def)
  moreover have "0 \<le> uint (fnv32a (bytes_of cid) mod (word_of_int n :: u32))"
    "uint (fnv32a (bytes_of cid) mod (word_of_int n :: u32)) < n"
    using uint_mod_u32_range[of n "fnv32a (bytes_of cid)"] assms(1) \<open>word_of_int n \<noteq> 0\<close> by auto
  ultimately have "shard_of n cid = Ret (int (nat (uint (fnv32a (bytes_of cid) mod (word_of_int n :: u32)))))"
    "nat (uint (fnv32a (bytes_of cid) mod (word_of_int n :: u32))) < nat n"
    by (simp_all only: int_nat_eq if_True nat_mono_iff)
  then show ?thesis by blast
qed

lemma writer_pipeline:
  assumes "sd_reachable hp opts s" "so_ChannelCount opts < 2 ^ 32"
    and "wheap (sd s) w = Some cw"
  shows "subseq (written s w @ w_ch cw) (filter (of_conn hp (conn_ID (hp (w_conn cw)))) (sd_accepted s))"
proof -
  let ?cid = "conn_ID (hp (w_conn cw))"
  note n = sd_sizes_reachable[OF assms(1,2)]
  obtain i where i: "shard_of (shardCount (sd s)) ?cid = Ret (int i)" "i < length (shards (sd s))"
    using shard_of_in_range[of "shardCount (sd s)" ?cid] n by auto
  have "subseq (pipeline hp s w ?cid i) (filter (of_conn hp ?cid) (sd_accepted s))"
    using assms(3) by (intro sd_invD(7)[OF sd_inv_reachable[OF assms(1)]] i) (simp add: serves_def)
  then have "subseq ((written s w @ w_ch cw) @ held s i w @ filter (of_conn hp ?cid) (shards (sd s) ! i))
      (filter (of_conn hp ?cid) (sd_accepted s))"
    by (simp add: pipeline_def writer_queue_def assms(3))
  then show ?thesis
    by (rule subseq_order.trans[rotated]) (rule prefix_imp_subseq, simp)
qed


section \<open>Properties\<close>

text \<open>
  C9. Frames leave in the order they were sent. In every reachable state, whatever the
  interleaving of senders, shard workers, writers, connection closes and the shutdown, what a
  writer has put on its connection's pipe is a subsequence of the frames that \<open>Dispatch\<close>
  accepted for that connection, in the order of acceptance, each at most once; frames may be
  missing (a full writer queue times out, a writer is closed) but are never reordered.
\<close>

theorem writes_follow_dispatch_order:
  assumes "sd_reachable hp opts s" "so_ChannelCount opts < 2 ^ 32"
    and "wheap (sd s) w = Some cw"
  shows "subseq (written s w @ w_ch cw) (filter (of_conn hp (conn_ID (hp (w_conn cw)))) (sd_accepted s))"
  using assms by (rule writer_pipeline)

text \<open>A dispatcher with one shard and one accepted frame, for the witnesses.\<close>

definition ex_so :: SendOptions where
  "ex_so = \<lparr>so_ChannelCount = 1, so_WorkersPerChan = 1, so_ChannelBuffer = 4, so_ConnBuffer = 4,
            so_EnqueueTimeout = 0, so_EncodeInWriter = True\<rparr>"

definition ex_sd :: SendDispatcher where
  "ex_sd = \<lparr>shards = [[]], shard_closed = [False], shardBuffer = 4, shardCount = 1, sd_workersPerChan = 1,
            connBuffer = 4, enqueueTimeout = 0, encodeInWriter = True, sd_ctx = None, sd_cancelled = False,
            writers = [], wheap = (\<lambda>_. None), next_wid = 0\<rparr>"

definition ex_task :: sendTask where
  "ex_task = \<lparr>t_conn = Some 1, t_hdr = None, t_payload = [1, 2], t_codec = Some TcpCodec\<rparr>"

definition ex_ids :: "cref \<Rightarrow> conn" where
  "ex_ids c = \<lparr>conn_ID = ''a'', meta = (\<lambda>_. None)\<rparr>"

lemma ex_sd_new: "NewSendDispatcher ex_so = Inr ex_sd"
  by (simp add: NewSendDispatcher_def ex_so_def ex_sd_def)

lemma ex_sd_dispatch:
  "Dispatch ex_ids (Some 7) False False (\<lambda>_. False) ex_task ex_sd =
     [Ret (None, ex_sd\<lparr>shards := [[ex_task]], sd_ctx := Some (Some 7)\<rparr>)]"
  by (simp add: Dispatch_def ensureStarted_def sd_selectQueue_def ex_sd_def ex_task_def)

definition ex_s1 :: sd_state where
  "ex_s1 = \<lparr>sd = ex_sd\<lparr>shards := [[ex_task]], sd_ctx := Some (Some 7)\<rparr>, sd_accepted = [ex_task],
            in_hand = (\<lambda>_. None), written = (\<lambda>_. [])\<rparr>"

definition ex_writer :: connWriter where
  "ex_writer = \<lparr>w_conn = 1, w_ch = [], w_encodeInWriter = True, w_enqueueTimeout = 0, w_closed = False\<rparr>"

definition ex_s2 :: sd_state where
  "ex_s2 = \<lparr>sd = ex_sd\<lparr>shards := [[]], sd_ctx := Some (Some 7), writers := [(''a'', 0)], wheap := [0 \<mapsto> ex_writer],
                       next_wid := 1\<rparr>, sd_accepted = [ex_task],
            in_hand = [0 \<mapsto> (ex_task, 0)], written = (\<lambda>_. [])\<rparr>"

lemma ex_s1_reachable: "sd_reachable ex_ids ex_so ex_s1"
proof -
  let ?s = "\<lparr>sd = ex_sd, sd_accepted = [], in_hand = (\<lambda>_. None), written = (\<lambda>_. [])\<rparr>"
  have "sd_step ex_ids ?s ex_s1"
    using sd_step.dispatched[of "ex_sd\<lparr>shards := [[ex_task]], sd_ctx := Some (Some 7)\<rparr>" ex_ids "Some 7" False False "\<lambda>_. False" ex_task ?s]
    by (simp add: ex_sd_dispatch ex_s1_def)
  then show ?thesis
    using sd_reachable.init[OF ex_sd_new] by (rule sd_reachable.step[rotated])
qed

lemma ex_s2_reachable: "sd_reachable ex_ids ex_so ex_s2"
proof -
  have "sd_step ex_ids ex_s1 ex_s2"
    using sd_step.shard_take[of 0 ex_s1 ex_task "[]" 1 ex_ids 0 "sd ex_s2"]
    by (simp add: ex_s1_def ex_s2_def ex_sd_def ex_task_def getOrCreateWriter_def ex_ids_def ex_writer_def fun_eq_iff)
  then show ?thesis
    using ex_s1_reachable by (rule sd_reachable.step[rotated])
qed

theorem writes_follow_dispatch_order_witness:
  "subseq (written ex_s2 0 @ w_ch ex_writer) (filter (of_conn ex_ids ''a'') (sd_accepted ex_s2))"
  using writes_follow_dispatch_order[OF ex_s2_reachable, of 0 ex_writer]
  by (simp add: ex_so_def ex_s2_def ex_ids_def ex_sd_def)

text \<open>
  A late task revives the writer of a closed connection. After \<open>CloseConn\<close> has removed the
  writer, a task of that connection that is still in a shard creates a new one, bound to the
  dead connection; it stays in the table. A connection that later comes up with the same id is
  given this writer, so that its frames go to the old connection's pipe, until somebody closes
  that id once more.
\<close>

theorem late_task_revives_writer:
  assumes "conn_ID (hp old) = cid" "conn_ID (hp fresh) = cid"
    and "getOrCreateWriter hp old (CloseConn cid d) = (w, d1)"
  shows "\<exists>cw. wheap d1 w = Some cw \<and> w_conn cw = old \<and> \<not> w_closed cw \<and> getOrCreateWriter hp fresh d1 = (w, d1)"
proof -
  have "map_of (writers (CloseConn cid d)) cid = None"
    by (simp add: CloseConn_def delete_conv' split: option.split)
  then show ?thesis
    using assms by (auto simp: getOrCreateWriter_def Let_def update_conv')
qed

theorem late_task_revives_writer_witness:
  "\<exists>cw. wheap (snd (getOrCreateWriter ex_ids 1 (CloseConn ''a'' ex_sd))) 0 = Some cw \<and> w_conn cw = 1
      \<and> getOrCreateWriter ex_ids 2 (snd (getOrCreateWriter ex_ids 1 (CloseConn ''a'' ex_sd)))
          = (0, snd (getOrCreateWriter ex_ids 1 (CloseConn ''a'' ex_sd)))"
proof -
  have "getOrCreateWriter ex_ids 1 (CloseConn ''a'' ex_sd) = (0, snd (getOrCreateWriter ex_ids 1 (CloseConn ''a'' ex_sd)))"
    by (simp add: getOrCreateWriter_def CloseConn_def ex_sd_def ex_ids_def)
  from late_task_revives_writer[OF _ _ this, where fresh = 2]
  show ?thesis by (auto simp: ex_ids_def)
qed

text \<open>
  The first sender's context owns the dispatcher. The context given to the first \<open>Dispatch\<close>
  becomes the parent of the dispatcher's context, so cancelling that one request closes the
  dispatcher for every later sender: with its own context alive and room in the shard, a later
  \<open>Dispatch\<close> may still report a closed dispatcher, and once the clean-up has closed the shard it
  may panic.
\<close>

theorem first_context_owns_dispatcher:
  assumes "NewSendDispatcher opts = Inr d" "so_ChannelCount opts < 2 ^ 32"
    and "Ret (e, d1) \<in> set (Dispatch hp (Some c) False False waiting t d)" "t_conn t \<noteq> None" "t_conn t' = Some cr"
  shows "Ret (Some errDispatcherClosed, ctx_cancelled c d1)
           \<in> set (Dispatch hp (Some c') False False waiting t' (ctx_cancelled c d1))
       \<and> (\<exists>i. Panic \<in> set (Dispatch hp (Some c') False False waiting t' (close_shard i (ctx_cancelled c d1))))"
proof -
  have d: "sd_ctx d = None" "\<not> sd_cancelled d" "1 \<le> shardCount d" "shardCount d < 2 ^ 32"
    "length (shards d) = nat (shardCount d)" "length (shard_closed d) = nat (shardCount d)"
    using assms(1,2) by (auto simp: NewSendDispatcher_def Let_def)
  have d1: "sd_ctx d1 = Some (Some c)" "shardCount d1 = shardCount d" "length (shards d1) = length (shards d)"
    "shard_closed d1 = shard_closed d"
    using assms(3,4) d(1)
    by (auto simp: Dispatch_def Let_def ensureStarted_def split: option.splits outcome.splits if_splits)
  obtain i where i: "shard_of (shardCount d) (conn_ID (hp cr)) = Ret (int i)" "i < nat (shardCount d)"
    using shard_of_in_range[OF d(3,4)] by blast
  let ?d2 = "ctx_cancelled c d1"
  have d2: "sd_cancelled ?d2" "sd_ctx ?d2 = Some (Some c)" "shardCount ?d2 = shardCount d" "length (shards ?d2) = nat (shardCount d)"
    "length (shard_closed ?d2) = nat (shardCount d)"
    using d d1 by (simp_all add: ctx_cancelled_def)
  have "Ret (Some errDispatcherClosed, ?d2) \<in> set (Dispatch hp (Some c') False False waiting t' ?d2)"
    using assms(5) d2 i by (simp add: Dispatch_def Let_def ensureStarted_def sd_selectQueue_shard_of)
  moreover have "Panic \<in> set (Dispatch hp (Some c') False False waiting t' (close_shard i ?d2))"
    using assms(5) d2 i by (simp add: Dispatch_def Let_def ensureStarted_def sd_selectQueue_shard_of close_shard_def)
  ultimately show ?thesis by blast
qed

theorem first_context_owns_dispatcher_witness:
  "Ret (Some errDispatcherClosed, ctx_cancelled 7 (ex_sd\<lparr>shards := [[ex_task]], sd_ctx := Some (Some 7)\<rparr>))
     \<in> set (Dispatch ex_ids (Some 8) False False (\<lambda>_. False) ex_task (ctx_cancelled 7 (ex_sd\<lparr>shards := [[ex_task]], sd_ctx := Some (Some 7)\<rparr>)))"
  using first_context_owns_dispatcher[OF ex_sd_new, of None "ex_sd\<lparr>shards := [[ex_task]], sd_ctx := Some (Some 7)\<rparr>"
      ex_ids 7 "\<lambda>_. False" ex_task ex_task 1 8]
  by (simp only: ex_sd_dispatch) (simp add: ex_so_def ex_task_def)

end
