(* ===== verification/Permission.thy ===== *)
theory Permission
  imports Header Config Conn_Manager
begin

text \<open>
  kit/permission/permission.go: the role and permission tables, how they are loaded from the
  configuration, synchronised by snapshots, updated at run time and queried.

  Go distinguishes a nil slice or map from an empty one, and \<open>ApplySnapshot\<close> depends on it, so
  slices and maps are options here with \<open>None\<close> for nil; \<open>items\<close> reads either. Maps are
  association lists with distinct keys. A nil receiver \<open>*Config\<close> is \<open>None\<close>.
\<close>

definition items :: "'a list option \<Rightarrow> 'a list" where
  "items xs = (case xs of None \<Rightarrow> [] | Some ys \<Rightarrow> ys)"

lemma items_simps [simp]: "items None = []" "items (Some ys) = ys"
  by (simp_all add: items_def)

section \<open>State\<close>

definition Wildcard :: string where "Wildcard = ''*''"

record Snapshot =
  DefaultRole :: string
  DefaultPerms :: "string list option"
  snap_NodeRoles :: "(u32 \<times> string) list option"
  RolePerms :: "(string \<times> string list option) list option"

record PermConfig =
  defaultRole :: string
  defaultPerms :: "string list option"
  nodeRoles :: "(u32 \<times> string) list option"
  rolePerms :: "(string \<times> string list option) list option"


section \<open>Parsing\<close>

definition parseList :: "string \<Rightarrow> string list" where
  "parseList raw = filter (\<lambda>p. p \<noteq> []) (map TrimSpace (Split (CHR '','') raw))"

text \<open>One round of the loop of \<open>parseNodeRoles\<close>.\<close>

definition node_role_step :: "string \<Rightarrow> (u32 \<times> string) list \<Rightarrow> (u32 \<times> string) list" where
  "node_role_step p0 m =
     (let p = TrimSpace p0
      in if p = [] then m
         else case SplitN2 (CHR '':'') p of
                [k, v] \<Rightarrow>
                  (let role = TrimSpace v
                   in case ParseUint 32 (TrimSpace k) of
                        Some i \<Rightarrow> if role \<noteq> [] then AList.update (of_nat i) role m else m
                      | None \<Rightarrow> m)
              | _ \<Rightarrow> m)"

definition parseNodeRoles :: "string \<Rightarrow> (u32 \<times> string) list" where
  "parseNodeRoles raw = fold node_role_step (Split (CHR '';'') raw) []"

definition role_perms_step ::
  "string \<Rightarrow> (string \<times> string list option) list \<Rightarrow> (string \<times> string list option) list" where
  "role_perms_step p0 m =
     (let p = TrimSpace p0
      in if p = [] then m
         else case SplitN2 (CHR '':'') p of
                [k, v] \<Rightarrow>
                  (let role = TrimSpace k
                   in if role = [] then m else AList.update role (Some (parseList v)) m)
              | _ \<Rightarrow> m)"

definition parseRolePerms :: "string \<Rightarrow> (string \<times> string list option) list" where
  "parseRolePerms raw = fold role_perms_step (Split (CHR '';'') raw) []"


section \<open>Copies\<close>

definition cloneStrings :: "string list option \<Rightarrow> string list option" where
  "cloneStrings src = (if items src = [] then None else Some (items src))"

definition cloneNodeRoles :: "(u32 \<times> string) list option \<Rightarrow> (u32 \<times> string) list option" where
  "cloneNodeRoles src = (if items src = [] then None else Some (items src))"

definition cloneRolePerms ::
  "(string \<times> string list option) list option \<Rightarrow> (string \<times> string list option) list option" where
  "cloneRolePerms src =
     (if items src = [] then None else Some (map (\<lambda>(k, v). (k, cloneStrings v)) (items src)))"

definition ensureMaps :: "PermConfig \<Rightarrow> PermConfig" where
  "ensureMaps c = c\<lparr>nodeRoles := Some (items (nodeRoles c)), rolePerms := Some (items (rolePerms c))\<rparr>"


section \<open>Loading\<close>

definition perm_Load_nonnil :: "config_get \<Rightarrow> PermConfig \<Rightarrow> PermConfig" where
  "perm_Load_nonnil get c0 =
     (let c1 = (case get KeyAuthDefaultRole of
                  Some raw \<Rightarrow>
                    if TrimSpace raw \<noteq> [] then c0\<lparr>defaultRole := TrimSpace raw\<rparr>
                    else if defaultRole c0 = [] then c0\<lparr>defaultRole := ''node''\<rparr> else c0
                | None \<Rightarrow> if defaultRole c0 = [] then c0\<lparr>defaultRole := ''node''\<rparr> else c0);
          c2 = (case get KeyAuthDefaultPerms of
                  Some raw \<Rightarrow>
                    (let perms = parseList raw
                     in if perms \<noteq> [] then c1\<lparr>defaultPerms := Some perms\<rparr> else c1\<lparr>defaultPerms := None\<rparr>)
                | None \<Rightarrow> c1);
          c3 = (case get KeyAuthNodeRoles of
                  Some raw \<Rightarrow> c2\<lparr>nodeRoles := Some (parseNodeRoles raw)\<rparr>
                | None \<Rightarrow> c2);
          c4 = (case get KeyAuthRolePerms of
                  Some raw \<Rightarrow> c3\<lparr>rolePerms := Some (parseRolePerms raw)\<rparr>
                | None \<Rightarrow> c3)
      in ensureMaps c4)"

definition perm_Load :: "config_get option \<Rightarrow> PermConfig option \<Rightarrow> PermConfig option" where
  "perm_Load cfg c =
     (case (c, cfg) of
        (Some c0, Some get) \<Rightarrow> Some (perm_Load_nonnil get c0)
      | _ \<Rightarrow> c)"

definition NewConfig :: "config_get option \<Rightarrow> PermConfig" where
  "NewConfig cfg =
     (let c = \<lparr>defaultRole = ''node'', defaultPerms = Some [Wildcard], nodeRoles = Some [], rolePerms = Some []\<rparr>
      in case perm_Load cfg (Some c) of Some c' \<Rightarrow> c' | None \<Rightarrow> c)"

text \<open>
  \<open>SharedConfig\<close>: one instance for each configuration pointer. \<open>key\<close> is what \<open>sharedKey\<close>
  returns: the pointer, or 0 when the configuration is not one. The result is either the shared
  instance of a key or a fresh one of its own.
\<close>

datatype perm_handle = Shared nat | Isolated PermConfig

definition SharedConfig ::
  "nat \<Rightarrow> config_get option \<Rightarrow> (nat \<rightharpoonup> PermConfig) \<Rightarrow> perm_handle \<times> (nat \<rightharpoonup> PermConfig)" where
  "SharedConfig key cfg sharedConfigs =
     (case cfg of
        None \<Rightarrow> (Isolated (NewConfig None), sharedConfigs)
      | Some get \<Rightarrow>
          if key = 0 then (Isolated (NewConfig cfg), sharedConfigs)
          else (case sharedConfigs key of
                  Some inst \<Rightarrow> (Shared key, sharedConfigs)
                | None \<Rightarrow> (Shared key, sharedConfigs(key \<mapsto> NewConfig cfg))))"


section \<open>Snapshots and updates\<close>

definition perm_Snapshot :: "PermConfig option \<Rightarrow> Snapshot" where
  "perm_Snapshot c =
     (case c of
        None \<Rightarrow> \<lparr>DefaultRole = [], DefaultPerms = None, snap_NodeRoles = None, RolePerms = None\<rparr>
      | Some cf \<Rightarrow> \<lparr>DefaultRole = defaultRole cf, DefaultPerms = cloneStrings (defaultPerms cf),
                    snap_NodeRoles = cloneNodeRoles (nodeRoles cf), RolePerms = cloneRolePerms (rolePerms cf)\<rparr>)"

definition ApplySnapshot :: "Snapshot \<Rightarrow> PermConfig option \<Rightarrow> PermConfig option" where
  "ApplySnapshot s c =
     (case c of
        None \<Rightarrow> None
      | Some c0 \<Rightarrow>
          (let c1 = (if TrimSpace (DefaultRole s) \<noteq> [] then c0\<lparr>defaultRole := TrimSpace (DefaultRole s)\<rparr> else c0);
               c2 = (if DefaultPerms s \<noteq> None then c1\<lparr>defaultPerms := cloneStrings (DefaultPerms s)\<rparr> else c1);
               c3 = (if snap_NodeRoles s \<noteq> None then c2\<lparr>nodeRoles := cloneNodeRoles (snap_NodeRoles s)\<rparr> else c2);
               c4 = (if RolePerms s \<noteq> None then c3\<lparr>rolePerms := cloneRolePerms (RolePerms s)\<rparr> else c3)
           in Some (ensureMaps c4)))"

definition UpsertNode :: "u32 \<Rightarrow> string \<Rightarrow> string list option \<Rightarrow> PermConfig option \<Rightarrow> PermConfig option" where
  "UpsertNode nodeID role0 perms c =
     (case c of
        None \<Rightarrow> None
      | Some c0 \<Rightarrow>
          if nodeID = 0 then c
          else let role = TrimSpace role0;
                   c1 = ensureMaps c0
               in if role = [] then Some (c1\<lparr>nodeRoles := Some (AList.delete nodeID (items (nodeRoles c1)))\<rparr>)
                  else let c2 = c1\<lparr>nodeRoles := Some (AList.update nodeID role (items (nodeRoles c1)))\<rparr>
                       in if items perms \<noteq> []
                          then Some (c2\<lparr>rolePerms := Some (AList.update role (cloneStrings perms) (items (rolePerms c2)))\<rparr>)
                          else Some c2)"

definition InvalidateNodes :: "u32 list \<Rightarrow> PermConfig option \<Rightarrow> PermConfig option" where
  "InvalidateNodes nodeIDs c =
     (case c of
        None \<Rightarrow> None
      | Some c0 \<Rightarrow>
          if nodeIDs = [] then Some (c0\<lparr>nodeRoles := Some []\<rparr>)
          else (case nodeRoles c0 of
                  None \<Rightarrow> c
                | Some m \<Rightarrow> Some (c0\<lparr>nodeRoles := Some (fold AList.delete nodeIDs m)\<rparr>)))"


section \<open>Queries\<close>

definition resolveRoleLocked :: "PermConfig \<Rightarrow> u32 \<Rightarrow> string" where
  "resolveRoleLocked c nodeID =
     (case (if nodeID \<noteq> 0 then map_of (items (nodeRoles c)) nodeID else None) of
        Some role \<Rightarrow> if TrimSpace role \<noteq> [] then TrimSpace role else defaultRole c
      | None \<Rightarrow> defaultRole c)"

definition ResolveRole :: "PermConfig option \<Rightarrow> u32 \<Rightarrow> string" where
  "ResolveRole c nodeID = (case c of None \<Rightarrow> [] | Some cf \<Rightarrow> resolveRoleLocked cf nodeID)"

definition ResolvePerms :: "PermConfig option \<Rightarrow> u32 \<Rightarrow> string list option" where
  "ResolvePerms c nodeID =
     (case c of
        None \<Rightarrow> None
      | Some cf \<Rightarrow>
          (case map_of (items (rolePerms cf)) (resolveRoleLocked cf nodeID) of
             Some perms \<Rightarrow> cloneStrings perms
           | None \<Rightarrow> cloneStrings (defaultPerms cf)))"

definition ResolvePermsForRole :: "PermConfig option \<Rightarrow> string \<Rightarrow> string list option" where
  "ResolvePermsForRole c role0 =
     (case c of
        None \<Rightarrow> None
      | Some cf \<Rightarrow>
          (let role = TrimSpace role0
           in if role = [] then None
              else case map_of (items (rolePerms cf)) role of
                     Some perms \<Rightarrow> cloneStrings perms
                   | None \<Rightarrow> if role = defaultRole cf then cloneStrings (defaultPerms cf) else None))"

definition HasRole :: "PermConfig option \<Rightarrow> string \<Rightarrow> bool" where
  "HasRole c role0 =
     (case c of
        None \<Rightarrow> False
      | Some cf \<Rightarrow>
          (let role = TrimSpace role0
           in if role = [] then False
              else if role = defaultRole cf then True
              else map_of (items (rolePerms cf)) role \<noteq> None))"

definition Has :: "PermConfig option \<Rightarrow> u32 \<Rightarrow> string \<Rightarrow> bool" where
  "Has c nodeID perm =
     (if perm = [] \<or> nodeID = 0 then True
      else let perms = items (ResolvePerms c nodeID)
           in if perms = [] then False
              else list_ex (\<lambda>entry. entry = Wildcard \<or> entry = perm) perms)"

definition NodeRoles :: "PermConfig option \<Rightarrow> (u32 \<times> string) list option" where
  "NodeRoles c = (case c of None \<Rightarrow> None | Some cf \<Rightarrow> cloneNodeRoles (nodeRoles cf))"

text \<open>The type switch on the metadata value accepts what \<open>asUint32\<close> accepts.\<close>

definition conn_node_id :: "conn \<Rightarrow> u32" where
  "conn_node_id cn =
     (case GetMeta cn ''nodeID'' of
        None \<Rightarrow> 0
      | Some v \<Rightarrow> (case asUint32 v of Some n \<Rightarrow> n | None \<Rightarrow> 0))"

definition SourceNodeID :: "HeaderTcp option \<Rightarrow> conn option \<Rightarrow> u32" where
  "SourceNodeID hdr conn =
     (if (case hdr of Some h \<Rightarrow> Source h \<noteq> 0 | None \<Rightarrow> False)
      then (case hdr of Some h \<Rightarrow> Source h | None \<Rightarrow> 0)
      else (case conn of None \<Rightarrow> 0 | Some cn \<Rightarrow> conn_node_id cn))"


section \<open>Lemmas\<close>

lemma items_cloneStrings [simp]: "items (cloneStrings xs) = items xs"
  by (simp add: cloneStrings_def)

lemma cloneStrings_idem [simp]: "cloneStrings (cloneStrings xs) = cloneStrings xs"
  by (simp add: cloneStrings_def)

lemma items_cloneNodeRoles [simp]: "items (cloneNodeRoles m) = items m"
  by (simp add: cloneNodeRoles_def)

lemma map_of_cloneRolePerms:
  "map_of (items (cloneRolePerms m)) r = map_option cloneStrings (map_of (items m) r)"
  by (simp add: cloneRolePerms_def map_of_map)

lemma ensureMaps_items [simp]:
  "items (nodeRoles (ensureMaps c)) = items (nodeRoles c)"
  "items (rolePerms (ensureMaps c)) = items (rolePerms c)"
  "defaultRole (ensureMaps c) = defaultRole c" "defaultPerms (ensureMaps c) = defaultPerms c"
  by (simp_all add: ensureMaps_def)

text \<open>The permissions of a node, as a list: what \<open>Has\<close> searches.\<close>

definition effective_perms :: "PermConfig \<Rightarrow> u32 \<Rightarrow> string list" where
  "effective_perms c n =
     (case map_of (items (rolePerms c)) (resolveRoleLocked c n) of
        Some ps \<Rightarrow> items ps
      | None \<Rightarrow> items (defaultPerms c))"

lemma Has_effective:
  "Has (Some c) n p \<longleftrightarrow> p = [] \<or> n = 0 \<or> Wildcard \<in> set (effective_perms c n) \<or> p \<in> set (effective_perms c n)"
  by (auto simp: Has_def ResolvePerms_def effective_perms_def Let_def list_ex_iff split: option.splits)

lemma resolveRoleLocked_cong:
  "map_of (items (nodeRoles a)) n = map_of (items (nodeRoles b)) n \<Longrightarrow> defaultRole a = defaultRole b \<Longrightarrow>
   resolveRoleLocked a n = resolveRoleLocked b n"
  by (simp add: resolveRoleLocked_def split: option.split)

lemma items_ResolvePerms: "items (ResolvePerms (Some c) n) = effective_perms c n"
  by (simp add: ResolvePerms_def effective_perms_def split: option.splits)


section \<open>The configuration formats\<close>

text \<open>
  A role table is written \<open>admin:p1,p2;node:p3\<close> and a node table \<open>1:admin;2:node\<close>. A word of
  either format is printable ASCII without the separators.
\<close>

definition word_ok :: "string \<Rightarrow> bool" where
  "word_ok s \<longleftrightarrow> s \<noteq> [] \<and> list_all (\<lambda>c. graphic c \<and> c \<noteq> CHR '';'' \<and> c \<noteq> CHR '':'' \<and> c \<noteq> CHR '','') s"

definition print_role :: "string \<times> string list \<Rightarrow> string" where
  "print_role rp = fst rp @ CHR '':'' # join (CHR '','') (snd rp)"

definition print_role_perms :: "(string \<times> string list) list \<Rightarrow> string" where
  "print_role_perms rps = join (CHR '';'') (map print_role rps)"

definition print_node_role :: "u32 \<times> string \<Rightarrow> string" where
  "print_node_role nr = itoa (unat (fst nr)) @ CHR '':'' # snd nr"

definition print_node_roles :: "(u32 \<times> string) list \<Rightarrow> string" where
  "print_node_roles nrs = join (CHR '';'') (map print_node_role nrs)"

lemma word_okD:
  assumes "word_ok s"
  shows "s \<noteq> []" "TrimSpace s = s" "list_all graphic s"
    "CHR '';'' \<notin> set s" "CHR '':'' \<notin> set s" "CHR '','' \<notin> set s"
proof -
  show "s \<noteq> []" "list_all graphic s"
    using assms by (simp_all add: word_ok_def list_all_iff)
  then show "TrimSpace s = s"
    by (simp add: TrimSpace_graphic)
  have "c \<in> set s \<Longrightarrow> c \<noteq> CHR '';'' \<and> c \<noteq> CHR '':'' \<and> c \<noteq> CHR '',''" for c
    using assms by (simp add: word_ok_def list_all_iff)
  then show "CHR '';'' \<notin> set s" "CHR '':'' \<notin> set s" "CHR '','' \<notin> set s"
    by blast+
qed

lemma graphic_separators [simp]: "graphic (CHR '';'')" "graphic (CHR '':'')" "graphic (CHR '','')"
  by (simp_all add: graphic_def)

lemma parseList_join:
  assumes "list_all word_ok ps"
  shows "parseList (join (CHR '','') ps) = ps"
proof (cases "ps = []")
  case True
  then show ?thesis by (simp add: parseList_def)
next
  case False
  have "list_all (\<lambda>w. CHR '','' \<notin> set w) ps" "map TrimSpace ps = ps" "filter (\<lambda>p. p \<noteq> []) ps = ps"
    using assms by (induction ps) (simp_all add: word_okD)
  then show ?thesis
    using Split_join[OF False] by (simp add: parseList_def)
qed

lemma print_role_chars:
  assumes "word_ok r" "list_all word_ok ps"
  shows "list_all graphic (print_role (r, ps))" "CHR '';'' \<notin> set (print_role (r, ps))"
proof -
  let ?P = "\<lambda>c. graphic c \<and> c \<noteq> CHR '';''"
  have w: "list_all ?P s" if "word_ok s" for s
    using that by (simp add: word_ok_def list_all_iff)
  have "list_all (list_all ?P) ps"
    using assms(2) w by (induction ps) simp_all
  then have "list_all ?P (join (CHR '','') ps)"
    by (intro list_all_join) simp_all
  then have "list_all ?P (print_role (r, ps))"
    using w[OF assms(1)] by (simp add: print_role_def)
  then show "list_all graphic (print_role (r, ps))" "CHR '';'' \<notin> set (print_role (r, ps))"
    by (auto simp: list_all_iff)
qed

lemma role_perms_step_print:
  assumes "word_ok r" "list_all word_ok ps" "r \<notin> set (map fst m)"
  shows "role_perms_step (print_role (r, ps)) m = m @ [(r, Some ps)]"
proof -
  have "TrimSpace (print_role (r, ps)) = print_role (r, ps)"
    using print_role_chars[OF assms(1,2)] by (simp add: TrimSpace_graphic)
  moreover have "SplitN2 (CHR '':'') (print_role (r, ps)) = [r, join (CHR '','') ps]"
    using SplitN2_append_sep[OF word_okD(5)[OF assms(1)]] by (simp add: print_role_def)
  moreover have "print_role (r, ps) \<noteq> []"
    by (simp add: print_role_def)
  ultimately show ?thesis
    using assms word_okD(1,2)[OF assms(1)]
    by (simp add: role_perms_step_def parseList_join update_new)
qed

lemma fold_role_perms_step:
  assumes "list_all (\<lambda>(r, ps). word_ok r \<and> list_all word_ok ps) rps"
    and "distinct (map fst m @ map fst rps)"
  shows "fold role_perms_step (map print_role rps) m = m @ map (\<lambda>(r, ps). (r, Some ps)) rps"
  using assms
proof (induction rps arbitrary: m)
  case Nil
  then show ?case by simp
next
  case (Cons rp rps)
  obtain r ps where rp: "rp = (r, ps)" by fastforce
  have "role_perms_step (print_role rp) m = m @ [(r, Some ps)]"
    using Cons.prems by (auto simp: rp intro!: role_perms_step_print)
  then show ?case
    using Cons by (simp add: rp)
qed

lemma node_role_step_print:
  assumes "word_ok r" "n \<notin> set (map fst m)"
  shows "node_role_step (print_node_role (n, r)) m = m @ [(n, r)]"
proof -
  have g: "list_all graphic (print_node_role (n, r))"
    using word_okD(3)[OF assms(1)] itoa_graphic[of "unat n"] by (simp add: print_node_role_def)
  have "CHR '':'' \<notin> set (itoa (unat n))"
    using itoa_digits[of "unat n"] by (auto simp: list_all_iff)
  then have "SplitN2 (CHR '':'') (print_node_role (n, r)) = [itoa (unat n), r]"
    by (simp add: print_node_role_def SplitN2_append_sep)
  moreover have "ParseUint 32 (itoa (unat n)) = Some (unat n)"
    using unsigned_less[of n] by (intro ParseUint_itoa) simp
  moreover have "print_node_role (n, r) \<noteq> []"
    by (simp add: print_node_role_def)
  ultimately show ?thesis
    using TrimSpace_graphic[OF g] TrimSpace_graphic[OF itoa_graphic[of "unat n"]] word_okD(1,2)[OF assms(1)] assms(2)
    by (simp add: node_role_step_def update_new)
qed

lemma fold_node_role_step:
  assumes "list_all (\<lambda>nr. word_ok (snd nr)) nrs" "distinct (map fst m @ map fst nrs)"
  shows "fold node_role_step (map print_node_role nrs) m = m @ nrs"
  using assms
proof (induction nrs arbitrary: m)
  case Nil
  then show ?case by simp
next
  case (Cons nr nrs)
  obtain n r where nr: "nr = (n, r)" by fastforce
  have "node_role_step (print_node_role nr) m = m @ [(n, r)]"
    using Cons.prems by (auto simp: nr intro!: node_role_step_print)
  then show ?case
    using Cons by (simp add: nr)
qed


section \<open>Properties\<close>

text \<open>
  The two configuration formats are read back exactly. A role table with distinct roles
  whose words avoid the separators, written in the documented format, parses to the table; so
  does a table of node roles.
\<close>

theorem permission_tables_roundtrip:
  assumes "distinct (map fst rps)" "list_all (\<lambda>(r, ps). word_ok r \<and> list_all word_ok ps) rps"
    and "distinct (map fst nrs)" "list_all (\<lambda>nr. word_ok (snd nr)) nrs"
  shows "parseRolePerms (print_role_perms rps) = map (\<lambda>(r, ps). (r, Some ps)) rps
       \<and> parseNodeRoles (print_node_roles nrs) = nrs"
proof
  have "list_all (\<lambda>w. CHR '';'' \<notin> set w) (map print_role rps)"
    using assms(2) print_role_chars(2) by (auto simp: list_all_iff)
  then have "rps \<noteq> [] \<Longrightarrow> Split (CHR '';'') (print_role_perms rps) = map print_role rps"
    by (simp add: print_role_perms_def Split_join)
  then show "parseRolePerms (print_role_perms rps) = map (\<lambda>(r, ps). (r, Some ps)) rps"
    using fold_role_perms_step[of rps "[]"] assms(1,2)
    by (cases "rps = []") (simp_all add: parseRolePerms_def print_role_perms_def role_perms_step_def)
  have "CHR '';'' \<notin> set (print_node_role nr)" if "nr \<in> set nrs" for nr
    using that assms(4) word_okD(4) itoa_digits[of "unat (fst nr)"]
    by (auto simp: print_node_role_def list_all_iff)
  then have "nrs \<noteq> [] \<Longrightarrow> Split (CHR '';'') (print_node_roles nrs) = map print_node_role nrs"
    by (simp add: print_node_roles_def Split_join list_all_iff)
  then show "parseNodeRoles (print_node_roles nrs) = nrs"
    using fold_node_role_step[of nrs "[]"] assms(3,4)
    by (cases "nrs = []") (simp_all add: parseNodeRoles_def print_node_roles_def node_role_step_def)
qed

theorem permission_tables_roundtrip_witness:
  "parseRolePerms (print_role_perms [(''admin'', [''p1'', ''p2'']), (''node'', [])]) =
     [(''admin'', Some [''p1'', ''p2'']), (''node'', Some [])]
   \<and> parseNodeRoles (print_node_roles [(1, ''admin''), (2, ''node'')]) = [(1, ''admin''), (2, ''node'')]"
  using permission_tables_roundtrip[of "[(''admin'', [''p1'', ''p2'']), (''node'', [])]" "[(1, ''admin''), (2, ''node'')]"]
  by (simp add: word_ok_def graphic_def)


text \<open>The permissions the built-in role table gives to an administrator and to a plain node.\<close>

definition node_perms :: "string list" where
  "node_perms = [''file.read'', ''file.write'', ''flow.set'', ''flow.run'', ''flow.read'',
                 ''exec.call'', ''exec.cap.query'', ''exec.cap.sync'']"

definition admin_perms :: "string list" where
  "admin_perms = [''file.read'', ''file.write'', ''flow.set'', ''flow.delete'', ''flow.run'', ''flow.read'',
                  ''exec.call'', ''exec.cap.query'', ''exec.cap.sync'', ''var.private_set'', ''var.revoke'',
                  ''var.subscribe'', ''auth.revoke'', ''auth.pending.list'', ''auth.register.approve'',
                  ''auth.register.reject'', ''auth.permit.issue'', ''auth.permit.revoke'']"

lemma parse_default_role_perms:
  "parseRolePerms DefaultAuthRolePerms =
     [(''superadmin'', Some [''*'']), (''admin'', Some admin_perms), (''node'', Some node_perms)]"
  by code_simp

lemma perm_Load_rolePerms:
  "get KeyAuthRolePerms = Some raw \<Longrightarrow> items (rolePerms (perm_Load_nonnil get c)) = parseRolePerms raw"
  by (simp add: perm_Load_nonnil_def Let_def)

lemma NewConfig_rolePerms:
  "get KeyAuthRolePerms = Some raw \<Longrightarrow> items (rolePerms (NewConfig (Some get))) = parseRolePerms raw"
  by (simp add: NewConfig_def perm_Load_def Let_def perm_Load_rolePerms)

text \<open>
  The built-in policy. When the role table is the default one, a node whose role is
  \<open>superadmin\<close> has every permission, an \<open>admin\<close> has exactly the eighteen listed permissions and a
  \<open>node\<close> exactly the eight listed ones; in particular a plain node can neither approve
  registrations nor delete a flow.
\<close>

theorem default_policy:
  assumes "get KeyAuthRolePerms = Some DefaultAuthRolePerms" "n \<noteq> 0" "p \<noteq> []"
  shows "let c = Some (NewConfig (Some get)) in
           (ResolveRole c n = ''superadmin'' \<longrightarrow> Has c n p)
         \<and> (ResolveRole c n = ''admin'' \<longrightarrow> (Has c n p \<longleftrightarrow> p \<in> set admin_perms))
         \<and> (ResolveRole c n = ''node'' \<longrightarrow> (Has c n p \<longleftrightarrow> p \<in> set node_perms))"
proof -
  have no_wildcard: "Wildcard \<notin> set admin_perms" "Wildcard \<notin> set node_perms"
    by (simp_all add: Wildcard_def admin_perms_def node_perms_def)
  show ?thesis
    using assms no_wildcard NewConfig_rolePerms[of get DefaultAuthRolePerms]
    by (simp add: Let_def Has_effective effective_perms_def ResolveRole_def parse_default_role_perms Wildcard_def)
qed

theorem default_policy_witness:
  "\<not> Has (Some (NewConfig (Some (MapConfig_Get (NewMap []))))) 7 ''auth.register.approve''
   \<and> Has (Some (NewConfig (Some (MapConfig_Get (NewMap []))))) 7 ''flow.run''"
proof -
  let ?get = "MapConfig_Get (NewMap [])"
  have get: "?get KeyAuthRolePerms = Some DefaultAuthRolePerms" "?get KeyAuthDefaultRole = Some ''node''"
    "?get KeyAuthDefaultPerms = Some []" "?get KeyAuthNodeRoles = Some []"
    by (simp_all add: Get_NewMap config_defaults_def)
  have "TrimSpace ''node'' = ''node''"
    by (rule TrimSpace_graphic) (simp add: graphic_def)
  then have "ResolveRole (Some (NewConfig (Some ?get))) 7 = ''node''"
    using get by (simp add: ResolveRole_def resolveRoleLocked_def NewConfig_def perm_Load_def perm_Load_nonnil_def
        Let_def parseNodeRoles_def node_role_step_def ensureMaps_def)
  then show ?thesis
    using get(1) default_policy[of ?get 7 "''auth.register.approve''"] default_policy[of ?get 7 "''flow.run''"]
    by (simp add: Let_def node_perms_def)
qed

lemma ApplySnapshot_fields:
  assumes "ApplySnapshot (perm_Snapshot (Some src)) (Some dst) = Some r"
  shows "items (defaultPerms r) = (if items (defaultPerms src) = [] then items (defaultPerms dst) else items (defaultPerms src))"
    and "items (nodeRoles r) = (if items (nodeRoles src) = [] then items (nodeRoles dst) else items (nodeRoles src))"
    and "map_of (items (rolePerms r)) q =
           (if items (rolePerms src) = [] then map_of (items (rolePerms dst)) q
            else map_option cloneStrings (map_of (items (rolePerms src)) q))"
    and "defaultRole r = (if TrimSpace (defaultRole src) = [] then defaultRole dst else TrimSpace (defaultRole src))"
proof -
  show "items (defaultPerms r) = (if items (defaultPerms src) = [] then items (defaultPerms dst) else items (defaultPerms src))"
    using assms by (auto simp: ApplySnapshot_def perm_Snapshot_def Let_def cloneStrings_def)
  show "items (nodeRoles r) = (if items (nodeRoles src) = [] then items (nodeRoles dst) else items (nodeRoles src))"
    using assms by (auto simp: ApplySnapshot_def perm_Snapshot_def Let_def cloneNodeRoles_def)
  have "items (rolePerms r) = (if items (rolePerms src) = [] then items (rolePerms dst)
          else items (cloneRolePerms (cloneRolePerms (rolePerms src))))"
    using assms by (auto simp: ApplySnapshot_def perm_Snapshot_def Let_def cloneRolePerms_def)
  then show "map_of (items (rolePerms r)) q =
           (if items (rolePerms src) = [] then map_of (items (rolePerms dst)) q
            else map_option cloneStrings (map_of (items (rolePerms src)) q))"
    by (simp add: map_of_cloneRolePerms option.map_comp comp_def)
  show "defaultRole r = (if TrimSpace (defaultRole src) = [] then defaultRole dst else TrimSpace (defaultRole src))"
    using assms by (auto simp: ApplySnapshot_def perm_Snapshot_def Let_def)
qed

text \<open>
  A snapshot transfers the tables. When the source has a default role without white space
  around it and none of its three tables is empty, a configuration that applies the source's
  snapshot answers every role, permission and access question as the source does.
\<close>

theorem snapshot_transfers_permissions:
  assumes "TrimSpace (defaultRole src) = defaultRole src" "defaultRole src \<noteq> []"
    and "items (defaultPerms src) \<noteq> []" "items (nodeRoles src) \<noteq> []" "items (rolePerms src) \<noteq> []"
  shows "\<exists>r. ApplySnapshot (perm_Snapshot (Some src)) (Some dst) = Some r
           \<and> ResolveRole (Some r) n = ResolveRole (Some src) n
           \<and> ResolvePerms (Some r) n = ResolvePerms (Some src) n
           \<and> (Has (Some r) n p \<longleftrightarrow> Has (Some src) n p)"
proof -
  obtain r where r: "ApplySnapshot (perm_Snapshot (Some src)) (Some dst) = Some r"
    by (simp add: ApplySnapshot_def Let_def)
  note f = ApplySnapshot_fields[OF r]
  have role: "resolveRoleLocked r n = resolveRoleLocked src n"
    using assms f(2,4) by (intro resolveRoleLocked_cong) simp_all
  have "cloneStrings (defaultPerms r) = cloneStrings (defaultPerms src)"
    using assms(3) f(1) by (simp add: cloneStrings_def)
  then have perms: "ResolvePerms (Some r) n = ResolvePerms (Some src) n"
    using assms(5) f(3) by (simp add: ResolvePerms_def role split: option.splits)
  then show ?thesis
    using r role by (simp add: ResolveRole_def Has_def)
qed

theorem snapshot_transfers_permissions_witness:
  "\<exists>r. ApplySnapshot (perm_Snapshot (Some
          \<lparr>defaultRole = ''node'', defaultPerms = Some [''p''], nodeRoles = Some [(1, ''admin'')],
            rolePerms = Some [(''admin'', Some [''q''])]\<rparr>)) (Some (NewConfig None)) = Some r
     \<and> Has (Some r) 1 ''q''"
proof -
  let ?src = "\<lparr>defaultRole = ''node'', defaultPerms = Some [''p''], nodeRoles = Some [(1, ''admin'')],
               rolePerms = Some [(''admin'', Some [''q''])]\<rparr>"
  have t: "TrimSpace ''node'' = ''node''" "TrimSpace ''admin'' = ''admin''"
    by (rule TrimSpace_graphic; simp add: graphic_def)+
  then have "Has (Some ?src) 1 ''q''"
    by (simp add: Has_effective effective_perms_def resolveRoleLocked_def)
  then show ?thesis
    using snapshot_transfers_permissions[of ?src "NewConfig None" 1 "''q''"] t by auto
qed

text \<open>
  A snapshot cannot clear a table. \<open>Snapshot\<close> copies an empty list or map as nil, and
  \<open>ApplySnapshot\<close> skips nil fields, so a source without default permissions (or without node
  roles, or without role permissions) leaves the receiver's old ones in force: a permission
  that the source revoked by emptying its list stays granted at the receiver, although the
  comment of \<open>ApplySnapshot\<close> says that it overwrites the configuration.
\<close>

theorem snapshot_cannot_clear:
  assumes "items (defaultPerms src) = []" "items (nodeRoles src) = []" "items (rolePerms src) = []"
    and "ApplySnapshot (perm_Snapshot (Some src)) (Some dst) = Some r"
  shows "items (defaultPerms r) = items (defaultPerms dst) \<and> items (nodeRoles r) = items (nodeRoles dst)
       \<and> map_of (items (rolePerms r)) = map_of (items (rolePerms dst))
       \<and> (n \<noteq> 0 \<and> p \<noteq> [] \<longrightarrow> \<not> Has (Some src) n p)"
  using assms(1-3) ApplySnapshot_fields[OF assms(4)]
  by (auto simp: Has_effective effective_perms_def)

theorem snapshot_cannot_clear_witness:
  "\<exists>src r. ApplySnapshot (perm_Snapshot (Some src)) (Some (NewConfig None)) = Some r
     \<and> \<not> Has (Some src) 7 ''auth.revoke'' \<and> Has (Some r) 7 ''auth.revoke''"
proof -
  let ?src = "\<lparr>defaultRole = ''node'', defaultPerms = None, nodeRoles = Some [], rolePerms = Some []\<rparr>"
  obtain r where r: "ApplySnapshot (perm_Snapshot (Some ?src)) (Some (NewConfig None)) = Some r"
    by (simp add: ApplySnapshot_def Let_def)
  have "\<not> Has (Some ?src) 7 ''auth.revoke''" "items (defaultPerms r) = [''*'']"
    "map_of (items (rolePerms r)) = Map.empty"
    using snapshot_cannot_clear[OF _ _ _ r, of 7 "''auth.revoke''"]
    by (simp_all add: NewConfig_def perm_Load_def Wildcard_def)
  then have "\<not> Has (Some ?src) 7 ''auth.revoke''" "Has (Some r) 7 ''auth.revoke''"
    by (simp_all add: Has_effective effective_perms_def Wildcard_def)
  then show ?thesis using r by blast
qed

text \<open>
  C25. Run-time role updates. \<open>UpsertNode\<close> gives the node the trimmed role (the default role when
  it is blank) and, when permissions come with it, makes them the permissions of that role for
  every node that has it; no other node's role changes. \<open>InvalidateNodes\<close> puts the listed nodes
  back to the default role, all of them when the list is empty, and keeps the permissions of
  every role.
\<close>

theorem role_updates:
  assumes "n \<noteq> 0" "UpsertNode n role perms (Some c) = Some u" "InvalidateNodes ids (Some c) = Some v"
  shows "resolveRoleLocked u n = (if TrimSpace role = [] then defaultRole c else TrimSpace role)
       \<and> (m \<noteq> n \<longrightarrow> resolveRoleLocked u m = resolveRoleLocked c m)
       \<and> (TrimSpace role \<noteq> [] \<and> items perms \<noteq> [] \<and> resolveRoleLocked u m = TrimSpace role \<longrightarrow>
            effective_perms u m = items perms)
       \<and> resolveRoleLocked v m = (if ids = [] \<or> m \<in> set ids then defaultRole c else resolveRoleLocked c m)
       \<and> rolePerms v = rolePerms c"
proof -
  have del: "map_of (fold AList.delete ids xs) k = (if k \<in> set ids then None else map_of xs k)" for xs :: "(u32 \<times> string) list" and k
    by (induction ids arbitrary: xs) (auto simp: delete_conv')
  have 1: "resolveRoleLocked u n = (if TrimSpace role = [] then defaultRole c else TrimSpace role)"
    using assms(1,2)
    by (auto simp: UpsertNode_def Let_def resolveRoleLocked_def delete_conv' update_conv' ensureMaps_def split: if_splits)
  have 2: "resolveRoleLocked u m = resolveRoleLocked c m" if "m \<noteq> n"
    using assms(1,2) that
    by (intro resolveRoleLocked_cong) (auto simp: UpsertNode_def Let_def delete_conv' update_conv' split: if_splits)
  have 3: "effective_perms u m = items perms"
    if "TrimSpace role \<noteq> []" "items perms \<noteq> []" "resolveRoleLocked u m = TrimSpace role"
  proof -
    have "map_of (items (rolePerms u)) (TrimSpace role) = Some (cloneStrings perms)"
      using assms(1,2) that(1,2) by (auto simp: UpsertNode_def Let_def update_conv')
    then show ?thesis using that(3) by (simp add: effective_perms_def)
  qed
  have v: "defaultRole v = defaultRole c" "rolePerms v = rolePerms c"
    "map_of (items (nodeRoles v)) m = (if ids = [] \<or> m \<in> set ids then None else map_of (items (nodeRoles c)) m)"
    using assms(3) by (auto simp: InvalidateNodes_def del split: if_splits option.splits)
  have 4: "resolveRoleLocked v m = (if ids = [] \<or> m \<in> set ids then defaultRole c else resolveRoleLocked c m)"
    "rolePerms v = rolePerms c"
    using v by (auto simp: resolveRoleLocked_def split: option.split)
  show ?thesis using 1 2 3 4 by blast
qed

theorem role_updates_witness:
  "\<exists>u v. UpsertNode 9 ''admin'' (Some [''x'']) (Some (NewConfig None)) = Some u
       \<and> InvalidateNodes [] (Some (NewConfig None)) = Some v
       \<and> resolveRoleLocked u 9 = ''admin'' \<and> effective_perms u 9 = [''x'']"
proof -
  have t: "TrimSpace ''admin'' = ''admin''"
    by (rule TrimSpace_graphic) (simp add: graphic_def)
  obtain u v where u: "UpsertNode 9 ''admin'' (Some [''x'']) (Some (NewConfig None)) = Some u"
    and v: "InvalidateNodes [] (Some (NewConfig None)) = Some v"
    using t by (simp add: UpsertNode_def InvalidateNodes_def Let_def)
  then show ?thesis
    using role_updates[OF _ u v, of 9] t by auto
qed

end
