(* ===== verification/Server.thy ===== *)
theory Server
  imports Dispatcher Send_Dispatcher Permission
begin

text \<open>
  server/server.go: the server that ties the listener, the connection manager, the process and
  the send dispatcher together, with the trace ids, the parent link and the life cycle.

  The world of the connection manager is extended by the state of the server. The hooks that
  \<open>Start\<close> installs are the numbers 0 (\<open>OnAdd\<close>) and 1 (\<open>OnRemove\<close>) of \<open>server_env\<close>; what the
  transport returns when a connection is written or closed is a parameter. The event bus and the
  goroutines that \<open>Start\<close> spawns are in the theory \<open>Server_Run\<close>; the parent link loop and its race
  with the removal of the connection are a step relation of their own below.
\<close>

section \<open>Trace ids\<close>

text \<open>
  \<open>nextTraceID\<close> after the sequence has been seeded: the counter wraps and skips zero.
\<close>

definition nextTraceID :: "u32 \<Rightarrow> u32 \<times> u32" where
  "nextTraceID traceSeq =
     (let v = traceSeq + 1
      in if v = 0 then let v' = v + 1 in (v', v') else (v, v))"


section \<open>Parent configuration and state\<close>

record parentState =
  p_enable :: bool
  p_addr :: string
  p_reconnect :: int
  p_connID :: string
  p_down :: bool

text \<open>\<open>p_down\<close>: the channel \<open>down\<close> exists and is open. Durations are nanoseconds that wrap.\<close>

definition seconds :: "int \<Rightarrow> int" where
  "seconds v = wrap64 (v * 1000000000)"

definition hasParent :: "parentState option \<Rightarrow> bool" where
  "hasParent p = (case p of None \<Rightarrow> False | Some ps \<Rightarrow> p_enable ps \<and> p_addr ps \<noteq> [])"

definition setConn :: "string \<Rightarrow> parentState \<Rightarrow> parentState" where
  "setConn cid p = p\<lparr>p_connID := cid, p_down := True\<rparr>"

definition notifyDown :: "string \<Rightarrow> parentState \<Rightarrow> parentState" where
  "notifyDown cid p =
     (if cid \<noteq> [] \<and> cid = p_connID p \<and> p_down p then p\<lparr>p_down := False, p_connID := []\<rparr> else p)"

definition buildParentState :: "(string \<Rightarrow> string) \<Rightarrow> config_get option \<Rightarrow> parentState" where
  "buildParentState ulow cfg =
     (let p0 = \<lparr>p_enable = False, p_addr = [], p_reconnect = seconds 3, p_connID = [], p_down = False\<rparr>
      in case cfg of
           None \<Rightarrow> p0
         | Some get \<Rightarrow>
             (let p1 = (case get KeyParentEnable of Some raw \<Rightarrow> p0\<lparr>p_enable := ParseBool ulow raw False\<rparr> | None \<Rightarrow> p0);
                  p2 = (case get KeyParentAddr of Some raw \<Rightarrow> p1\<lparr>p_addr := raw\<rparr> | None \<Rightarrow> p1)
              in case get KeyParentReconnectSec of
                   Some raw \<Rightarrow>
                     (case Atoi raw of
                        Some v \<Rightarrow> if v > 0 then p2\<lparr>p_reconnect := seconds v\<rparr> else p2
                      | None \<Rightarrow> p2)
                 | None \<Rightarrow> p2))"

definition extractConnNodeID :: "conn option \<Rightarrow> u32" where
  "extractConnNodeID c = (case c of None \<Rightarrow> 0 | Some cn \<Rightarrow> conn_node_id cn)"


section \<open>The server\<close>

record server_world = world +
  started :: bool
  nodeID :: u32
  traceSeq :: u32
  sender :: SendDispatcher
  proc_disp :: "Dispatcher option"
  parent :: parentState
  bus_closed :: bool

text \<open>The options of \<open>New\<close>, as far as it checks them: which of the collaborators are given.\<close>

record server_opts =
  has_Listener :: bool
  has_Manager :: bool
  has_Codec :: bool
  has_Process :: bool
  opt_Config :: "config_get option"
  opt_NodeID :: u32
  opt_Process :: "Dispatcher option"

definition Server_New ::
  "(string \<Rightarrow> string) \<Rightarrow> server_opts \<Rightarrow> u32 \<Rightarrow> world \<Rightarrow> server_world result" where
  "Server_New ulow opts seed w =
     (if \<not> has_Listener opts then Inl (Err ''listener required'')
      else if \<not> has_Manager opts then Inl (Err ''manager required'')
      else if \<not> has_Codec opts then Inl (Err ''codec required'')
      else if \<not> has_Process opts then Inl (Err ''process required'')
      else if opt_Config opts = None then Inl (Err ''config required'')
      else case NewSendDispatcherFromConfig (opt_Config opts) of
             Inl e \<Rightarrow> Inl e
           | Inr sdp \<Rightarrow>
               Inr \<lparr>heap = heap w, mgr = mgr w, started = False,
                    nodeID = (if opt_NodeID opts = 0 then 1 else opt_NodeID opts), traceSeq = seed,
                    sender = sdp, proc_disp = opt_Process opts, parent = buildParentState ulow (opt_Config opts),
                    bus_closed = False\<rparr>)"

definition UpdateNodeID :: "u32 \<Rightarrow> server_world \<Rightarrow> server_world" where
  "UpdateNodeID i s = (if i = 0 then s else s\<lparr>nodeID := i\<rparr>)"

text \<open>The hooks. \<open>OnAdd\<close> marks a connection without a role as a child.\<close>

definition on_add :: "cref \<Rightarrow> server_world \<Rightarrow> server_world" where
  "on_add c s =
     (if GetMeta (heap s c) MetaRoleKey = None
      then s\<lparr>heap := (heap s)(c := SetMeta MetaRoleKey (VString RoleChild) (heap s c))\<rparr>
      else s)"

definition on_remove :: "cref \<Rightarrow> server_world \<Rightarrow> server_world" where
  "on_remove c s =
     (let cid = conn_ID (heap s c)
      in s\<lparr>sender := CloseConn cid (sender s), parent := notifyDown cid (parent s)\<rparr>)"

definition server_env ::
  "(cref \<Rightarrow> byte list \<Rightarrow> error option) \<Rightarrow> (cref \<Rightarrow> error option) \<Rightarrow> server_world env" where
  "server_env net_send net_close =
     \<lparr>run_hook = (\<lambda>i c s. if i = 0 then on_add c s else if i = 1 then on_remove c s else s),
      conn_Send = (\<lambda>c dat s. (net_send c dat, s)),
      conn_Close = (\<lambda>c s. (net_close c, s))\<rparr>"

definition server_hooks :: hooks where
  "server_hooks = \<lparr>OnAdd = Some 0, OnRemove = Some 1\<rparr>"

definition Server_Start :: "server_world \<Rightarrow> error option \<times> server_world" where
  "Server_Start s =
     (if started s then (Some (Err ''server already started''), s)
      else (None, (SetHooks server_hooks s)\<lparr>started := True\<rparr>))"

text \<open>
  \<open>Stop\<close>. \<open>readers_done\<close> tells whether the read loops finish before the caller's context ends;
  \<open>order\<close> is the order of \<open>CloseAll\<close>. Listener and event bus are told to close.
\<close>

definition Server_Stop ::
  "server_world env \<Rightarrow> bool \<Rightarrow> cref list \<Rightarrow> server_world \<Rightarrow> error option \<times> server_world" where
  "Server_Stop env readers_done order s =
     (if \<not> started s then (None, s)
      else let s1 = s\<lparr>started := False, proc_disp := map_option Shutdown_cancel (proc_disp s),
                      sender := sd_Shutdown (sender s), bus_closed := True\<rparr>
           in if readers_done then CloseAll env order s1
              else (Some errCtx, s1))"

text \<open>
  \<open>Send\<close>. \<open>OnSend\<close> of the process is a parameter; the codec is \<open>HeaderTcpCodec\<close>. The header
  fields the server fills in are visible to the caller, whose header it is; here they are part
  of the task.
\<close>

definition fill_defaults :: "HeaderTcp \<Rightarrow> u32 \<Rightarrow> HeaderTcp \<times> u32" where
  "fill_defaults h seq =
     (let h1 = (if HopLimit h = 0 then WithHopLimit DefaultHopLimit h else h)
      in if TraceID h1 = 0 then let (v, seq') = nextTraceID seq in (WithTraceID v h1, seq') else (h1, seq))"

definition Server_Send ::
  "(cref \<Rightarrow> HeaderTcp \<Rightarrow> byte list \<Rightarrow> error option) \<Rightarrow> ctx option \<Rightarrow> bool \<Rightarrow> bool \<Rightarrow> (nat \<Rightarrow> bool)
   \<Rightarrow> string \<Rightarrow> HeaderTcp option \<Rightarrow> byte list \<Rightarrow> server_world \<Rightarrow> (error option \<times> server_world) outcome list" where
  "Server_Send onSend cx ctx_done fired waiting connID hdr payload s =
     (case hdr of
        None \<Rightarrow> [Ret (Some (Err ''header required''), s)]
      | Some h \<Rightarrow>
          (case Get (mgr s) connID of
             None \<Rightarrow> [Ret (Some (Err ''conn not found''), s)]
           | Some c \<Rightarrow>
               (let (h', seq') = fill_defaults h (traceSeq s);
                    s1 = s\<lparr>traceSeq := seq'\<rparr>
                in case onSend c h' payload of
                     Some e \<Rightarrow> [Ret (Some e, s1)]
                   | None \<Rightarrow>
                       map (map_outcome (\<lambda>(e, sdp). (e, s1\<lparr>sender := sdp\<rparr>)))
                         (Dispatch (heap s) cx ctx_done fired waiting
                            \<lparr>t_conn = Some c, t_hdr = Some (HTcp h'), t_payload = payload, t_codec = Some TcpCodec\<rparr>
                            (sender s1)))))"


section \<open>The server's hooks and the manager\<close>

lemma on_add_same_ids: "same_ids (on_add c s) s"
  by (simp add: on_add_def same_ids_def SetMeta_def)

lemma on_remove_same_ids: "same_ids (on_remove c s) s"
  by (simp add: on_remove_def same_ids_def Let_def)

interpretation server_mgr: quiet_env "server_env net_send net_close" for net_send net_close
  by unfold_locales (simp_all add: server_env_def on_add_same_ids on_remove_same_ids)

text \<open>What \<open>Remove\<close> does with the hooks of the server.\<close>

lemma Remove_server:
  assumes "mgr_inv s" "Get (mgr s) cid = Some c" "conn_hooks (mgr s) = server_hooks"
    and "linkHooks (mgr s) = \<lparr>OnAdd = None, OnRemove = None\<rparr>"
  shows "conn_ID (heap s c) = cid"
    and "snd (Remove (server_env net_send net_close) cid s) = on_remove c (s\<lparr>mgr := removed cid c (mgr s)\<rparr>)"
proof -
  have "(cid, c) \<in> set (conns (mgr s))"
    using assms(2) by (simp add: Get_def map_of_SomeD)
  then show "conn_ID (heap s c) = cid"
    by (rule mgr_invD(2)[OF assms(1)])
  show "snd (Remove (server_env net_send net_close) cid s) = on_remove c (s\<lparr>mgr := removed cid c (mgr s)\<rparr>)"
    using assms(2-4)
    by (simp add: Remove_def Get_def Let_def removed_def call_hook_def server_env_def server_hooks_def)
qed

lemma CloseConn_forgets: "map_of (writers (CloseConn cid d)) cid = None"
  by (simp add: CloseConn_def delete_conv' split: option.split)


section \<open>The parent link\<close>

text \<open>
  \<open>runParentLink\<close> against the removal of the connection. The loop checks the server's context,
  dials, adds the connection to the manager, then calls \<open>setConn\<close> and waits for the \<open>down\<close>
  channel or the context. As soon as the connection is added, its read loop may end and remove
  it, which calls \<open>notifyDown\<close>. The state has the position of the loop, the ids the manager
  holds, the parent state and whether the context is cancelled. Ids are those of the transport,
  for TCP the two addresses, so that a later connection may have the id of an earlier one.
\<close>

datatype loop_pc = Top | Dialing | Added string | Waiting string | Sleeping | Stopped

record parent_link =
  pc :: loop_pc
  ids :: "string set"
  pstate :: parentState
  cancelled :: bool

inductive link_step :: "parent_link \<Rightarrow> parent_link \<Rightarrow> bool" where
  leaves: "\<lbrakk>pc l = Top; cancelled l\<rbrakk> \<Longrightarrow> link_step l (l\<lparr>pc := Stopped\<rparr>)"
| dials: "\<lbrakk>pc l = Top; \<not> cancelled l\<rbrakk> \<Longrightarrow> link_step l (l\<lparr>pc := Dialing\<rparr>)"
| dial_fails: "pc l = Dialing \<Longrightarrow> link_step l (l\<lparr>pc := Sleeping\<rparr>)"
| dial_adds: "\<lbrakk>pc l = Dialing; cid \<notin> ids l\<rbrakk> \<Longrightarrow> link_step l (l\<lparr>pc := Added cid, ids := insert cid (ids l)\<rparr>)"
| add_refused: "\<lbrakk>pc l = Dialing; cid \<in> ids l\<rbrakk> \<Longrightarrow> link_step l (l\<lparr>pc := Sleeping\<rparr>)"
| set_conn: "pc l = Added cid \<Longrightarrow> link_step l (l\<lparr>pc := Waiting cid, pstate := setConn cid (pstate l)\<rparr>)"
| gives_up: "\<lbrakk>pc l = Waiting cid; cancelled l\<rbrakk> \<Longrightarrow> link_step l (l\<lparr>pc := Stopped\<rparr>)"
| wakes: "\<lbrakk>pc l = Waiting cid; \<not> p_down (pstate l)\<rbrakk> \<Longrightarrow> link_step l (l\<lparr>pc := Sleeping\<rparr>)"
| slept: "pc l = Sleeping \<Longrightarrow> link_step l (l\<lparr>pc := Top\<rparr>)"
| removed: "cid \<in> ids l \<Longrightarrow> link_step l (l\<lparr>ids := ids l - {cid}, pstate := notifyDown cid (pstate l)\<rparr>)"
| other_joins: "cid \<notin> ids l \<Longrightarrow> link_step l (l\<lparr>ids := insert cid (ids l)\<rparr>)"
| server_stops: "link_step l (l\<lparr>cancelled := True\<rparr>)"

inductive link_reachable :: "parentState \<Rightarrow> parent_link \<Rightarrow> bool" for p where
  init: "link_reachable p \<lparr>pc = Top, ids = {}, pstate = p, cancelled = False\<rparr>"
| step: "link_reachable p l \<Longrightarrow> link_step l l' \<Longrightarrow> link_reachable p l'"

text \<open>The loop waits for a connection that the manager no longer holds.\<close>

definition lost_wakeup :: "string \<Rightarrow> parent_link \<Rightarrow> bool" where
  "lost_wakeup cid l \<longleftrightarrow> pc l = Waiting cid \<and> p_connID (pstate l) = cid \<and> p_down (pstate l) \<and> cid \<notin> ids l"

lemma lost_wakeup_stable:
  assumes "link_step l l'" "cid \<notin> ids l'" "lost_wakeup cid l"
  shows "lost_wakeup cid l' \<or> cancelled l \<and> pc l' = Stopped"
  using assms by cases (auto simp: lost_wakeup_def notifyDown_def)

lemma stopped_stable: "link_step l l' \<Longrightarrow> (pc l = Stopped \<longrightarrow> pc l' = Stopped) \<and> (cancelled l \<longrightarrow> cancelled l')"
  by (cases rule: link_step.cases) auto

text \<open>While the server runs and nobody takes the id again, the wait does not end.\<close>

lemma lost_wakeup_for_good:
  assumes "(\<lambda>a b. link_step a b \<and> cid \<notin> ids b)\<^sup>*\<^sup>* l l'" "lost_wakeup cid l"
  shows "lost_wakeup cid l' \<or> cancelled l'"
  using assms(1)
proof (induction rule: rtranclp_induct)
  case base
  then show ?case using assms(2) by simp
next
  case (step a b)
  then show ?case using lost_wakeup_stable[of a b cid] stopped_stable[of a b] by blast
qed

text \<open>While the connection is managed, a removal wakes the loop.\<close>

lemma removal_wakes:
  assumes "pc l = Waiting cid" "p_connID (pstate l) = cid" "cid \<noteq> []"
  shows "\<not> p_down (notifyDown cid (pstate l))"
  using assms by (simp add: notifyDown_def)


lemma fill_defaults_spec:
  assumes "fill_defaults h seq = (h', seq')"
  shows "HopLimit h' = (if HopLimit h = 0 then DefaultHopLimit else HopLimit h)
       \<and> HopLimit h' \<noteq> 0 \<and> TraceID h' \<noteq> 0 \<and> (TraceID h \<noteq> 0 \<longrightarrow> TraceID h' = TraceID h)
       \<and> h' = h\<lparr>HopLimit := HopLimit h', TraceID := TraceID h'\<rparr>"
  using assms
  by (auto simp: fill_defaults_def Let_def nextTraceID_def WithHopLimit_def WithTraceID_def DefaultHopLimit_def
      split: if_splits)

lemma filled_fields:
  assumes "h' = h\<lparr>HopLimit := a, TraceID := b\<rparr>"
  shows "Source h' = Source h" "Target h' = Target h" "MsgID h' = MsgID h" "TypeFmt h' = TypeFmt h"
    "Major h' = Major h" "SubProto h' = SubProto h" "PayloadLen h' = PayloadLen h"
  using assms by (simp_all add: Major_def SubProto_def)

lemma Dispatch_accepts:
  assumes "Ret (None, d') \<in> set (Dispatch hp cx ctx_done fired waiting t d)"
  shows "\<exists>i. i < length (shards d) \<and> shards d' = (shards d)[i := shards d ! i @ [t]]"
  using assms
  by (auto simp: Dispatch_def Let_def ensureStarted_def split: option.splits outcome.splits if_splits)


lemma Server_Send_success:
  assumes r: "Ret (None, s') \<in> set (Server_Send onSend cx ctx_done fired waiting cid hdr payload s)"
  shows "\<exists>h h' c i. hdr = Some h \<and> Get (mgr s) cid = Some c \<and> i < length (shards (sender s))
         \<and> shards (sender s') = (shards (sender s))[i := shards (sender s) ! i @
              [\<lparr>t_conn = Some c, t_hdr = Some (HTcp h'), t_payload = payload, t_codec = Some TcpCodec\<rparr>]]
         \<and> HopLimit h' = (if HopLimit h = 0 then DefaultHopLimit else HopLimit h)
         \<and> TraceID h' \<noteq> 0 \<and> (TraceID h \<noteq> 0 \<longrightarrow> TraceID h' = TraceID h)
         \<and> h' = h\<lparr>HopLimit := HopLimit h', TraceID := TraceID h'\<rparr>"
proof -
  obtain h c where h: "hdr = Some h" and c: "Get (mgr s) cid = Some c"
    using r by (auto simp: Server_Send_def split: option.splits)
  obtain h' seq' where f: "fill_defaults h (traceSeq s) = (h', seq')"
    by fastforce
  let ?t = "\<lparr>t_conn = Some c, t_hdr = Some (HTcp h'), t_payload = payload, t_codec = Some TcpCodec\<rparr>"
  obtain d' where d': "Ret (None, d') \<in> set (Dispatch (heap s) cx ctx_done fired waiting ?t (sender s))" "sender s' = d'"
  proof -
    have "Ret (None, s') \<in> set (map (map_outcome (\<lambda>(e, sdp). (e, s\<lparr>traceSeq := seq', sender := sdp\<rparr>)))
        (Dispatch (heap s) cx ctx_done fired waiting ?t (sender s)))"
      using r by (auto simp: Server_Send_def h c f Let_def split: option.splits)
    then obtain x where x: "x \<in> set (Dispatch (heap s) cx ctx_done fired waiting ?t (sender s))"
      "Ret (None, s') = map_outcome (\<lambda>(e, sdp). (e, s\<lparr>traceSeq := seq', sender := sdp\<rparr>)) x"
      by auto
    obtain d' where "x = Ret (None, d')" "sender s' = d'"
      using x(2) by (cases x rule: outcome.exhaust) auto
    then show ?thesis
      using that x(1) by blast
  qed
  then show ?thesis
    using Dispatch_accepts[OF d'(1)] fill_defaults_spec[OF f] h c by blast
qed


section \<open>Properties\<close>

text \<open>
  C21. What \<open>Send\<close> puts on the wire. When \<open>Send\<close> succeeds, exactly one task has been appended to
  one shard: for the connection that the manager has under the given id, with the payload as
  given, and with the caller's header in which only an unset hop limit and an unset trace id
  have been replaced, so that neither is zero. An unknown id or a nil header is an error that
  changes nothing.
\<close>

theorem server_send_fills_defaults:
  "(Ret (None, s') \<in> set (Server_Send onSend cx ctx_done fired waiting cid hdr payload s) \<longrightarrow>
      (\<exists>h h' c i. hdr = Some h \<and> Get (mgr s) cid = Some c \<and> i < length (shards (sender s))
         \<and> shards (sender s') = (shards (sender s))[i := shards (sender s) ! i @
              [\<lparr>t_conn = Some c, t_hdr = Some (HTcp h'), t_payload = payload, t_codec = Some TcpCodec\<rparr>]]
         \<and> HopLimit h' = (if HopLimit h = 0 then DefaultHopLimit else HopLimit h)
         \<and> TraceID h' \<noteq> 0 \<and> (TraceID h \<noteq> 0 \<longrightarrow> TraceID h' = TraceID h)
         \<and> h' = h\<lparr>HopLimit := HopLimit h', TraceID := TraceID h'\<rparr>))
   \<and> (hdr = None \<longrightarrow> Server_Send onSend cx ctx_done fired waiting cid hdr payload s
        = [Ret (Some (Err ''header required''), s)])
   \<and> (hdr \<noteq> None \<and> Get (mgr s) cid = None \<longrightarrow> Server_Send onSend cx ctx_done fired waiting cid hdr payload s
        = [Ret (Some (Err ''conn not found''), s)])"
  using Server_Send_success[of s' onSend cx ctx_done fired waiting cid hdr payload s]
  by (auto simp: Server_Send_def split: option.splits)

definition ex_server :: server_world where
  "ex_server = \<lparr>heap = hub_heap, mgr = (mgr hub_world)\<lparr>conn_hooks := server_hooks\<rparr>, started = True, nodeID = 5,
                traceSeq = 41, sender = ex_sd, proc_disp = None,
                parent = \<lparr>p_enable = True, p_addr = ''h:1'', p_reconnect = 1, p_connID = ''up'', p_down = True\<rparr>,
                bus_closed = False\<rparr>"

lemma ex_server_accepts:
  "\<exists>s'. Ret (None, s') \<in> set (Server_Send (\<lambda>_ _ _. None) (Some 7) False False (\<lambda>_. False) ''c2'' (Some h) pl ex_server)"
  by (cases "fill_defaults h 41")
    (simp add: Server_Send_def ex_server_def hub_world_def Get_def Dispatch_def ensureStarted_def ex_sd_def sd_selectQueue_def)

theorem server_send_fills_defaults_witness:
  "Server_Send (\<lambda>_ _ _. None) (Some 7) False False (\<lambda>_. False) ''nobody'' (Some (msg 11 12)) [1] ex_server
     = [Ret (Some (Err ''conn not found''), ex_server)]
   \<and> (\<exists>s' i h'. Ret (None, s') \<in> set (Server_Send (\<lambda>_ _ _. None) (Some 7) False False (\<lambda>_. False) ''c2'' (Some (msg 11 12)) [1] ex_server)
       \<and> shards (sender s') = (shards ex_sd)[i := shards ex_sd ! i @
           [\<lparr>t_conn = Some 2, t_hdr = Some (HTcp h'), t_payload = [1], t_codec = Some TcpCodec\<rparr>]]
       \<and> HopLimit h' = 16 \<and> TraceID h' \<noteq> 0 \<and> Source h' = 11)"
proof (rule conjI, goal_cases)
  case 1
  show ?case
    using server_send_fills_defaults[of undefined "\<lambda>_ _ _. None" "Some 7" False False "\<lambda>_. False" "''nobody''" "Some (msg 11 12)" "[1]" ex_server]
    by (simp add: ex_server_def hub_world_def Get_def)
next
  case 2
  obtain s' where r: "Ret (None, s') \<in> set (Server_Send (\<lambda>_ _ _. None) (Some 7) False False (\<lambda>_. False) ''c2'' (Some (msg 11 12)) [1] ex_server)"
    using ex_server_accepts by blast
  have "Get (mgr ex_server) ''c2'' = Some 2" "sender ex_server = ex_sd"
    by (simp_all add: ex_server_def hub_world_def Get_def)
  moreover obtain h h' c i where h: "Some (msg 11 12) = Some h" and c: "Get (mgr ex_server) ''c2'' = Some c"
    and sh: "shards (sender s') = (shards (sender ex_server))[i := shards (sender ex_server) ! i @
       [\<lparr>t_conn = Some c, t_hdr = Some (HTcp h'), t_payload = [1], t_codec = Some TcpCodec\<rparr>]]"
    and hop: "HopLimit h' = (if HopLimit h = 0 then DefaultHopLimit else HopLimit h)" "TraceID h' \<noteq> 0"
    and h': "h' = h\<lparr>HopLimit := HopLimit h', TraceID := TraceID h'\<rparr>"
    using server_send_fills_defaults[THEN conjunct1, THEN mp, OF r] by blast
  moreover have "Source h' = 11" "HopLimit h' = 16"
    using arg_cong[OF h', of Source] h hop(1) by (auto simp: msg_def zero_header_def DefaultHopLimit_def)
  ultimately show ?case
    using r by (intro exI[of _ s'] exI[of _ i] exI[of _ h']) simp
qed

text \<open>
  Removing a connection cleans up after it. When the manager of a started server removes a
  connection, no lookup returns it, the send dispatcher has no writer for its id any more, and
  if it was the parent connection the parent loop's wait ends.
\<close>

theorem server_remove_cleans_up:
  assumes "mgr_inv s" "Get (mgr s) cid = Some c" "conn_hooks (mgr s) = server_hooks"
    and "linkHooks (mgr s) = \<lparr>OnAdd = None, OnRemove = None\<rparr>"
  shows "let s' = snd (Remove (server_env net_send net_close) cid s) in
           Get (mgr s') cid = None \<and> (\<forall>n. GetByNode (mgr s') n \<noteq> Some c) \<and> (\<forall>d. GetByDevice (mgr s') d \<noteq> Some c)
         \<and> map_of (writers (sender s')) cid = None
         \<and> (cid \<noteq> [] \<and> cid = p_connID (parent s) \<longrightarrow> \<not> p_down (parent s'))"
proof -
  note ident = Remove_server(1)[OF assms] and s' = Remove_server(2)[OF assms]
  show ?thesis
    unfolding s' Let_def
    by (simp add: on_remove_def ident Let_def CloseConn_forgets notifyDown_def Get_def GetByNode_def GetByDevice_def
        removed_fields delete_conv')
qed

theorem server_remove_cleans_up_witness:
  "\<not> p_down (parent (snd (Remove (server_env (\<lambda>_ _. None) (\<lambda>_. None)) ''up'' ex_server)))"
proof -
  have "mgr_inv ex_server"
    using mgr_inv_hub_world by (simp add: mgr_inv_def ex_server_def hub_world_def managed_def)
  moreover have "Get (mgr ex_server) ''up'' = Some 0" "conn_hooks (mgr ex_server) = server_hooks"
    "linkHooks (mgr ex_server) = \<lparr>OnAdd = None, OnRemove = None\<rparr>" "p_connID (parent ex_server) = ''up''"
    by (simp_all add: ex_server_def hub_world_def Get_def Manager_New_def)
  ultimately show ?thesis
    using server_remove_cleans_up[of ex_server "''up''" 0 "\<lambda>_ _. None" "\<lambda>_. None"] by (simp add: Let_def)
qed

text \<open>
  C24. The parent link can be lost for good. If the parent connection is removed between the
  moment it is added to the manager and the call of \<open>setConn\<close>, the notification is missed: a
  state is reachable in which the loop waits for a connection that is gone, and as long as the
  server is not stopped and no other connection comes up under the very same id, no step of
  the system ends the wait.
\<close>

theorem parent_wakeup_can_be_lost:
  "\<exists>l. link_reachable p l \<and> \<not> cancelled l \<and> lost_wakeup ''up'' l
     \<and> \<not> (\<exists>l'. (\<lambda>a b. link_step a b \<and> ''up'' \<notin> ids b)\<^sup>*\<^sup>* l l' \<and> \<not> cancelled l' \<and> pc l' \<noteq> Waiting ''up'')"
proof -
  let ?cid = "''up''"
  let ?l0 = "\<lparr>pc = Top, ids = {}, pstate = p, cancelled = False\<rparr>"
  let ?l1 = "?l0\<lparr>pc := Dialing\<rparr>"
  let ?l2 = "?l0\<lparr>pc := Added ?cid, ids := {?cid}\<rparr>"
  let ?l3 = "?l2\<lparr>ids := {}, pstate := notifyDown ?cid p\<rparr>"
  let ?l4 = "?l3\<lparr>pc := Waiting ?cid, pstate := setConn ?cid (notifyDown ?cid p)\<rparr>"
  have "link_step ?l0 ?l1" "link_step ?l1 ?l2" "link_step ?l2 ?l3" "link_step ?l3 ?l4"
    using link_step.dials[of ?l0] link_step.dial_adds[of ?l1 ?cid] link_step.removed[of ?cid ?l2]
      link_step.set_conn[of ?l3 ?cid] by simp_all
  then have "link_reachable p ?l4"
    by (meson link_reachable.intros)
  moreover have lost: "lost_wakeup ?cid ?l4"
    by (simp add: lost_wakeup_def setConn_def)
  moreover have "pc l' = Waiting ?cid \<or> cancelled l'"
    if "(\<lambda>a b. link_step a b \<and> ?cid \<notin> ids b)\<^sup>*\<^sup>* ?l4 l'" for l'
    using lost_wakeup_for_good[OF that lost] by (auto simp: lost_wakeup_def)
  ultimately show ?thesis
    by (intro exI[of _ ?l4]) auto
qed

text \<open>
  Stopping. When the read loops end in time, \<open>Stop\<close> empties the manager and reports no
  error. When the caller's context ends first, \<open>Stop\<close> reports that and leaves every connection
  open and registered; the server already counts as stopped, so no later \<open>Stop\<close> closes them.
\<close>

theorem stop_after_timeout_leaves_connections:
  assumes "quiet_env env" "started s"
  shows "fst (Server_Stop env True order s) = None \<and> conns (mgr (snd (Server_Stop env True order s))) = []
       \<and> fst (Server_Stop env False order s) = Some errCtx
       \<and> mgr (snd (Server_Stop env False order s)) = mgr s
       \<and> Server_Stop env b order' (snd (Server_Stop env False order s)) = (None, snd (Server_Stop env False order s))"
  using assms(2) quiet_env.CloseAll_empties(1,2)[OF assms(1)] by (simp add: Server_Stop_def Let_def)

theorem stop_after_timeout_leaves_connections_witness:
  "mgr (snd (Server_Stop (server_env (\<lambda>_ _. None) (\<lambda>_. None)) False [] ex_server)) = mgr ex_server
   \<and> conns (mgr ex_server) \<noteq> []"
  using stop_after_timeout_leaves_connections[OF server_mgr.quiet_env_axioms[of "\<lambda>_ _. None" "\<lambda>_. None"],
      of ex_server "[]" False "[]"]
  by (simp add: ex_server_def hub_world_def)

end
