(* ===== verification/Sub_Protocol.thy ===== *)
theory Sub_Protocol
  imports Server
begin

text \<open>
  The base types for sub-protocol handlers and their kit: \<^verbatim>\<open>subproto/base_subprocess.go\<close>,
  \<^verbatim>\<open>subproto/base_action.go\<close>, \<^verbatim>\<open>subproto/kit/action.go\<close> and \<^verbatim>\<open>subproto/kit/kit.go\<close>: the table of
  actions a handler keeps under lower-case names, the function-style actions with their kinds,
  and the helpers that answer a request.

  An action is a value of any type; its \<open>Name\<close> method is the argument \<open>nm\<close>. What an action's
  function does is outside the model: it is identified by a number.
\<close>


section \<open>Base handler and actions\<close>

text \<open>The defaults that an embedding handler overrides.\<close>

definition BaseSubProcess :: "nat \<Rightarrow> handler" where
  "BaseSubProcess i = \<lparr>h_id = i, h_SubProto = 0, h_Init = True, AcceptCmd = False, AllowSourceMismatch = False\<rparr>"

text \<open>The defaults of an embedding action: its name, that it needs no authentication, and that it calls nothing.\<close>

definition BaseAction :: "string \<times> bool \<times> nat option" where
  "BaseAction = (''BaseAction'', False, None)"

type_synonym ActionKind = u8

definition ActionKindUnknown :: ActionKind where "ActionKindUnknown = 0"
definition ActionKindLocal :: ActionKind where "ActionKindLocal = 1"
definition ActionKindAssist :: ActionKind where "ActionKindAssist = 2"
definition ActionKindUp :: ActionKind where "ActionKindUp = 3"
definition ActionKindNotify :: ActionKind where "ActionKindNotify = 4"

lemmas action_kinds = ActionKindUnknown_def ActionKindLocal_def ActionKindAssist_def ActionKindUp_def ActionKindNotify_def

definition ActionKind_String :: "ActionKind \<Rightarrow> string" where
  "ActionKind_String k =
     (if k = ActionKindLocal then ''local''
      else if k = ActionKindAssist then ''assist''
      else if k = ActionKindUp then ''up''
      else if k = ActionKindNotify then ''notify''
      else ''unknown'')"

definition KindFromName :: "(string \<Rightarrow> string) \<Rightarrow> string \<Rightarrow> ActionKind" where
  "KindFromName ulow name =
     (let n = ToLower ulow (TrimSpace name)
      in if HasPrefix n ''assist_'' then ActionKindAssist
         else if HasPrefix n ''up_'' then ActionKindUp
         else if HasPrefix n ''notify_'' then ActionKindNotify
         else if n \<noteq> [] then ActionKindLocal
         else ActionKindUnknown)"

record FuncAction =
  fa_name :: string
  fa_requireAuth :: bool
  fa_kind :: ActionKind
  fa_handle :: "nat option"

definition FuncAction_RequireAuth :: "FuncAction option \<Rightarrow> bool" where
  "FuncAction_RequireAuth a = (case a of None \<Rightarrow> False | Some f \<Rightarrow> fa_requireAuth f)"

definition FuncAction_Kind :: "FuncAction option \<Rightarrow> ActionKind" where
  "FuncAction_Kind a = (case a of None \<Rightarrow> ActionKindUnknown | Some f \<Rightarrow> fa_kind f)"

text \<open>\<open>Handle\<close>: the function that is called, if any.\<close>

definition FuncAction_Handle :: "FuncAction option \<Rightarrow> nat option" where
  "FuncAction_Handle a = (case a of None \<Rightarrow> None | Some f \<Rightarrow> fa_handle f)"

definition WithRequireAuth :: "bool \<Rightarrow> FuncAction \<Rightarrow> FuncAction" where
  "WithRequireAuth required a = a\<lparr>fa_requireAuth := required\<rparr>"

definition WithKind :: "ActionKind \<Rightarrow> FuncAction \<Rightarrow> FuncAction" where
  "WithKind kind a = a\<lparr>fa_kind := kind\<rparr>"

definition NewAction ::
  "(string \<Rightarrow> string) \<Rightarrow> string \<Rightarrow> nat option \<Rightarrow> (FuncAction \<Rightarrow> FuncAction) option list \<Rightarrow> FuncAction option" where
  "NewAction ulow name0 handler opts =
     (let name = TrimSpace name0;
          act = fold (\<lambda>opt a. case opt of None \<Rightarrow> a | Some f \<Rightarrow> f a) opts
            \<lparr>fa_name = name, fa_requireAuth = False, fa_kind = KindFromName ulow name, fa_handle = handler\<rparr>
      in if fa_name act = [] then None else Some act)"


section \<open>The action table\<close>

type_synonym 'a actions = "(string \<times> 'a) list option"

definition ResetActions :: "'a actions" where
  "ResetActions = Some []"

definition RemoveAction :: "(string \<Rightarrow> string) \<Rightarrow> string \<Rightarrow> 'a actions option \<Rightarrow> 'a actions option" where
  "RemoveAction ulow name a =
     (case a of
        None \<Rightarrow> None
      | Some acts \<Rightarrow>
          if items acts = [] then a
          else let key = ToLower ulow (TrimSpace name)
               in if key = [] then a else Some (Some (AList.delete key (items acts))))"

text \<open>\<open>RegisterAction\<close>; a nil receiver panics only after the test of the action.\<close>

definition RegisterAction ::
  "(string \<Rightarrow> string) \<Rightarrow> ('a \<Rightarrow> string) \<Rightarrow> 'a option \<Rightarrow> 'a actions option \<Rightarrow> 'a actions option outcome" where
  "RegisterAction ulow nm act a =
     (case act of
        None \<Rightarrow> Ret a
      | Some x \<Rightarrow>
          if nm x = [] then Ret a
          else (case a of
                  None \<Rightarrow> Panic
                | Some acts \<Rightarrow> Ret (Some (Some (AList.update (ToLower ulow (nm x)) x (items acts))))))"

definition LookupAction :: "(string \<Rightarrow> string) \<Rightarrow> string \<Rightarrow> 'a actions option \<Rightarrow> 'a option" where
  "LookupAction ulow name a =
     (case a of
        None \<Rightarrow> None
      | Some acts \<Rightarrow>
          if items acts = [] then None else map_of (items acts) (ToLower ulow (TrimSpace name)))"


section \<open>Answering a request\<close>

definition CloneRequest :: "iheader option \<Rightarrow> HeaderTcp" where
  "CloneRequest h = CloneToTCP h"

definition CloneWithTarget :: "iheader option \<Rightarrow> u32 \<Rightarrow> HeaderTcp" where
  "CloneWithTarget h target = WithTargetID target (CloneToTCP h)"

definition BuildResponse :: "u64 \<Rightarrow> iheader option \<Rightarrow> u32 \<Rightarrow> u8 \<Rightarrow> HeaderTcp outcome" where
  "BuildResponse now req payloadLen sub = BuildTCPResponse now req payloadLen sub"

text \<open>\<open>tcpConnection.SendWithHeader\<close>: one call of the socket's \<open>Write\<close>, which is a parameter.\<close>

definition SendWithHeader ::
  "'s writer \<Rightarrow> 's \<Rightarrow> iheader option \<Rightarrow> byte list \<Rightarrow> codec option \<Rightarrow> (error option \<times> 's) outcome" where
  "SendWithHeader write p hdr payload codec =
     (case codec of
        None \<Rightarrow> Ret (Some ErrNoProgress, p)
      | Some TcpCodec \<Rightarrow>
          (case Encode hdr payload of
             Panic \<Rightarrow> Panic
           | Ret (Inl err) \<Rightarrow> Ret (Some err, p)
           | Ret (Inr frame) \<Rightarrow> (case write p frame of (p', n, err) \<Rightarrow> Ret (err, p'))))"

text \<open>
  \<open>SendResponse\<close>: through the server of the context when there is one, else directly to the
  connection. The error, which is only logged, is part of the outcome here.
\<close>

definition SendResponse ::
  "u64 \<Rightarrow> (cref \<Rightarrow> HeaderTcp \<Rightarrow> byte list \<Rightarrow> error option) \<Rightarrow> ctx option \<Rightarrow> bool \<Rightarrow> bool \<Rightarrow> (nat \<Rightarrow> bool) \<Rightarrow> bool
   \<Rightarrow> 's writer \<Rightarrow> cref \<Rightarrow> iheader option \<Rightarrow> byte list \<Rightarrow> u8 \<Rightarrow> server_world \<Rightarrow> 's
   \<Rightarrow> (error option \<times> server_world \<times> 's) outcome list" where
  "SendResponse now onSend cx ctx_done fired waiting has_srv write c req payload sub s p =
     (case BuildResponse now req (of_nat (length payload)) sub of
        Panic \<Rightarrow> [Panic]
      | Ret resp \<Rightarrow>
          if has_srv
          then map (map_outcome (\<lambda>(e, s'). (e, s', p)))
                 (Server_Send onSend cx ctx_done fired waiting (conn_ID (heap s c)) (Some resp) payload s)
          else [map_outcome (\<lambda>(e, p'). (e, s, p'))
                  (SendWithHeader write p (Some (HTcp resp)) payload (Some TcpCodec))])"


section \<open>The table seen through lookups\<close>

lemma LookupAction_map: "LookupAction ulow m (Some acts) = map_of (items acts) (ToLower ulow (TrimSpace m))"
  by (simp add: LookupAction_def)

lemma Lookup_Register:
  assumes "nm x \<noteq> []"
  shows "RegisterAction ulow nm (Some x) (Some acts) = Ret (Some (Some (AList.update (ToLower ulow (nm x)) x (items acts))))"
    and "LookupAction ulow m (Some (Some (AList.update (ToLower ulow (nm x)) x (items acts)))) =
      (if ToLower ulow (TrimSpace m) = ToLower ulow (nm x) then Some x else LookupAction ulow m (Some acts))"
  using assms by (simp_all add: RegisterAction_def LookupAction_map update_conv')

lemma Lookup_Remove:
  assumes "ToLower ulow (TrimSpace m') \<noteq> []"
  shows "LookupAction ulow m (RemoveAction ulow m' (Some acts)) =
    (if ToLower ulow (TrimSpace m) = ToLower ulow (TrimSpace m') then None else LookupAction ulow m (Some acts))"
  using assms by (cases "items acts = []") (auto simp: RemoveAction_def LookupAction_map Let_def delete_conv')

lemma NewAction_name:
  assumes "NewAction ulow n f opts = Some a" "\<forall>opt \<in> set opts. \<exists>b k. opt \<in> {None, Some (WithRequireAuth b), Some (WithKind k)}"
  shows "fa_name a = TrimSpace n \<and> fa_handle a = f \<and> fa_name a \<noteq> []"
proof -
  define step :: "(FuncAction \<Rightarrow> FuncAction) option \<Rightarrow> FuncAction \<Rightarrow> FuncAction"
    where "step = (\<lambda>opt a. case opt of None \<Rightarrow> a | Some g \<Rightarrow> g a)"
  have "fa_name (fold step os x) = fa_name x \<and> fa_handle (fold step os x) = fa_handle x"
    if "set os \<subseteq> set opts" for os x
    using that
  proof (induction os arbitrary: x)
    case (Cons opt os)
    then have "fa_name (step opt x) = fa_name x" "fa_handle (step opt x) = fa_handle x"
      using assms(2) by (auto simp: step_def WithRequireAuth_def WithKind_def)
    with Cons show ?case by simp
  qed simp
  then show ?thesis
    using assms(1) by (auto simp: NewAction_def Let_def step_def split: if_splits)
qed

lemma padded_key_unreachable:
  assumes "is_ascii m" "is_ascii n" "TrimSpace n \<noteq> n"
  shows "ToLower ulow (TrimSpace m) \<noteq> ToLower ulow n"
proof
  assume eq: "ToLower ulow (TrimSpace m) = ToLower ulow n"
  have t: "is_ascii (TrimSpace m)"
    using assms(1) by (rule is_ascii_TrimSpace)
  then have "map lower_char (TrimSpace m) = map lower_char n"
    using eq assms(2) by (simp add: ToLower_def)
  then show False
    using TrimSpace_lower[OF t] TrimSpace_lower[OF assms(2)] assms(3) by (metis TrimSpace_idem)
qed


section \<open>Properties\<close>

lemma trim_up_x: "TrimSpace '' up_x '' = ''up_x''" "KindFromName id ''up_x'' = ActionKindUp"
  "ToLower id (TrimSpace ''Up_X'') = ToLower id (TrimSpace '' up_x '')"
  by code_simp+

lemma lower_up_x: "ToLower id (TrimSpace ''Up_X'') = ToLower id ''up_x''"
  "ToLower id (TrimSpace ''up_x'') = ToLower id ''up_x'' \<and> ToLower id ''up_x'' \<noteq> []"
  by code_simp+

text \<open>
  C40. The action table looks names up without regard to case. Registering an action with a name stores it
  under the lower-case form of that name as it is: it is found under exactly those names whose trimmed
  lower-case form is this key, and every other name keeps its action. So an action whose name has the same
  lower-case form after trimming is found under its own name, and removing it by that name forgets it and nothing
  else; but an action with an ASCII name that has white space at an end is found under no ASCII name, and
  registering it changes no such lookup.
\<close>

theorem action_table_lookup:
  assumes "nm x \<noteq> []"
  shows "\<exists>t. RegisterAction ulow nm (Some x) (Some acts) = Ret (Some t)
     \<and> (\<forall>m. LookupAction ulow m (Some t) =
          (if ToLower ulow (TrimSpace m) = ToLower ulow (nm x) then Some x else LookupAction ulow m (Some acts)))
     \<and> (ToLower ulow (TrimSpace (nm x)) = ToLower ulow (nm x) \<and> ToLower ulow (nm x) \<noteq> [] \<longrightarrow>
          LookupAction ulow (nm x) (Some t) = Some x
        \<and> (\<forall>m. LookupAction ulow m (RemoveAction ulow (nm x) (Some t)) =
             (if ToLower ulow (TrimSpace m) = ToLower ulow (nm x) then None else LookupAction ulow m (Some acts))))
     \<and> (is_ascii (nm x) \<and> TrimSpace (nm x) \<noteq> nm x \<longrightarrow>
          (\<forall>m. is_ascii m \<longrightarrow> LookupAction ulow m (Some t) = LookupAction ulow m (Some acts)))"
proof -
  let ?t = "Some (AList.update (ToLower ulow (nm x)) x (items acts))"
  note reg = Lookup_Register[where nm = nm and x = x and acts = acts and ulow = ulow, OF assms]
  have "LookupAction ulow m (Some ?t) = LookupAction ulow m (Some acts)"
    if "is_ascii (nm x)" "TrimSpace (nm x) \<noteq> nm x" "is_ascii m" for m
    using reg(2) padded_key_unreachable[OF that(3,1,2), of ulow] by simp
  then show ?thesis
    using reg by (intro exI[of _ ?t]) (simp add: Lookup_Remove)
qed

theorem action_table_lookup_witness:
  "\<exists>a t. NewAction id '' up_x '' (Some 1) [Some (WithRequireAuth True)] = Some a \<and> fa_kind a = ActionKindUp
     \<and> RegisterAction id fa_name (Some a) (Some None) = Ret (Some t) \<and> LookupAction id ''Up_X'' (Some t) = Some a
     \<and> LookupAction id ''up_x'' (RemoveAction id ''up_x'' (Some t)) = None"
proof -
  obtain a where a: "NewAction id '' up_x '' (Some 1) [Some (WithRequireAuth True)] = Some a" "fa_kind a = ActionKindUp"
      "fa_name a = ''up_x''"
    using trim_up_x by (simp add: NewAction_def WithRequireAuth_def)
  then have "fa_name a \<noteq> []" by simp
  from action_table_lookup[where nm = fa_name, OF this, of id None, unfolded a(3)]
  obtain t where t: "RegisterAction id fa_name (Some a) (Some None) = Ret (Some t)"
    and found: "\<And>m. LookupAction id m (Some t) =
      (if ToLower id (TrimSpace m) = ToLower id ''up_x'' then Some a else LookupAction id m (Some None))"
    and gone: "\<And>m. ToLower id (TrimSpace ''up_x'') = ToLower id ''up_x'' \<and> ToLower id ''up_x'' \<noteq> [] \<Longrightarrow>
      LookupAction id m (RemoveAction id ''up_x'' (Some t)) =
      (if ToLower id (TrimSpace m) = ToLower id ''up_x'' then None else LookupAction id m (Some None))"
    by blast
  have "LookupAction id ''Up_X'' (Some t) = Some a" "LookupAction id ''up_x'' (RemoveAction id ''up_x'' (Some t)) = None"
    unfolding found gone[OF lower_up_x(2)] using lower_up_x by (simp_all only: if_True refl)
  then show ?thesis using a t by blast
qed

text \<open>
  Actions built by \<open>NewAction\<close> with the options of the package have a trimmed name, which is found under every
  spelling that differs from the given one in case or in surrounding white space.
\<close>

lemma new_action_found:
  assumes "NewAction ulow n f opts = Some a"
    and "\<forall>opt \<in> set opts. \<exists>b k. opt \<in> {None, Some (WithRequireAuth b), Some (WithKind k)}"
    and "RegisterAction ulow fa_name (Some a) (Some acts) = Ret (Some t)"
    and "ToLower ulow (TrimSpace m) = ToLower ulow (TrimSpace n)"
  shows "LookupAction ulow m (Some t) = Some a"
  using NewAction_name[OF assms(1,2)] assms(3,4) Lookup_Register[where nm = fa_name and x = a and acts = acts and ulow = ulow]
  by auto

text \<open>
  A padded name is lost. \<open>RegisterAction\<close> lower-cases the name but does not trim it, while
  \<open>LookupAction\<close> does both: an action whose \<open>Name\<close> has white space at an end is stored under a
  key that no lookup by an ASCII name computes, so that it can never be called, and no such
  lookup answers differently than before.
\<close>

theorem padded_action_unreachable:
  assumes "is_ascii m" "is_ascii (nm y)" "TrimSpace (nm y) \<noteq> nm y"
    and "RegisterAction ulow nm (Some y) (Some acts) = Ret t"
  shows "LookupAction ulow m t = LookupAction ulow m (Some acts)"
proof -
  have "nm y \<noteq> []" using assms(3) by auto
  from Lookup_Register[where nm = nm and x = y and acts = acts and ulow = ulow, OF this] show ?thesis
    using assms(4) padded_key_unreachable[OF assms(1-3), of ulow] by auto
qed

theorem padded_action_unreachable_witness:
  "\<exists>t. RegisterAction id (\<lambda>n. n) (Some '' ping'') (Some None) = Ret t \<and> LookupAction id '' ping'' t = None"
proof -
  obtain t where t: "RegisterAction id (\<lambda>n. n) (Some '' ping'') (Some None) = Ret t"
    by (simp add: RegisterAction_def)
  have "is_ascii '' ping''" "TrimSpace '' ping'' \<noteq> '' ping''" by code_simp+
  from padded_action_unreachable[OF this(1) _ _ t] this t show ?thesis
    by (simp add: LookupAction_def)
qed

text \<open>
  A response goes back to where the request came from. When \<open>SendResponse\<close> succeeds with a
  server in the context, one task is queued, for the connection the request came on: with the
  payload, source and target of the request swapped, its message id, the class OK and the
  given sub-protocol, a fresh hop limit and a trace id that is the request's if it has one.
\<close>

theorem response_returns_to_sender:
  assumes "Ret (None, s', p') \<in> set (SendResponse now onSend cx ctx_done fired waiting True write c (Some req) payload sub s p)"
    and "Get (mgr s) (conn_ID (heap s c)) = Some c"
  shows "\<exists>h i. i < length (shards (sender s)) \<and> p' = p
     \<and> shards (sender s') = (shards (sender s))[i := shards (sender s) ! i @
          [\<lparr>t_conn = Some c, t_hdr = Some (HTcp h), t_payload = payload, t_codec = Some TcpCodec\<rparr>]]
     \<and> Source h = iv_TargetID (view req) \<and> Target h = iv_SourceID (view req) \<and> MsgID h = iv_MsgID (view req)
     \<and> Major h = MajorOKResp \<and> SubProto h = sub AND 63 \<and> HopLimit h = DefaultHopLimit
     \<and> PayloadLen h = of_nat (length payload)
     \<and> TraceID h \<noteq> 0 \<and> (iv_TraceID (view req) \<noteq> 0 \<longrightarrow> TraceID h = iv_TraceID (view req))"
proof -
  let ?n = "of_nat (length payload) :: u32"
  obtain resp where resp: "BuildResponse now (Some req) ?n sub = Ret resp" and rspec: "Source resp = iv_TargetID (view req)"
    "Target resp = iv_SourceID (view req)" "MsgID resp = iv_MsgID (view req)" "TraceID resp = iv_TraceID (view req)"
    "Major resp = MajorOKResp" "SubProto resp = sub AND 63" "HopLimit resp = DefaultHopLimit" "PayloadLen resp = ?n"
    using build_response_mirrors_request[of now req ?n sub] by (auto simp: BuildResponse_def)
  have "Ret (None, s', p') \<in> set (map (map_outcome (\<lambda>(e, s'). (e, s', p)))
      (Server_Send onSend cx ctx_done fired waiting (conn_ID (heap s c)) (Some resp) payload s))"
    using assms(1) unfolding SendResponse_def resp by (simp only: outcome.case if_True)
  then have "p' = p" "Ret (None, s') \<in> set (Server_Send onSend cx ctx_done fired waiting (conn_ID (heap s c)) (Some resp) payload s)"
    unfolding Ret_in_map_outcome by (auto split: prod.splits)
  from Server_Send_success[OF this(2)]
  obtain h\<^sub>0 h c\<^sub>0 i where "Some resp = Some h\<^sub>0" "Get (mgr s) (conn_ID (heap s c)) = Some c\<^sub>0"
    and h: "i < length (shards (sender s))"
    "shards (sender s') = (shards (sender s))[i := shards (sender s) ! i @
       [\<lparr>t_conn = Some c\<^sub>0, t_hdr = Some (HTcp h), t_payload = payload, t_codec = Some TcpCodec\<rparr>]]"
    "HopLimit h = (if HopLimit h\<^sub>0 = 0 then DefaultHopLimit else HopLimit h\<^sub>0)" "TraceID h \<noteq> 0"
    "TraceID h\<^sub>0 \<noteq> 0 \<longrightarrow> TraceID h = TraceID h\<^sub>0" "h = h\<^sub>0\<lparr>HopLimit := HopLimit h, TraceID := TraceID h\<rparr>"
    by blast
  then have [simp]: "h\<^sub>0 = resp" "c\<^sub>0 = c"
    using assms(2) by auto
  note filled_fields[OF h(6)]
  then show ?thesis
    using h rspec \<open>p' = p\<close> by (intro exI[of _ h] exI[of _ i]) simp
qed

theorem response_returns_to_sender_witness:
  "\<exists>(s' :: server_world) h i. shards (sender s') = (shards ex_sd)[i := shards ex_sd ! i @
       [\<lparr>t_conn = Some 2, t_hdr = Some (HTcp h), t_payload = [1], t_codec = Some TcpCodec\<rparr>]]
     \<and> Source h = 12 \<and> Target h = 11 \<and> SubProto h = 3"
proof -
  have hub: "Get (mgr ex_server) ''c2'' = Some 2" "sender ex_server = ex_sd" "conn_ID (heap ex_server 2) = ''c2''"
    by (simp_all add: ex_server_def hub_world_def Get_def hub_heap_def)
  obtain resp where resp: "BuildResponse 0 (Some (HTcp (msg 11 12))) (of_nat (length [1 :: byte])) 3 = Ret resp"
    by (simp add: BuildResponse_def BuildTCPResponse_def)
  obtain s' where "Ret (None, s') \<in> set (Server_Send (\<lambda>_ _ _. None) (Some 7) False False (\<lambda>_. False) ''c2'' (Some resp) [1] ex_server)"
    using ex_server_accepts by blast
  then have r: "Ret (None, s', ()) \<in> set (SendResponse 0 (\<lambda>_ _ _. None) (Some 7) False False (\<lambda>_. False) True
      (\<lambda>s d. (s, 0, None)) 2 (Some (HTcp (msg 11 12))) [1] 3 ex_server ())"
    unfolding SendResponse_def resp hub(3) outcome.case if_True Ret_in_map_outcome by force
  have m: "iv_TargetID (view (HTcp (msg 11 12))) = 12" "iv_SourceID (view (HTcp (msg 11 12))) = 11"
    by (simp_all add: view_def msg_def)
  have "(3 :: u8) AND 63 = 3" by simp
  with response_returns_to_sender[OF r] hub m
  obtain h i where "shards (sender s') = (shards ex_sd)[i := shards ex_sd ! i @
       [\<lparr>t_conn = Some 2, t_hdr = Some (HTcp h), t_payload = [1], t_codec = Some TcpCodec\<rparr>]]"
    "Source h = 12" "Target h = 11" "SubProto h = 3"
    by auto
  then show ?thesis by blast
qed

end
