(* ===== verification/Bootstrap.thy ===== *)
theory Bootstrap
  imports Frame_IO Go_Strings
begin

text \<open>
  Self-registration with the parent node: \<^verbatim>\<open>bootstrap/selfregister.go\<close>. A connection is what the
  function sees of it: the bytes that arrive, the frames handed to \<open>SendWithHeader\<close> and how often it
  was closed. Each of the four connection operations races with the context in a \<^verbatim>\<open>select\<close>; \<open>done i\<close>
  says that the context wins the race of operation \<open>i\<close>, and \<open>sends i\<close> is what \<open>SendWithHeader\<close> returns
  there. The JSON encodings are arguments, in the record \<open>json_env\<close>: the documents the code builds
  and the structs it reads.
\<close>


section \<open>Definitions\<close>

record register_resp =
  rr_Code :: int
  rr_NodeID :: u32
  rr_Msg :: string
  rr_Status :: string
  rr_RequestID :: string
  rr_Reason :: string

record json_env =
  un_msg :: "byte list \<Rightarrow> (string \<times> byte list) result"
  un_register :: "byte list \<Rightarrow> register_resp result"
  un_login :: "byte list \<Rightarrow> (int \<times> string) result"
  ma_register :: "string \<Rightarrow> string option \<Rightarrow> byte list"
  ma_login :: "string \<Rightarrow> byte list"

record RegisterStatusError =
  se_Code :: int
  se_Status :: string
  se_RequestID :: string
  se_Reason :: string
  se_Msg :: string

text \<open>The errors of this package: a plain error or a \<open>*RegisterStatusError\<close>.\<close>

datatype reg_error = Plain error | StatusErr RegisterStatusError

definition RegisterStatusError_Error :: "RegisterStatusError option \<Rightarrow> string" where
  "RegisterStatusError_Error e =
     (case e of
        None \<Rightarrow> ''register failed''
      | Some e \<Rightarrow>
          let d1 = TrimSpace (se_Reason e);
              d2 = (if d1 = [] then TrimSpace (se_Msg e) else d1);
              detail = (if d2 = [] then ''register failed'' else d2);
              status = TrimSpace (se_Status e)
          in if status = [] then ''register failed: '' @ detail
             else if se_RequestID e \<noteq> []
             then ''register '' @ status @ '' (request_id='' @ se_RequestID e @ ''): '' @ detail
             else ''register '' @ status @ '': '' @ detail)"

fun coalesceRegisterReason :: "string list \<Rightarrow> string" where
  "coalesceRegisterReason [] = []"
| "coalesceRegisterReason (v # vs) = (let t = TrimSpace v in if t \<noteq> [] then t else coalesceRegisterReason vs)"

definition status_error :: "register_resp \<Rightarrow> string \<Rightarrow> RegisterStatusError" where
  "status_error resp reason =
     \<lparr>se_Code = rr_Code resp, se_Status = rr_Status resp, se_RequestID = rr_RequestID resp, se_Reason = reason, se_Msg = rr_Msg resp\<rparr>"

text \<open>The switch of \<open>parseRegisterResp\<close> on the decoded response.\<close>

definition register_outcome :: "(string \<Rightarrow> string) \<Rightarrow> register_resp \<Rightarrow> reg_error + u32" where
  "register_outcome ulow resp =
     (let status = ToLower ulow (TrimSpace (rr_Status resp))
      in if status = ''approved''
         then (if rr_Code resp \<noteq> 1 \<or> rr_NodeID resp = 0
               then Inl (StatusErr (status_error resp
                      (coalesceRegisterReason [rr_Reason resp, rr_Msg resp, ''register approved without node_id''])))
               else Inr (rr_NodeID resp))
         else if status = ''pending'' \<or> status = ''rejected'' then Inl (StatusErr (status_error resp (rr_Reason resp)))
         else if rr_Code resp = 1 \<and> rr_NodeID resp \<noteq> 0 then Inr (rr_NodeID resp)
         else Inl (StatusErr (status_error resp (rr_Reason resp))))"

definition parseRegisterResp :: "json_env \<Rightarrow> (string \<Rightarrow> string) \<Rightarrow> HeaderTcp \<Rightarrow> byte list \<Rightarrow> reg_error + u32 \<times> string" where
  "parseRegisterResp js ulow hdr body =
     (case un_msg js body of
        Inl e \<Rightarrow> Inl (Plain e)
      | Inr (action, data) \<Rightarrow>
          (case un_register js data of
             Inl e \<Rightarrow> Inl (Plain e)
           | Inr resp \<Rightarrow> (case register_outcome ulow resp of Inl e \<Rightarrow> Inl e | Inr n \<Rightarrow> Inr (n, []))))"

definition assertLoginOK :: "json_env \<Rightarrow> byte list \<Rightarrow> reg_error option" where
  "assertLoginOK js body =
     (case un_msg js body of
        Inl e \<Rightarrow> Some (Plain e)
      | Inr (action, data) \<Rightarrow>
          (case un_login js data of
             Inl e \<Rightarrow> Some (Plain e)
           | Inr (code, m) \<Rightarrow> if code \<noteq> 1 then Some (Plain (Err (''login failed: '' @ m))) else None))"

text \<open>Connections. \<open>cn_sent\<close> lists the frames handed to \<open>SendWithHeader\<close>, oldest first.\<close>

record reg_conn =
  cn_in :: reader
  cn_sent :: "(HeaderTcp \<times> byte list) list"
  cn_closed :: nat

definition reg_Close :: "reg_conn \<Rightarrow> reg_conn" where
  "reg_Close c = c\<lparr>cn_closed := Suc (cn_closed c)\<rparr>"

definition errCtx :: error where "errCtx = Err ''context done''"

text \<open>The race of an operation's result with the context.\<close>

definition runConnOp :: "bool \<Rightarrow> error option \<Rightarrow> reg_conn \<Rightarrow> reg_error option \<times> reg_conn" where
  "runConnOp ctx res c = (if ctx then (Some (Plain errCtx), reg_Close c) else (map_option Plain res, c))"

definition sendFrame :: "bool \<Rightarrow> error option \<Rightarrow> HeaderTcp \<Rightarrow> byte list \<Rightarrow> reg_conn \<Rightarrow> reg_error option \<times> reg_conn" where
  "sendFrame ctx res hdr payload c =
     runConnOp ctx res (c\<lparr>cn_sent := cn_sent c @ [(hdr, payload)]\<rparr>)"

definition recvFrame :: "bool \<Rightarrow> reg_conn \<Rightarrow> (reg_error + HeaderTcp \<times> byte list) \<times> reg_conn" where
  "recvFrame ctx c =
     (if ctx then (Inl (Plain errCtx), reg_Close c)
      else (case Decode (cn_in c) of
              (Inl e, rd) \<Rightarrow> (Inl (Plain e), c\<lparr>cn_in := rd\<rparr>)
            | (Inr (hdr, body), rd) \<Rightarrow> (Inr (hdr, body), c\<lparr>cn_in := rd\<rparr>)))"

text \<open>
  Options. \<open>so_Dial\<close> is the injected dialer with its result: no dialer, an error, a nil
  connection or a connection.
\<close>

record SelfRegisterOptions =
  so_ParentAddr :: string
  so_Dial :: "reg_conn option result option"
  so_SelfID :: string
  so_JoinPermit :: string
  so_Timeout :: int
  so_DialTimeout :: int
  so_DoLogin :: bool

definition reg_defaults :: "SelfRegisterOptions \<Rightarrow> SelfRegisterOptions" where
  "reg_defaults o1 =
     (let o2 = (if so_Timeout o1 \<le> 0 then o1\<lparr>so_Timeout := 10000000000\<rparr> else o1)
      in if so_DialTimeout o2 \<le> 0 then o2\<lparr>so_DialTimeout := 5000000000\<rparr> else o2)"

definition dialSelfRegisterConn :: "(int \<Rightarrow> string \<Rightarrow> reg_conn result) \<Rightarrow> SelfRegisterOptions \<Rightarrow> reg_conn result" where
  "dialSelfRegisterConn DialContext opts =
     (case so_Dial opts of
        Some (Inl e) \<Rightarrow> Inl e
      | Some (Inr None) \<Rightarrow> Inl (Err ''self register dial returned nil connection'')
      | Some (Inr (Some c)) \<Rightarrow> Inr c
      | None \<Rightarrow> DialContext (so_DialTimeout opts) (so_ParentAddr opts))"

definition boot_header :: "u32 \<Rightarrow> u32 \<Rightarrow> HeaderTcp" where
  "boot_header source msgID =
     WithMsgID msgID (WithTargetID 0 (WithSourceID source (WithSubProto 2 (WithMajor MajorCmd zero_header))))"

text \<open>The steps of \<open>SelfRegister\<close> between dialing and the deferred \<open>Close\<close>.\<close>

definition login_step ::
  "json_env \<Rightarrow> (nat \<Rightarrow> bool) \<Rightarrow> (nat \<Rightarrow> error option) \<Rightarrow> string \<Rightarrow> u32 \<Rightarrow> reg_conn \<Rightarrow> reg_error option \<times> reg_conn" where
  "login_step js done sends selfID nodeID c =
     (case sendFrame (done 2) (sends 1) (boot_header nodeID 2) (ma_login js selfID) c of
        (Some e, c) \<Rightarrow> (Some e, c)
      | (None, c) \<Rightarrow>
          (case recvFrame (done 3) c of
             (Inl e, c) \<Rightarrow> (Some e, c)
           | (Inr (_, loginResp), c) \<Rightarrow> (assertLoginOK js loginResp, c)))"

definition register_step ::
  "json_env \<Rightarrow> (string \<Rightarrow> string) \<Rightarrow> (nat \<Rightarrow> bool) \<Rightarrow> (nat \<Rightarrow> error option) \<Rightarrow> SelfRegisterOptions \<Rightarrow> reg_conn \<Rightarrow>
   (reg_error + u32 \<times> string) \<times> reg_conn" where
  "register_step js ulow done sends opts c =
     (let permit = TrimSpace (so_JoinPermit opts);
          regPayload = ma_register js (so_SelfID opts) (if permit \<noteq> [] then Some permit else None)
      in case sendFrame (done 0) (sends 0) (boot_header 0 1) regPayload c of
           (Some e, c) \<Rightarrow> (Inl e, c)
         | (None, c) \<Rightarrow>
             (case recvFrame (done 1) c of
                (Inl e, c) \<Rightarrow> (Inl e, c)
              | (Inr (rHdr, rBody), c) \<Rightarrow>
                  (case parseRegisterResp js ulow rHdr rBody of
                     Inl e \<Rightarrow> (Inl e, c)
                   | Inr (nodeID, cred) \<Rightarrow>
                       if so_DoLogin opts
                       then (case login_step js done sends (so_SelfID opts) nodeID c of
                               (Some e, c) \<Rightarrow> (Inl e, c)
                             | (None, c) \<Rightarrow> (Inr (nodeID, cred), c))
                       else (Inr (nodeID, cred), c))))"

text \<open>
  \<open>SelfRegister\<close>: node id, credential and error, and the connection as it is left, if one was dialed.
\<close>

definition SelfRegister ::
  "json_env \<Rightarrow> (string \<Rightarrow> string) \<Rightarrow> (int \<Rightarrow> string \<Rightarrow> reg_conn result) \<Rightarrow> (nat \<Rightarrow> bool) \<Rightarrow> (nat \<Rightarrow> error option) \<Rightarrow>
   SelfRegisterOptions \<Rightarrow> (u32 \<times> string \<times> reg_error option) \<times> reg_conn option" where
  "SelfRegister js ulow DialContext done sends opts0 =
     (if so_Dial opts0 = None \<and> so_ParentAddr opts0 = [] then ((0, [], Some (Plain (Err ''parent address required''))), None)
      else if so_SelfID opts0 = [] then ((0, [], Some (Plain (Err ''self id required''))), None)
      else
        let opts = reg_defaults opts0
        in case dialSelfRegisterConn DialContext opts of
             Inl e \<Rightarrow> ((0, [], Some (Plain e)), None)
           | Inr c \<Rightarrow>
               (case register_step js ulow done sends opts c of
                  (Inl e, c) \<Rightarrow> ((0, [], Some e), Some (reg_Close c))
                | (Inr (nodeID, cred), c) \<Rightarrow> ((nodeID, cred, None), Some (reg_Close c))))"


section \<open>The steps\<close>

lemma register_outcome_Inr:
  "register_outcome ulow resp = Inr n \<longleftrightarrow>
     n = rr_NodeID resp \<and> n \<noteq> 0 \<and> rr_Code resp = 1
     \<and> ToLower ulow (TrimSpace (rr_Status resp)) \<notin> {''pending'', ''rejected''}"
  by (auto simp: register_outcome_def Let_def)

lemma parseRegisterResp_Inr:
  "parseRegisterResp js ulow h body = Inr (n, cred) \<longleftrightarrow>
     cred = [] \<and> (\<exists>a d resp. un_msg js body = Inr (a, d) \<and> un_register js d = Inr resp \<and> register_outcome ulow resp = Inr n)"
  by (auto simp: parseRegisterResp_def split: sum.splits)

lemma assertLoginOK_None:
  "assertLoginOK js body = None \<longleftrightarrow> (\<exists>a d m. un_msg js body = Inr (a, d) \<and> un_login js d = Inr (1, m))"
  by (auto simp: assertLoginOK_def split: sum.splits)

lemma sendFrame_None:
  "sendFrame ctx res h p c = (None, c') \<longleftrightarrow> \<not> ctx \<and> res = None \<and> c' = c\<lparr>cn_sent := cn_sent c @ [(h, p)]\<rparr>"
  by (auto simp: sendFrame_def runConnOp_def)

lemma recvFrame_Inr:
  "recvFrame ctx c = (Inr (h, b), c') \<longleftrightarrow> \<not> ctx \<and> (\<exists>rd. Decode (cn_in c) = (Inr (h, b), rd) \<and> c' = c\<lparr>cn_in := rd\<rparr>)"
  by (auto simp: recvFrame_def split: prod.splits sum.splits)

lemmas step_defs = sendFrame_def runConnOp_def recvFrame_def

lemma login_step_None:
  "login_step js done sends sid n c = (None, c') \<longleftrightarrow>
     (\<exists>h b rd. \<not> done 2 \<and> \<not> done 3 \<and> sends 1 = None \<and> Decode (cn_in c) = (Inr (h, b), rd) \<and> assertLoginOK js b = None
        \<and> c' = c\<lparr>cn_sent := cn_sent c @ [(boot_header n 2, ma_login js sid)], cn_in := rd\<rparr>)"
  by (auto simp: login_step_def step_defs split: prod.splits option.splits sum.splits if_splits)

lemma login_step_closes: "login_step js done sends sid n c = (r, c') \<Longrightarrow> cn_closed c \<le> cn_closed c'"
  by (auto simp: login_step_def step_defs reg_Close_def split: prod.splits option.splits sum.splits if_splits)

definition register_request :: "json_env \<Rightarrow> SelfRegisterOptions \<Rightarrow> HeaderTcp \<times> byte list" where
  "register_request js opts =
     (boot_header 0 1, ma_register js (so_SelfID opts)
        (if TrimSpace (so_JoinPermit opts) \<noteq> [] then Some (TrimSpace (so_JoinPermit opts)) else None))"

lemma register_step_unfold:
  "register_step js ulow done sends opts c =
     (if done 0 then (Inl (Plain errCtx), reg_Close (c\<lparr>cn_sent := cn_sent c @ [register_request js opts]\<rparr>))
      else case sends 0 of
        Some e \<Rightarrow> (Inl (Plain e), c\<lparr>cn_sent := cn_sent c @ [register_request js opts]\<rparr>)
      | None \<Rightarrow>
          (case recvFrame (done 1) (c\<lparr>cn_sent := cn_sent c @ [register_request js opts]\<rparr>) of
             (Inl e, c) \<Rightarrow> (Inl e, c)
           | (Inr (h, b), c) \<Rightarrow>
               (case parseRegisterResp js ulow h b of
                  Inl e \<Rightarrow> (Inl e, c)
                | Inr (n, cred) \<Rightarrow>
                    if so_DoLogin opts
                    then (case login_step js done sends (so_SelfID opts) n c of
                            (Some e, c) \<Rightarrow> (Inl e, c)
                          | (None, c) \<Rightarrow> (Inr (n, cred), c))
                    else (Inr (n, cred), c))))"
  unfolding register_step_def Let_def register_request_def[symmetric] sendFrame_def runConnOp_def
  by (cases "done 0"; cases "sends 0") (simp_all add: register_request_def)

lemma register_step_Inr:
  "register_step js ulow done sends opts c = (Inr (n, cred), c') \<longleftrightarrow>
     \<not> done 0 \<and> \<not> done 1 \<and> sends 0 = None \<and>
     (\<exists>h b rd. Decode (cn_in c) = (Inr (h, b), rd) \<and> parseRegisterResp js ulow h b = Inr (n, cred)
        \<and> (let c1 = c\<lparr>cn_sent := cn_sent c @ [register_request js opts], cn_in := rd\<rparr>
           in if so_DoLogin opts then login_step js done sends (so_SelfID opts) n c1 = (None, c') else c' = c1))"
  unfolding register_step_unfold recvFrame_def Let_def
  by (auto split: prod.splits option.splits sum.splits if_splits)

lemma register_step_closes: "register_step js ulow done sends opts c = (r, c') \<Longrightarrow> cn_closed c \<le> cn_closed c'"
  unfolding register_step_unfold recvFrame_def
  by (auto simp: reg_Close_def dest!: login_step_closes split: prod.splits option.splits sum.splits if_splits)

lemma reg_defaults_same [simp]:
  "so_SelfID (reg_defaults opts) = so_SelfID opts" "so_DoLogin (reg_defaults opts) = so_DoLogin opts"
  "so_Dial (reg_defaults opts) = so_Dial opts" "so_ParentAddr (reg_defaults opts) = so_ParentAddr opts"
  "so_JoinPermit (reg_defaults opts) = so_JoinPermit opts"
  by (simp_all add: reg_defaults_def Let_def)

lemma register_request_defaults [simp]: "register_request js (reg_defaults opts) = register_request js opts"
  by (simp add: register_request_def)

definition reg_ready :: "SelfRegisterOptions \<Rightarrow> bool" where
  "reg_ready opts = ((so_Dial opts \<noteq> None \<or> so_ParentAddr opts \<noteq> []) \<and> so_SelfID opts \<noteq> [])"

lemma SelfRegister_ready:
  "reg_ready opts \<Longrightarrow>
   SelfRegister js ulow DialContext done sends opts =
     (case dialSelfRegisterConn DialContext (reg_defaults opts) of
        Inl e \<Rightarrow> ((0, [], Some (Plain e)), None)
      | Inr c \<Rightarrow>
          (case register_step js ulow done sends (reg_defaults opts) c of
             (Inl e, c) \<Rightarrow> ((0, [], Some e), Some (reg_Close c))
           | (Inr (n, cred), c) \<Rightarrow> ((n, cred, None), Some (reg_Close c))))"
  by (auto simp: SelfRegister_def reg_ready_def Let_def)

lemma SelfRegister_not_ready:
  "\<not> reg_ready opts \<Longrightarrow> \<exists>e. SelfRegister js ulow DialContext done sends opts = ((0, [], Some e), None)"
  by (auto simp: SelfRegister_def reg_ready_def)


section \<open>Properties\<close>

text \<open>
  C31. What a node id stands for. When \<open>SelfRegister\<close> reports success, the first frame that arrived on
  the dialed connection carried a register response with code 1, the node id returned, which is
  not zero, and a status other than pending or rejected; with login requested, the next frame
  carried a login response with code 1. The node sent exactly the register command with source
  0 and message id 1 and, with login requested, the login command with its new id as source and
  message id 2; the credential is empty and the connection is closed.
\<close>

theorem self_register_success:
  assumes "SelfRegister js ulow DialContext done sends opts = ((n, cred, None), oc)"
  shows "\<exists>c c' h b rd a d resp.
      dialSelfRegisterConn DialContext (reg_defaults opts) = Inr c \<and> oc = Some c' \<and> cn_closed c < cn_closed c'
    \<and> Decode (cn_in c) = (Inr (h, b), rd) \<and> un_msg js b = Inr (a, d) \<and> un_register js d = Inr resp
    \<and> n = rr_NodeID resp \<and> n \<noteq> 0 \<and> rr_Code resp = 1 \<and> cred = []
    \<and> ToLower ulow (TrimSpace (rr_Status resp)) \<notin> {''pending'', ''rejected''}
    \<and> cn_sent c' = cn_sent c @ register_request js opts #
        (if so_DoLogin opts then [(boot_header n 2, ma_login js (so_SelfID opts))] else [])
    \<and> (so_DoLogin opts \<longrightarrow>
         (\<exists>h2 b2 rd2 a2 d2 m. Decode rd = (Inr (h2, b2), rd2) \<and> un_msg js b2 = Inr (a2, d2) \<and> un_login js d2 = Inr (1, m)))"
proof -
  have ready: "reg_ready opts"
  proof (rule ccontr)
    assume "\<not> reg_ready opts"
    then show False
      using assms SelfRegister_not_ready[of opts js ulow DialContext "done" sends] by auto
  qed
  then obtain c c1 where c: "dialSelfRegisterConn DialContext (reg_defaults opts) = Inr c"
    and r: "register_step js ulow done sends (reg_defaults opts) c = (Inr (n, cred), c1)" and oc: "oc = Some (reg_Close c1)"
    using assms unfolding SelfRegister_ready[OF ready] by (auto split: sum.splits prod.splits)
  have closed: "cn_closed c < cn_closed (reg_Close c1)"
    using register_step_closes[OF r] by (simp add: reg_Close_def)
  from r obtain h b rd where d: "Decode (cn_in c) = (Inr (h, b), rd)" "parseRegisterResp js ulow h b = Inr (n, cred)"
    and rest: "if so_DoLogin opts
      then login_step js done sends (so_SelfID opts) n (c\<lparr>cn_sent := cn_sent c @ [register_request js opts], cn_in := rd\<rparr>) = (None, c1)
      else c1 = c\<lparr>cn_sent := cn_sent c @ [register_request js opts], cn_in := rd\<rparr>"
    unfolding register_step_Inr by (auto simp: Let_def cong: if_cong)
  have sent: "cn_sent (reg_Close c1) = cn_sent c @ register_request js opts #
        (if so_DoLogin opts then [(boot_header n 2, ma_login js (so_SelfID opts))] else [])"
    using rest by (auto simp: reg_Close_def login_step_None split: if_splits)
  have login: "so_DoLogin opts \<longrightarrow>
      (\<exists>h2 b2 rd2 a2 d2 m. Decode rd = (Inr (h2, b2), rd2) \<and> un_msg js b2 = Inr (a2, d2) \<and> un_login js d2 = Inr (1, m))"
    using rest by (auto simp: login_step_None assertLoginOK_None)
  show ?thesis
    using c oc closed d(1) d(2)[unfolded parseRegisterResp_Inr register_outcome_Inr] sent login by blast
qed

definition ex_js :: json_env where
  "ex_js = \<lparr>un_msg = (\<lambda>b. if b = [] then Inl (Err ''unexpected end of JSON input'') else Inr (''r'', b)),
     un_register = (\<lambda>d. Inr \<lparr>rr_Code = 1, rr_NodeID = ucast (hd d), rr_Msg = [], rr_Status = '' Approved'', rr_RequestID = [], rr_Reason = []\<rparr>),
     un_login = (\<lambda>d. Inr (1, [])), ma_register = (\<lambda>i p. [1]), ma_login = (\<lambda>i. [2])\<rparr>"

definition ex_reply :: "byte \<Rightarrow> Frame" where
  "ex_reply b = \<lparr>Header = Some (HTcp zero_header), Payload = [b]\<rparr>"

definition ex_reg_conn :: reg_conn where
  "ex_reg_conn = \<lparr>cn_in = \<lparr>avail = frame_bytes (ex_reply 9) @ frame_bytes (ex_reply 1) @ [], fin = EOF\<rparr>, cn_sent = [], cn_closed = 0\<rparr>"

definition ex_reg_opts :: SelfRegisterOptions where
  "ex_reg_opts = \<lparr>so_ParentAddr = [], so_Dial = Some (Inr (Some ex_reg_conn)), so_SelfID = ''node'', so_JoinPermit = '' '',
     so_Timeout = 0, so_DialTimeout = 1, so_DoLogin = True\<rparr>"

abbreviation ex_SelfRegister :: "(u32 \<times> string \<times> reg_error option) \<times> reg_conn option" where
  "ex_SelfRegister \<equiv> SelfRegister ex_js id (\<lambda>_ _. Inl (Err ''no network'')) (\<lambda>_. False) (\<lambda>_. None) ex_reg_opts"

lemma ex_approved: "ToLower id (TrimSpace '' Approved'') = ''approved''"
  by code_simp

lemma ex_register: "\<exists>c. ex_SelfRegister = ((9, [], None), Some c)"
proof -
  let ?r1 = "(cn_in ex_reg_conn)\<lparr>avail := frame_bytes (ex_reply 1) @ []\<rparr>"
  have d1: "Decode (cn_in ex_reg_conn) = (Inr (received (ex_reply 9)), ?r1)"
    by (rule tcp_codec.dec_enc) (simp_all add: ex_reg_conn_def ex_reply_def)
  have d2: "Decode ?r1 = (Inr (received (ex_reply 1)), ?r1\<lparr>avail := []\<rparr>)"
    by (rule tcp_codec.dec_enc) (simp_all add: ex_reply_def)
  have "parseRegisterResp ex_js id h [9] = Inr (9, [])" for h
    by (simp add: parseRegisterResp_Inr register_outcome_Inr ex_js_def ex_approved)
  moreover have "assertLoginOK ex_js [1] = None" by (simp add: assertLoginOK_None ex_js_def)
  ultimately show ?thesis
    using d1 d2 by (simp add: SelfRegister_def ex_reg_opts_def dialSelfRegisterConn_def register_step_unfold recvFrame_def
        received_def) (simp add: ex_reply_def login_step_def sendFrame_def runConnOp_def recvFrame_def)
qed

theorem self_register_success_witness:
  "\<exists>c' h b rd resp. snd ex_SelfRegister = Some c' \<and> cn_closed ex_reg_conn < cn_closed c'
     \<and> Decode (cn_in ex_reg_conn) = (Inr (h, b), rd) \<and> un_register ex_js b = Inr resp \<and> rr_NodeID resp = 9 \<and> rr_Code resp = 1
     \<and> cn_sent c' = [register_request ex_js ex_reg_opts, (boot_header 9 2, [2])]"
proof -
  obtain c where c: "ex_SelfRegister = ((9, [], None), Some c)" using ex_register by blast
  have dial: "dialSelfRegisterConn (\<lambda>_ _. Inl (Err ''no network'')) (reg_defaults ex_reg_opts) = Inr ex_reg_conn"
    by (simp add: dialSelfRegisterConn_def ex_reg_opts_def)
  show ?thesis
    using self_register_success[OF c] unfolding dial c
    by (auto simp: ex_js_def ex_reg_opts_def ex_reg_conn_def split: if_splits)
qed

text \<open>
  Nothing is left behind. On every path through \<open>SelfRegister\<close>, whichever operation fails or loses
  against the context, a connection that was dialed has been closed when the function returns;
  no connection means missing options or a failed dial. The node id is not zero exactly on
  success, and no path returns a credential.
\<close>

theorem self_register_closes:
  "case SelfRegister js ulow DialContext done sends opts of
     ((n, cred, e), oc) \<Rightarrow> cred = [] \<and> (e = None \<longleftrightarrow> n \<noteq> 0)
       \<and> (case oc of
            None \<Rightarrow> \<not> reg_ready opts \<or> (\<exists>err. dialSelfRegisterConn DialContext (reg_defaults opts) = Inl err)
          | Some c' \<Rightarrow> \<exists>c. dialSelfRegisterConn DialContext (reg_defaults opts) = Inr c \<and> cn_closed c < cn_closed c')"
proof (cases "reg_ready opts")
  case False
  then obtain e where "SelfRegister js ulow DialContext done sends opts = ((0, [], Some e), None)"
    using SelfRegister_not_ready by blast
  with False show ?thesis by simp
next
  case True
  show ?thesis
  proof (cases "dialSelfRegisterConn DialContext (reg_defaults opts)")
    case (Inl e)
    then show ?thesis by (simp add: SelfRegister_ready[OF True])
  next
    case (Inr c)
    obtain r c1 where r: "register_step js ulow done sends (reg_defaults opts) c = (r, c1)" by force
    have "cn_closed c < cn_closed (reg_Close c1)" using register_step_closes[OF r] by (simp add: reg_Close_def)
    moreover have "n \<noteq> 0 \<and> cred = []" if "r = Inr (n, cred)" for n cred
      using r that by (auto simp: register_step_Inr parseRegisterResp_Inr register_outcome_Inr)
    ultimately show ?thesis
      using r Inr by (cases r) (auto simp: SelfRegister_ready[OF True])
  qed
qed

theorem self_register_closes_witness:
  "reg_ready ex_reg_opts \<and> (\<exists>c'. ex_SelfRegister = ((9, [], None), Some c') \<and> cn_closed ex_reg_conn < cn_closed c')"
proof -
  obtain c where c: "ex_SelfRegister = ((9, [], None), Some c)" using ex_register by blast
  have dial: "dialSelfRegisterConn (\<lambda>_ _. Inl (Err ''no network'')) (reg_defaults ex_reg_opts) = Inr ex_reg_conn"
    by (simp add: dialSelfRegisterConn_def ex_reg_opts_def)
  have "case ex_SelfRegister of ((n, cred, e), oc) \<Rightarrow> cred = [] \<and> (e = None \<longleftrightarrow> n \<noteq> 0)
       \<and> (case oc of
            None \<Rightarrow> \<not> reg_ready ex_reg_opts
              \<or> (\<exists>err. dialSelfRegisterConn (\<lambda>_ _. Inl (Err ''no network'')) (reg_defaults ex_reg_opts) = Inl err)
          | Some c' \<Rightarrow> \<exists>c. dialSelfRegisterConn (\<lambda>_ _. Inl (Err ''no network'')) (reg_defaults ex_reg_opts) = Inr c
              \<and> cn_closed c < cn_closed c')"
    by (rule self_register_closes)
  then show ?thesis
    unfolding c dial by (simp add: reg_ready_def ex_reg_opts_def)
qed

text \<open>
  Registration completes. With a working connection, a parent that answers in time and a response
  frame that grants a node id, \<open>SelfRegister\<close> returns that id, whatever the header of the frame and
  the action in its body say; with login requested the second frame has to carry code 1 as well.
\<close>

theorem self_register_completes:
  assumes "reg_ready opts" "dialSelfRegisterConn DialContext (reg_defaults opts) = Inr c"
    and "\<forall>i. \<not> done i \<and> sends i = None"
    and "avail (cn_in c) = frame_bytes f1 @ (if so_DoLogin opts then frame_bytes f2 else []) @ rest"
    and "length (Payload f1) < 2 ^ 32" "length (Payload f2) < 2 ^ 32"
    and "un_msg js (Payload f1) = Inr (a, d)" "un_register js d = Inr resp"
    and "rr_Code resp = 1" "rr_NodeID resp \<noteq> 0" "ToLower ulow (TrimSpace (rr_Status resp)) \<notin> {''pending'', ''rejected''}"
    and "un_msg js (Payload f2) = Inr (a2, d2)" "un_login js d2 = Inr (1, m)"
  shows "fst (SelfRegister js ulow DialContext done sends opts) = (rr_NodeID resp, [], None)"
proof -
  let ?c = "c\<lparr>cn_sent := cn_sent c @ [register_request js opts], cn_in := cn_in c\<lparr>avail := (if so_DoLogin opts then frame_bytes f2 else []) @ rest\<rparr>\<rparr>"
  have d1: "Decode (cn_in c) = (Inr (received f1), (cn_in c)\<lparr>avail := (if so_DoLogin opts then frame_bytes f2 else []) @ rest\<rparr>)"
    by (rule tcp_codec.dec_enc[OF assms(5,4)])
  have p1: "parseRegisterResp js ulow h (Payload f1) = Inr (rr_NodeID resp, [])" for h
    using assms(7-11) by (simp add: parseRegisterResp_Inr register_outcome_Inr)
  have "\<exists>c'. so_DoLogin opts \<longrightarrow> login_step js done sends (so_SelfID opts) (rr_NodeID resp) ?c = (None, c')"
  proof (cases "so_DoLogin opts")
    case True
    have "Decode (cn_in ?c) = (Inr (received f2), (cn_in ?c)\<lparr>avail := rest\<rparr>)"
      by (rule tcp_codec.dec_enc[OF assms(6)]) (simp add: True)
    then show ?thesis using assms(3,12,13) by (auto simp: login_step_None assertLoginOK_None received_def)
  qed simp
  then obtain c' where l: "so_DoLogin opts \<longrightarrow> login_step js done sends (so_SelfID opts) (rr_NodeID resp) ?c = (None, c')" by blast
  have "\<exists>c''. register_step js ulow done sends (reg_defaults opts) c = (Inr (rr_NodeID resp, []), c'')"
    unfolding register_step_Inr using d1 p1 assms(3) l by (auto simp: received_def Let_def)
  then show ?thesis using assms(2) by (auto simp: SelfRegister_ready[OF assms(1)])
qed

theorem self_register_completes_witness: "fst ex_SelfRegister = (9, [], None)"
proof -
  let ?r = "\<lparr>rr_Code = 1, rr_NodeID = 9, rr_Msg = [], rr_Status = '' Approved'', rr_RequestID = [], rr_Reason = []\<rparr>"
  have "fst ex_SelfRegister = (rr_NodeID ?r, [], None)"
  proof (rule self_register_completes)
    show "reg_ready ex_reg_opts" by (simp add: reg_ready_def ex_reg_opts_def)
    show "dialSelfRegisterConn (\<lambda>_ _. Inl (Err ''no network'')) (reg_defaults ex_reg_opts) = Inr ex_reg_conn"
      by (simp add: dialSelfRegisterConn_def ex_reg_opts_def)
    show "avail (cn_in ex_reg_conn) = frame_bytes (ex_reply 9) @ (if so_DoLogin ex_reg_opts then frame_bytes (ex_reply 1) else []) @ []"
      by (simp add: ex_reg_conn_def ex_reg_opts_def)
    show "un_msg ex_js (Payload (ex_reply 9)) = Inr (''r'', [9])" "un_register ex_js [9] = Inr ?r"
      "un_msg ex_js (Payload (ex_reply 1)) = Inr (''r'', [1])" "un_login ex_js [1] = Inr (1, [])"
      by (simp_all add: ex_js_def ex_reply_def)
    show "ToLower id (TrimSpace (rr_Status ?r)) \<notin> {''pending'', ''rejected''}" by (simp add: ex_approved)
  qed (simp_all add: ex_reply_def)
  then show ?thesis by simp
qed

end
