(* ===== verification/Go_Url.thy ===== *)
theory Go_Url
  imports Hub_Prelude Go_Strings
begin

text \<open>
  The parts of Go's standard library that the endpoint parsers use: \<^verbatim>\<open>url.Parse\<close> and \<^verbatim>\<open>Query\<close> of
  net/url, \<^verbatim>\<open>net.SplitHostPort\<close>, encoding/hex and a few functions of strings, as of Go 1.25, the
  version of go.mod. Of a parsed URL the scheme, the host, the path and the raw query are kept,
  the fields the repository reads; all errors of net/url are one error value. A host that starts
  with a bracket is an IP literal, whose syntax differs between patch releases: its parser is the
  argument \<open>lit\<close>.
\<close>


section \<open>Strings\<close>

text \<open>\<open>strings.Cut\<close> around a one-byte separator: before, after, found.\<close>

definition Cut :: "char \<Rightarrow> string \<Rightarrow> string \<times> string \<times> bool" where
  "Cut c s = (takeWhile (\<lambda>x. x \<noteq> c) s, tl (dropWhile (\<lambda>x. x \<noteq> c) s), c \<in> set s)"

text \<open>The string cut at the last occurrence of a byte: before and after it.\<close>

definition CutLast :: "char \<Rightarrow> string \<Rightarrow> (string \<times> string) option" where
  "CutLast c s =
     (if c \<in> set s
      then Some (rev (tl (dropWhile (\<lambda>x. x \<noteq> c) (rev s))), rev (takeWhile (\<lambda>x. x \<noteq> c) (rev s)))
      else None)"

text \<open>\<open>strings.ReplaceAll\<close> of one byte by a string.\<close>

definition ReplaceAll :: "char \<Rightarrow> string \<Rightarrow> string \<Rightarrow> string" where
  "ReplaceAll c t s = concat (map (\<lambda>x. if x = c then t else [x]) s)"

text \<open>\<open>strings.Trim\<close> with a cutset of single bytes.\<close>

definition Trim :: "char set \<Rightarrow> string \<Rightarrow> string" where
  "Trim cs s = rev (dropWhile (\<lambda>c. c \<in> cs) (rev (dropWhile (\<lambda>c. c \<in> cs) s)))"

definition upper_char :: "char \<Rightarrow> char" where
  "upper_char c =
     (if 97 \<le> (of_char c :: nat) \<and> (of_char c :: nat) \<le> 122 then char_of (of_char c - 32 :: nat) else c)"

text \<open>\<open>strings.ToUpper\<close>; its effect on a string that is not ASCII is a parameter.\<close>

definition ToUpper :: "(string \<Rightarrow> string) \<Rightarrow> string \<Rightarrow> string" where
  "ToUpper uup s = (if is_ascii s then map upper_char s else uup s)"

definition between :: "char \<Rightarrow> char \<Rightarrow> char \<Rightarrow> bool" where
  "between lo hi c = ((of_char lo :: nat) \<le> of_char c \<and> (of_char c :: nat) \<le> of_char hi)"

definition is_alpha :: "char \<Rightarrow> bool" where
  "is_alpha c = (between CHR ''a'' CHR ''z'' c \<or> between CHR ''A'' CHR ''Z'' c)"

definition is_digit :: "char \<Rightarrow> bool" where
  "is_digit c = between CHR ''0'' CHR ''9'' c"


section \<open>Hexadecimal\<close>

definition ishex :: "char \<Rightarrow> bool" where
  "ishex c = (is_digit c \<or> between CHR ''a'' CHR ''f'' c \<or> between CHR ''A'' CHR ''F'' c)"

definition unhex :: "char \<Rightarrow> byte" where
  "unhex c =
     (if is_digit c then of_char c - of_char CHR ''0''
      else if between CHR ''a'' CHR ''f'' c then of_char c - of_char CHR ''a'' + 10
      else if between CHR ''A'' CHR ''F'' c then of_char c - of_char CHR ''A'' + 10
      else 0)"

definition hex_lower :: "nat \<Rightarrow> char" where
  "hex_lower d = char_of (if d < 10 then 48 + d else 87 + d)"

definition hex_upper :: "nat \<Rightarrow> char" where
  "hex_upper d = char_of (if d < 10 then 48 + d else 55 + d)"

text \<open>\<open>hex.EncodeToString\<close> and \<open>hex.DecodeString\<close>; \<open>None\<close> is an error.\<close>

definition EncodeToString :: "byte list \<Rightarrow> string" where
  "EncodeToString bs = concat (map (\<lambda>b. [hex_lower (unat b div 16), hex_lower (unat b mod 16)]) bs)"

fun DecodeString :: "string \<Rightarrow> byte list option" where
  "DecodeString [] = Some []"
| "DecodeString [c] = None"
| "DecodeString (c # d # s) =
     (if ishex c \<and> ishex d then map_option (\<lambda>bs. (push_bit 4 (unhex c) OR unhex d) # bs) (DecodeString s) else None)"


section \<open>Percent encoding\<close>

datatype url_mode = encodePath | encodeHost | encodeUserPassword | encodeQueryComponent | encodeFragment

text \<open>Whether a byte must be escaped in a host.\<close>

definition shouldEscape_host :: "char \<Rightarrow> bool" where
  "shouldEscape_host c = (\<not> (is_alpha c \<or> is_digit c \<or> c \<in> set ''!$&'' \<or> c = CHR 0x27 \<or> c \<in> set ''()*+,;=:[]<>\"-_.~''))"

fun unescape :: "url_mode \<Rightarrow> string \<Rightarrow> string option" where
  "unescape mode [] = Some []"
| "unescape mode (c # s) =
     (if c = CHR ''%'' then
        (case s of
           a # b # t \<Rightarrow>
             if \<not> ishex a \<or> \<not> ishex b then None
             else if mode = encodeHost \<and> unhex a < 8 \<and> [a, b] \<noteq> ''25'' then None
             else map_option (\<lambda>r. char_of (unat (push_bit 4 (unhex a) OR unhex b)) # r) (unescape mode t)
         | _ \<Rightarrow> None)
      else if c = CHR ''+'' \<and> mode = encodeQueryComponent then map_option (\<lambda>r. CHR '' '' # r) (unescape mode s)
      else if mode = encodeHost \<and> (of_char c :: nat) < 128 \<and> shouldEscape_host c then None
      else map_option (\<lambda>r. c # r) (unescape mode s))"


section \<open>url.Parse\<close>

record url =
  u_Scheme :: string
  u_Host :: string
  u_Path :: string
  u_RawQuery :: string

definition errURL :: error where "errURL = Err ''net/url''"

definition containsCTL :: "string \<Rightarrow> bool" where
  "containsCTL s = list_ex (\<lambda>c. (of_char c :: nat) < 32 \<or> c = CHR 0x7F) s"

fun scheme_loop :: "string \<Rightarrow> string \<Rightarrow> (string \<times> string) option option" where
  "scheme_loop acc [] = Some None"
| "scheme_loop acc (c # s) =
     (if is_alpha c then scheme_loop (acc @ [c]) s
      else if is_digit c \<or> c \<in> set ''+-.'' then (if acc = [] then Some None else scheme_loop (acc @ [c]) s)
      else if c = CHR '':'' then (if acc = [] then None else Some (Some (acc, s)))
      else Some None)"

text \<open>\<open>getScheme\<close>: scheme and rest; \<open>None\<close> is the error for a missing scheme.\<close>

definition getScheme :: "string \<Rightarrow> (string \<times> string) option" where
  "getScheme raw = (case scheme_loop [] raw of None \<Rightarrow> None | Some None \<Rightarrow> Some ([], raw) | Some (Some p) \<Rightarrow> Some p)"

text \<open>The argument starts with the colon, if it is not empty.\<close>

definition validOptionalPort :: "string \<Rightarrow> bool" where
  "validOptionalPort port =
     (case port of [] \<Rightarrow> True | c # s \<Rightarrow> c = CHR '':'' \<and> list_all is_digit s)"

definition parseHost :: "(string \<Rightarrow> string option) \<Rightarrow> string \<Rightarrow> string option" where
  "parseHost lit host =
     (if HasPrefix host ''['' then lit host
      else (case CutLast CHR '':'' host of
              Some (front, port) \<Rightarrow>
                if validOptionalPort (CHR '':'' # port) then unescape encodeHost host else None
            | None \<Rightarrow> unescape encodeHost host))"

definition validUserinfo :: "string \<Rightarrow> bool" where
  "validUserinfo s = list_all (\<lambda>c. is_alpha c \<or> is_digit c \<or> c \<in> set ''-._:~!$&()*+,;=%@'' \<or> c = CHR 0x27) s"

definition userinfo_ok :: "string \<Rightarrow> bool" where
  "userinfo_ok s =
     (validUserinfo s \<and>
      (case Cut CHR '':'' s of
         (user, pass, found) \<Rightarrow>
           if found then unescape encodeUserPassword user \<noteq> None \<and> unescape encodeUserPassword pass \<noteq> None
           else unescape encodeUserPassword s \<noteq> None))"

definition parseAuthority :: "(string \<Rightarrow> string option) \<Rightarrow> string \<Rightarrow> string option" where
  "parseAuthority lit authority =
     (case CutLast CHR ''@'' authority of
        None \<Rightarrow> parseHost lit authority
      | Some (userinfo, host) \<Rightarrow>
          (case parseHost lit host of None \<Rightarrow> None | Some h \<Rightarrow> if userinfo_ok userinfo then Some h else None))"

definition url_parse_rest :: "(string \<Rightarrow> string option) \<Rightarrow> string \<Rightarrow> string \<Rightarrow> url option" where
  "url_parse_rest lit scheme rest0 =
     (let (rest, query, found) = Cut CHR ''?'' rest0;
          u = \<lparr>u_Scheme = scheme, u_Host = [], u_Path = [], u_RawQuery = query\<rparr>
      in if \<not> HasPrefix rest ''/'' \<and> scheme \<noteq> [] then Some u
         else if \<not> HasPrefix rest ''/'' \<and> CHR '':'' \<in> set (fst (Cut CHR ''/'' rest)) then None
         else if (scheme \<noteq> [] \<or> \<not> HasPrefix rest ''///'') \<and> HasPrefix rest ''//''
         then let authority = takeWhile (\<lambda>c. c \<noteq> CHR ''/'') (drop 2 rest);
                  path = dropWhile (\<lambda>c. c \<noteq> CHR ''/'') (drop 2 rest)
              in (case parseAuthority lit authority of
                    None \<Rightarrow> None
                  | Some host \<Rightarrow> map_option (\<lambda>p. u\<lparr>u_Host := host, u_Path := p\<rparr>) (unescape encodePath path))
         else map_option (\<lambda>p. u\<lparr>u_Path := p\<rparr>) (unescape encodePath rest))"

definition url_Parse :: "(string \<Rightarrow> string option) \<Rightarrow> string \<Rightarrow> url option" where
  "url_Parse lit rawURL =
     (let (raw, frag, found) = Cut CHR ''#'' rawURL
      in if containsCTL raw then None
         else if raw = ''*'' then
           (if frag = [] \<or> unescape encodeFragment frag \<noteq> None
            then Some \<lparr>u_Scheme = [], u_Host = [], u_Path = ''*'', u_RawQuery = []\<rparr> else None)
         else (case getScheme raw of
                 None \<Rightarrow> None
               | Some (scheme, rest) \<Rightarrow>
                   (case url_parse_rest lit (map lower_char scheme) rest of
                      None \<Rightarrow> None
                    | Some u \<Rightarrow> if frag = [] \<or> unescape encodeFragment frag \<noteq> None then Some u else None)))"

text \<open>\<open>Query().Get\<close>: the first value of a key, the empty string without one. Bad pairs are skipped.\<close>

definition query_pair :: "string \<Rightarrow> (string \<times> string) list" where
  "query_pair s =
     (if CHR '';'' \<in> set s \<or> s = [] then []
      else (case Cut CHR ''='' s of
              (k, v, found) \<Rightarrow>
                (case (unescape encodeQueryComponent k, unescape encodeQueryComponent v) of
                   (Some k', Some v') \<Rightarrow> [(k', v')]
                 | _ \<Rightarrow> [])))"

definition query_Get :: "string \<Rightarrow> string \<Rightarrow> string" where
  "query_Get rawQuery key =
     (case map_of (concat (map query_pair (Split CHR ''&'' rawQuery))) key of Some v \<Rightarrow> v | None \<Rightarrow> [])"


section \<open>net.SplitHostPort\<close>

text \<open>The host and the port of \<open>host:port\<close>, \<open>[host]:port\<close> or \<open>[host%zone]:port\<close>; \<open>None\<close> is an error.\<close>

definition SplitHostPort :: "string \<Rightarrow> (string \<times> string) option" where
  "SplitHostPort hostport =
     (case CutLast CHR '':'' hostport of
        None \<Rightarrow> None
      | Some (front, port) \<Rightarrow>
          if HasPrefix hostport ''['' then
            (case Cut CHR '']'' hostport of
               (opened, rest, found) \<Rightarrow>
                 if \<not> found then None
                 else if rest = [] then None
                 else if rest = CHR '':'' # port
                 then (if CHR ''['' \<in> set (tl opened) \<or> CHR ''['' \<in> set rest \<or> CHR '']'' \<in> set rest then None
                       else Some (tl opened, port))
                 else None)
          else if CHR '':'' \<in> set front then None
          else if CHR ''['' \<in> set hostport \<or> CHR '']'' \<in> set hostport then None
          else Some (front, port))"


section \<open>Parsing plain text\<close>

lemma Cut_notin: "c \<notin> set s \<Longrightarrow> Cut c s = (s, [], False)"
  by (induction s) (auto simp: Cut_def)

lemma Cut_append: "c \<notin> set s \<Longrightarrow> Cut c (s @ c # t) = (s, t, True)"
  by (induction s) (auto simp: Cut_def)

lemma CutLast_append:
  assumes "c \<notin> set t"
  shows "CutLast c (s @ c # t) = Some (s, t)"
proof -
  have "takeWhile (\<lambda>x. x \<noteq> c) (rev t @ c # rev s) = rev t" "dropWhile (\<lambda>x. x \<noteq> c) (rev t @ c # rev s) = c # rev s"
    using Cut_append[of c "rev t" "rev s"] assms by (auto simp: Cut_def takeWhile_append dropWhile_append)
  then show ?thesis by (simp add: CutLast_def)
qed

definition escape_free :: "url_mode \<Rightarrow> char \<Rightarrow> bool" where
  "escape_free mode c =
     (c \<noteq> CHR ''%'' \<and> (c = CHR ''+'' \<longrightarrow> mode \<noteq> encodeQueryComponent) \<and> (mode = encodeHost \<longrightarrow> \<not> shouldEscape_host c))"

lemma unescape_plain: "list_all (escape_free mode) s \<Longrightarrow> unescape mode s = Some s"
  by (induction s) (auto simp: escape_free_def)

text \<open>Characters that stand for themselves in every part of a URL that the printers use.\<close>

definition url_plain :: "char \<Rightarrow> bool" where
  "url_plain c = (graphic c \<and> c \<notin> set ''#%&+;'')"

lemma plain_notin: "list_all url_plain s \<Longrightarrow> x \<in> set ''#%&+;'' \<Longrightarrow> x \<notin> set s"
  unfolding list_all_iff url_plain_def by blast

lemma url_plain_escape_free: "list_all url_plain s \<Longrightarrow> mode \<noteq> encodeHost \<Longrightarrow> list_all (escape_free mode) s"
  by (auto simp: list_all_iff url_plain_def escape_free_def)

lemma graphic_no_CTL: "list_all graphic s \<Longrightarrow> \<not> containsCTL s"
  by (auto simp: containsCTL_def list_ex_iff list_all_iff graphic_def)

lemma scheme_loop_append:
  "list_all (\<lambda>c. is_alpha c \<or> is_digit c \<or> c \<in> set ''+-.'') s \<Longrightarrow> acc \<noteq> [] \<Longrightarrow>
   scheme_loop acc (s @ CHR '':'' # t) = Some (Some (acc @ s, t))"
proof (induction s arbitrary: acc)
  case Nil
  have "\<not> is_alpha CHR '':''" "\<not> is_digit CHR '':''" by code_simp+
  with Nil show ?case by simp
qed auto

lemma getScheme_append:
  assumes "is_alpha c" "list_all (\<lambda>c. is_alpha c \<or> is_digit c \<or> c \<in> set ''+-.'') s"
  shows "getScheme (c # s @ CHR '':'' # t) = Some (c # s, t)"
  using scheme_loop_append[OF assms(2), of "[c]" t] assms(1) by (simp add: getScheme_def)

text \<open>The query of a list of plain key-value pairs.\<close>

definition print_query :: "(string \<times> string) list \<Rightarrow> string" where
  "print_query kvs = join CHR ''&'' (map (\<lambda>(k, v). k @ ''='' @ v) kvs)"

definition plain_pairs :: "(string \<times> string) list \<Rightarrow> bool" where
  "plain_pairs kvs = list_all (\<lambda>(k, v). list_all url_plain k \<and> CHR ''='' \<notin> set k \<and> list_all url_plain v) kvs"

lemma query_pair_plain:
  assumes "list_all url_plain k" "CHR ''='' \<notin> set k" "list_all url_plain v"
  shows "query_pair (k @ ''='' @ v) = [(k, v)]"
proof -
  have "CHR '';'' \<notin> set (k @ ''='' @ v)" using assms by (auto simp: list_all_iff url_plain_def)
  then show ?thesis
    using assms Cut_append[OF assms(2), of v] by (simp add: query_pair_def unescape_plain url_plain_escape_free)
qed

lemma query_Get_print:
  assumes "plain_pairs kvs" "kvs \<noteq> []"
  shows "query_Get (print_query kvs) key = (case map_of kvs key of Some v \<Rightarrow> v | None \<Rightarrow> [])"
proof -
  have "Split CHR ''&'' (print_query kvs) = map (\<lambda>(k, v). k @ ''='' @ v) kvs"
    unfolding print_query_def
  proof (rule Split_join)
    show "list_all (\<lambda>w. CHR ''&'' \<notin> set w) (map (\<lambda>(k, v). k @ ''='' @ v) kvs)"
      using assms(1) by (induction kvs) (auto simp: plain_pairs_def plain_notin)
  qed (use assms(2) in simp)
  moreover have "concat (map query_pair (map (\<lambda>(k, v). k @ ''='' @ v) kvs)) = kvs"
    using assms(1) by (induction kvs) (auto simp: plain_pairs_def query_pair_plain[simplified])
  ultimately show ?thesis by (simp only: query_Get_def)
qed

lemma graphic_print_query:
  assumes "plain_pairs kvs"
  shows "list_all (\<lambda>c. graphic c \<and> c \<noteq> CHR ''#'') (print_query kvs)"
proof -
  have eq: "graphic CHR ''=''" by (simp add: graphic_def)
  have plain: "list_all (\<lambda>c. graphic c \<and> c \<noteq> CHR ''#'') s" if "list_all url_plain s" for s
    using that by (rule list.pred_mono_strong) (simp add: url_plain_def)
  show ?thesis
    unfolding print_query_def
  proof (rule list_all_join)
    show "list_all (list_all (\<lambda>c. graphic c \<and> c \<noteq> CHR ''#'')) (map (\<lambda>(k, v). k @ ''='' @ v) kvs)"
      using assms by (induction kvs) (auto simp: plain_pairs_def plain eq)
  qed (simp add: graphic_def)
qed

text \<open>URLs with an authority, and what is left of one without.\<close>

lemma url_Parse_split:
  assumes "is_alpha c" "list_all (\<lambda>c. is_alpha c \<or> is_digit c \<or> c \<in> set ''+-.'') s"
    and "list_all graphic (c # s @ CHR '':'' # t)" "CHR ''#'' \<notin> set (c # s @ CHR '':'' # t)"
  shows "url_Parse lit (c # s @ CHR '':'' # t) = url_parse_rest lit (map lower_char (c # s)) t"
proof -
  have "c # s @ CHR '':'' # t \<noteq> ''*''" by simp
  then show ?thesis
    using getScheme_append[OF assms(1,2), of t] graphic_no_CTL[OF assms(3)]
    unfolding url_Parse_def Cut_notin[OF assms(4)] by (simp split: option.splits)
qed

lemma while_append:
  "c \<notin> set a \<Longrightarrow> p = [] \<or> hd p = c \<Longrightarrow> takeWhile (\<lambda>x. x \<noteq> c) (a @ p) = a \<and> dropWhile (\<lambda>x. x \<noteq> c) (a @ p) = p"
  by (induction a) (cases p, auto)

lemma url_parse_rest_authority:
  assumes "scheme \<noteq> []" "CHR ''/'' \<notin> set a" "CHR ''?'' \<notin> set a" "CHR ''?'' \<notin> set p" "p = [] \<or> hd p = CHR ''/''"
    "list_all (escape_free encodePath) p"
  shows "url_parse_rest lit scheme (''//'' @ a @ p @ ''?'' @ q) =
    map_option (\<lambda>h. \<lparr>u_Scheme = scheme, u_Host = h, u_Path = p, u_RawQuery = q\<rparr>) (parseAuthority lit a)"
proof -
  have cut: "Cut CHR ''?'' (''//'' @ a @ p @ ''?'' @ q) = (''//'' @ a @ p, q, True)"
    using Cut_append[of "CHR ''?''" "''//'' @ a @ p" q] assms(3,4) by simp
  show ?thesis
    using assms(1) while_append[OF assms(2,5)] unescape_plain[OF assms(6)]
    unfolding url_parse_rest_def cut by (simp add: HasPrefix_def Let_def split: option.splits)
qed

end
