(* ===== verification/Bluetooth_Addr.thy ===== *)
theory Bluetooth_Addr
  imports Go_Url
begin

text \<open>
  Bluetooth addresses and service UUIDs as text and as the numbers the operating systems want:
  \<open>normalizeBDAddr\<close> and \<open>isUUIDLike\<close> of \<^verbatim>\<open>rfcomm_listener/endpoint.go\<close>, \<^verbatim>\<open>hex.go\<close>, the address
  conversions of \<^verbatim>\<open>native_linux.go\<close> and \<^verbatim>\<open>native_windows.go\<close> and the object paths of
  \<^verbatim>\<open>bluez_linux.go\<close>. Strings are byte strings. The loops of the source range over runes; a byte
  of 0x80 or more fails every test they make, as the rune it belongs to does.
\<close>


section \<open>Definitions\<close>

definition fromHex :: "char \<Rightarrow> byte option" where
  "fromHex c =
     (if between CHR ''0'' CHR ''9'' c then Some (of_char c - of_char CHR ''0'')
      else if between CHR ''a'' CHR ''f'' c then Some (of_char c - of_char CHR ''a'' + 10)
      else if between CHR ''A'' CHR ''F'' c then Some (of_char c - of_char CHR ''A'' + 10)
      else None)"

definition strconvHexByte :: "string \<Rightarrow> byte result" where
  "strconvHexByte twoHex =
     (case twoHex of
        [h, l] \<Rightarrow>
          (case fromHex h of
             None \<Rightarrow> Inl (Err ''invalid hex'')
           | Some hi \<Rightarrow>
               (case fromHex l of
                  None \<Rightarrow> Inl (Err ''invalid hex'')
                | Some lo \<Rightarrow> Inr (push_bit 4 hi OR lo)))
      | _ \<Rightarrow> Inl (Err ''invalid hex byte''))"

definition upper_hex :: "char \<Rightarrow> bool" where
  "upper_hex c = (between CHR ''0'' CHR ''9'' c \<or> between CHR ''A'' CHR ''F'' c)"

text \<open>The slices \<open>s[0:2]\<close>, \<open>s[2:4]\<close>, ... of a string of twelve bytes.\<close>

definition gslice :: "nat \<Rightarrow> nat \<Rightarrow> 'a list \<Rightarrow> 'a list" where
  "gslice i j s = take (j - i) (drop i s)"

definition normalizeBDAddr :: "(string \<Rightarrow> string) \<Rightarrow> string \<Rightarrow> string result" where
  "normalizeBDAddr uup raw0 =
     (let raw = TrimSpace raw0
      in if raw = [] then Inl (Err ''empty'')
         else let s = ToUpper uup (ReplaceAll CHR ''.'' [] (ReplaceAll CHR ''-'' [] (ReplaceAll CHR '':'' [] raw)))
              in if length s \<noteq> 12 then Inl (Err ''length, want 12 hex chars'')
                 else if \<not> list_all upper_hex s then Inl (Err ''invalid hex char'')
                 else Inr (join CHR '':'' [gslice 0 2 s, gslice 2 4 s, gslice 4 6 s, gslice 6 8 s, gslice 8 10 s, gslice 10 12 s]))"

definition isUUIDLike :: "string \<Rightarrow> bool" where
  "isUUIDLike s =
     (length s = 36 \<and>
      (\<forall>i < 36. if i \<in> {8, 13, 18, 23} then s ! i = CHR ''-''
                else between CHR ''0'' CHR ''9'' (s ! i) \<or> between CHR ''a'' CHR ''f'' (s ! i)
                     \<or> between CHR ''A'' CHR ''F'' (s ! i)))"

text \<open>The six octets of an address text, in the order of the text.\<close>

fun hex_bytes :: "string list \<Rightarrow> byte list result" where
  "hex_bytes [] = Inr []"
| "hex_bytes (p # ps) =
     (case strconvHexByte p of
        Inl e \<Rightarrow> Inl e
      | Inr b \<Rightarrow> (case hex_bytes ps of Inl e \<Rightarrow> Inl e | Inr bs \<Rightarrow> Inr (b # bs)))"

text \<open>Linux: an array of six bytes, the last octet first.\<close>

definition bdAddrToRFCOMMAddrLE :: "(string \<Rightarrow> string) \<Rightarrow> string \<Rightarrow> byte list result" where
  "bdAddrToRFCOMMAddrLE uup bdaddr =
     (case normalizeBDAddr uup (TrimSpace bdaddr) of
        Inl e \<Rightarrow> Inl e
      | Inr bd \<Rightarrow>
          (let parts = Split CHR '':'' bd
           in if length parts \<noteq> 6 then Inl (Err ''invalid bdaddr'')
              else hex_bytes (map (\<lambda>i. parts ! (5 - i)) [0..<6])))"

text \<open>Windows: a 64-bit integer, the first octet in the highest place.\<close>

definition bdAddrToBTHAddr :: "(string \<Rightarrow> string) \<Rightarrow> string \<Rightarrow> u64 result" where
  "bdAddrToBTHAddr uup bdaddr =
     (case normalizeBDAddr uup (TrimSpace bdaddr) of
        Inl e \<Rightarrow> Inl e
      | Inr bd \<Rightarrow>
          (let parts = Split CHR '':'' bd
           in if length parts \<noteq> 6 then Inl (Err ''invalid bdaddr'')
              else (case hex_bytes parts of
                      Inl e \<Rightarrow> Inl e
                    | Inr b \<Rightarrow> Inr (push_bit 40 (ucast (b ! 0)) OR push_bit 32 (ucast (b ! 1)) OR push_bit 24 (ucast (b ! 2))
                                 OR push_bit 16 (ucast (b ! 3)) OR push_bit 8 (ucast (b ! 4)) OR ucast (b ! 5)))))"

text \<open>The format \<^verbatim>\<open>%02X\<close> of a byte.\<close>

definition print_octet :: "byte \<Rightarrow> string" where
  "print_octet b = [hex_upper (unat b div 16), hex_upper (unat b mod 16)]"

definition bthAddrToBDAddr :: "u64 \<Rightarrow> string" where
  "bthAddrToBDAddr addr =
     join CHR '':'' (map print_octet
       [ucast (drop_bit 40 addr), ucast (drop_bit 32 addr), ucast (drop_bit 24 addr),
        ucast (drop_bit 16 addr), ucast (drop_bit 8 addr), ucast addr])"

text \<open>BlueZ object paths.\<close>

definition bluezDeviceObjectPath :: "(string \<Rightarrow> string) \<Rightarrow> string \<Rightarrow> string \<Rightarrow> string" where
  "bluezDeviceObjectPath uup adapter0 bdaddr0 =
     (let adapter = TrimSpace adapter0;
          adapter = (if adapter = [] then ''hci0'' else adapter);
          bdaddr = (case normalizeBDAddr uup bdaddr0 of Inr bd \<Rightarrow> bd | Inl e \<Rightarrow> [])
      in ''/org/bluez/'' @ adapter @ ''/'' @ ''dev_'' @ ReplaceAll CHR '':'' ''_'' bdaddr)"

text \<open>What follows the last occurrence of a string: \<open>strings.LastIndex\<close> and the gslice after it.\<close>

fun after_last :: "string \<Rightarrow> string \<Rightarrow> string option" where
  "after_last p [] = (if p = [] then Some [] else None)"
| "after_last p (c # s) =
     (case after_last p s of
        Some t \<Rightarrow> Some t
      | None \<Rightarrow> if HasPrefix (c # s) p then Some (drop (length p) (c # s)) else None)"

definition bluezBDAddrFromDevicePath :: "(string \<Rightarrow> string) \<Rightarrow> string \<Rightarrow> string" where
  "bluezBDAddrFromDevicePath uup device =
     (case after_last ''/dev_'' device of
        None \<Rightarrow> []
      | Some tail \<Rightarrow>
          if tail = [] then []
          else (case normalizeBDAddr uup (ReplaceAll CHR ''_'' '':'' tail) of Inr bd \<Rightarrow> bd | Inl e \<Rightarrow> []))"

definition newBluezProfilePath :: "string \<Rightarrow> u64 \<Rightarrow> string \<times> u64" where
  "newBluezProfilePath kind0 seq =
     (let kind = TrimSpace kind0;
          kind = (if kind = [] then ''rfcomm'' else kind);
          n = seq + 1
      in (''/github/yttydcs/myflowhub/rfcomm/'' @ kind @ ''/p'' @ itoa (unat n), n))"

record GUID =
  Data1 :: u32
  Data2 :: u16
  Data3 :: u16
  Data4 :: "byte list"

text \<open>
  The loop of \<open>uuidToGUID\<close>: \<open>b\<close> holds the octets read so far, whose number is \<open>j / 2\<close>; a dash is
  skipped only where an octet would start.
\<close>

fun guid_loop :: "byte list \<Rightarrow> string \<Rightarrow> byte list option" where
  "guid_loop b [] = (if length b \<noteq> 16 then None else Some b)"
| "guid_loop b (c # s) =
     (if c = CHR ''-'' then guid_loop b s
      else if length b \<ge> 16 then None
      else (case fromHex c of
              None \<Rightarrow> None
            | Some hi \<Rightarrow>
                (case s of
                   [] \<Rightarrow> None
                 | d # t \<Rightarrow> (case fromHex d of None \<Rightarrow> None | Some lo \<Rightarrow> guid_loop (b @ [push_bit 4 hi OR lo]) t))))"

definition ErrEndpointUUIDInvalid :: error where "ErrEndpointUUIDInvalid = Err ''rfcomm endpoint uuid invalid''"

definition uuidToGUID :: "(string \<Rightarrow> string) \<Rightarrow> string \<Rightarrow> GUID result" where
  "uuidToGUID ulow uuid0 =
     (let uuid = ToLower ulow (TrimSpace uuid0)
      in if \<not> isUUIDLike uuid then Inl ErrEndpointUUIDInvalid
         else (case guid_loop [] uuid of
                 None \<Rightarrow> Inl ErrEndpointUUIDInvalid
               | Some b \<Rightarrow>
                   Inr \<lparr>Data1 = push_bit 24 (ucast (b ! 0)) OR push_bit 16 (ucast (b ! 1)) OR push_bit 8 (ucast (b ! 2))
                                  OR ucast (b ! 3),
                        Data2 = push_bit 8 (ucast (b ! 4)) OR ucast (b ! 5),
                        Data3 = push_bit 8 (ucast (b ! 6)) OR ucast (b ! 7),
                        Data4 = gslice 8 16 b\<rparr>))"


section \<open>Hexadecimal digits\<close>

lemma of_char_hex_upper: "d < 16 \<Longrightarrow> (of_char (hex_upper d) :: nat) = (if d < 10 then 48 + d else 55 + d)"
  by (simp add: hex_upper_def)

lemma hex_upper_digit:
  assumes "d < 16"
  shows "fromHex (hex_upper d) = Some (of_nat d)" "upper_hex (hex_upper d)" "upper_char (hex_upper d) = hex_upper d"
    "graphic (hex_upper d)" "hex_upper d \<notin> set '':-._/''" "(of_char (hex_upper d) :: nat) < 128"
proof -
  note n = of_char_hex_upper[OF assms]
  have w: "(of_char (hex_upper d) :: byte) = of_nat (if d < 10 then 48 + d else 55 + d)"
    unfolding n[symmetric] by (rule of_nat_of_char[symmetric])
  show "fromHex (hex_upper d) = Some (of_nat d)"
    using assms by (simp add: fromHex_def between_def n w)
  show "upper_hex (hex_upper d)" "upper_char (hex_upper d) = hex_upper d" "graphic (hex_upper d)"
    "(of_char (hex_upper d) :: nat) < 128"
    using assms by (auto simp: upper_hex_def between_def upper_char_def graphic_def n)
  have "c \<noteq> hex_upper d" if "(of_char c :: nat) \<in> {45, 46, 47, 58, 95}" for c
    using that n assms by (auto split: if_splits)
  from this[of "CHR '':''"] this[of "CHR ''-''"] this[of "CHR ''.''"] this[of "CHR ''_''"] this[of "CHR ''/''"]
  show "hex_upper d \<notin> set '':-._/''" by simp
qed

lemma upper_hexE:
  assumes "upper_hex c"
  obtains d where "d < 16" "c = hex_upper d"
proof -
  consider "48 \<le> (of_char c :: nat)" "(of_char c :: nat) \<le> 57" | "65 \<le> (of_char c :: nat)" "(of_char c :: nat) \<le> 70"
    using assms by (auto simp: upper_hex_def between_def)
  then show thesis
  proof cases
    case 1
    then have "hex_upper (of_char c - 48) = c" by (auto simp: hex_upper_def)
    then show thesis using that[of "of_char c - 48"] 1 by simp
  next
    case 2
    then have "hex_upper (of_char c - 55) = c" by (auto simp: hex_upper_def)
    then show thesis using that[of "of_char c - 55"] 2 by simp
  qed
qed

definition octet :: "nat \<Rightarrow> nat \<Rightarrow> byte" where
  "octet h l = of_nat (16 * h + l)"

lemma unat_octet: "h < 16 \<Longrightarrow> l < 16 \<Longrightarrow> unat (octet h l) = 16 * h + l"
  unfolding octet_def by (subst unat_of_nat) (simp add: take_bit_eq_mod)

lemma octet_join:
  assumes "h < 16" "l < 16"
  shows "push_bit 4 (of_nat h) OR of_nat l = octet h l"
proof -
  have "\<not> bit (of_nat l :: byte) n" if "4 \<le> n" for n
  proof -
    have "l div 2 ^ n = 0" using assms(2) power_increasing[OF that, of "2 :: nat"] by simp
    then have "\<not> bit l n" by (simp add: bit_iff_odd)
    then show ?thesis by (simp add: bit_of_nat_iff)
  qed
  then have "push_bit 4 (of_nat h) + of_nat l = (push_bit 4 (of_nat h) OR of_nat l :: byte)"
    by (intro disjunctive_add) (auto simp: bit_push_bit_iff)
  then show ?thesis by (simp add: octet_def push_bit_eq_mult mult.commute)
qed

lemma print_octet_join: "h < 16 \<Longrightarrow> l < 16 \<Longrightarrow> print_octet (octet h l) = [hex_upper h, hex_upper l]"
  by (simp add: print_octet_def unat_octet)

lemma print_octet_digits: obtains h l where "h < 16" "l < 16" "b = octet h l" "print_octet b = [hex_upper h, hex_upper l]"
proof
  have "unat b < 256" using unsigned_less[of b, where 'a = nat] by simp
  then show "unat b div 16 < 16" "unat b mod 16 < 16" by auto
  show "b = octet (unat b div 16) (unat b mod 16)" by (simp add: octet_def flip: of_nat_add of_nat_mult)
qed (simp add: print_octet_def)

lemma strconvHexByte_print [simp]: "strconvHexByte (print_octet b) = Inr b"
  by (rule print_octet_digits[of b]) (simp add: strconvHexByte_def hex_upper_digit octet_join)

lemma hex_bytes_print [simp]: "hex_bytes (map print_octet bs) = Inr bs"
  by (induction bs) simp_all


section \<open>Canonical addresses\<close>

definition print_bd :: "byte list \<Rightarrow> string" where
  "print_bd bs = join CHR '':'' (map print_octet bs)"

lemma ReplaceAll_Nil: "ReplaceAll c [] s = filter (\<lambda>x. x \<noteq> c) s"
  by (induction s) (simp_all add: ReplaceAll_def)

lemma six: "length xs = 6 \<longleftrightarrow> (\<exists>a b c d e f. xs = [a, b, c, d, e, f])"
  by (auto simp: numeral_eq_Suc length_Suc_conv)

lemma twelve: "length xs = 12 \<longleftrightarrow> (\<exists>a b c d e f g h i j k l. xs = [a, b, c, d, e, f, g, h, i, j, k, l])"
  by (auto simp: numeral_eq_Suc length_Suc_conv)

lemma print_octet_no_sep: "c \<in> set '':-._/'' \<Longrightarrow> c \<notin> set (print_octet b)"
  by (rule print_octet_digits[of b]) (use hex_upper_digit(5) in \<open>metis empty_iff empty_set insert_iff list.simps(15)\<close>)

lemma print_octet_filter: "c \<in> set '':-._/'' \<Longrightarrow> filter (\<lambda>x. x \<noteq> c) (print_octet b) = print_octet b"
  using print_octet_no_sep[of c b] by (metis (mono_tags, lifting) filter_True)

lemma print_octet_upper: "map upper_char (print_octet b) = print_octet b" "list_all upper_hex (print_octet b)"
  "list_all graphic (print_octet b)" "is_ascii (print_octet b)" "length (print_octet b) = 2"
  by (rule print_octet_digits[of b]; simp add: hex_upper_digit is_ascii_def)+

lemma is_ascii_append: "is_ascii (s @ t) \<longleftrightarrow> is_ascii s \<and> is_ascii t"
  by (simp add: is_ascii_def)

lemma Split_print_bd: "length bs = 6 \<Longrightarrow> Split CHR '':'' (print_bd bs) = map print_octet bs"
  unfolding print_bd_def using print_octet_no_sep[of "CHR '':''"]
  by (intro Split_join) (auto simp: list_all_iff)

lemma TrimSpace_print_bd: "length bs = 6 \<Longrightarrow> TrimSpace (print_bd bs) = print_bd bs"
  unfolding print_bd_def
  by (intro TrimSpace_graphic list_all_join) (simp_all add: graphic_def list_all_iff print_octet_upper(3)[unfolded list_all_iff graphic_def])

lemma strip_print_bd:
  assumes "length bs = 6"
  shows "ReplaceAll CHR ''.'' [] (ReplaceAll CHR ''-'' [] (ReplaceAll CHR '':'' [] (print_bd bs))) = concat (map print_octet bs)"
proof -
  obtain a b c d e f where "bs = [a, b, c, d, e, f]" using assms by (auto simp: six)
  then show ?thesis by (simp add: print_bd_def ReplaceAll_Nil print_octet_filter)
qed

lemma slices_print:
  assumes "length bs = 6" and that: "s = concat (map print_octet bs)"
  shows "[gslice 0 2 s, gslice 2 4 s, gslice 4 6 s, gslice 6 8 s, gslice 8 10 s, gslice 10 12 s] = map print_octet bs"
proof -
  obtain a b c d e f where "bs = [a, b, c, d, e, f]" using assms by (auto simp: six)
  then show ?thesis using that by (simp add: gslice_def print_octet_def)
qed

lemma normalize_print_bd:
  assumes "length bs = 6"
  shows "normalizeBDAddr uup (print_bd bs) = Inr (print_bd bs)"
proof -
  let ?s = "concat (map print_octet bs)"
  have ne: "print_bd bs \<noteq> []" using assms by (auto simp: six print_bd_def print_octet_def)
  have u: "is_ascii ?s" "map upper_char ?s = ?s" "length ?s = 12" "list_all upper_hex ?s"
    using assms by (auto simp: six is_ascii_append print_octet_upper)
  then show ?thesis
    using ne slices_print[OF assms refl]
    by (simp add: normalizeBDAddr_def TrimSpace_print_bd[OF assms] strip_print_bd[OF assms] ToUpper_def Let_def)
      (simp add: print_bd_def)
qed

lemma normalize_canonical:
  assumes "normalizeBDAddr uup raw = Inr a"
  obtains bs where "length bs = 6" "a = print_bd bs"
proof -
  obtain s where s: "length s = 12" "list_all upper_hex s"
    "a = join CHR '':'' [gslice 0 2 s, gslice 2 4 s, gslice 4 6 s, gslice 6 8 s, gslice 8 10 s, gslice 10 12 s]"
    using assms by (auto simp: normalizeBDAddr_def Let_def split: if_splits)
  define oct where "oct h l = octet (unat (the (fromHex h))) (unat (the (fromHex l)))" for h l
  have oct: "print_octet (oct h l) = [h, l]" if hl: "upper_hex h" "upper_hex l" for h l
  proof -
    obtain i where "i < 16" "h = hex_upper i" using hl(1) by (rule upper_hexE)
    moreover obtain j where "j < 16" "l = hex_upper j" using hl(2) by (rule upper_hexE)
    ultimately show ?thesis
      by (simp add: oct_def hex_upper_digit unat_of_nat take_bit_eq_mod print_octet_join)
  qed
  obtain c0 c1 c2 c3 c4 c5 c6 c7 c8 c9 ca cb where "s = [c0, c1, c2, c3, c4, c5, c6, c7, c8, c9, ca, cb]"
    using s(1) unfolding twelve by blast
  then show thesis
    using that[of "[oct c0 c1, oct c2 c3, oct c4 c5, oct c6 c7, oct c8 c9, oct ca cb]"] s(2,3)
    by (simp add: gslice_def print_bd_def oct)
qed


section \<open>The conversions\<close>

lemma TrimSpace_normalize: "normalizeBDAddr uup (TrimSpace raw) = normalizeBDAddr uup raw"
  by (simp add: normalizeBDAddr_def)

lemma bdAddrToRFCOMMAddrLE_canonical:
  assumes "normalizeBDAddr uup raw = Inr (print_bd bs)" "length bs = 6"
  shows "bdAddrToRFCOMMAddrLE uup raw = Inr (rev bs)"
proof -
  have "map (\<lambda>i. map print_octet bs ! (5 - i)) [0..<6] = map print_octet (rev bs)"
    using assms(2) by (auto simp: six upt_rec)
  then show ?thesis
    using assms by (simp add: bdAddrToRFCOMMAddrLE_def TrimSpace_normalize Split_print_bd)
qed

text \<open>The 48-bit number of six octets, and back.\<close>

definition bth_of :: "byte list \<Rightarrow> u64" where
  "bth_of b = push_bit 40 (ucast (b ! 0)) OR push_bit 32 (ucast (b ! 1)) OR push_bit 24 (ucast (b ! 2))
     OR push_bit 16 (ucast (b ! 3)) OR push_bit 8 (ucast (b ! 4)) OR ucast (b ! 5)"

definition bth_octets :: "u64 \<Rightarrow> byte list" where
  "bth_octets v = [ucast (drop_bit 40 v), ucast (drop_bit 32 v), ucast (drop_bit 24 v),
     ucast (drop_bit 16 v), ucast (drop_bit 8 v), ucast v]"

lemma bth_defs: "bthAddrToBDAddr v = print_bd (bth_octets v)" "length (bth_octets v) = 6"
  by (simp_all add: bthAddrToBDAddr_def print_bd_def bth_octets_def)

lemma bdAddrToBTHAddr_canonical:
  assumes "normalizeBDAddr uup raw = Inr (print_bd bs)" "length bs = 6"
  shows "bdAddrToBTHAddr uup raw = Inr (bth_of bs)"
  using assms by (simp add: bdAddrToBTHAddr_def TrimSpace_normalize Split_print_bd bth_of_def)

lemma bit_byte_high: "8 \<le> n \<Longrightarrow> \<not> bit (b :: byte) n"
  by (auto dest: bit_imp_le_length)

lemma bth_octets_of:
  assumes "length bs = 6"
  shows "bth_octets (bth_of bs) = bs"
proof -
  obtain a b c d e f where bs: "bs = [a, b, c, d, e, f]" using assms by (auto simp: six)
  show ?thesis
    unfolding bs bth_octets_def bth_of_def
    by (simp, intro conjI; rule bit_word_eqI) (auto simp: bit_simps bit_byte_high)
qed

lemma bth_of_octets:
  assumes "v < 2 ^ 48"
  shows "bth_of (bth_octets v) = v"
proof -
  have "unat v < 2 ^ 48"
    using assms by (simp add: word_less_nat_alt)
  then have "unat (take_bit 48 v) = unat v"
    by (simp add: unsigned_take_bit_eq take_bit_nat_eq_self)
  then have "v = take_bit 48 v"
    by (simp only: word_unat_eq_iff)
  then have high: "\<not> bit v n" if "48 \<le> n" for n
    using that by (metis bit_take_bit_iff not_less)
  show ?thesis
  proof (rule bit_word_eqI)
    fix n assume n: "n < LENGTH(64)"
    consider "n < 8" | "8 \<le> n" "n < 16" | "16 \<le> n" "n < 24" | "24 \<le> n" "n < 32" | "32 \<le> n" "n < 40"
      | "40 \<le> n" "n < 48" | "48 \<le> n" by linarith
    then show "bit (bth_of (bth_octets v)) n = bit v n"
      unfolding bth_octets_def bth_of_def using n by cases (auto simp: bit_simps high less_diff_conv2)
  qed
qed

lemma bth_of_less: "bth_of bs < 2 ^ 48"
proof -
  have byte: "bit (c :: byte) n \<Longrightarrow> n < 8" for c n
    by (auto dest: bit_imp_le_length)
  have "n < 48" if "bit (bth_of bs) n" for n
    using that unfolding bth_of_def by (fastforce simp: bit_simps dest!: byte)
  then have "take_bit 48 (bth_of bs) = bth_of bs"
    by (intro bit_word_eqI) (auto simp: bit_take_bit_iff)
  then have "unat (bth_of bs) = take_bit 48 (unat (bth_of bs))"
    by (metis unsigned_take_bit_eq)
  then have "unat (bth_of bs) < 2 ^ 48"
    by (metis take_bit_nat_less_exp)
  then show ?thesis by (simp add: word_less_nat_alt)
qed

text \<open>Object paths: after the last \<^verbatim>\<open>/dev_\<close> comes the address with underscores.\<close>

lemma after_last_none:
  assumes "CHR ''/'' \<notin> set s" "p = CHR ''/'' # q"
  shows "after_last p s = None"
  using assms by (induction s) (auto simp: HasPrefix_def)

lemma after_last_append:
  assumes "CHR ''/'' \<notin> set q" "CHR ''/'' \<notin> set t" "p = CHR ''/'' # q"
  shows "after_last p (u @ p @ t) = Some t"
proof (induction u)
  case Nil
  have "after_last p (q @ t) = None"
    using after_last_none[of "q @ t" p q] assms by simp
  then show ?case using assms(3) by (simp add: HasPrefix_def)
next
  case (Cons c u)
  then show ?case by simp
qed

lemma path_print_bd:
  assumes "length bs = 6"
  shows "ReplaceAll CHR ''_'' '':'' (ReplaceAll CHR '':'' ''_'' (print_bd bs)) = print_bd bs"
    "CHR ''/'' \<notin> set (ReplaceAll CHR '':'' ''_'' (print_bd bs))"
proof -
  have id: "ReplaceAll c t (print_octet b) = print_octet b" if "c \<in> set '':-._/''" for c t b
  proof -
    have "\<forall>x \<in> set (print_octet b). x \<noteq> c" using print_octet_no_sep[OF that] by metis
    then have "map (\<lambda>x. if x = c then t else [x]) (print_octet b) = map (\<lambda>x. [x]) (print_octet b)"
      by (intro map_cong) auto
    then show ?thesis
      using concat_map_singleton[of "\<lambda>x. x" "print_octet b"] by (simp add: ReplaceAll_def del: map_eq_conv)
  qed
  have app: "ReplaceAll c t (x @ y) = ReplaceAll c t x @ ReplaceAll c t y"
    and cons: "ReplaceAll c t (z # y) = (if z = c then t else [z]) @ ReplaceAll c t y" for c t x y z
    by (simp_all add: ReplaceAll_def)
  obtain a b c d e f where bs: "bs = [a, b, c, d, e, f]" using assms by (auto simp: six)
  show "ReplaceAll CHR ''_'' '':'' (ReplaceAll CHR '':'' ''_'' (print_bd bs)) = print_bd bs"
    by (simp add: bs print_bd_def app cons id)
  show "CHR ''/'' \<notin> set (ReplaceAll CHR '':'' ''_'' (print_bd bs))"
    using print_octet_no_sep[of "CHR ''/''"] by (simp add: bs print_bd_def app cons id)
qed

lemma device_path_roundtrip:
  assumes "normalizeBDAddr uup raw = Inr (print_bd bs)" "length bs = 6"
  shows "bluezBDAddrFromDevicePath uup (bluezDeviceObjectPath uup adapter raw) = print_bd bs"
proof -
  let ?t = "ReplaceAll CHR '':'' ''_'' (print_bd bs)"
  define u where "u = ''/org/bluez/'' @ (if TrimSpace adapter = [] then ''hci0'' else TrimSpace adapter)"
  have u: "bluezDeviceObjectPath uup adapter raw = u @ ''/dev_'' @ ?t"
    using assms(1) by (simp add: bluezDeviceObjectPath_def Let_def u_def)
  have "print_bd bs \<noteq> []" using assms(2) by (auto simp: six print_bd_def print_octet_def)
  then have "?t \<noteq> []" by (cases "print_bd bs") (simp_all add: ReplaceAll_def)
  moreover have "after_last ''/dev_'' (u @ ''/dev_'' @ ?t) = Some ?t"
    by (rule after_last_append[of "''dev_''"]) (simp_all add: path_print_bd(2)[OF assms(2)])
  ultimately show ?thesis
    by (simp add: u bluezBDAddrFromDevicePath_def path_print_bd(1)[OF assms(2)] normalize_print_bd[OF assms(2)])
qed

section \<open>Service UUIDs\<close>

lemma fromHex_lower:
  assumes "ishex c"
  obtains d where "d < 16" "fromHex c = Some (of_nat d)" "lower_char c = hex_lower d"
proof -
  let ?n = "of_char c :: nat"
  have w: "(of_char c :: byte) = of_nat ?n"
    by (rule of_nat_of_char[symmetric])
  consider "48 \<le> ?n" "?n \<le> 57" | "97 \<le> ?n" "?n \<le> 102" | "65 \<le> ?n" "?n \<le> 70"
    using assms by (auto simp: ishex_def is_digit_def between_def)
  then show thesis
  proof cases
    case 1
    then have "fromHex c = Some (of_nat (?n - 48))" by (simp add: fromHex_def between_def w of_nat_diff)
    moreover have "?n - 48 < 16" "lower_char c = hex_lower (?n - 48)"
      using 1 by (auto simp: lower_char_def hex_lower_def)
    ultimately show thesis using that by blast
  next
    case 2
    then have "fromHex c = Some (of_nat (?n - 87))" by (simp add: fromHex_def between_def w of_nat_diff)
    moreover have "?n - 87 < 16" "lower_char c = hex_lower (?n - 87)"
      using 2 by (auto simp: lower_char_def hex_lower_def)
    ultimately show thesis using that by blast
  next
    case 3
    then have "fromHex c = Some (of_nat (?n - 55))" by (simp add: fromHex_def between_def w of_nat_diff)
    moreover have "?n - 55 < 16" "lower_char c = hex_lower (?n - 55)"
      using 3 by (auto simp: lower_char_def hex_lower_def)
    ultimately show thesis using that by blast
  qed
qed

text \<open>The octets of a string of hexadecimal digits print as the string in lower case.\<close>

fun hex_octets :: "string \<Rightarrow> byte list" where
  "hex_octets (c # d # s) = (push_bit 4 (the (fromHex c)) OR the (fromHex d)) # hex_octets s"
| "hex_octets _ = []"

lemma hex_octets_pair:
  assumes "ishex c" "ishex d"
  obtains h l where "h < 16" "l < 16" "fromHex c = Some (of_nat h)" "fromHex d = Some (of_nat l)"
    "hex_octets (c # d # s) = octet h l # hex_octets s" "print_octet (octet h l) = [hex_upper h, hex_upper l]"
    "map lower_char [c, d] = [hex_lower h, hex_lower l]"
proof -
  obtain h where h: "h < 16" "fromHex c = Some (of_nat h)" "lower_char c = hex_lower h"
    using assms(1) by (rule fromHex_lower)
  obtain l where l: "l < 16" "fromHex d = Some (of_nat l)" "lower_char d = hex_lower l"
    using assms(2) by (rule fromHex_lower)
  show thesis using that[OF h(1) l(1) h(2) l(2)] h l by (simp add: octet_join print_octet_join)
qed

lemma hex_octets_print:
  "list_all ishex s \<Longrightarrow> even (length s) \<Longrightarrow>
   length (hex_octets s) = length s div 2 \<and> EncodeToString (hex_octets s) = map lower_char s"
proof (induction s rule: hex_octets.induct)
  case (1 c d s)
  then have "ishex c" "ishex d" by simp_all
  then obtain h l where "h < 16" "l < 16" "hex_octets (c # d # s) = octet h l # hex_octets s"
    "map lower_char [c, d] = [hex_lower h, hex_lower l]"
    by (rule hex_octets_pair)
  then show ?case using 1 by (simp add: EncodeToString_def unat_octet)
qed (simp_all add: EncodeToString_def)

lemma guid_loop_hex:
  "list_all ishex s \<Longrightarrow> even (length s) \<Longrightarrow> length b + length s div 2 \<le> 16 \<Longrightarrow>
   guid_loop b (s @ t) = guid_loop (b @ hex_octets s) t"
proof (induction s arbitrary: b rule: hex_octets.induct)
  case (1 c d s)
  then have hex: "ishex c" "ishex d" by simp_all
  then obtain h l where "h < 16" "l < 16" "fromHex c = Some (of_nat h)" "fromHex d = Some (of_nat l)"
    "hex_octets (c # d # s) = octet h l # hex_octets s"
    by (rule hex_octets_pair)
  moreover have "c \<noteq> CHR ''-''" using hex by (auto simp: ishex_def is_digit_def between_def)
  ultimately show ?case using 1(1)[of "b @ [octet h l]"] 1(2-4) by (simp add: octet_join)
qed simp_all

lemma isUUIDLike_groups:
  assumes "isUUIDLike s"
  obtains g1 g2 g3 g4 g5 where "s = g1 @ CHR ''-'' # g2 @ CHR ''-'' # g3 @ CHR ''-'' # g4 @ CHR ''-'' # g5"
    "length g1 = 8" "length g2 = 4" "length g3 = 4" "length g4 = 4" "length g5 = 12"
    "list_all ishex g1" "list_all ishex g2" "list_all ishex g3" "list_all ishex g4" "list_all ishex g5"
proof -
  have len: "length s = 36" using assms by (simp add: isUUIDLike_def)
  have dash: "s ! i = CHR ''-''" if "i \<in> {8, 13, 18, 23}" for i
    using assms that by (auto simp: isUUIDLike_def)
  have hex: "ishex (s ! i)" if "i < 36" "i \<notin> {8, 13, 18, 23}" for i
    using assms that by (auto simp: isUUIDLike_def ishex_def is_digit_def)
  have grp: "list_all ishex (gslice i j s)" if "j \<le> 36" "\<forall>k\<in>{8, 13, 18, 23}. k < i \<or> j \<le> k" for j i
    using that len by (auto simp: gslice_def list_all_length intro!: hex)
  have cut: "drop i s = gslice i j s @ s ! j # drop (Suc j) s" if "i \<le> j" "j < 36" for i j
  proof -
    have "drop i s = gslice i j s @ drop (j - i) (drop i s)" by (simp only: gslice_def append_take_drop_id)
    then show ?thesis using that len by (simp add: Cons_nth_drop_Suc)
  qed
  have last: "drop 24 s = gslice 24 36 s" using len by (simp add: gslice_def)
  have "s = gslice 0 8 s @ s ! 8 # gslice 9 13 s @ s ! 13 # gslice 14 18 s @ s ! 18 # gslice 19 23 s @ s ! 23 # gslice 24 36 s"
    using cut[of 0 8] cut[of 9 13] cut[of 14 18] cut[of 19 23] last by simp
  moreover have "length (gslice i j s) = j - i" if "i \<le> j" "j \<le> 36" for i j
    using that len by (simp add: gslice_def)
  ultimately show thesis
    using that[of "gslice 0 8 s" "gslice 9 13 s" "gslice 14 18 s" "gslice 19 23 s" "gslice 24 36 s"] dash
      grp[of 8 0] grp[of 13 9] grp[of 18 14] grp[of 23 19] grp[of 36 24] by simp
qed

lemma isUUIDLike_hex:
  "isUUIDLike s \<longleftrightarrow> length s = 36 \<and> (\<forall>i < 36. if i \<in> {8, 13, 18, 23} then s ! i = CHR ''-'' else ishex (s ! i))"
  by (simp add: isUUIDLike_def ishex_def is_digit_def disj_assoc)

lemma isUUIDLike_lower:
  assumes "isUUIDLike s"
  shows "isUUIDLike (map lower_char s)"
proof -
  have hex: "ishex (lower_char c)" if "ishex c" for c
    using that by (auto simp: ishex_def is_digit_def between_def lower_char_def)
  have dash: "lower_char CHR ''-'' = CHR ''-''" by code_simp
  show ?thesis using assms unfolding isUUIDLike_hex by (auto simp: hex dash)
qed

lemma guid_loop_uuid:
  assumes "isUUIDLike s"
  obtains b where "length b = 16" "guid_loop [] s = Some b"
    "map lower_char s = join CHR ''-'' (map EncodeToString [gslice 0 4 b, gslice 4 6 b, gslice 6 8 b, gslice 8 10 b, gslice 10 16 b])"
proof -
  obtain g1 g2 g3 g4 g5 where s: "s = g1 @ CHR ''-'' # g2 @ CHR ''-'' # g3 @ CHR ''-'' # g4 @ CHR ''-'' # g5"
    and len: "length g1 = 8" "length g2 = 4" "length g3 = 4" "length g4 = 4" "length g5 = 12"
    and hex: "list_all ishex g1" "list_all ishex g2" "list_all ishex g3" "list_all ishex g4" "list_all ishex g5"
    using isUUIDLike_groups[OF assms] by metis
  let ?b = "concat (map hex_octets [g1, g2, g3, g4, g5])"
  have oct: "length (hex_octets g) = length g div 2 \<and> EncodeToString (hex_octets g) = map lower_char g"
    if "g \<in> {g1, g2, g3, g4, g5}" for g
    using that hex len by (intro hex_octets_print) auto
  have "guid_loop [] s = Some ?b"
    unfolding s using len oct guid_loop_hex[OF hex(5), of _ "[]"] by (simp add: guid_loop_hex hex)
  moreover have "map lower_char s = join CHR ''-'' (map (\<lambda>g. EncodeToString (hex_octets g)) [g1, g2, g3, g4, g5])"
    using oct len by (simp add: s lower_char_def)
  ultimately show thesis
    using that[of ?b] oct len by (simp add: gslice_def)
qed

text \<open>A GUID in the text form of a UUID: the fields big-endian, in hexadecimal.\<close>

definition guid_octets :: "GUID \<Rightarrow> byte list" where
  "guid_octets g =
     [ucast (drop_bit 24 (Data1 g)), ucast (drop_bit 16 (Data1 g)), ucast (drop_bit 8 (Data1 g)), ucast (Data1 g),
      ucast (drop_bit 8 (Data2 g)), ucast (Data2 g), ucast (drop_bit 8 (Data3 g)), ucast (Data3 g)] @ Data4 g"

definition print_guid :: "GUID \<Rightarrow> string" where
  "print_guid g =
     (let b = guid_octets g
      in join CHR ''-'' (map EncodeToString [gslice 0 4 b, gslice 4 6 b, gslice 6 8 b, gslice 8 10 b, gslice 10 16 b]))"

lemma u32_octets:
  fixes a b c d :: byte
  defines "v \<equiv> push_bit 24 (ucast a) OR push_bit 16 (ucast b) OR push_bit 8 (ucast c) OR ucast d :: u32"
  shows "ucast (drop_bit 24 v) = a" "ucast (drop_bit 16 v) = b" "ucast (drop_bit 8 v) = c" "ucast v = d"
  unfolding v_def by (rule bit_word_eqI, auto simp: bit_simps bit_byte_high)+

lemma u16_octets:
  fixes a b :: byte
  defines "v \<equiv> push_bit 8 (ucast a) OR ucast b :: u16"
  shows "ucast (drop_bit 8 v) = a" "ucast v = b"
  unfolding v_def by (rule bit_word_eqI, auto simp: bit_simps bit_byte_high)+

lemma guid_octets_fields:
  "guid_octets \<lparr>Data1 = push_bit 24 (ucast a0) OR push_bit 16 (ucast a1) OR push_bit 8 (ucast a2) OR ucast a3,
     Data2 = push_bit 8 (ucast a4) OR ucast a5, Data3 = push_bit 8 (ucast a6) OR ucast a7, Data4 = d\<rparr>
   = [a0, a1, a2, a3, a4, a5, a6, a7] @ d"
  by (simp only: guid_octets_def GUID.select_convs u32_octets u16_octets)

lemma list8:
  assumes "length b = 16"
  shows "b = map ((!) b) [0..<8] @ gslice 8 16 b"
proof -
  have "b = take 8 b @ drop 8 b" by simp
  moreover have "take 8 b = map ((!) b) [0..<8]" using assms by (intro nth_equalityI) auto
  moreover have "gslice 8 16 b = drop 8 b" using assms by (simp add: gslice_def)
  ultimately show ?thesis by simp
qed

lemma uuidToGUID_prints:
  assumes "isUUIDLike (ToLower ulow (TrimSpace u))"
  obtains g where "uuidToGUID ulow u = Inr g" "length (Data4 g) = 8"
    "print_guid g = map lower_char (ToLower ulow (TrimSpace u))"
proof -
  let ?s = "ToLower ulow (TrimSpace u)"
  obtain b where b: "length b = 16" "guid_loop [] ?s = Some b"
    "map lower_char ?s = join CHR ''-'' (map EncodeToString [gslice 0 4 b, gslice 4 6 b, gslice 6 8 b, gslice 8 10 b, gslice 10 16 b])"
    using guid_loop_uuid[OF assms] by metis
  define g where "g = \<lparr>Data1 = push_bit 24 (ucast (b ! 0)) OR push_bit 16 (ucast (b ! 1)) OR push_bit 8 (ucast (b ! 2))
       OR ucast (b ! 3), Data2 = push_bit 8 (ucast (b ! 4)) OR ucast (b ! 5),
       Data3 = push_bit 8 (ucast (b ! 6)) OR ucast (b ! 7), Data4 = gslice 8 16 b\<rparr>"
  have ok: "uuidToGUID ulow u = Inr g"
    using assms b(2) by (simp add: uuidToGUID_def g_def)
  have "guid_octets g = map ((!) b) [0..<8] @ gslice 8 16 b"
    unfolding g_def guid_octets_fields by (simp add: upt_rec numeral_eq_Suc)
  then have "guid_octets g = b" using list8[OF b(1)] by simp
  moreover have "length (Data4 g) = 8"
    using b(1) by (simp add: g_def gslice_def)
  ultimately show thesis
    using that[OF ok] b(3) by (simp add: print_guid_def Let_def)
qed



section \<open>Properties\<close>

lemma bdAddrToBTHAddr_roundtrip:
  assumes "v < 2 ^ 48"
  shows "bdAddrToBTHAddr uup (bthAddrToBDAddr v) = Inr v"
  using bdAddrToBTHAddr_canonical[OF normalize_print_bd[OF bth_defs(2)] bth_defs(2)] assms
  by (simp add: bth_defs(1) bth_of_octets)

text \<open>
  C38. One address, four notations. Whenever a Bluetooth address text is accepted, its normal form is
  six octets printed in upper case with colons, which normalisation leaves alone; the Linux
  address is these octets in reverse order; the Windows address is a number below \<open>2\<^sup>4\<^sup>8\<close> that
  prints as the normal form again; and the BlueZ object path of the device, on any adapter,
  leads back to the normal form.
\<close>

theorem bd_addr_conversions:
  assumes "normalizeBDAddr uup raw = Inr a"
  shows "\<exists>bs v. length bs = 6 \<and> a = join CHR '':'' (map print_octet bs) \<and> normalizeBDAddr uup a = Inr a
    \<and> bdAddrToRFCOMMAddrLE uup raw = Inr (rev bs)
    \<and> bdAddrToBTHAddr uup raw = Inr v \<and> v < 2 ^ 48 \<and> bthAddrToBDAddr v = a
    \<and> bluezBDAddrFromDevicePath uup (bluezDeviceObjectPath uup adapter raw) = a"
proof -
  obtain bs where bs: "length bs = 6" "a = print_bd bs"
    using assms by (rule normalize_canonical)
  with assms have n: "normalizeBDAddr uup raw = Inr (print_bd bs)" by simp
  show ?thesis
    using bs(1) normalize_print_bd[OF bs(1)] bdAddrToRFCOMMAddrLE_canonical[OF n bs(1)]
      bdAddrToBTHAddr_canonical[OF n bs(1)] device_path_roundtrip[OF n bs(1), of adapter] bth_octets_of[OF bs(1)]
    unfolding bs(2) by (intro exI[of _ bs] exI[of _ "bth_of bs"]) (simp add: bth_of_less[simplified] bth_defs(1) print_bd_def)
qed

theorem bd_addr_conversions_witness:
  "normalizeBDAddr id '' aa-bb-cc-dd-ee-f1 '' = Inr ''AA:BB:CC:DD:EE:F1''
   \<and> (\<exists>bs v. length bs = 6 \<and> ''AA:BB:CC:DD:EE:F1'' = join CHR '':'' (map print_octet bs)
        \<and> bdAddrToRFCOMMAddrLE id '' aa-bb-cc-dd-ee-f1 '' = Inr (rev bs)
        \<and> bdAddrToBTHAddr id '' aa-bb-cc-dd-ee-f1 '' = Inr v \<and> v < 2 ^ 48 \<and> bthAddrToBDAddr v = ''AA:BB:CC:DD:EE:F1'')"
proof -
  have n: "normalizeBDAddr id '' aa-bb-cc-dd-ee-f1 '' = Inr ''AA:BB:CC:DD:EE:F1''" by code_simp
  then show ?thesis using bd_addr_conversions[OF n, of "''hci0''"] by blast
qed

text \<open>
  Service UUIDs as Windows GUIDs. The conversion accepts exactly the texts that, trimmed and in
  lower case, have the shape of a UUID, and the fields of the GUID, written big-endian in
  hexadecimal with dashes, spell that UUID.
\<close>

theorem uuid_to_guid_exact:
  "case uuidToGUID ulow u of
     Inl e \<Rightarrow> e = ErrEndpointUUIDInvalid \<and> \<not> isUUIDLike (ToLower ulow (TrimSpace u))
   | Inr g \<Rightarrow> isUUIDLike (ToLower ulow (TrimSpace u)) \<and> length (Data4 g) = 8
       \<and> print_guid g = map lower_char (ToLower ulow (TrimSpace u))"
proof (cases "isUUIDLike (ToLower ulow (TrimSpace u))")
  case True
  then obtain g where "uuidToGUID ulow u = Inr g" "length (Data4 g) = 8"
    "print_guid g = map lower_char (ToLower ulow (TrimSpace u))" by (rule uuidToGUID_prints)
  with True show ?thesis by simp
qed (simp add: uuidToGUID_def)

end
