(* ===== verification/Rfcomm_Endpoint.thy ===== *)
theory Rfcomm_Endpoint
  imports Bluetooth_Addr
begin

text \<open>
  RFCOMM endpoints, addresses and options: \<^verbatim>\<open>rfcomm_listener/endpoint.go\<close>, \<^verbatim>\<open>addr.go\<close> and the option
  types of \<^verbatim>\<open>dial.go\<close> and \<^verbatim>\<open>listener.go\<close>. An error built with \<^verbatim>\<open>%w\<close> is identified with the error it
  wraps, which is what \<^verbatim>\<open>errors.Is\<close> sees. The parameters are \<open>ulow\<close> and \<open>uup\<close>, the case mappings of
  strings that are not ASCII, and \<open>lit\<close>, net/url's parser of bracketed hosts.
\<close>


section \<open>Definitions\<close>

definition EndpointSchemeRFCOMM :: string where "EndpointSchemeRFCOMM = ''bt+rfcomm''"
definition DefaultRFCOMMUUID :: string where "DefaultRFCOMMUUID = ''0eef65b8-9374-42ea-b992-6ee2d0699f5c''"

definition rfcomm_ErrEndpointEmpty :: error where "rfcomm_ErrEndpointEmpty = Err ''rfcomm endpoint is empty''"
definition rfcomm_ErrEndpointSchemeInvalid :: error where
  "rfcomm_ErrEndpointSchemeInvalid = Err ''rfcomm endpoint scheme invalid''"
definition rfcomm_ErrEndpointAddrMissing :: error where
  "rfcomm_ErrEndpointAddrMissing = Err ''rfcomm endpoint addr missing''"
definition rfcomm_ErrEndpointAddrInvalid :: error where
  "rfcomm_ErrEndpointAddrInvalid = Err ''rfcomm endpoint addr invalid''"
definition ErrEndpointChannelInvalid :: error where
  "ErrEndpointChannelInvalid = Err ''rfcomm endpoint channel invalid''"
definition ErrEndpointNameReserved :: error where
  "ErrEndpointNameReserved = Err ''rfcomm endpoint name is reserved (scan-by-name not implemented)''"
definition errAdapterEmpty :: error where "errAdapterEmpty = Err ''rfcomm endpoint adapter empty''"

record rfcomm_Endpoint =
  ep_BDAddr :: string
  ep_UUID :: string
  ep_Channel :: int
  ep_Adapter :: string
  ep_Insecure :: bool
  ep_Name :: string

definition no_Endpoint :: rfcomm_Endpoint where
  "no_Endpoint = \<lparr>ep_BDAddr = [], ep_UUID = [], ep_Channel = 0, ep_Adapter = [], ep_Insecure = False, ep_Name = []\<rparr>"

definition Endpoint_Validate :: "(string \<Rightarrow> string) \<Rightarrow> rfcomm_Endpoint \<Rightarrow> error option" where
  "Endpoint_Validate uup e =
     (if ep_BDAddr e = [] then Some rfcomm_ErrEndpointAddrMissing
      else case normalizeBDAddr uup (ep_BDAddr e) of
        Inl _ \<Rightarrow> Some rfcomm_ErrEndpointAddrInvalid
      | Inr _ \<Rightarrow>
          if ep_UUID e = [] then Some ErrEndpointUUIDInvalid
          else if \<not> isUUIDLike (ep_UUID e) then Some ErrEndpointUUIDInvalid
          else if ep_Channel e \<noteq> 0 \<and> (ep_Channel e < 1 \<or> ep_Channel e > 30) then Some ErrEndpointChannelInvalid
          else if TrimSpace (ep_Adapter e) = [] then Some errAdapterEmpty
          else if TrimSpace (ep_Name e) \<noteq> [] then Some ErrEndpointNameReserved
          else None)"

definition bool_word :: "string \<Rightarrow> bool result" where
  "bool_word s =
     (if s \<in> {''1'', ''true'', ''t'', ''yes'', ''y'', ''on''} then Inr True
      else if s \<in> {''0'', ''false'', ''f'', ''no'', ''n'', ''off''} then Inr False
      else Inl (Err ''invalid bool''))"

definition parseBool :: "(string \<Rightarrow> string) \<Rightarrow> string \<Rightarrow> bool result" where
  "parseBool ulow raw = bool_word (ToLower ulow (TrimSpace raw))"

text \<open>The channel of the query: 0 when it is missing.\<close>

definition parse_channel :: "string \<Rightarrow> int result" where
  "parse_channel rawCh =
     (if rawCh = [] then Inr 0
      else (case Atoi rawCh of
              None \<Rightarrow> Inl ErrEndpointChannelInvalid
            | Some n \<Rightarrow> if n < 1 \<or> n > 30 then Inl ErrEndpointChannelInvalid else Inr n))"

text \<open>\<open>ParseEndpoint\<close>, the part after the address: \<open>q\<close> is \<open>u.Query().Get\<close>.\<close>

definition endpoint_of_query ::
  "(string \<Rightarrow> string) \<Rightarrow> (string \<Rightarrow> string) \<Rightarrow> string \<Rightarrow> (string \<Rightarrow> string) \<Rightarrow> rfcomm_Endpoint \<times> error option" where
  "endpoint_of_query ulow uup bdaddr q =
     (let uuid0 = TrimSpace (q ''uuid'');
          uuid = ToLower ulow (if uuid0 = [] then DefaultRFCOMMUUID else uuid0)
      in if \<not> isUUIDLike uuid then (no_Endpoint, Some ErrEndpointUUIDInvalid)
         else case parse_channel (TrimSpace (q ''channel'')) of
           Inl e \<Rightarrow> (no_Endpoint, Some e)
         | Inr ch \<Rightarrow>
           let adapter0 = TrimSpace (q ''adapter'');
               adapter = (if adapter0 = [] then ''hci0'' else adapter0);
               rawSecure = TrimSpace (q ''secure'')
           in case (if rawSecure = [] then Inr True else parseBool ulow rawSecure) of
                Inl e \<Rightarrow> (no_Endpoint, Some e)
              | Inr secure \<Rightarrow>
                let name = TrimSpace (q ''name'')
                in if name \<noteq> [] then (no_Endpoint, Some ErrEndpointNameReserved)
                   else let ep = \<lparr>ep_BDAddr = bdaddr, ep_UUID = uuid, ep_Channel = ch, ep_Adapter = adapter,
                                  ep_Insecure = \<not> secure, ep_Name = name\<rparr>
                        in (ep, Endpoint_Validate uup ep))"

definition rfcomm_ParseEndpoint ::
  "(string \<Rightarrow> string) \<Rightarrow> (string \<Rightarrow> string) \<Rightarrow> (string \<Rightarrow> string option) \<Rightarrow> string \<Rightarrow> rfcomm_Endpoint \<times> error option" where
  "rfcomm_ParseEndpoint ulow uup lit raw0 =
     (let raw = TrimSpace raw0
      in if raw = [] then (no_Endpoint, Some rfcomm_ErrEndpointEmpty)
         else case url_Parse lit raw of
           None \<Rightarrow> (no_Endpoint, Some errURL)
         | Some u \<Rightarrow>
           if ToLower ulow (TrimSpace (u_Scheme u)) \<noteq> EndpointSchemeRFCOMM
           then (no_Endpoint, Some rfcomm_ErrEndpointSchemeInvalid)
           else
             let host = TrimSpace (u_Host u);
                 addrRaw = (if host = [] then TrimSpace (TrimPrefix (u_Path u) ''/'') else host)
             in if addrRaw = [] then (no_Endpoint, Some rfcomm_ErrEndpointAddrMissing)
                else case normalizeBDAddr uup addrRaw of
                  Inl _ \<Rightarrow> (no_Endpoint, Some rfcomm_ErrEndpointAddrInvalid)
                | Inr bdaddr \<Rightarrow> endpoint_of_query ulow uup bdaddr (query_Get (u_RawQuery u)))"

text \<open>Addresses for logs.\<close>

record rfcomm_Addr =
  ad_BDAddr :: string
  ad_UUID :: string
  ad_Channel :: int
  ad_Role :: string

text \<open>A part of an address text, left out when its value is blank.\<close>

definition addr_part :: "string \<Rightarrow> string \<Rightarrow> string list" where
  "addr_part key v = (let s = TrimSpace v in if s \<noteq> [] then [key @ s] else [])"

definition rfcomm_Addr_String :: "rfcomm_Addr \<Rightarrow> string" where
  "rfcomm_Addr_String a =
     (let parts = addr_part ''role='' (ad_Role a) @ addr_part ''bdaddr='' (ad_BDAddr a) @ addr_part ''uuid='' (ad_UUID a)
            @ (if ad_Channel a > 0 then [''channel='' @ itoa (nat (ad_Channel a))] else [])
      in if parts = [] then ''rfcomm'' else ''rfcomm('' @ join CHR '','' parts @ '')'')"

text \<open>Options of \<open>Dial\<close> and of the listener.\<close>

record rfcomm_DialOptions =
  do_BDAddr :: string
  do_UUID :: string
  do_Channel :: int
  do_Adapter :: string
  do_Insecure :: bool

definition DialOptions_setDefaults :: "rfcomm_DialOptions \<Rightarrow> rfcomm_DialOptions" where
  "DialOptions_setDefaults o1 =
     (let o2 = (if TrimSpace (do_UUID o1) = [] then o1\<lparr>do_UUID := DefaultRFCOMMUUID\<rparr> else o1)
      in if TrimSpace (do_Adapter o2) = [] then o2\<lparr>do_Adapter := ''hci0''\<rparr> else o2)"

definition DialOptions_Validate :: "(string \<Rightarrow> string) \<Rightarrow> rfcomm_DialOptions \<Rightarrow> error option" where
  "DialOptions_Validate uup opts =
     (if TrimSpace (do_BDAddr opts) = [] then Some (Err ''bdaddr required'')
      else case normalizeBDAddr uup (do_BDAddr opts) of
        Inl e \<Rightarrow> Some e
      | Inr _ \<Rightarrow>
          if TrimSpace (do_UUID opts) = [] \<or> \<not> isUUIDLike (do_UUID opts) then Some ErrEndpointUUIDInvalid
          else if do_Channel opts \<noteq> 0 \<and> (do_Channel opts < 1 \<or> do_Channel opts > 30) then Some ErrEndpointChannelInvalid
          else if TrimSpace (do_Adapter opts) = [] then Some (Err ''adapter empty'')
          else None)"

record rfcomm_Options =
  lo_UUID :: string
  lo_Channel :: int
  lo_Adapter :: string
  lo_Insecure :: bool

definition Options_setDefaults :: "rfcomm_Options \<Rightarrow> rfcomm_Options" where
  "Options_setDefaults o1 =
     (let o2 = (if TrimSpace (lo_UUID o1) = [] then o1\<lparr>lo_UUID := DefaultRFCOMMUUID\<rparr> else o1)
      in if TrimSpace (lo_Adapter o2) = [] then o2\<lparr>lo_Adapter := ''hci0''\<rparr> else o2)"

definition Options_Validate :: "rfcomm_Options \<Rightarrow> error option" where
  "Options_Validate opts =
     (if TrimSpace (lo_UUID opts) = [] \<or> \<not> isUUIDLike (lo_UUID opts) then Some ErrEndpointUUIDInvalid
      else if lo_Channel opts \<noteq> 0 \<and> (lo_Channel opts < 1 \<or> lo_Channel opts > 30) then Some ErrEndpointChannelInvalid
      else if TrimSpace (lo_Adapter opts) = [] then Some (Err ''adapter empty'')
      else None)"

text \<open>\<open>New\<close>: the listener's options, with defaults and a trimmed lower-case UUID.\<close>

definition rfcomm_New :: "(string \<Rightarrow> string) \<Rightarrow> rfcomm_Options \<Rightarrow> rfcomm_Options" where
  "rfcomm_New ulow opts0 =
     (let opts = Options_setDefaults opts0 in opts\<lparr>lo_UUID := ToLower ulow (TrimSpace (lo_UUID opts))\<rparr>)"

text \<open>\<open>Dial\<close> up to the native call: the options handed to \<open>dialNative\<close>, or the error.\<close>

definition dial_options :: "(string \<Rightarrow> string) \<Rightarrow> (string \<Rightarrow> string) \<Rightarrow> rfcomm_DialOptions \<Rightarrow> rfcomm_DialOptions result" where
  "dial_options ulow uup opts0 =
     (let opts1 = DialOptions_setDefaults opts0;
          opts = opts1\<lparr>do_UUID := ToLower ulow (TrimSpace (do_UUID opts1)), do_BDAddr := TrimSpace (do_BDAddr opts1)\<rparr>
      in case DialOptions_Validate uup opts of Some e \<Rightarrow> Inl e | None \<Rightarrow> Inr opts)"

definition endpoint_options :: "rfcomm_Endpoint \<Rightarrow> rfcomm_DialOptions" where
  "endpoint_options ep =
     \<lparr>do_BDAddr = ep_BDAddr ep, do_UUID = ep_UUID ep, do_Channel = ep_Channel ep, do_Adapter = ep_Adapter ep,
      do_Insecure = ep_Insecure ep\<rparr>"


section \<open>Parsed endpoints are well formed\<close>

definition lower_case :: "string \<Rightarrow> bool" where
  "lower_case s = (map lower_char s = s)"

definition endpoint_wf :: "(string \<Rightarrow> string) \<Rightarrow> rfcomm_Endpoint \<Rightarrow> bool" where
  "endpoint_wf uup ep =
     (normalizeBDAddr uup (ep_BDAddr ep) = Inr (ep_BDAddr ep) \<and> isUUIDLike (ep_UUID ep) \<and> lower_case (ep_UUID ep)
      \<and> 0 \<le> ep_Channel ep \<and> ep_Channel ep \<le> 30
      \<and> TrimSpace (ep_Adapter ep) = ep_Adapter ep \<and> ep_Adapter ep \<noteq> [] \<and> ep_Name ep = [])"

lemma normalize_nonempty: "normalizeBDAddr uup raw = Inr a \<Longrightarrow> TrimSpace raw \<noteq> [] \<and> a \<noteq> []"
  by (auto simp: normalizeBDAddr_def Let_def split: if_splits)

lemma normalize_idem: "normalizeBDAddr uup raw = Inr a \<Longrightarrow> normalizeBDAddr uup' a = Inr a"
  by (elim normalize_canonical) (simp add: normalize_print_bd)

lemma TrimSpace_bd: "normalizeBDAddr uup a = Inr a \<Longrightarrow> TrimSpace a = a"
  by (erule normalize_canonical) (simp add: TrimSpace_print_bd)

lemma uuid_graphic:
  assumes "isUUIDLike u"
  shows "list_all graphic u" "is_ascii u" "TrimSpace u = u" "u \<noteq> []"
proof -
  have "graphic (u ! i)" if "i < length u" for i
  proof (cases "i \<in> {8, 13, 18, 23}")
    case True
    then show ?thesis using assms by (auto simp: isUUIDLike_def graphic_def)
  next
    case False
    then have "ishex (u ! i)" using assms that by (auto simp: isUUIDLike_def ishex_def is_digit_def)
    then show ?thesis by (auto simp: ishex_def is_digit_def between_def graphic_def)
  qed
  then show g: "list_all graphic u" by (simp add: list_all_length)
  then show "is_ascii u" by (auto simp: is_ascii_def list_all_iff graphic_def)
  show "TrimSpace u = u" using g by (rule TrimSpace_graphic)
  show "u \<noteq> []" using assms by (auto simp: isUUIDLike_def)
qed

lemma ToLower_lower_case: "is_ascii s \<Longrightarrow> lower_case s \<Longrightarrow> ToLower ulow s = s"
  by (simp add: ToLower_def lower_case_def)

lemma lower_case_ToLower: "\<forall>s. lower_case (ulow s) \<Longrightarrow> lower_case (ToLower ulow s)"
  by (simp add: ToLower_def lower_case_def)

lemma endpoint_wf_Validate: "endpoint_wf uup ep \<Longrightarrow> Endpoint_Validate uup ep = None"
  using normalize_nonempty uuid_graphic(4) by (auto simp: endpoint_wf_def Endpoint_Validate_def)

lemma endpoint_wf_dial:
  assumes "endpoint_wf uup ep"
  shows "dial_options ulow uup (endpoint_options ep) = Inr (endpoint_options ep)"
proof -
  note wf = assms[unfolded endpoint_wf_def]
  have bd: "TrimSpace (ep_BDAddr ep) = ep_BDAddr ep" "ep_BDAddr ep \<noteq> []"
    using wf TrimSpace_bd normalize_nonempty by blast+
  have u: "TrimSpace (ep_UUID ep) = ep_UUID ep" "ep_UUID ep \<noteq> []" "ToLower ulow (ep_UUID ep) = ep_UUID ep"
    using wf uuid_graphic ToLower_lower_case by blast+
  show ?thesis
    using wf bd u
    by (auto simp: dial_options_def DialOptions_setDefaults_def endpoint_options_def DialOptions_Validate_def Let_def)
qed

lemma parse_channel_range: "parse_channel s = Inr ch \<Longrightarrow> 0 \<le> ch \<and> ch \<le> 30"
  by (auto simp: parse_channel_def split: if_splits option.splits)

lemma endpoint_of_query_cases:
  assumes "normalizeBDAddr uup bd = Inr bd" "\<forall>s. lower_case (ulow s)"
  shows "endpoint_of_query ulow uup bd q = (ep, r) \<Longrightarrow> endpoint_wf uup ep \<and> r = None \<or> ep = no_Endpoint \<and> r \<noteq> None"
proof (goal_cases)
  case 1
  define uuid where "uuid = ToLower ulow (if TrimSpace (q ''uuid'') = [] then DefaultRFCOMMUUID else TrimSpace (q ''uuid''))"
  define ad where "ad = (if TrimSpace (q ''adapter'') = [] then ''hci0'' else TrimSpace (q ''adapter''))"
  have ad: "TrimSpace ad = ad" "ad \<noteq> []"
    using TrimSpace_graphic[of "''hci0''"] by (simp_all add: ad_def graphic_def)
  have u: "lower_case uuid" using assms(2) by (simp add: uuid_def lower_case_ToLower)
  have "endpoint_wf uup \<lparr>ep_BDAddr = bd, ep_UUID = uuid, ep_Channel = ch, ep_Adapter = ad, ep_Insecure = sec, ep_Name = []\<rparr>"
    if "isUUIDLike uuid" "parse_channel c = Inr ch" for ch sec c
    using that ad u assms(1) parse_channel_range by (simp add: endpoint_wf_def)
  then show ?case
    using 1 endpoint_wf_Validate
    unfolding endpoint_of_query_def Let_def uuid_def[symmetric] ad_def[symmetric]
    by (auto split: if_splits sum.splits)
qed

lemma rfcomm_ParseEndpoint_cases:
  assumes "rfcomm_ParseEndpoint ulow uup lit raw = (ep, r)" "\<forall>s. lower_case (ulow s)"
  shows "endpoint_wf uup ep \<and> r = None \<or> ep = no_Endpoint \<and> r \<noteq> None"
proof (cases "\<exists>a bd q. normalizeBDAddr uup a = Inr bd \<and> endpoint_of_query ulow uup bd q = (ep, r)")
  case True
  then show ?thesis using endpoint_of_query_cases[OF normalize_idem assms(2)] by blast
next
  case False
  then show ?thesis using assms(1)
    by (auto simp: rfcomm_ParseEndpoint_def Let_def split: if_splits option.splits sum.splits)
qed


section \<open>Endpoint URIs\<close>

text \<open>An endpoint written as a URI with the address in the path.\<close>

definition endpoint_pairs :: "rfcomm_Endpoint \<Rightarrow> (string \<times> string) list" where
  "endpoint_pairs ep =
     (''uuid'', ep_UUID ep) # (if ep_Channel ep = 0 then [] else [(''channel'', itoa (nat (ep_Channel ep)))])
     @ [(''adapter'', ep_Adapter ep), (''secure'', if ep_Insecure ep then ''false'' else ''true'')]"

definition print_endpoint :: "rfcomm_Endpoint \<Rightarrow> string" where
  "print_endpoint ep = ''bt+rfcomm:///'' @ ep_BDAddr ep @ ''?'' @ print_query (endpoint_pairs ep)"

lemma rfcomm_scheme:
  "is_alpha CHR ''b''" "list_all (\<lambda>c. is_alpha c \<or> is_digit c \<or> c \<in> set ''+-.'') ''t+rfcomm''"
  "map lower_char ''bt+rfcomm'' = EndpointSchemeRFCOMM" "list_all (\<lambda>c. graphic c \<and> c \<noteq> CHR ''#'') ''bt+rfcomm:///''"
  "TrimSpace EndpointSchemeRFCOMM = EndpointSchemeRFCOMM"
  by code_simp+

lemma rfcomm_ToLower_scheme: "ToLower ulow EndpointSchemeRFCOMM = EndpointSchemeRFCOMM"
proof -
  have "is_ascii EndpointSchemeRFCOMM" "map lower_char EndpointSchemeRFCOMM = EndpointSchemeRFCOMM" by code_simp+
  then show ?thesis by (simp add: ToLower_def)
qed

lemma list_all_not_in: "list_all (\<lambda>c. P c \<and> c \<noteq> x) s \<Longrightarrow> x \<notin> set s \<and> list_all P s"
  by (auto simp: list_all_iff)

lemma rfcomm_ParseEndpoint_url:
  assumes "list_all (\<lambda>c. graphic c \<and> c \<noteq> CHR ''#'') (a @ p @ ''?'' @ q)"
    and "CHR ''/'' \<notin> set a" "CHR ''?'' \<notin> set a" "CHR ''?'' \<notin> set p" "p = [] \<or> hd p = CHR ''/''"
    and "list_all (escape_free encodePath) p"
  shows "rfcomm_ParseEndpoint ulow uup lit (''bt+rfcomm://'' @ a @ p @ ''?'' @ q) =
    (case parseAuthority lit a of
       None \<Rightarrow> (no_Endpoint, Some errURL)
     | Some host0 \<Rightarrow>
        let host = TrimSpace host0; addrRaw = (if host = [] then TrimSpace (TrimPrefix p ''/'') else host)
        in if addrRaw = [] then (no_Endpoint, Some rfcomm_ErrEndpointAddrMissing)
           else case normalizeBDAddr uup addrRaw of
                  Inl _ \<Rightarrow> (no_Endpoint, Some rfcomm_ErrEndpointAddrInvalid)
                | Inr bdaddr \<Rightarrow> endpoint_of_query ulow uup bdaddr (query_Get q))"
proof -
  let ?t = "''//'' @ a @ p @ ''?'' @ q" and ?raw = "''bt+rfcomm://'' @ a @ p @ ''?'' @ q"
  have raw: "?raw = CHR ''b'' # ''t+rfcomm'' @ CHR '':'' # ?t" by simp
  have all: "list_all (\<lambda>c. graphic c \<and> c \<noteq> CHR ''#'') ?raw"
    using assms(1) rfcomm_scheme(4) by simp
  have "url_Parse lit ?raw = url_parse_rest lit EndpointSchemeRFCOMM ?t"
    using url_Parse_split[OF rfcomm_scheme(1,2), of ?t lit] list_all_not_in[OF all] rfcomm_scheme(3) by simp
  also have "\<dots> = map_option (\<lambda>h. \<lparr>u_Scheme = EndpointSchemeRFCOMM, u_Host = h, u_Path = p, u_RawQuery = q\<rparr>) (parseAuthority lit a)"
    by (rule url_parse_rest_authority[OF _ assms(2-6)]) (simp add: EndpointSchemeRFCOMM_def)
  finally have u: "url_Parse lit ?raw = \<dots>" .
  obtain raw where r: "raw = ?raw" by blast
  then have "TrimSpace raw = raw" "raw \<noteq> []"
    using list_all_not_in[OF all] by (auto intro!: TrimSpace_graphic)
  then show ?thesis
    unfolding rfcomm_ParseEndpoint_def r[symmetric]
    by (cases "parseAuthority lit a") (simp_all add: u[folded r] rfcomm_scheme(5) rfcomm_ToLower_scheme Let_def cong: sum.case_cong)
qed

text \<open>The characters of an address text.\<close>

lemma upper_hex_url:
  "upper_hex c \<or> c = CHR '':'' \<Longrightarrow> graphic c \<and> c \<notin> set ''#/?@[%'' \<and> escape_free mode c"
proof -
  assume "upper_hex c \<or> c = CHR '':''"
  then consider "is_digit c" | "between CHR ''A'' CHR ''F'' c" | "c = CHR '':''"
    by (auto simp: upper_hex_def is_digit_def)
  then show ?thesis
    by cases (auto simp: is_digit_def is_alpha_def between_def graphic_def escape_free_def shouldEscape_host_def)
qed

lemma print_bd_chars: "length bs = 6 \<Longrightarrow> list_all (\<lambda>c. upper_hex c \<or> c = CHR '':'') (print_bd bs)"
proof -
  have "list_all (\<lambda>c. upper_hex c \<or> c = CHR '':'') (print_octet b)" for b
    using print_octet_upper(2)[of b] by (auto simp: list_all_iff)
  then show ?thesis unfolding print_bd_def by (intro list_all_join) (auto simp: list_all_iff)
qed

lemma print_bd_url:
  assumes "length bs = 6"
  shows "list_all (\<lambda>c. graphic c \<and> c \<noteq> CHR ''#'') (print_bd bs)" "list_all (escape_free mode) (print_bd bs)"
    "x \<in> set ''/?@['' \<Longrightarrow> x \<notin> set (print_bd bs)"
proof -
  note all = print_bd_chars[OF assms, unfolded list_all_iff]
  show "list_all (\<lambda>c. graphic c \<and> c \<noteq> CHR ''#'') (print_bd bs)" "list_all (escape_free mode) (print_bd bs)"
    using all upper_hex_url unfolding list_all_iff by auto
  show "x \<notin> set (print_bd bs)" if "x \<in> set ''/?@[''"
    using all upper_hex_url that by fastforce
qed

lemma parseAuthority_Nil: "parseAuthority lit [] = Some []"
  by (simp add: parseAuthority_def CutLast_def parseHost_def HasPrefix_def)

lemma parseAuthority_bd:
  assumes "length bs = 6"
  shows "parseAuthority lit (print_bd bs) = (if list_all is_digit (print_octet (last bs)) then Some (print_bd bs) else None)"
proof -
  have at: "CutLast CHR ''@'' (print_bd bs) = None"
    using print_bd_url(3)[OF assms, of "CHR ''@''"] by (simp add: CutLast_def)
  have br: "\<not> HasPrefix (print_bd bs) ''[''"
    using print_bd_url(3)[OF assms, of "CHR ''[''"] by (auto simp: HasPrefix_def prefix_def)
  obtain a b c d e f where bs: "bs = [a, b, c, d, e, f]" using assms by (auto simp: six)
  have "print_bd bs = print_bd [a, b, c, d, e] @ CHR '':'' # print_octet f" by (simp add: bs print_bd_def)
  then have "CutLast CHR '':'' (print_bd bs) = Some (print_bd [a, b, c, d, e], print_octet f)"
    using CutLast_append[of "CHR '':''" "print_octet f"] print_octet_no_sep[of "CHR '':''" f] by simp
  then show ?thesis
    using unescape_plain[OF print_bd_url(2)[OF assms]]
    by (simp add: parseAuthority_def at parseHost_def br validOptionalPort_def) (simp add: bs)
qed

lemma Atoi_itoa:
  assumes "int n < 2 ^ 63"
  shows "Atoi (itoa n) = Some (int n)"
proof -
  obtain c s where s: "itoa n = c # s" by (cases "itoa n") auto
  have "48 \<le> (of_char c :: nat)" using itoa_digits[of n] s by simp
  then have "c \<noteq> CHR ''-''" "c \<noteq> CHR ''+''" by auto
  then show ?thesis using digits_val_itoa[of n] assms s by (simp add: Atoi_def)
qed

lemma digits_plain: "list_all url_plain (itoa n)" "TrimSpace (itoa n) = itoa n"
proof -
  have "list_all (\<lambda>c. 48 \<le> (of_char c :: nat) \<and> (of_char c :: nat) \<le> 57) (itoa n)" by (rule itoa_digits)
  then show "list_all url_plain (itoa n)"
    by (rule list.pred_mono_strong) (auto simp: url_plain_def graphic_def)
  show "TrimSpace (itoa n) = itoa n" by (rule TrimSpace_graphic[OF itoa_graphic])
qed

lemma uuid_plain:
  assumes "isUUIDLike u"
  shows "list_all url_plain u"
proof -
  have "url_plain (u ! i)" if "i < length u" for i
  proof (cases "i \<in> {8, 13, 18, 23}")
    case True
    then show ?thesis using assms by (auto simp: isUUIDLike_def url_plain_def graphic_def)
  next
    case False
    then have "ishex (u ! i)" using assms that by (auto simp: isUUIDLike_def ishex_def is_digit_def)
    then show ?thesis by (auto simp: ishex_def is_digit_def between_def graphic_def url_plain_def)
  qed
  then show ?thesis by (simp add: list_all_length)
qed

lemma endpoint_keys_plain:
  "list_all (list_all url_plain) [''uuid'', ''channel'', ''adapter'', ''secure'', ''true'', ''false'']"
  by code_simp

lemma endpoint_pairs_plain:
  assumes "isUUIDLike (ep_UUID ep)" "list_all url_plain (ep_Adapter ep)"
  shows "plain_pairs (endpoint_pairs ep)"
  using uuid_plain[OF assms(1)] assms(2) digits_plain(1) endpoint_keys_plain
  by (auto simp: plain_pairs_def endpoint_pairs_def)

lemma parse_secure:
  "parseBool ulow (TrimSpace ''true'') = Inr True" "parseBool ulow (TrimSpace ''false'') = Inr False"
  "TrimSpace ''true'' = ''true''" "TrimSpace ''false'' = ''false''"
proof -
  have "is_ascii ''true''" "is_ascii ''false''" "map lower_char ''true'' = ''true''" "map lower_char ''false'' = ''false''"
    by code_simp+
  moreover show "TrimSpace ''true'' = ''true''" "TrimSpace ''false'' = ''false''" by code_simp+
  ultimately show "parseBool ulow (TrimSpace ''true'') = Inr True" "parseBool ulow (TrimSpace ''false'') = Inr False"
    by (simp_all add: parseBool_def bool_word_def ToLower_def)
qed

lemma endpoint_of_printed_query:
  assumes "endpoint_wf uup ep" "list_all url_plain (ep_Adapter ep)"
  shows "endpoint_of_query ulow uup (ep_BDAddr ep) (query_Get (print_query (endpoint_pairs ep))) = (ep, None)"
proof -
  note wf = assms(1)[unfolded endpoint_wf_def]
  let ?q = "query_Get (print_query (endpoint_pairs ep))"
  have q: "?q k = (case map_of (endpoint_pairs ep) k of Some v \<Rightarrow> v | None \<Rightarrow> [])" for k
    using endpoint_pairs_plain[of ep] wf assms(2) by (intro query_Get_print) (auto simp: endpoint_pairs_def)
  have vals: "?q ''uuid'' = ep_UUID ep" "?q ''adapter'' = ep_Adapter ep" "?q ''name'' = []"
    "?q ''secure'' = (if ep_Insecure ep then ''false'' else ''true'')"
    "?q ''channel'' = (if ep_Channel ep = 0 then [] else itoa (nat (ep_Channel ep)))"
    unfolding q by (simp_all add: endpoint_pairs_def)
  have u: "TrimSpace (ep_UUID ep) = ep_UUID ep" "ep_UUID ep \<noteq> []" "ToLower ulow (ep_UUID ep) = ep_UUID ep"
    using wf uuid_graphic ToLower_lower_case by blast+
  have ch: "parse_channel (TrimSpace (?q ''channel'')) = Inr (ep_Channel ep)"
    using wf by (auto simp: vals(5) digits_plain parse_channel_def Atoi_itoa)
  have sec: "(if TrimSpace (?q ''secure'') = [] then Inr True else parseBool ulow (TrimSpace (?q ''secure''))) = Inr (\<not> ep_Insecure ep)"
    using parse_secure by (auto simp: vals(4))
  have ep: "\<lparr>ep_BDAddr = ep_BDAddr ep, ep_UUID = ep_UUID ep, ep_Channel = ep_Channel ep, ep_Adapter = ep_Adapter ep,
      ep_Insecure = ep_Insecure ep, ep_Name = []\<rparr> = ep" using wf by simp
  show ?thesis
    using wf u endpoint_wf_Validate[OF assms(1)]
    unfolding endpoint_of_query_def Let_def ch sec vals(1-3) by (simp add: ep)
qed

text \<open>
  Endpoints have a URI. Every well-formed endpoint whose adapter name needs no escaping, written
  as a URI with the address in the path, is read back as the same endpoint, whatever the
  address.
\<close>

theorem rfcomm_endpoint_roundtrip:
  assumes "endpoint_wf uup ep" "list_all url_plain (ep_Adapter ep)"
  shows "rfcomm_ParseEndpoint ulow uup lit (print_endpoint ep) = (ep, None)"
proof -
  obtain bs where bs: "length bs = 6" "ep_BDAddr ep = print_bd bs"
    using assms(1) normalize_canonical[of uup "ep_BDAddr ep"] by (metis endpoint_wf_def)
  let ?p = "CHR ''/'' # print_bd bs" and ?q = "print_query (endpoint_pairs ep)"
  have q: "list_all (\<lambda>c. graphic c \<and> c \<noteq> CHR ''#'') ?q"
    using assms by (intro graphic_print_query endpoint_pairs_plain) (simp_all add: endpoint_wf_def)
  have chars: "graphic CHR ''/''" "graphic CHR ''?''" "escape_free encodePath CHR ''/''" by code_simp+
  have raw: "print_endpoint ep = ''bt+rfcomm://'' @ [] @ ?p @ ''?'' @ ?q"
    by (simp add: print_endpoint_def bs)
  have trim: "TrimPrefix ?p ''/'' = print_bd bs" "TrimSpace (print_bd bs) = print_bd bs" "print_bd bs \<noteq> []"
    using TrimSpace_print_bd[OF bs(1)] normalize_print_bd[OF bs(1)] normalize_nonempty by (simp_all add: TrimPrefix_def HasPrefix_def) blast
  have "rfcomm_ParseEndpoint ulow uup lit (print_endpoint ep) = endpoint_of_query ulow uup (print_bd bs) (query_Get ?q)"
    unfolding raw using q print_bd_url[OF bs(1)] chars
    by (subst rfcomm_ParseEndpoint_url) (simp_all add: parseAuthority_Nil trim normalize_print_bd[OF bs(1)])
  then show ?thesis
    using endpoint_of_printed_query[OF assms] by (simp add: bs)
qed

definition ex_endpoint :: rfcomm_Endpoint where
  "ex_endpoint = \<lparr>ep_BDAddr = ''01:23:45:67:89:AB'', ep_UUID = DefaultRFCOMMUUID, ep_Channel = 3, ep_Adapter = ''hci1'',
     ep_Insecure = True, ep_Name = []\<rparr>"

theorem rfcomm_endpoint_roundtrip_witness:
  "rfcomm_ParseEndpoint id id (\<lambda>_. None)
     ''bt+rfcomm:///01:23:45:67:89:AB?uuid=0eef65b8-9374-42ea-b992-6ee2d0699f5c&channel=3&adapter=hci1&secure=false''
   = (ex_endpoint, None)"
proof -
  have "endpoint_wf id ex_endpoint" "list_all url_plain (ep_Adapter ex_endpoint)"
    "print_endpoint ex_endpoint =
       ''bt+rfcomm:///01:23:45:67:89:AB?uuid=0eef65b8-9374-42ea-b992-6ee2d0699f5c&channel=3&adapter=hci1&secure=false''"
    by code_simp+
  then show ?thesis using rfcomm_endpoint_roundtrip[of id ex_endpoint id "\<lambda>_. None"] by simp
qed

text \<open>
  The host form needs decimal digits at the end. With the address as the host of the URI, the text
  after the last colon is a port for net/url: a last octet that contains a letter makes the
  whole URI invalid, whatever the query says, and only a last octet of two decimal digits
  gets as far as reading the query. The example in the comment on \<open>EndpointSchemeRFCOMM\<close>, whose
  address ends in \<^verbatim>\<open>AB\<close>, is rejected.
\<close>

theorem rfcomm_host_form_decimal_tail:
  assumes "length bs = 6" "list_all (\<lambda>c. graphic c \<and> c \<noteq> CHR ''#'') q"
  shows "rfcomm_ParseEndpoint ulow uup lit (''bt+rfcomm://'' @ print_bd bs @ ''?'' @ q) =
    (if list_all is_digit (print_octet (last bs)) then endpoint_of_query ulow uup (print_bd bs) (query_Get q)
     else (no_Endpoint, Some errURL))"
proof -
  have chars: "graphic CHR ''?''" by code_simp
  have trim: "TrimSpace (print_bd bs) = print_bd bs" "print_bd bs \<noteq> []"
    using TrimSpace_print_bd[OF assms(1)] normalize_print_bd[OF assms(1)] normalize_nonempty by blast+
  have "rfcomm_ParseEndpoint ulow uup lit (''bt+rfcomm://'' @ print_bd bs @ [] @ ''?'' @ q) =
    (if list_all is_digit (print_octet (last bs)) then endpoint_of_query ulow uup (print_bd bs) (query_Get q)
     else (no_Endpoint, Some errURL))"
    using assms(2) print_bd_url[OF assms(1)] chars
    by (subst rfcomm_ParseEndpoint_url) (simp_all add: parseAuthority_bd[OF assms(1)] trim normalize_print_bd[OF assms(1)])
  then show ?thesis by simp
qed

theorem rfcomm_host_form_decimal_tail_witness:
  "rfcomm_ParseEndpoint id id (\<lambda>_. None)
     ''bt+rfcomm://01:23:45:67:89:AB?uuid=0eef65b8-9374-42ea-b992-6ee2d0699f5c&secure=true'' = (no_Endpoint, Some errURL)"
proof -
  let ?bs = "[0x01, 0x23, 0x45, 0x67, 0x89, 0xAB] :: byte list"
  have "print_bd ?bs = ''01:23:45:67:89:AB''" "\<not> list_all is_digit (print_octet (last ?bs))"
    "list_all (\<lambda>c. graphic c \<and> c \<noteq> CHR ''#'') ''uuid=0eef65b8-9374-42ea-b992-6ee2d0699f5c&secure=true''" by code_simp+
  then show ?thesis
    using rfcomm_host_form_decimal_tail[of ?bs "''uuid=0eef65b8-9374-42ea-b992-6ee2d0699f5c&secure=true''" id id "\<lambda>_. None"] by simp
qed

text \<open>
  C39. Parsed endpoints are well formed. When \<open>ParseEndpoint\<close> returns no error, the endpoint has a
  normal-form address, a UUID in lower case, a channel between 0 and 30, a trimmed adapter
  that is not empty and no name; \<open>Validate\<close> accepts it, and \<open>Dial\<close> hands exactly its fields to
  the native layer, no default or check of the dialer interfering. When it returns an error,
  the endpoint is the zero value: the validation at the end of the parser never fails. (The
  hypothesis says that \<open>strings.ToLower\<close> leaves no ASCII capital in a string that is not ASCII.)
\<close>

theorem rfcomm_parsed_endpoint_wellformed:
  assumes "\<forall>s. lower_case (ulow s)"
  shows "case rfcomm_ParseEndpoint ulow uup lit raw of
      (ep, None) \<Rightarrow> endpoint_wf uup ep \<and> Endpoint_Validate uup ep = None
        \<and> dial_options ulow uup (endpoint_options ep) = Inr (endpoint_options ep)
    | (ep, Some e) \<Rightarrow> ep = no_Endpoint"
  using rfcomm_ParseEndpoint_cases[OF _ assms, of uup lit raw]
  by (auto simp: endpoint_wf_Validate endpoint_wf_dial split: prod.splits option.splits)

theorem rfcomm_parsed_endpoint_wellformed_witness:
  "rfcomm_ParseEndpoint (map lower_char) id (\<lambda>_. None) ''bt+rfcomm:///aa-bb-cc-dd-ee-ff?channel=3'' =
     (\<lparr>ep_BDAddr = ''AA:BB:CC:DD:EE:FF'', ep_UUID = DefaultRFCOMMUUID, ep_Channel = 3, ep_Adapter = ''hci0'',
       ep_Insecure = False, ep_Name = []\<rparr>, None)
   \<and> endpoint_wf id \<lparr>ep_BDAddr = ''AA:BB:CC:DD:EE:FF'', ep_UUID = DefaultRFCOMMUUID, ep_Channel = 3, ep_Adapter = ''hci0'',
       ep_Insecure = False, ep_Name = []\<rparr>"
proof -
  have p: "rfcomm_ParseEndpoint (map lower_char) id (\<lambda>_. None) ''bt+rfcomm:///aa-bb-cc-dd-ee-ff?channel=3'' =
     (\<lparr>ep_BDAddr = ''AA:BB:CC:DD:EE:FF'', ep_UUID = DefaultRFCOMMUUID, ep_Channel = 3, ep_Adapter = ''hci0'',
       ep_Insecure = False, ep_Name = []\<rparr>, None)"
    by code_simp
  have "\<forall>s. lower_case (map lower_char s)" by (simp add: lower_case_def)
  from rfcomm_parsed_endpoint_wellformed[OF this, of id "\<lambda>_. None" "''bt+rfcomm:///aa-bb-cc-dd-ee-ff?channel=3''"]
  show ?thesis unfolding p by simp
qed

end
