(* ===== verification/Quic_Endpoint.thy ===== *)
theory Quic_Endpoint
  imports Rfcomm_Endpoint
begin

text \<open>
  QUIC endpoints, options and TLS settings: \<^verbatim>\<open>quic_listener/endpoint.go\<close>, \<^verbatim>\<open>addr.go\<close>, \<^verbatim>\<open>tls_config.go\<close> and
  the option types of \<^verbatim>\<open>dial.go\<close> and \<^verbatim>\<open>listener.go\<close>. Parameters: \<open>isIP\<close>, whether \<^verbatim>\<open>net.ParseIP\<close> succeeds;
  the operations of crypto/tls, crypto/x509 and os that read certificates and files, in the
  record \<open>tls_env\<close>; and SHA-256, a function from bytes to bytes.
\<close>


section \<open>Definitions\<close>

definition EndpointSchemeQUIC :: string where "EndpointSchemeQUIC = ''quic''"
definition DefaultALPN :: string where "DefaultALPN = ''myflowhub''"

definition quic_ErrEndpointEmpty :: error where "quic_ErrEndpointEmpty = Err ''quic endpoint is empty''"
definition quic_ErrEndpointSchemeInvalid :: error where
  "quic_ErrEndpointSchemeInvalid = Err ''quic endpoint scheme invalid''"
definition quic_ErrEndpointAddrMissing :: error where "quic_ErrEndpointAddrMissing = Err ''quic endpoint addr missing''"
definition quic_ErrEndpointAddrInvalid :: error where "quic_ErrEndpointAddrInvalid = Err ''quic endpoint addr invalid''"
definition ErrEndpointALPNInvalid :: error where "ErrEndpointALPNInvalid = Err ''quic endpoint alpn invalid''"
definition ErrEndpointPinInvalid :: error where "ErrEndpointPinInvalid = Err ''quic endpoint pin_sha256 invalid''"

record quic_Endpoint =
  qe_Addr :: string
  qe_ServerName :: string
  qe_ALPN :: string
  qe_Insecure :: bool
  qe_PinSHA256 :: string
  qe_CAFile :: string
  qe_ClientCertFile :: string
  qe_ClientKeyFile :: string

definition no_quic_Endpoint :: quic_Endpoint where
  "no_quic_Endpoint = \<lparr>qe_Addr = [], qe_ServerName = [], qe_ALPN = [], qe_Insecure = False, qe_PinSHA256 = [],
     qe_CAFile = [], qe_ClientCertFile = [], qe_ClientKeyFile = []\<rparr>"

definition validateHostPort :: "string \<Rightarrow> error option" where
  "validateHostPort addr0 =
     (let addr = TrimSpace addr0
      in if addr = [] then Some quic_ErrEndpointAddrMissing
         else case SplitHostPort addr of
           None \<Rightarrow> Some quic_ErrEndpointAddrInvalid
         | Some (host, port) \<Rightarrow>
             if TrimSpace port = [] then Some quic_ErrEndpointAddrInvalid
             else if Atoi port = None then Some quic_ErrEndpointAddrInvalid
             else None)"

text \<open>The empty byte slice stands for \<open>nil\<close>, the result for a blank pin.\<close>

definition normalizePinSHA256 :: "(string \<Rightarrow> string) \<Rightarrow> string \<Rightarrow> byte list result" where
  "normalizePinSHA256 ulow raw0 =
     (let raw1 = TrimSpace raw0
      in if raw1 = [] then Inr []
         else let raw = ToLower ulow (ReplaceAll CHR '':'' [] raw1)
              in if length raw \<noteq> 64 then Inl ErrEndpointPinInvalid
                 else case DecodeString raw of
                   None \<Rightarrow> Inl ErrEndpointPinInvalid
                 | Some b \<Rightarrow> Inr b)"

definition parseBoolDefault :: "(string \<Rightarrow> string) \<Rightarrow> string \<Rightarrow> bool \<Rightarrow> bool result" where
  "parseBoolDefault ulow raw0 def =
     (let raw = TrimSpace raw0 in if raw = [] then Inr def else bool_word (ToLower ulow raw))"

definition pin_error :: "(string \<Rightarrow> string) \<Rightarrow> string \<Rightarrow> error option" where
  "pin_error ulow pin =
     (if pin = [] then None else case normalizePinSHA256 ulow pin of Inl e \<Rightarrow> Some e | Inr _ \<Rightarrow> None)"

definition quic_Validate :: "(string \<Rightarrow> string) \<Rightarrow> quic_Endpoint \<Rightarrow> error option" where
  "quic_Validate ulow e =
     (case validateHostPort (qe_Addr e) of
        Some err \<Rightarrow> Some err
      | None \<Rightarrow>
          if TrimSpace (qe_ALPN e) = [] then Some ErrEndpointALPNInvalid
          else case pin_error ulow (qe_PinSHA256 e) of
            Some err \<Rightarrow> Some err
          | None \<Rightarrow>
              let certSet = TrimSpace (qe_ClientCertFile e) \<noteq> []; keySet = TrimSpace (qe_ClientKeyFile e) \<noteq> []
              in if certSet \<noteq> keySet then Some (Err ''quic endpoint requires both cert and key'') else None)"

text \<open>\<open>ParseEndpoint\<close>, the part after the address.\<close>

definition quic_endpoint_of_query ::
  "(string \<Rightarrow> string) \<Rightarrow> (string \<Rightarrow> bool) \<Rightarrow> string \<Rightarrow> (string \<Rightarrow> string) \<Rightarrow> quic_Endpoint \<times> error option" where
  "quic_endpoint_of_query ulow isIP addr q =
     (let host = Trim (set ''[]'') (case SplitHostPort addr of Some (h, _) \<Rightarrow> h | None \<Rightarrow> []);
          alpn0 = TrimSpace (q ''alpn'');
          alpn = (if alpn0 = [] then DefaultALPN else alpn0)
      in case parseBoolDefault ulow (q ''insecure'') False of
           Inl e \<Rightarrow> (no_quic_Endpoint, Some e)
         | Inr insecure \<Rightarrow>
           case normalizePinSHA256 ulow (TrimSpace (q ''pin_sha256'')) of
             Inl e \<Rightarrow> (no_quic_Endpoint, Some e)
           | Inr pinBytes \<Rightarrow>
             let pin = (if pinBytes \<noteq> [] then EncodeToString pinBytes else []);
                 serverName0 = TrimSpace (q ''server_name'');
                 serverName = (if serverName0 = [] \<and> \<not> isIP host then host else serverName0);
                 ep = \<lparr>qe_Addr = addr, qe_ServerName = serverName, qe_ALPN = alpn, qe_Insecure = insecure,
                       qe_PinSHA256 = pin, qe_CAFile = TrimSpace (q ''ca''), qe_ClientCertFile = TrimSpace (q ''cert''),
                       qe_ClientKeyFile = TrimSpace (q ''key'')\<rparr>
             in (ep, quic_Validate ulow ep))"

definition quic_ParseEndpoint ::
  "(string \<Rightarrow> string) \<Rightarrow> (string \<Rightarrow> bool) \<Rightarrow> (string \<Rightarrow> string option) \<Rightarrow> string \<Rightarrow> quic_Endpoint \<times> error option" where
  "quic_ParseEndpoint ulow isIP lit raw0 =
     (let raw = TrimSpace raw0
      in if raw = [] then (no_quic_Endpoint, Some quic_ErrEndpointEmpty)
         else case url_Parse lit raw of
           None \<Rightarrow> (no_quic_Endpoint, Some errURL)
         | Some u \<Rightarrow>
           if ToLower ulow (TrimSpace (u_Scheme u)) \<noteq> EndpointSchemeQUIC
           then (no_quic_Endpoint, Some quic_ErrEndpointSchemeInvalid)
           else
             let addr = TrimSpace (u_Host u)
             in if addr = [] then (no_quic_Endpoint, Some quic_ErrEndpointAddrMissing)
                else case validateHostPort addr of
                  Some err \<Rightarrow> (no_quic_Endpoint, Some err)
                | None \<Rightarrow> quic_endpoint_of_query ulow isIP addr (query_Get (u_RawQuery u)))"

record quic_Addr =
  qa_Address :: string
  qa_ALPN :: string
  qa_Role :: string

definition quic_Addr_String :: "quic_Addr \<Rightarrow> string" where
  "quic_Addr_String a =
     (let parts = addr_part ''role='' (qa_Role a) @ addr_part ''addr='' (qa_Address a) @ addr_part ''alpn='' (qa_ALPN a)
      in if parts = [] then ''quic'' else ''quic('' @ join CHR '','' parts @ '')'')"

text \<open>Dialing.\<close>

record quic_DialOptions =
  qd_Addr :: string
  qd_ServerName :: string
  qd_ALPN :: string
  qd_Insecure :: bool
  qd_PinSHA256 :: string
  qd_CAFile :: string
  qd_ClientCertFile :: string
  qd_ClientKeyFile :: string

definition quic_dial_setDefaults :: "(string \<Rightarrow> bool) \<Rightarrow> quic_DialOptions \<Rightarrow> quic_DialOptions" where
  "quic_dial_setDefaults isIP o1 =
     (let o2 = (if TrimSpace (qd_ALPN o1) = [] then o1\<lparr>qd_ALPN := DefaultALPN\<rparr> else o1)
      in case SplitHostPort (TrimSpace (qd_Addr o2)) of
           None \<Rightarrow> o2
         | Some (host0, _) \<Rightarrow>
             if TrimSpace (qd_ServerName o2) = []
             then let host = Trim (set ''[]'') host0 in if isIP host then o2 else o2\<lparr>qd_ServerName := host\<rparr>
             else o2)"

definition quic_dial_Validate :: "(string \<Rightarrow> string) \<Rightarrow> quic_DialOptions \<Rightarrow> error option" where
  "quic_dial_Validate ulow opts =
     (case validateHostPort (TrimSpace (qd_Addr opts)) of
        Some err \<Rightarrow> Some err
      | None \<Rightarrow>
          if TrimSpace (qd_ALPN opts) = [] then Some ErrEndpointALPNInvalid
          else case pin_error ulow (qd_PinSHA256 opts) of
            Some err \<Rightarrow> Some err
          | None \<Rightarrow>
              let certSet = TrimSpace (qd_ClientCertFile opts) \<noteq> []; keySet = TrimSpace (qd_ClientKeyFile opts) \<noteq> []
              in if certSet \<noteq> keySet then Some (Err ''quic dial requires both cert and key'') else None)"

definition quic_endpoint_options :: "quic_Endpoint \<Rightarrow> quic_DialOptions" where
  "quic_endpoint_options ep =
     \<lparr>qd_Addr = qe_Addr ep, qd_ServerName = qe_ServerName ep, qd_ALPN = qe_ALPN ep, qd_Insecure = qe_Insecure ep,
      qd_PinSHA256 = qe_PinSHA256 ep, qd_CAFile = qe_CAFile ep, qd_ClientCertFile = qe_ClientCertFile ep,
      qd_ClientKeyFile = qe_ClientKeyFile ep\<rparr>"

text \<open>Listening.\<close>

record quic_Options =
  ql_Addr :: string
  ql_ALPN :: string
  ql_CertFile :: string
  ql_KeyFile :: string
  ql_ClientCAFile :: string
  ql_RequireClientCert :: bool

definition quic_Options_setDefaults :: "quic_Options \<Rightarrow> quic_Options" where
  "quic_Options_setDefaults o1 = (if TrimSpace (ql_ALPN o1) = [] then o1\<lparr>ql_ALPN := DefaultALPN\<rparr> else o1)"

definition quic_Options_Validate :: "quic_Options \<Rightarrow> error option" where
  "quic_Options_Validate opts =
     (case validateHostPort (TrimSpace (ql_Addr opts)) of
        Some err \<Rightarrow> Some err
      | None \<Rightarrow>
          if TrimSpace (ql_ALPN opts) = [] then Some ErrEndpointALPNInvalid
          else if TrimSpace (ql_CertFile opts) = [] \<or> TrimSpace (ql_KeyFile opts) = []
          then Some (Err ''quic listener cert_file and key_file are required'')
          else None)"


section \<open>TLS settings\<close>

datatype client_auth = NoClientCert | VerifyClientCertIfGiven | RequireAndVerifyClientCert

text \<open>
  What the code sets of a \<^verbatim>\<open>tls.Config\<close>. Certificates and pools are of any types; \<open>vc_pin\<close> is the
  digest that the \<open>VerifyConnection\<close> callback captured, if there is a callback.
\<close>

record ('cert, 'pool) tls_config =
  tc_MinVersion :: nat
  tc_NextProtos :: "string list"
  tc_Certificates :: "'cert list"
  tc_ClientAuth :: client_auth
  tc_ClientCAs :: "'pool option"
  tc_RootCAs :: "'pool option"
  tc_InsecureSkipVerify :: bool
  tc_ServerName :: string
  vc_pin :: "byte list option"

record ('cert, 'pool) tls_env =
  LoadX509KeyPair :: "string \<Rightarrow> string \<Rightarrow> 'cert result"
  SystemCertPool :: "'pool option result"
  NewCertPool :: 'pool
  ReadFile :: "string \<Rightarrow> byte list result"
  AppendCertsFromPEM :: "'pool \<Rightarrow> byte list \<Rightarrow> 'pool option"

definition VersionTLS13 :: nat where "VersionTLS13 = 0x0304"

definition loadCertPool :: "('cert, 'pool) tls_env \<Rightarrow> string \<Rightarrow> bool \<Rightarrow> 'pool result" where
  "loadCertPool env file useSystem =
     (let start = (if useSystem then SystemCertPool env else Inr None)
      in case start of
           Inl e \<Rightarrow> Inl e
         | Inr pool0 \<Rightarrow>
             let pool = (case pool0 of Some p \<Rightarrow> p | None \<Rightarrow> NewCertPool env)
             in if TrimSpace file = [] then Inr pool
                else case ReadFile env file of
                  Inl e \<Rightarrow> Inl e
                | Inr data \<Rightarrow>
                    case AppendCertsFromPEM env pool data of
                      None \<Rightarrow> Inl (Err ''append certs failed'')
                    | Some pool' \<Rightarrow> Inr pool')"

definition buildServerTLSConfig :: "('cert, 'pool) tls_env \<Rightarrow> quic_Options \<Rightarrow> ('cert, 'pool) tls_config result" where
  "buildServerTLSConfig env opts =
     (let certFile = TrimSpace (ql_CertFile opts); keyFile = TrimSpace (ql_KeyFile opts)
      in if certFile = [] \<or> keyFile = [] then Inl (Err ''quic listener requires cert_file and key_file'')
         else case LoadX509KeyPair env certFile keyFile of
           Inl e \<Rightarrow> Inl e
         | Inr cert \<Rightarrow>
           let cfg = \<lparr>tc_MinVersion = VersionTLS13, tc_NextProtos = [ql_ALPN opts], tc_Certificates = [cert],
                      tc_ClientAuth = NoClientCert, tc_ClientCAs = None, tc_RootCAs = None, tc_InsecureSkipVerify = False,
                      tc_ServerName = [], vc_pin = None\<rparr>;
               clientCAFile = TrimSpace (ql_ClientCAFile opts)
           in if clientCAFile \<noteq> [] \<or> ql_RequireClientCert opts
              then case loadCertPool env clientCAFile False of
                     Inl e \<Rightarrow> Inl e
                   | Inr pool \<Rightarrow>
                       Inr (cfg\<lparr>tc_ClientCAs := Some pool,
                                tc_ClientAuth := (if ql_RequireClientCert opts then RequireAndVerifyClientCert
                                                  else VerifyClientCertIfGiven)\<rparr>)
              else Inr cfg)"

definition client_cert :: "('cert, 'pool) tls_env \<Rightarrow> string \<Rightarrow> string \<Rightarrow> 'cert list result" where
  "client_cert env certFile keyFile =
     (if certFile \<noteq> [] \<or> keyFile \<noteq> []
      then if certFile = [] \<or> keyFile = [] then Inl (Err ''quic dial requires both cert and key'')
           else (case LoadX509KeyPair env certFile keyFile of Inl e \<Rightarrow> Inl e | Inr cert \<Rightarrow> Inr [cert])
      else Inr [])"

definition buildClientTLSConfig ::
  "('cert, 'pool) tls_env \<Rightarrow> (string \<Rightarrow> string) \<Rightarrow> quic_DialOptions \<Rightarrow> ('cert, 'pool) tls_config result" where
  "buildClientTLSConfig env ulow opts =
     (let cfg = \<lparr>tc_MinVersion = VersionTLS13, tc_NextProtos = [qd_ALPN opts], tc_Certificates = [],
                 tc_ClientAuth = NoClientCert, tc_ClientCAs = None, tc_RootCAs = None,
                 tc_InsecureSkipVerify = qd_Insecure opts, tc_ServerName = TrimSpace (qd_ServerName opts), vc_pin = None\<rparr>;
          ca = TrimSpace (qd_CAFile opts)
      in case (if ca \<noteq> [] then map_sum id Some (loadCertPool env ca True) else Inr None) of
           Inl e \<Rightarrow> Inl e
         | Inr roots \<Rightarrow>
           case client_cert env (TrimSpace (qd_ClientCertFile opts)) (TrimSpace (qd_ClientKeyFile opts)) of
             Inl e \<Rightarrow> Inl e
           | Inr certs \<Rightarrow>
             let cfg = cfg\<lparr>tc_RootCAs := roots, tc_Certificates := certs\<rparr>; pin = TrimSpace (qd_PinSHA256 opts)
             in if pin = [] then Inr cfg
                else case normalizePinSHA256 ulow pin of
                  Inl e \<Rightarrow> Inl e
                | Inr pinBytes \<Rightarrow> Inr (cfg\<lparr>vc_pin := Some pinBytes\<rparr>))"

text \<open>
  The callback. \<open>certs\<close> are the peer's certificates as raw bytes, \<open>None\<close> for a nil entry.
\<close>

definition VerifyConnection ::
  "(byte list \<Rightarrow> byte list) \<Rightarrow> byte list \<Rightarrow> byte list option list \<Rightarrow> error option" where
  "VerifyConnection Sum256 pinBytes certs =
     (case certs of
        Some raw # _ \<Rightarrow> if Sum256 raw \<noteq> pinBytes then Some (Err ''quic pin mismatch'') else None
      | _ \<Rightarrow> Some (Err ''quic peer certificate missing''))"

text \<open>
  \<open>Dial\<close> up to the network: the address and the TLS settings given to \<^verbatim>\<open>quic.DialAddr\<close>.
\<close>

definition quic_dial_prepare ::
  "('cert, 'pool) tls_env \<Rightarrow> (string \<Rightarrow> string) \<Rightarrow> (string \<Rightarrow> bool) \<Rightarrow> quic_DialOptions \<Rightarrow>
   (string \<times> ('cert, 'pool) tls_config) result" where
  "quic_dial_prepare env ulow isIP opts0 =
     (let opts = quic_dial_setDefaults isIP opts0
      in case quic_dial_Validate ulow opts of
           Some e \<Rightarrow> Inl e
         | None \<Rightarrow> map_sum id (\<lambda>cfg. (TrimSpace (qd_Addr opts), cfg)) (buildClientTLSConfig env ulow opts))"


section \<open>Hexadecimal pins\<close>

lemma hex_lower_digit:
  assumes "d < 16"
  shows "ishex (hex_lower d)" "unhex (hex_lower d) = of_nat d" "graphic (hex_lower d)" "lower_char (hex_lower d) = hex_lower d"
    "hex_lower d \<noteq> CHR '':''"
proof -
  have n: "(of_char (hex_lower d) :: nat) = (if d < 10 then 48 + d else 87 + d)" using assms by (simp add: hex_lower_def)
  have w: "(of_char (hex_lower d) :: byte) = of_nat (if d < 10 then 48 + d else 87 + d)"
    unfolding n[symmetric] by (rule of_nat_of_char[symmetric])
  show "ishex (hex_lower d)" "graphic (hex_lower d)" "lower_char (hex_lower d) = hex_lower d"
    using assms by (auto simp: ishex_def is_digit_def between_def graphic_def lower_char_def n)
  show "unhex (hex_lower d) = of_nat d" using assms by (simp add: unhex_def is_digit_def between_def n w)
  have "(of_char (hex_lower d) :: nat) \<noteq> of_char CHR '':''" using n assms by simp
  then show "hex_lower d \<noteq> CHR '':''" by metis
qed

lemma unat_byte_digits: "unat (b :: byte) div 16 < 16" "unat b mod 16 < 16" "octet (unat b div 16) (unat b mod 16) = b"
proof -
  have "unat b < 256" using unsigned_less[of b, where 'a = nat] by simp
  then show "unat b div 16 < 16" "unat b mod 16 < 16" by auto
  show "octet (unat b div 16) (unat b mod 16) = b" by (simp add: octet_def flip: of_nat_add of_nat_mult)
qed

lemma DecodeString_EncodeToString [simp]: "DecodeString (EncodeToString bs) = Some bs"
  by (induction bs) (simp_all add: EncodeToString_def hex_lower_digit unat_byte_digits octet_join)

lemma EncodeToString_inj: "EncodeToString a = EncodeToString b \<longleftrightarrow> a = b"
  by (metis DecodeString_EncodeToString option.inject)

lemma DecodeString_length: "DecodeString s = Some bs \<Longrightarrow> length s = 2 * length bs"
  by (induction s arbitrary: bs rule: DecodeString.induct) (auto split: if_splits)

lemma length_EncodeToString: "length (EncodeToString bs) = 2 * length bs"
  by (rule DecodeString_length) simp

lemma EncodeToString_chars:
  "list_all (\<lambda>c. graphic c \<and> lower_char c = c \<and> c \<noteq> CHR '':'') (EncodeToString bs)"
  by (induction bs) (simp_all add: EncodeToString_def hex_lower_digit unat_byte_digits)

lemma normalizePin_encoded:
  assumes "length bs = 32"
  shows "normalizePinSHA256 ulow (EncodeToString bs) = Inr bs" "TrimSpace (EncodeToString bs) = EncodeToString bs"
    "EncodeToString bs \<noteq> []"
proof -
  note all = EncodeToString_chars[of bs, unfolded list_all_iff]
  show trim: "TrimSpace (EncodeToString bs) = EncodeToString bs"
    using all by (intro TrimSpace_graphic) (simp add: list_all_iff)
  show ne: "EncodeToString bs \<noteq> []" using length_EncodeToString[of bs] assms by auto
  have "ReplaceAll CHR '':'' [] (EncodeToString bs) = EncodeToString bs"
    unfolding ReplaceAll_Nil using all by (intro filter_True) simp
  moreover have "ToLower ulow (EncodeToString bs) = EncodeToString bs"
  proof (rule ToLower_lower_case)
    show "is_ascii (EncodeToString bs)"
      unfolding is_ascii_def by (rule list.pred_mono_strong[OF EncodeToString_chars]) (simp add: graphic_def)
    show "lower_case (EncodeToString bs)"
      unfolding lower_case_def by (rule map_idI) (use all in blast)
  qed
  ultimately show "normalizePinSHA256 ulow (EncodeToString bs) = Inr bs"
    using assms by (simp add: normalizePinSHA256_def trim ne length_EncodeToString)
qed

lemma normalizePin_length: "normalizePinSHA256 ulow raw = Inr bs \<Longrightarrow> bs = [] \<or> length bs = 32"
  by (auto simp: normalizePinSHA256_def Let_def dest: DecodeString_length split: if_splits option.splits)


section \<open>Parsed endpoints\<close>

definition quic_endpoint_wf :: "(string \<Rightarrow> bool) \<Rightarrow> quic_Endpoint \<Rightarrow> bool" where
  "quic_endpoint_wf isIP ep =
     (TrimSpace (qe_Addr ep) = qe_Addr ep \<and> validateHostPort (qe_Addr ep) = None
      \<and> TrimSpace (qe_ALPN ep) = qe_ALPN ep \<and> qe_ALPN ep \<noteq> []
      \<and> (qe_PinSHA256 ep = [] \<or> (\<exists>bs. length bs = 32 \<and> qe_PinSHA256 ep = EncodeToString bs))
      \<and> (qe_ClientCertFile ep = [] \<longleftrightarrow> qe_ClientKeyFile ep = [])
      \<and> TrimSpace (qe_ClientCertFile ep) = qe_ClientCertFile ep \<and> TrimSpace (qe_ClientKeyFile ep) = qe_ClientKeyFile ep
      \<and> (\<forall>h p. SplitHostPort (qe_Addr ep) = Some (h, p) \<and> TrimSpace (qe_ServerName ep) = [] \<and> \<not> isIP (Trim (set ''[]'') h)
           \<longrightarrow> qe_ServerName ep = Trim (set ''[]'') h))"

lemma quic_wf_Validate: "quic_endpoint_wf isIP ep \<Longrightarrow> quic_Validate ulow ep = None"
  by (auto simp: quic_endpoint_wf_def quic_Validate_def pin_error_def normalizePin_encoded)

lemma quic_wf_dial:
  assumes "quic_endpoint_wf isIP ep"
  shows "quic_dial_setDefaults isIP (quic_endpoint_options ep) = quic_endpoint_options ep"
    "quic_dial_Validate ulow (quic_endpoint_options ep) = None"
proof -
  show "quic_dial_Validate ulow (quic_endpoint_options ep) = None"
    using assms by (auto simp: quic_endpoint_wf_def quic_dial_Validate_def quic_endpoint_options_def pin_error_def normalizePin_encoded)
  show "quic_dial_setDefaults isIP (quic_endpoint_options ep) = quic_endpoint_options ep"
    using assms unfolding quic_endpoint_wf_def quic_dial_setDefaults_def quic_endpoint_options_def Let_def
    by (auto split: option.splits)
qed

lemma quic_endpoint_of_query_wf:
  assumes "validateHostPort addr = None" "TrimSpace addr = addr"
    and "quic_endpoint_of_query ulow isIP addr q = (ep, None)"
  shows "quic_endpoint_wf isIP ep"
proof -
  have alpn: "TrimSpace (if TrimSpace a = [] then DefaultALPN else TrimSpace a) = (if TrimSpace a = [] then DefaultALPN else TrimSpace a)"
    "(if TrimSpace a = [] then DefaultALPN else TrimSpace a) \<noteq> []" for a
    using TrimSpace_graphic[of DefaultALPN] by (auto simp: DefaultALPN_def graphic_def)
  obtain pin ins where ep: "normalizePinSHA256 ulow (TrimSpace (q ''pin_sha256'')) = Inr pin" "quic_Validate ulow ep = None"
    "ep = (let host = Trim (set ''[]'') (case SplitHostPort addr of Some (h, _) \<Rightarrow> h | None \<Rightarrow> []) in
      \<lparr>qe_Addr = addr, qe_ServerName = (if TrimSpace (q ''server_name'') = [] \<and> \<not> isIP host then host else TrimSpace (q ''server_name'')),
       qe_ALPN = (if TrimSpace (q ''alpn'') = [] then DefaultALPN else TrimSpace (q ''alpn'')), qe_Insecure = ins,
       qe_PinSHA256 = (if pin \<noteq> [] then EncodeToString pin else []), qe_CAFile = TrimSpace (q ''ca''),
       qe_ClientCertFile = TrimSpace (q ''cert''), qe_ClientKeyFile = TrimSpace (q ''key'')\<rparr>)"
    using assms(3) unfolding quic_endpoint_of_query_def Let_def by (auto split: sum.splits)
  have "TrimSpace (q ''cert'') = [] \<longleftrightarrow> TrimSpace (q ''key'') = []"
    using ep(2,3) by (auto simp: quic_Validate_def Let_def split: option.splits if_splits)
  then show ?thesis
    using normalizePin_length[OF ep(1)] assms(1,2) alpn[of "q ''alpn''"]
    unfolding ep(3) Let_def quic_endpoint_wf_def by auto
qed

lemma quic_ParseEndpoint_wf:
  assumes "quic_ParseEndpoint ulow isIP lit raw = (ep, None)"
  shows "quic_endpoint_wf isIP ep"
proof -
  obtain addr q where "validateHostPort (TrimSpace addr) = None" "quic_endpoint_of_query ulow isIP (TrimSpace addr) q = (ep, None)"
    using assms by (auto simp: quic_ParseEndpoint_def Let_def split: if_splits option.splits)
  then show ?thesis by (intro quic_endpoint_of_query_wf[of "TrimSpace addr" ulow isIP q]) simp_all
qed


section \<open>Properties\<close>

text \<open>
  Parsed QUIC endpoints are well formed. When \<open>ParseEndpoint\<close> returns no error, the address is a
  trimmed \<open>host:port\<close>, the ALPN token is not blank, the pin is absent or the lower-case
  hexadecimal text of 32 bytes, and a client certificate comes with a key and only then;
  \<open>Validate\<close> accepts the endpoint, and \<open>Dial\<close> neither changes nor rejects the options made from it.
\<close>

theorem quic_parsed_endpoint_wellformed:
  assumes "quic_ParseEndpoint ulow isIP lit raw = (ep, None)"
  shows "quic_endpoint_wf isIP ep \<and> quic_Validate ulow ep = None
    \<and> quic_dial_setDefaults isIP (quic_endpoint_options ep) = quic_endpoint_options ep
    \<and> quic_dial_Validate ulow (quic_endpoint_options ep) = None"
  using quic_wf_Validate quic_wf_dial quic_ParseEndpoint_wf[OF assms] by blast

definition ex_pin :: "byte list" where
  "ex_pin = replicate 32 7"

definition ex_quic_uri :: string where
  "ex_quic_uri = ''quic://example.com:443?insecure=true&pin_sha256=0707070707070707070707070707070707070707070707070707070707070707''"

definition ex_quic_endpoint :: quic_Endpoint where
  "ex_quic_endpoint = \<lparr>qe_Addr = ''example.com:443'', qe_ServerName = ''example.com'', qe_ALPN = ''myflowhub'', qe_Insecure = True,
     qe_PinSHA256 = EncodeToString ex_pin, qe_CAFile = [], qe_ClientCertFile = [], qe_ClientKeyFile = []\<rparr>"

lemma ex_pin_text: "EncodeToString ex_pin = ''0707070707070707070707070707070707070707070707070707070707070707''"
proof -
  have "hex_lower 0 = CHR ''0''" "hex_lower 7 = CHR ''7''" by code_simp+
  then have "EncodeToString ex_pin = concat (replicate 32 ''07'')"
    by (simp add: EncodeToString_def ex_pin_def)
  also have "\<dots> = ''0707070707070707070707070707070707070707070707070707070707070707''" by code_simp
  finally show ?thesis .
qed

lemma ex_quic_parse: "quic_ParseEndpoint id (\<lambda>_. False) (\<lambda>_. None) ex_quic_uri = (ex_quic_endpoint, None)"
proof -
  let ?q = "''insecure=true&pin_sha256=0707070707070707070707070707070707070707070707070707070707070707''"
  let ?u = "\<lparr>u_Scheme = ''quic'', u_Host = ''example.com:443'', u_Path = [], u_RawQuery = ?q\<rparr>"
  have url: "url_Parse (\<lambda>_. None) (TrimSpace ex_quic_uri) = Some ?u" "TrimSpace ex_quic_uri \<noteq> []" by code_simp+
  have sch: "ToLower id (TrimSpace ''quic'') = EndpointSchemeQUIC" by code_simp
  have addr: "TrimSpace ''example.com:443'' = ''example.com:443''" "validateHostPort ''example.com:443'' = None"
    "Trim (set ''[]'') (case SplitHostPort ''example.com:443'' of Some (h, _) \<Rightarrow> h | None \<Rightarrow> []) = ''example.com''" by code_simp+
  have q: "query_Get ?q ''insecure'' = ''true''" "query_Get ?q ''alpn'' = []" "query_Get ?q ''server_name'' = []"
    "query_Get ?q ''ca'' = []" "query_Get ?q ''cert'' = []" "query_Get ?q ''key'' = []" by code_simp+
  have "query_Get ?q ''pin_sha256'' = ''0707070707070707070707070707070707070707070707070707070707070707''" by code_simp
  then have pin: "query_Get ?q ''pin_sha256'' = EncodeToString ex_pin" by (simp only: ex_pin_text)
  have ins: "parseBoolDefault id ''true'' False = Inr True" by code_simp
  have len: "length ex_pin = 32" "ex_pin \<noteq> []" by (simp_all add: ex_pin_def)
  have "quic_Validate id ex_quic_endpoint = None"
    using addr normalizePin_encoded[OF len(1)] TrimSpace_graphic[of DefaultALPN]
    by (simp add: quic_Validate_def ex_quic_endpoint_def pin_error_def DefaultALPN_def graphic_def)
  then have "quic_endpoint_of_query id (\<lambda>_. False) ''example.com:443'' (query_Get ?q) = (ex_quic_endpoint, None)"
    using normalizePin_encoded[OF len(1)] len(2)
    unfolding quic_endpoint_of_query_def Let_def q pin ins addr
    by (simp add: ex_quic_endpoint_def DefaultALPN_def)
  then show ?thesis
    unfolding quic_ParseEndpoint_def Let_def url by (simp add: sch addr url)
qed

theorem quic_parsed_endpoint_wellformed_witness:
  "quic_ParseEndpoint id (\<lambda>_. False) (\<lambda>_. None) ex_quic_uri = (ex_quic_endpoint, None)
   \<and> quic_endpoint_wf (\<lambda>_. False) ex_quic_endpoint \<and> quic_Validate id ex_quic_endpoint = None"
  using quic_parsed_endpoint_wellformed[OF ex_quic_parse] ex_quic_parse by blast

text \<open>
  C35. Pinned endpoints check the certificate. Whenever \<open>Dial\<close> gets as far as the network with an endpoint
  that \<open>ParseEndpoint\<close> returned, it dials the endpoint's address with TLS 1.3 and, if the
  endpoint has a pin, also when the endpoint asks to skip the usual verification, the
  connection callback accepts exactly those peers whose first certificate has the SHA-256 digest that
  the pin spells in hexadecimal. Without a pin there is no callback.
\<close>

theorem pinned_endpoint_checks_digest:
  assumes "quic_ParseEndpoint ulow isIP lit raw = (ep, None)"
    and "quic_dial_prepare env ulow isIP (quic_endpoint_options ep) = Inr (addr, cfg)"
  shows "addr = qe_Addr ep \<and> tc_MinVersion cfg = VersionTLS13 \<and> tc_InsecureSkipVerify cfg = qe_Insecure ep
    \<and> (if qe_PinSHA256 ep = [] then vc_pin cfg = None
       else \<exists>pin. vc_pin cfg = Some pin
              \<and> (\<forall>certs. VerifyConnection Sum256 pin certs = None
                    \<longleftrightarrow> (\<exists>raw rest. certs = Some raw # rest \<and> EncodeToString (Sum256 raw) = qe_PinSHA256 ep)))"
proof -
  have wf: "quic_endpoint_wf isIP ep" using assms(1) by (rule quic_ParseEndpoint_wf)
  then have addr: "addr = qe_Addr ep" and cfg: "buildClientTLSConfig env ulow (quic_endpoint_options ep) = Inr cfg"
    using assms(2) quic_wf_dial(1)[OF wf] quic_wf_dial(2)[OF wf, of ulow]
    by (auto simp: quic_dial_prepare_def quic_endpoint_wf_def quic_endpoint_options_def Let_def map_sum_def split: sum.splits)
  have v: "tc_MinVersion cfg = VersionTLS13" "tc_InsecureSkipVerify cfg = qe_Insecure ep"
    using cfg by (auto simp: buildClientTLSConfig_def Let_def quic_endpoint_options_def split: sum.splits if_splits)
  show ?thesis
  proof (cases "qe_PinSHA256 ep = []")
    case True
    then have "vc_pin cfg = None"
      using cfg by (auto simp: buildClientTLSConfig_def Let_def quic_endpoint_options_def split: sum.splits if_splits)
    then show ?thesis using True addr v by simp
  next
    case False
    then obtain bs where bs: "length bs = 32" "qe_PinSHA256 ep = EncodeToString bs"
      using wf by (auto simp: quic_endpoint_wf_def)
    then have "vc_pin cfg = Some bs"
      using cfg normalizePin_encoded[OF bs(1)]
      by (auto simp: buildClientTLSConfig_def Let_def quic_endpoint_options_def split: sum.splits if_splits)
    moreover have "VerifyConnection Sum256 bs certs = None \<longleftrightarrow> (\<exists>raw rest. certs = Some raw # rest \<and> Sum256 raw = bs)" for certs
      by (auto simp: VerifyConnection_def split: list.splits option.splits)
    ultimately show ?thesis using False addr v by (simp add: bs(2) EncodeToString_inj)
  qed
qed

definition ex_tls_env :: "(string \<times> string, string list) tls_env" where
  "ex_tls_env = \<lparr>LoadX509KeyPair = (\<lambda>c k. Inr (c, k)), SystemCertPool = Inr (Some [''system'']), NewCertPool = [],
     ReadFile = (\<lambda>f. if f = ''ca.pem'' then Inr [1] else Inl (Err ''no such file'')),
     AppendCertsFromPEM = (\<lambda>p d. Some (p @ [''ca'']))\<rparr>"

lemma ex_addr: "TrimSpace ''example.com:443'' = ''example.com:443''"
  by code_simp

theorem pinned_endpoint_checks_digest_witness:
  "\<exists>cfg pin. quic_dial_prepare ex_tls_env id (\<lambda>_. False) (quic_endpoint_options ex_quic_endpoint) = Inr (''example.com:443'', cfg)
     \<and> vc_pin cfg = Some pin \<and> tc_InsecureSkipVerify cfg
     \<and> VerifyConnection (\<lambda>_. ex_pin) pin [Some [1]] = None \<and> VerifyConnection (\<lambda>_. []) pin [Some [1]] \<noteq> None"
proof -
  note p = normalizePin_encoded[of ex_pin]
  have len: "length ex_pin = 32" by (simp add: ex_pin_def)
  have "\<exists>cfg. buildClientTLSConfig ex_tls_env id (quic_endpoint_options ex_quic_endpoint) = Inr cfg"
    using p len by (simp add: buildClientTLSConfig_def quic_endpoint_options_def ex_quic_endpoint_def client_cert_def)
  then obtain cfg where c: "quic_dial_prepare ex_tls_env id (\<lambda>_. False) (quic_endpoint_options ex_quic_endpoint)
      = Inr (''example.com:443'', cfg)"
    using quic_wf_dial(1)[OF quic_ParseEndpoint_wf[OF ex_quic_parse]] quic_wf_dial(2)[OF quic_ParseEndpoint_wf[OF ex_quic_parse], of id]
      ex_addr by (auto simp: quic_dial_prepare_def) (auto simp: quic_endpoint_options_def ex_quic_endpoint_def)
  let ?P = "\<lambda>pin Sum256. \<forall>certs. VerifyConnection Sum256 pin certs = None
      \<longleftrightarrow> (\<exists>raw rest. certs = Some raw # rest \<and> EncodeToString (Sum256 raw) = EncodeToString ex_pin)"
  have "qe_PinSHA256 ex_quic_endpoint = EncodeToString ex_pin" "EncodeToString ex_pin \<noteq> []" "qe_Insecure ex_quic_endpoint"
    using p len by (simp_all add: ex_quic_endpoint_def)
  note e = this
  have pin: "tc_InsecureSkipVerify cfg \<and> (\<exists>pin. vc_pin cfg = Some pin \<and> ?P pin S)" for S
    using pinned_endpoint_checks_digest[OF ex_quic_parse c, of S] e(2,3) unfolding e(1) by simp
  obtain d where d: "vc_pin cfg = Some d" "?P d (\<lambda>_. ex_pin)" using pin[of "\<lambda>_. ex_pin"] by blast
  obtain d' where d': "vc_pin cfg = Some d'" "?P d' (\<lambda>_. [])" using pin[of "\<lambda>_. []"] by blast
  have "d' = d" using d(1) d'(1) by simp
  moreover have "EncodeToString [] \<noteq> EncodeToString ex_pin" using e(2) by (simp add: EncodeToString_def)
  ultimately have "VerifyConnection (\<lambda>_. []) d [Some [1]] \<noteq> None" using d'(2)[THEN spec, of "[Some [1]]"] by simp
  moreover have "VerifyConnection (\<lambda>_. ex_pin) d [Some [1]] = None" using d(2)[THEN spec, of "[Some [1]]"] by simp
  ultimately show ?thesis
    using c d(1) pin[of "\<lambda>_. []"] by (intro exI[of _ cfg] exI[of _ d]) (simp only: simp_thms)
qed

text \<open>
  Client certificates on the server side. A listener that requires client certificates verifies
  them, one that only names a CA file verifies those it is given, any other asks for none; the
  certificates are checked against that file alone, never against the system's roots, and with
  certificates required but no file named the pool is empty.
\<close>

theorem server_client_certificates:
  assumes "buildServerTLSConfig env opts = Inr cfg"
  shows "tc_MinVersion cfg = VersionTLS13
    \<and> tc_ClientAuth cfg = (if ql_RequireClientCert opts then RequireAndVerifyClientCert
                           else if TrimSpace (ql_ClientCAFile opts) = [] then NoClientCert else VerifyClientCertIfGiven)
    \<and> tc_ClientCAs cfg =
        (if TrimSpace (ql_ClientCAFile opts) = [] then (if ql_RequireClientCert opts then Some (NewCertPool env) else None)
         else (case ReadFile env (TrimSpace (ql_ClientCAFile opts)) of
                 Inr pem \<Rightarrow> AppendCertsFromPEM env (NewCertPool env) pem
               | Inl _ \<Rightarrow> None))"
  using assms
  by (auto simp: buildServerTLSConfig_def loadCertPool_def Let_def split: if_splits sum.splits option.splits)

definition ex_quic_options :: quic_Options where
  "ex_quic_options = \<lparr>ql_Addr = '':443'', ql_ALPN = ''mh'', ql_CertFile = ''c.pem'', ql_KeyFile = ''k.pem'', ql_ClientCAFile = '' ca.pem'',
     ql_RequireClientCert = True\<rparr>"

theorem server_client_certificates_witness:
  "\<exists>cfg. buildServerTLSConfig ex_tls_env ex_quic_options = Inr cfg \<and> tc_ClientAuth cfg = RequireAndVerifyClientCert
     \<and> tc_ClientCAs cfg = Some [''ca'']"
proof -
  have trim: "TrimSpace ''c.pem'' = ''c.pem''" "TrimSpace ''k.pem'' = ''k.pem''" "TrimSpace '' ca.pem'' = ''ca.pem''"
    "TrimSpace ''ca.pem'' = ''ca.pem''" by code_simp+
  have "\<exists>cfg. buildServerTLSConfig ex_tls_env ex_quic_options = Inr cfg"
    by (simp add: buildServerTLSConfig_def ex_quic_options_def trim loadCertPool_def ex_tls_env_def)
  then obtain cfg where c: "buildServerTLSConfig ex_tls_env ex_quic_options = Inr cfg" by blast
  then show ?thesis
    using server_client_certificates[OF c] by (simp add: ex_quic_options_def trim ex_tls_env_def)
qed

end
