(* ===== verification/Transport.thy ===== *)
theory Transport
  imports Conn_Manager Frame_IO Quic_Endpoint
begin

text \<open>
  The connection types of the three transports and the dialers: \<^verbatim>\<open>tcp_listener/connection.go\<close>,
  \<^verbatim>\<open>quic_listener/connection.go\<close> and \<^verbatim>\<open>dial.go\<close>, \<^verbatim>\<open>rfcomm_listener/connection.go\<close> and \<^verbatim>\<open>dial.go\<close>. The
  three types keep the same fields behind one mutex, so one record serves them; a handler and a
  reader are numbers. The methods below are those of RFCOMM connections; \<open>Connections\<close> has those of TCP and QUIC. The operations of quic-go and the native RFCOMM dialers are arguments.
\<close>


section \<open>Connections\<close>

datatype net_addr = TcpAddr string | RfcommAddr rfcomm_Addr | QuicAddr quic_Addr

definition net_addr_String :: "net_addr \<Rightarrow> string" where
  "net_addr_String a = (case a of TcpAddr s \<Rightarrow> s | RfcommAddr r \<Rightarrow> rfcomm_Addr_String r | QuicAddr q \<Rightarrow> quic_Addr_String q)"

record 'p stream_conn =
  sc_pipe :: 'p
  sc_id :: string
  sc_local :: "net_addr option"
  sc_remote :: "net_addr option"
  sc_meta :: "(string \<times> any) list"
  sc_recvH :: "nat option"
  sc_reader :: "nat option"

definition NewTCPConnection :: "string \<Rightarrow> string \<Rightarrow> 'p \<Rightarrow> 'p stream_conn" where
  "NewTCPConnection local remote p =
     \<lparr>sc_pipe = p, sc_id = local @ ''->'' @ remote, sc_local = Some (TcpAddr local), sc_remote = Some (TcpAddr remote),
      sc_meta = [], sc_recvH = None, sc_reader = None\<rparr>"

text \<open>
  \<open>NewQUICConnection\<close> and \<open>NewRFCOMMConnection\<close>. The number is the package's atomic counter.
\<close>

definition numbered_conn ::
  "string \<Rightarrow> 'p option \<Rightarrow> net_addr option \<Rightarrow> net_addr option \<Rightarrow> u64 \<Rightarrow> 'p stream_conn result \<times> u64" where
  "numbered_conn pre pipe local remote seq =
     (case pipe of
        None \<Rightarrow> (Inl (Err ''nil pipe''), seq)
      | Some p \<Rightarrow>
          (let n = seq + 1
           in (Inr \<lparr>sc_pipe = p, sc_id = pre @ itoa (unat n), sc_local = local, sc_remote = remote,
                    sc_meta = [], sc_recvH = None, sc_reader = None\<rparr>, n)))"

definition NewQUICConnection ::
  "'p option \<Rightarrow> net_addr option \<Rightarrow> net_addr option \<Rightarrow> u64 \<Rightarrow> 'p stream_conn result \<times> u64" where
  "NewQUICConnection = numbered_conn ''quic#''"

definition NewRFCOMMConnection ::
  "'p option \<Rightarrow> net_addr option \<Rightarrow> net_addr option \<Rightarrow> u64 \<Rightarrow> 'p stream_conn result \<times> u64" where
  "NewRFCOMMConnection = numbered_conn ''rfcomm#''"

definition stream_OnReceive :: "nat option \<Rightarrow> 'p stream_conn \<Rightarrow> 'p stream_conn" where
  "stream_OnReceive h c = c\<lparr>sc_recvH := h\<rparr>"

definition stream_SetMeta :: "string \<Rightarrow> any \<Rightarrow> 'p stream_conn \<Rightarrow> 'p stream_conn" where
  "stream_SetMeta key val c = c\<lparr>sc_meta := AList.update key val (sc_meta c)\<rparr>"

definition stream_GetMeta :: "string \<Rightarrow> 'p stream_conn \<Rightarrow> any option" where
  "stream_GetMeta key c = map_of (sc_meta c) key"

text \<open>The copy loop of \<open>Metadata\<close>, over the entries in the order of the iteration.\<close>

definition stream_Metadata :: "(string \<times> any) list \<Rightarrow> (string \<times> any) list" where
  "stream_Metadata order = fold (\<lambda>(k, v) cp. AList.update k v cp) order []"

definition stream_SetReader :: "nat option \<Rightarrow> 'p stream_conn \<Rightarrow> 'p stream_conn" where
  "stream_SetReader r c = c\<lparr>sc_reader := r\<rparr>"

text \<open>\<open>DispatchReceive\<close>: the handler called, with its arguments.\<close>

definition stream_DispatchReceive :: "'p stream_conn \<Rightarrow> 'h \<Rightarrow> byte list \<Rightarrow> (nat \<times> 'h \<times> byte list) option" where
  "stream_DispatchReceive c h payload = map_option (\<lambda>recv. (recv, h, payload)) (sc_recvH c)"

text \<open>\<open>Send\<close> and \<open>SendWithHeader\<close> of QUIC and RFCOMM connections.\<close>

definition stream_Send :: "'s writer option \<Rightarrow> 's \<Rightarrow> byte list \<Rightarrow> ('s \<times> error option) outcome option" where
  "stream_Send pipe s data = WriteAll pipe s data"

definition stream_SendWithHeader ::
  "'s writer option \<Rightarrow> 's \<Rightarrow> iheader option \<Rightarrow> byte list \<Rightarrow> codec option \<Rightarrow> ('s \<times> error option) outcome option" where
  "stream_SendWithHeader pipe s hdr payload codec =
     (case codec of
        None \<Rightarrow> Some (Ret (s, Some ErrNoProgress))
      | Some c \<Rightarrow>
          (case (case c of TcpCodec \<Rightarrow> Encode hdr payload | OtherCodec enc \<Rightarrow> Ret (enc hdr payload)) of
             Panic \<Rightarrow> Some Panic
           | Ret (Inl err) \<Rightarrow> Some (Ret (s, Some err))
           | Ret (Inr frame) \<Rightarrow> WriteAll pipe s frame))"

text \<open>
  \<open>quicPipe.Close\<close>: a \<open>sync.Once\<close> around closing the stream, cancelling both directions and closing
  the QUIC connection, whose error is returned the first time only. The calls are recorded.
\<close>

datatype quic_call = StreamClose | CancelRead | CancelWrite | ConnClose

record quic_pipe =
  qp_stream :: bool
  qp_conn :: bool
  qp_done :: bool
  qp_calls :: "quic_call list"

definition quicPipe_Close :: "error option \<Rightarrow> quic_pipe \<Rightarrow> error option \<times> quic_pipe" where
  "quicPipe_Close conn_err p =
     (if qp_done p then (None, p)
      else (if qp_conn p then conn_err else None,
            p\<lparr>qp_done := True,
              qp_calls := qp_calls p @ (if qp_stream p then [StreamClose, CancelRead, CancelWrite] else [])
                            @ (if qp_conn p then [ConnClose] else [])\<rparr>))"


section \<open>Dialing\<close>

text \<open>
  \<open>Dial\<close> of the RFCOMM package. The native dialer returns a pipe, which may be nil, and two
  addresses, which may be nil. The result carries the counter and the pipes that were closed;
  closing a nil pipe is a nil dereference.
\<close>

definition rfcomm_Dial ::
  "(string \<Rightarrow> string) \<Rightarrow> (string \<Rightarrow> string) \<Rightarrow> (rfcomm_DialOptions \<Rightarrow> ('p option \<times> net_addr option \<times> net_addr option) result) \<Rightarrow>
   rfcomm_DialOptions \<Rightarrow> u64 \<Rightarrow> ('p stream_conn result \<times> u64 \<times> 'p list) outcome" where
  "rfcomm_Dial ulow uup dialNative opts0 seq =
     (case dial_options ulow uup opts0 of
        Inl e \<Rightarrow> Ret (Inl e, seq, [])
      | Inr opts \<Rightarrow>
          (case dialNative opts of
             Inl e \<Rightarrow> Ret (Inl e, seq, [])
           | Inr (pipe, local0, remote0) \<Rightarrow>
               let remote = (case remote0 of Some r \<Rightarrow> Some r | None \<Rightarrow>
                      Some (RfcommAddr \<lparr>ad_BDAddr = do_BDAddr opts, ad_UUID = do_UUID opts, ad_Channel = do_Channel opts, ad_Role = ''dial''\<rparr>));
                   local = (case local0 of Some l \<Rightarrow> Some l | None \<Rightarrow>
                      Some (RfcommAddr \<lparr>ad_BDAddr = [], ad_UUID = do_UUID opts, ad_Channel = do_Channel opts, ad_Role = ''dial''\<rparr>))
               in case NewRFCOMMConnection pipe local remote seq of
                    (Inr conn, seq') \<Rightarrow> Ret (Inr conn, seq', [])
                  | (Inl e, seq') \<Rightarrow> (case pipe of None \<Rightarrow> Panic | Some p \<Rightarrow> Ret (Inl e, seq', [p]))))"

definition rfcomm_DialEndpoint ::
  "(string \<Rightarrow> string) \<Rightarrow> (string \<Rightarrow> string) \<Rightarrow> (string \<Rightarrow> string option) \<Rightarrow>
   (rfcomm_DialOptions \<Rightarrow> ('p option \<times> net_addr option \<times> net_addr option) result) \<Rightarrow>
   string \<Rightarrow> u64 \<Rightarrow> ('p stream_conn result \<times> u64 \<times> 'p list) outcome" where
  "rfcomm_DialEndpoint ulow uup lit dialNative endpoint seq =
     (case rfcomm_ParseEndpoint ulow uup lit endpoint of
        (_, Some e) \<Rightarrow> Ret (Inl e, seq, [])
      | (ep, None) \<Rightarrow> rfcomm_Dial ulow uup dialNative (endpoint_options ep) seq)"

text \<open>
  \<open>Dial\<close> of the QUIC package; the operations of quic-go are arguments. The last component lists
  the QUIC connections that were closed.
\<close>

record ('cert, 'pool, 'c, 's) quic_net =
  DialAddr :: "string \<Rightarrow> ('cert, 'pool) tls_config \<Rightarrow> 'c result"
  OpenStreamSync :: "'c \<Rightarrow> 's result"
  conn_LocalAddr :: "'c \<Rightarrow> string"
  conn_RemoteAddr :: "'c \<Rightarrow> string"

definition quic_Dial ::
  "('cert, 'pool) tls_env \<Rightarrow> (string \<Rightarrow> string) \<Rightarrow> (string \<Rightarrow> bool) \<Rightarrow> ('cert, 'pool, 'c, 's) quic_net \<Rightarrow>
   quic_DialOptions \<Rightarrow> u64 \<Rightarrow> ('c \<times> 's) stream_conn result \<times> u64 \<times> 'c list" where
  "quic_Dial env ulow isIP net opts0 seq =
     (case quic_dial_prepare env ulow isIP opts0 of
        Inl e \<Rightarrow> (Inl e, seq, [])
      | Inr (addr, cfg) \<Rightarrow>
          (case DialAddr net addr cfg of
             Inl e \<Rightarrow> (Inl e, seq, [])
           | Inr conn \<Rightarrow>
               (case OpenStreamSync net conn of
                  Inl e \<Rightarrow> (Inl e, seq, [conn])
                | Inr stream \<Rightarrow>
                    let alpn = qd_ALPN (quic_dial_setDefaults isIP opts0);
                        local = QuicAddr \<lparr>qa_Address = conn_LocalAddr net conn, qa_ALPN = alpn, qa_Role = ''dial''\<rparr>;
                        remote = QuicAddr \<lparr>qa_Address = conn_RemoteAddr net conn, qa_ALPN = alpn, qa_Role = ''dial''\<rparr>
                    in case NewQUICConnection (Some (conn, stream)) (Some local) (Some remote) seq of
                         (Inr c, seq') \<Rightarrow> (Inr c, seq', [])
                       | (Inl e, seq') \<Rightarrow> (Inl e, seq', [conn]))))"

definition quic_DialEndpoint ::
  "('cert, 'pool) tls_env \<Rightarrow> (string \<Rightarrow> string) \<Rightarrow> (string \<Rightarrow> bool) \<Rightarrow> (string \<Rightarrow> string option) \<Rightarrow> ('cert, 'pool, 'c, 's) quic_net \<Rightarrow>
   string \<Rightarrow> u64 \<Rightarrow> ('c \<times> 's) stream_conn result \<times> u64 \<times> 'c list" where
  "quic_DialEndpoint env ulow isIP lit net endpoint seq =
     (case quic_ParseEndpoint ulow isIP lit endpoint of
        (_, Some e) \<Rightarrow> (Inl e, seq, [])
      | (ep, None) \<Rightarrow> quic_Dial env ulow isIP net (quic_endpoint_options ep) seq)"


section \<open>What the manager sees of a connection\<close>

definition as_conn :: "'p stream_conn \<Rightarrow> conn" where
  "as_conn c = \<lparr>conn_ID = sc_id c, meta = map_of (sc_meta c)\<rparr>"

lemma numbered_conn_id: "numbered_conn pre pipe l r seq = (Inr c, seq') \<Longrightarrow> seq' = seq + 1 \<and> sc_id c = pre @ itoa (unat seq')"
  by (auto simp: numbered_conn_def Let_def split: option.splits)

lemma itoa_inj: "itoa m = itoa n \<Longrightarrow> m = n"
  by (metis digits_val_itoa option.inject)

text \<open>The ids of a run of new connections: they never repeat before the counter wraps.\<close>

definition run_ids :: "string \<Rightarrow> u64 \<Rightarrow> nat \<Rightarrow> string list" where
  "run_ids pre seq m = map (\<lambda>i. pre @ itoa (unat (seq + of_nat (Suc i)))) [0..<m]"

lemma distinct_run_ids:
  assumes "m \<le> 2 ^ 64"
  shows "distinct (run_ids pre seq m)"
proof -
  have "of_nat (Suc i) = (of_nat (Suc j) :: u64) \<Longrightarrow> i < m \<Longrightarrow> j < m \<Longrightarrow> i = j" for i j
  proof -
    assume "of_nat (Suc i) = (of_nat (Suc j) :: u64)" and ij: "i < m" "j < m"
    then have "(of_nat i :: u64) = of_nat j" by simp
    then have "i mod 2 ^ 64 = j mod 2 ^ 64" by (simp add: word_of_nat_eq_iff take_bit_eq_mod)
    then show "i = j" using ij assms by (metis less_le_trans mod_less)
  qed
  then show ?thesis
    unfolding run_ids_def distinct_map
    by (auto simp: inj_on_def word_unat_eq_iff[symmetric] dest!: itoa_inj)
qed

lemma stream_Metadata_copies: "distinct (map fst order) \<Longrightarrow> stream_Metadata order = order"
proof -
  have "fold (\<lambda>(k, v) cp. AList.update k v cp) order cp = cp @ order" if "distinct (map fst (cp @ order))" for cp
    using that
  proof (induction order arbitrary: cp)
    case (Cons p order)
    then show ?case using Cons.IH[of "cp @ [p]"] by (cases p) (simp add: update_new)
  qed simp
  then show "distinct (map fst order) \<Longrightarrow> stream_Metadata order = order" by (simp add: stream_Metadata_def)
qed

text \<open>Successive calls of a constructor.\<close>

fun make_conns ::
  "(u64 \<Rightarrow> 'p stream_conn result \<times> u64) \<Rightarrow> nat \<Rightarrow> u64 \<Rightarrow> 'p stream_conn result list" where
  "make_conns new 0 seq = []"
| "make_conns new (Suc m) seq = (case new seq of (r, seq') \<Rightarrow> r # make_conns new m seq')"

lemma make_numbered:
  "map (\<lambda>r. map_sum id sc_id r) (make_conns (numbered_conn pre (Some p) l r) m seq) = map Inr (run_ids pre seq m)"
proof (induction m arbitrary: seq)
  case 0
  then show ?case by (simp add: run_ids_def)
next
  case (Suc m)
  have "seq + of_nat (Suc (Suc i)) = (seq + 1) + of_nat (Suc i)" for i by (simp add: algebra_simps)
  moreover have "[0..<Suc m] = 0 # map Suc [0..<m]" by (simp add: map_Suc_upt upt_conv_Cons del: upt_Suc)
  ultimately have "run_ids pre seq (Suc m) = (pre @ itoa (unat (seq + 1))) # run_ids pre (seq + 1) m"
    by (simp only: run_ids_def list.map map_map comp_def) simp
  then show ?case using Suc.IH[of "seq + 1"] by (simp add: numbered_conn_def Let_def)
qed


section \<open>Properties\<close>

text \<open>
  Connections as the manager sees them. For every transport, a new connection has its id and no
  metadata; \<open>SetMeta\<close> and \<open>GetMeta\<close> are the map operations the manager and the router are written
  against, \<open>Metadata\<close> returns a copy with the same content whatever order the map is iterated in,
  and installing a handler or a reader changes neither id nor metadata.
\<close>

theorem stream_conn_refines_conn:
  assumes "distinct (map fst order)" "set order = set (sc_meta c)" "distinct (map fst (sc_meta c))"
  shows "as_conn (stream_SetMeta key val c) = SetMeta key val (as_conn c)
    \<and> stream_GetMeta key c = GetMeta (as_conn c) key
    \<and> map_of (stream_Metadata order) = meta (as_conn c)
    \<and> as_conn (stream_OnReceive h c) = as_conn c \<and> as_conn (stream_SetReader r c) = as_conn c
    \<and> distinct (map fst (sc_meta (stream_SetMeta key val c)))"
proof -
  have "map_of order = map_of (sc_meta c)"
    using map_of_inject_set[OF assms(1,3)] assms(2) by simp
  then show ?thesis
    using stream_Metadata_copies[OF assms(1)] assms(3)
    by (simp add: as_conn_def stream_SetMeta_def SetMeta_def stream_GetMeta_def GetMeta_def stream_OnReceive_def
        stream_SetReader_def update_conv' distinct_update)
qed

definition ex_stream :: "nat stream_conn" where
  "ex_stream = stream_SetMeta ''role'' (VString ''parent'') (NewTCPConnection ''10.0.0.1:9000'' ''10.0.0.2:41000'' 7)"

theorem stream_conn_refines_conn_witness:
  "as_conn (stream_SetMeta ''nodeID'' (VUint32 5) ex_stream) = SetMeta ''nodeID'' (VUint32 5) (as_conn ex_stream)
   \<and> map_of (stream_Metadata (sc_meta ex_stream)) = meta (as_conn ex_stream) \<and> conn_ID (as_conn ex_stream) = ''10.0.0.1:9000->10.0.0.2:41000''"
  using stream_conn_refines_conn[of "sc_meta ex_stream" ex_stream "''nodeID''" "VUint32 5" None None]
  by (simp add: ex_stream_def stream_SetMeta_def NewTCPConnection_def as_conn_def)

text \<open>
  Connection ids are unique. However many QUIC connections are made one after the other, up to
  \<open>2\<^sup>6\<^sup>4\<close> of them, all succeed and no two have the same id; the same holds for RFCOMM, and no QUIC
  connection shares an id with an RFCOMM connection.
\<close>

theorem numbered_ids_unique:
  assumes "m \<le> 2 ^ 64"
  shows "\<exists>ids. map (\<lambda>r. map_sum id sc_id r) (make_conns (NewQUICConnection (Some p) l r) m seq) = map Inr ids
      \<and> distinct ids
      \<and> (\<exists>ids'. map (\<lambda>r. map_sum id sc_id r) (make_conns (NewRFCOMMConnection (Some p') l' r') m seq') = map Inr ids'
          \<and> distinct ids' \<and> set ids \<inter> set ids' = {})"
proof (intro exI conjI)
  show "set (run_ids ''quic#'' seq m) \<inter> set (run_ids ''rfcomm#'' seq' m) = {}"
    by (auto simp: run_ids_def)
qed (simp_all add: NewQUICConnection_def NewRFCOMMConnection_def make_numbered distinct_run_ids[OF assms])

theorem numbered_ids_unique_witness:
  "\<exists>ids. map (\<lambda>r. map_sum id sc_id r) (make_conns (NewQUICConnection (Some ()) None None) 1000 (-5)) = map Inr ids \<and> distinct ids"
  using numbered_ids_unique[of 1000 "()" None None "-5" "()" None None 0] by auto

text \<open>
  A frame goes out whole. On a pipe that keeps the contract of \<open>io.Writer\<close>, sending a header and a
  payload over a QUIC or RFCOMM connection returns, has written a prefix of the encoded frame,
  and all of it when no error is reported; without a codec nothing is written and the error is
  \<open>io.ErrNoProgress\<close>.
\<close>

theorem stream_sends_whole_frame:
  assumes "io_writer w written" "Encode (Some ih) payload = Ret (Inr frame)"
  shows "\<exists>s' err k. stream_SendWithHeader (Some w) s (Some ih) payload (Some TcpCodec) = Some (Ret (s', err)) \<and> k \<le> length frame
      \<and> written s' = written s @ take k frame \<and> (err = None \<longrightarrow> k = length frame)
      \<and> stream_SendWithHeader (Some w) s (Some ih) payload None = Some (Ret (s, Some ErrNoProgress))"
  using io_writer.WriteAll_returns[OF assms(1), of s frame] assms(2) by (auto simp: stream_SendWithHeader_def)

theorem stream_sends_whole_frame_witness:
  "\<exists>frame s'. Encode (Some (HTcp zero_header)) [7] = Ret (Inr frame)
     \<and> stream_SendWithHeader (Some half_writer) [1] (Some (HTcp zero_header)) [7] (Some TcpCodec) = Some (Ret (s', None))
     \<and> s' = [1] @ frame"
proof -
  obtain frame where f: "Encode (Some (HTcp zero_header)) [7] = Ret (Inr frame)" by (simp add: Encode_HTcp)
  have "stream_SendWithHeader (Some half_writer) [1] (Some (HTcp zero_header)) [7] (Some TcpCodec) = Some (Ret ([1] @ frame, None))"
    using f by (simp add: stream_SendWithHeader_def WriteAll_def half_writer_loop)
  moreover from this stream_sends_whole_frame[OF half_writer_ok f, of "[1]"]
  have "take (length frame) frame = frame" by simp
  ultimately show ?thesis using f by blast
qed

text \<open>
  A nil pipe makes the RFCOMM dialer panic. When the native layer reports no error but returns no
  pipe, as an Android provider may, \<open>NewRFCOMMConnection\<close> refuses it and \<open>Dial\<close> closes the pipe it
  does not have; in every other case it returns. When it returns an error no pipe stays open, and the
  connection it returns has the addresses of the native layer or those of the options.
\<close>

theorem rfcomm_dial_panics_on_nil_pipe:
  "case rfcomm_Dial ulow uup dialNative opts0 seq of
     Panic \<Rightarrow> \<exists>opts l r. dial_options ulow uup opts0 = Inr opts \<and> dialNative opts = Inr (None, l, r)
   | Ret (Inl e, seq', closed) \<Rightarrow> seq' = seq \<and> closed = []
       \<and> (\<forall>opts. dial_options ulow uup opts0 = Inr opts \<longrightarrow> dialNative opts = Inl e)
   | Ret (Inr c, seq', closed) \<Rightarrow> seq' = seq + 1 \<and> closed = [] \<and> sc_id c = ''rfcomm#'' @ itoa (unat seq')
       \<and> sc_local c \<noteq> None \<and> sc_remote c \<noteq> None
       \<and> (\<exists>opts l r. dial_options ulow uup opts0 = Inr opts \<and> dialNative opts = Inr (Some (sc_pipe c), l, r)
            \<and> (l \<noteq> None \<longrightarrow> sc_local c = l) \<and> (r \<noteq> None \<longrightarrow> sc_remote c = r))"
  by (auto simp: rfcomm_Dial_def NewRFCOMMConnection_def numbered_conn_def Let_def split: sum.splits option.splits prod.splits)

text \<open>
  The QUIC dialer leaves no connection behind. Every QUIC connection that \<open>Dial\<close> opens is either inside
  the connection it returns or has been closed when it returns an error.
\<close>

theorem quic_dial_no_leak:
  assumes "quic_dial_prepare env ulow isIP opts = Inr (addr, cfg)" "DialAddr net addr cfg = Inr conn"
  shows "case quic_Dial env ulow isIP net opts seq of
      (Inr c, seq', closed) \<Rightarrow> fst (sc_pipe c) = conn \<and> closed = [] \<and> OpenStreamSync net conn = Inr (snd (sc_pipe c))
        \<and> sc_id c = ''quic#'' @ itoa (unat seq')
    | (Inl e, seq', closed) \<Rightarrow> closed = [conn] \<and> OpenStreamSync net conn = Inl e \<and> seq' = seq"
  using assms by (auto simp: quic_Dial_def NewQUICConnection_def numbered_conn_def Let_def split: sum.splits)

definition ex_quic_net :: "(string \<times> string, string list, nat, nat) quic_net" where
  "ex_quic_net = \<lparr>DialAddr = (\<lambda>a c. Inr 1), OpenStreamSync = (\<lambda>c. Inl (Err ''no stream'')), conn_LocalAddr = (\<lambda>_. ''l''), conn_RemoteAddr = (\<lambda>_. ''r'')\<rparr>"

theorem quic_dial_no_leak_witness:
  "\<exists>seq' e. quic_Dial ex_tls_env id (\<lambda>_. False) ex_quic_net (quic_endpoint_options ex_quic_endpoint) 0 = (Inl e, seq', [1])"
proof -
  have wf: "quic_endpoint_wf (\<lambda>_. False) ex_quic_endpoint" using ex_quic_parse by (rule quic_ParseEndpoint_wf)
  have len: "length ex_pin = 32" by (simp add: ex_pin_def)
  have "\<exists>cfg. buildClientTLSConfig ex_tls_env id (quic_endpoint_options ex_quic_endpoint) = Inr cfg"
    using normalizePin_encoded[OF len] by (simp add: buildClientTLSConfig_def quic_endpoint_options_def ex_quic_endpoint_def client_cert_def)
  then obtain addr cfg where "quic_dial_prepare ex_tls_env id (\<lambda>_. False) (quic_endpoint_options ex_quic_endpoint) = Inr (addr, cfg)"
    using quic_wf_dial(1)[OF wf] quic_wf_dial(2)[OF wf, of id] by (auto simp: quic_dial_prepare_def)
  from quic_dial_no_leak[OF this, of ex_quic_net 1 0] show ?thesis
    by (auto simp: ex_quic_net_def split: prod.splits sum.splits)
qed

end
