(* ===== verification/Rfcomm_Native.thy ===== *)
theory Rfcomm_Native
  imports Transport Win_Pipe
begin

text \<open>
  The native layers of the RFCOMM transport: \<^verbatim>\<open>native_linux.go\<close>, \<^verbatim>\<open>native_android.go\<close> with
  \<^verbatim>\<open>android_provider.go\<close>, \<^verbatim>\<open>native_stub.go\<close> and \<^verbatim>\<open>native_windows.go\<close>, whose pipe is the theory \<open>Win_Pipe\<close>. What
  the system calls return is an argument; what the code does with handles, sockets and service
  records is recorded in the order of the calls. Where a dialer waits for the connect or the
  context, the argument \<open>ctx\<close> says that the context wins.
\<close>


section \<open>Linux\<close>

type_synonym fd = nat

definition errCtxDone :: error where "errCtxDone = Err ''context done''"

text \<open>
  \<open>dialRFCOMMByChannel\<close>: \<open>socket\<close>, \<open>connect\<close> and \<open>newfile\<close> are the outcomes of \<open>unix.Socket\<close>, \<open>unix.Connect\<close> and
  whether \<open>os.NewFile\<close> returned a file. The result carries the descriptors closed.
\<close>

definition dialRFCOMMByChannel ::
  "(string \<Rightarrow> string) \<Rightarrow> fd result \<Rightarrow> (byte list \<Rightarrow> u8 \<Rightarrow> error option) \<Rightarrow> bool \<Rightarrow> bool \<Rightarrow> rfcomm_DialOptions \<Rightarrow> fd result \<times> fd list" where
  "dialRFCOMMByChannel uup socket connect newfile ctx opts =
     (case normalizeBDAddr uup (do_BDAddr opts) of
        Inl e \<Rightarrow> (Inl e, [])
      | Inr bdaddr \<Rightarrow>
          if do_Channel opts < 1 \<or> do_Channel opts > 30 then (Inl ErrEndpointChannelInvalid, [])
          else case bdAddrToRFCOMMAddrLE uup bdaddr of
            Inl e \<Rightarrow> (Inl e, [])
          | Inr addrLE \<Rightarrow>
            (case socket of
               Inl e \<Rightarrow> (Inl e, [])
             | Inr fd \<Rightarrow>
                 if ctx then (Inl errCtxDone, [fd])
                 else case connect addrLE (word_of_int (do_Channel opts)) of
                   Some e \<Rightarrow> (Inl e, [fd])
                 | None \<Rightarrow> if newfile then (Inr fd, []) else (Inl (Err ''os.NewFile returned nil''), [fd])))"

text \<open>\<open>dialNative\<close>: by channel, or through BlueZ when no channel is given. No addresses are returned.\<close>

definition linux_dialNative ::
  "(rfcomm_DialOptions \<Rightarrow> 'p option result) \<Rightarrow> (rfcomm_DialOptions \<Rightarrow> 'p option result) \<Rightarrow> rfcomm_DialOptions \<Rightarrow>
   ('p option \<times> net_addr option \<times> net_addr option) result" where
  "linux_dialNative byChannel byUUID opts =
     map_sum id (\<lambda>p. (p, None, None)) (if do_Channel opts > 0 then byChannel opts else byUUID opts)"

definition linux_listenNative :: "(rfcomm_Options \<Rightarrow> 'l result) \<Rightarrow> rfcomm_Options \<Rightarrow> 'l result" where
  "linux_listenNative listenBlueZ opts = (case Options_Validate opts of Some e \<Rightarrow> Inl e | None \<Rightarrow> listenBlueZ opts)"

text \<open>Other systems.\<close>

definition stub_dialNative :: "rfcomm_DialOptions \<Rightarrow> ('p option \<times> net_addr option \<times> net_addr option) result" where
  "stub_dialNative opts = Inl (Err ''rfcomm not supported on this OS'')"

definition stub_listenNative :: "rfcomm_Options \<Rightarrow> 'l result" where
  "stub_listenNative opts = Inl (Err ''rfcomm not supported on this OS'')"


section \<open>Android\<close>

record ('p, 'l) android_provider =
  ap_Listen :: "string \<Rightarrow> bool \<Rightarrow> 'l result"
  ap_Dial :: "string \<Rightarrow> string \<Rightarrow> int \<Rightarrow> bool \<Rightarrow> 'p option result"

definition getAndroidRFCOMMProvider :: "('p, 'l) android_provider option \<Rightarrow> ('p, 'l) android_provider result" where
  "getAndroidRFCOMMProvider p = (case p of None \<Rightarrow> Inl (Err ''android rfcomm provider not set'') | Some p \<Rightarrow> Inr p)"

definition android_dialNative ::
  "('p, 'l) android_provider option \<Rightarrow> rfcomm_DialOptions \<Rightarrow> ('p option \<times> net_addr option \<times> net_addr option) result" where
  "android_dialNative provider opts =
     (case getAndroidRFCOMMProvider provider of
        Inl e \<Rightarrow> Inl e
      | Inr p \<Rightarrow>
          (case ap_Dial p (do_BDAddr opts) (do_UUID opts) (do_Channel opts) (\<not> do_Insecure opts) of
             Inl e \<Rightarrow> Inl e
           | Inr pipe \<Rightarrow>
               Inr (pipe,
                 Some (RfcommAddr \<lparr>ad_BDAddr = [], ad_UUID = do_UUID opts, ad_Channel = do_Channel opts, ad_Role = ''dial''\<rparr>),
                 Some (RfcommAddr \<lparr>ad_BDAddr = do_BDAddr opts, ad_UUID = do_UUID opts, ad_Channel = do_Channel opts,
                                   ad_Role = ''dial''\<rparr>))))"

definition android_listenNative :: "('p, 'l) android_provider option \<Rightarrow> rfcomm_Options \<Rightarrow> (string \<times> int \<times> 'l) result" where
  "android_listenNative provider opts =
     (case getAndroidRFCOMMProvider provider of
        Inl e \<Rightarrow> Inl e
      | Inr p \<Rightarrow>
          (case ap_Listen p (lo_UUID opts) (\<not> lo_Insecure opts) of
             Inl e \<Rightarrow> Inl e
           | Inr l \<Rightarrow> Inr (lo_UUID opts, lo_Channel opts, l)))"

text \<open>\<open>androidListener.Accept\<close>: \<open>res\<close> is what the Java side returned, with the remote address of a pipe.\<close>

definition androidListener_Accept ::
  "(string \<Rightarrow> string) \<Rightarrow> string \<Rightarrow> int \<Rightarrow> ('p \<times> string) option result \<Rightarrow> ('p \<times> net_addr \<times> net_addr) result" where
  "androidListener_Accept uup uuid channel res =
     (case res of
        Inl e \<Rightarrow> Inl e
      | Inr None \<Rightarrow> Inl (Err ''android rfcomm listener returned nil pipe'')
      | Inr (Some (pipe, addr)) \<Rightarrow>
          let raw = TrimSpace addr;
              bd = (if raw \<noteq> [] then (case normalizeBDAddr uup raw of Inr b \<Rightarrow> b | Inl _ \<Rightarrow> raw) else raw)
          in Inr (pipe, RfcommAddr \<lparr>ad_BDAddr = [], ad_UUID = uuid, ad_Channel = channel, ad_Role = ''listen''\<rparr>,
                  RfcommAddr \<lparr>ad_BDAddr = bd, ad_UUID = uuid, ad_Channel = channel, ad_Role = ''listen''\<rparr>))"


section \<open>Windows: addresses\<close>

record sockaddrBth =
  sb_AddressFamily :: u16
  sb_BtAddr :: u64
  sb_ServiceClass :: GUID
  sb_Port :: u32

text \<open>
  \<open>RawSockaddrBth\<close>: byte arrays in the memory layout of a little-endian machine, which all
  Windows machines are.
\<close>

record RawSockaddrBth =
  raw_AddressFamily :: "byte list"
  raw_BtAddr :: "byte list"
  raw_ServiceClassId :: "byte list"
  raw_Port :: "byte list"

definition le16 :: "u16 \<Rightarrow> byte list" where "le16 v = [ucast v, ucast (drop_bit 8 v)]"
definition le32 :: "u32 \<Rightarrow> byte list" where
  "le32 v = [ucast v, ucast (drop_bit 8 v), ucast (drop_bit 16 v), ucast (drop_bit 24 v)]"
definition le64 :: "u64 \<Rightarrow> byte list" where
  "le64 v = le32 (ucast v) @ le32 (ucast (drop_bit 32 v))"

definition of_le16 :: "byte list \<Rightarrow> u16" where "of_le16 b = ucast (b ! 0) OR push_bit 8 (ucast (b ! 1))"
definition of_le32 :: "byte list \<Rightarrow> u32" where
  "of_le32 b = ucast (b ! 0) OR push_bit 8 (ucast (b ! 1)) OR push_bit 16 (ucast (b ! 2)) OR push_bit 24 (ucast (b ! 3))"
definition of_le64 :: "byte list \<Rightarrow> u64" where
  "of_le64 b = ucast (of_le32 (take 4 b)) OR push_bit 32 (ucast (of_le32 (drop 4 b)))"

definition guid_bytes :: "GUID \<Rightarrow> byte list" where
  "guid_bytes g = le32 (Data1 g) @ le16 (Data2 g) @ le16 (Data3 g) @ Data4 g"

definition guid_of_bytes :: "byte list \<Rightarrow> GUID" where
  "guid_of_bytes b = \<lparr>Data1 = of_le32 (gslice 0 4 b), Data2 = of_le16 (gslice 4 6 b), Data3 = of_le16 (gslice 6 8 b), Data4 = gslice 8 16 b\<rparr>"

definition zero_GUID :: GUID where "zero_GUID = \<lparr>Data1 = 0, Data2 = 0, Data3 = 0, Data4 = replicate 8 0\<rparr>"

definition afBth :: u16 where "afBth = 32"

definition newRawSockaddrBth :: "u64 \<Rightarrow> GUID \<Rightarrow> u32 \<Rightarrow> RawSockaddrBth" where
  "newRawSockaddrBth btAddr serviceClass port =
     \<lparr>raw_AddressFamily = le16 afBth, raw_BtAddr = le64 btAddr, raw_ServiceClassId = guid_bytes serviceClass, raw_Port = le32 port\<rparr>"

definition sockaddrBthFromRaw :: "RawSockaddrBth option \<Rightarrow> sockaddrBth" where
  "sockaddrBthFromRaw raw =
     (case raw of
        None \<Rightarrow> \<lparr>sb_AddressFamily = 0, sb_BtAddr = 0, sb_ServiceClass = zero_GUID, sb_Port = 0\<rparr>
      | Some r \<Rightarrow> \<lparr>sb_AddressFamily = of_le16 (raw_AddressFamily r), sb_BtAddr = of_le64 (raw_BtAddr r),
                   sb_ServiceClass = guid_of_bytes (raw_ServiceClassId r), sb_Port = of_le32 (raw_Port r)\<rparr>)"

text \<open>\<open>windows.SockaddrBth\<close>, the zero value and the remote address: by channel or by service class.\<close>

record SockaddrBth =
  sa_BtAddr :: u64
  sa_ServiceClassId :: GUID
  sa_Port :: u32

definition newDialLocalSockaddrBth :: SockaddrBth where
  "newDialLocalSockaddrBth = \<lparr>sa_BtAddr = 0, sa_ServiceClassId = zero_GUID, sa_Port = 0\<rparr>"

definition newDialRemoteSockaddrBth :: "u64 \<Rightarrow> GUID \<Rightarrow> int \<Rightarrow> SockaddrBth" where
  "newDialRemoteSockaddrBth btAddr serviceClass channel =
     (let sa = \<lparr>sa_BtAddr = btAddr, sa_ServiceClassId = zero_GUID, sa_Port = 0\<rparr>
      in if channel > 0 then sa\<lparr>sa_Port := word_of_int channel\<rparr> else sa\<lparr>sa_ServiceClassId := serviceClass\<rparr>)"

definition newDialAddrFromSockaddr :: "sockaddrBth option \<Rightarrow> string \<Rightarrow> int \<Rightarrow> rfcomm_Addr" where
  "newDialAddrFromSockaddr raw uuid fallbackChannel =
     (let addr = \<lparr>ad_BDAddr = [], ad_UUID = uuid, ad_Channel = fallbackChannel, ad_Role = ''dial''\<rparr>
      in case raw of
           None \<Rightarrow> addr
         | Some r \<Rightarrow>
             let a1 = (if sb_BtAddr r \<noteq> 0 then addr\<lparr>ad_BDAddr := bthAddrToBDAddr (sb_BtAddr r)\<rparr> else addr)
             in if sb_Port r > 0 then a1\<lparr>ad_Channel := uint (sb_Port r)\<rparr> else a1)"

text \<open>A system call's error: nil, an \<open>Errno\<close> or any other error.\<close>

datatype sys_error = Errno u32 | OtherError error

definition WSAEINVAL :: u32 where "WSAEINVAL = 10022"

definition winsockCallErr :: "sys_error option \<Rightarrow> sys_error" where
  "winsockCallErr err =
     (case err of
        None \<Rightarrow> Errno WSAEINVAL
      | Some (OtherError e) \<Rightarrow> OtherError e
      | Some (Errno errno) \<Rightarrow> if errno = 0 then Errno WSAEINVAL else Errno errno)"

text \<open>\<open>accept\<close> and \<open>getsockname\<close>: the return value, the address filled in and the call's error.\<close>

definition acceptSock :: "int \<Rightarrow> RawSockaddrBth \<Rightarrow> sys_error option \<Rightarrow> sys_error + (int \<times> sockaddrBth)" where
  "acceptSock r0 raw callErr = (if r0 = -1 then Inl (winsockCallErr callErr) else Inr (r0, sockaddrBthFromRaw (Some raw)))"

definition getsocknameBth :: "int \<Rightarrow> RawSockaddrBth \<Rightarrow> sys_error option \<Rightarrow> sys_error + sockaddrBth" where
  "getsocknameBth r0 raw callErr = (if r0 = -1 then Inl (winsockCallErr callErr) else Inr (sockaddrBthFromRaw (Some raw)))"


section \<open>Windows: dialing and listening\<close>

type_synonym handle = nat

text \<open>
  \<open>dialNative\<close> with the handles on which \<open>Closesocket\<close> was called: \<open>wsa\<close> and \<open>socket\<close> are the outcomes of
  the initialisation and of \<open>WSASocket\<close>, \<open>bind\<close> and \<open>connect\<close> the errors of these calls.
\<close>

definition win_dialNative ::
  "(string \<Rightarrow> string) \<Rightarrow> (string \<Rightarrow> string) \<Rightarrow> error option \<Rightarrow> handle result \<Rightarrow> error option \<Rightarrow> (SockaddrBth \<Rightarrow> error option) \<Rightarrow>
   sockaddrBth option \<Rightarrow> bool \<Rightarrow> rfcomm_DialOptions \<Rightarrow> (handle \<times> rfcomm_Addr \<times> rfcomm_Addr) result \<times> handle list" where
  "win_dialNative ulow uup wsa socket bind connect sockname ctx opts =
     (case wsa of
        Some e \<Rightarrow> (Inl e, [])
      | None \<Rightarrow>
          let bd = (case normalizeBDAddr uup (do_BDAddr opts) of Inr b \<Rightarrow> b | Inl _ \<Rightarrow> []);
              uuid = ToLower ulow (TrimSpace (do_UUID opts))
          in case uuidToGUID ulow uuid of
            Inl e \<Rightarrow> (Inl e, [])
          | Inr g \<Rightarrow>
            (case bdAddrToBTHAddr uup bd of
               Inl e \<Rightarrow> (Inl e, [])
             | Inr btAddr \<Rightarrow>
               (case socket of
                  Inl e \<Rightarrow> (Inl e, [])
                | Inr s \<Rightarrow>
                  (case bind of
                     Some e \<Rightarrow> (Inl e, [s])
                   | None \<Rightarrow>
                       if ctx then (Inl errCtxDone, [s, s])
                       else case connect (newDialRemoteSockaddrBth btAddr g (do_Channel opts)) of
                         Some e \<Rightarrow> (Inl e, [s])
                       | None \<Rightarrow>
                           (Inr (s, newDialAddrFromSockaddr sockname uuid 0,
                                 \<lparr>ad_BDAddr = bd, ad_UUID = uuid, ad_Channel = do_Channel opts, ad_Role = ''dial''\<rparr>), [])))))"

text \<open>The listener. \<open>wl_sock\<close> is \<open>None\<close> for \<open>InvalidHandle\<close>; the calls are recorded.\<close>

datatype win_call = CloseSock handle | RegisterService u32 | DeleteService

record winListener =
  wl_uuid :: string
  wl_guid :: GUID
  wl_channel :: int
  wl_sock :: "handle option"
  wl_closed :: bool
  wl_registered :: bool
  wl_calls :: "win_call list"

definition deleteService :: "error option \<Rightarrow> winListener \<Rightarrow> error option \<times> winListener" where
  "deleteService res l =
     (let l1 = l\<lparr>wl_calls := wl_calls l @ [DeleteService]\<rparr>
      in if res \<noteq> None then (res, l1) else (None, l1\<lparr>wl_registered := False\<rparr>))"

definition winListener_Close :: "error option \<Rightarrow> winListener \<Rightarrow> winListener" where
  "winListener_Close del l =
     (if wl_closed l then l
      else let l1 = l\<lparr>wl_closed := True\<rparr>;
               l2 = (if wl_registered l1 then snd (deleteService del l1) else l1)
           in case wl_sock l2 of
                None \<Rightarrow> l2
              | Some s \<Rightarrow> l2\<lparr>wl_calls := wl_calls l2 @ [CloseSock s], wl_sock := None\<rparr>)"

definition registerService :: "(RawSockaddrBth \<Rightarrow> error option) \<Rightarrow> winListener \<Rightarrow> error option \<times> winListener" where
  "registerService setService l =
     (if wl_channel l \<le> 0 then (Some (Err ''rfcomm channel not assigned''), l)
      else let raw = newRawSockaddrBth 0 zero_GUID (word_of_int (wl_channel l));
               l1 = l\<lparr>wl_calls := wl_calls l @ [RegisterService (word_of_int (wl_channel l))]\<rparr>
           in case setService raw of
                Some e \<Rightarrow> (Some e, l1)
              | None \<Rightarrow> (None, l1\<lparr>wl_registered := True\<rparr>))"

definition win_listenNative ::
  "(string \<Rightarrow> string) \<Rightarrow> error option \<Rightarrow> handle result \<Rightarrow> (SockaddrBth \<Rightarrow> error option) \<Rightarrow> sockaddrBth result \<Rightarrow> error option \<Rightarrow>
   (RawSockaddrBth \<Rightarrow> error option) \<Rightarrow> rfcomm_Options \<Rightarrow> (error option \<times> winListener) result" where
  "win_listenNative ulow wsa socket bind sockname listen setService opts =
     (case wsa of
        Some e \<Rightarrow> Inl e
      | None \<Rightarrow>
          let uuid = ToLower ulow (TrimSpace (lo_UUID opts))
          in case uuidToGUID ulow uuid of
            Inl e \<Rightarrow> Inl e
          | Inr g \<Rightarrow>
            (case socket of
               Inl e \<Rightarrow> Inl e
             | Inr s \<Rightarrow>
               let ln = \<lparr>wl_uuid = uuid, wl_guid = g, wl_channel = lo_Channel opts, wl_sock = Some s, wl_closed = False,
                         wl_registered = False, wl_calls = []\<rparr>;
                   sa = newDialLocalSockaddrBth\<lparr>sa_Port := (if lo_Channel opts > 0 then word_of_int (lo_Channel opts) else 0)\<rparr>
               in case bind sa of
                    Some e \<Rightarrow> Inr (Some e, winListener_Close None ln)
                  | None \<Rightarrow>
                    let ln1 = (if lo_Channel opts = 0
                               then (case sockname of Inr got \<Rightarrow> if sb_Port got > 0 then ln\<lparr>wl_channel := uint (sb_Port got)\<rparr> else ln
                                     | Inl _ \<Rightarrow> ln)
                               else ln)
                    in case listen of
                         Some e \<Rightarrow> Inr (Some e, winListener_Close None ln1)
                       | None \<Rightarrow>
                           (case registerService setService ln1 of
                              (Some e, ln2) \<Rightarrow> Inr (Some e, winListener_Close None ln2)
                            | (None, ln2) \<Rightarrow> Inr (None, ln2))))"

definition winListener_Accept ::
  "sys_error + (int \<times> sockaddrBth) \<Rightarrow> winListener \<Rightarrow> (error + sys_error) + (int \<times> rfcomm_Addr \<times> rfcomm_Addr)" where
  "winListener_Accept acc l =
     (if wl_closed l then Inl (Inl (Err ''listener closed''))
      else case acc of
        Inl e \<Rightarrow> Inl (Inr e)
      | Inr (nfd, rsa) \<Rightarrow>
          Inr (nfd, \<lparr>ad_BDAddr = [], ad_UUID = wl_uuid l, ad_Channel = wl_channel l, ad_Role = ''listen''\<rparr>,
               \<lparr>ad_BDAddr = bthAddrToBDAddr (sb_BtAddr rsa), ad_UUID = wl_uuid l, ad_Channel = wl_channel l, ad_Role = ''listen''\<rparr>))"

text \<open>The pipe's \<open>Close\<close>: the flag and the handles closed.\<close>

definition winSockPipe_Close :: "handle \<Rightarrow> bool \<times> handle list \<Rightarrow> bool \<times> handle list" where
  "winSockPipe_Close sock p = (case p of (closed, calls) \<Rightarrow> if closed then p else (True, calls @ [sock]))"


section \<open>Byte layouts\<close>

lemma of_le16_le16 [simp]: "of_le16 (le16 v) = v"
  unfolding of_le16_def le16_def by (rule bit_word_eqI) (auto simp: bit_simps)

lemma of_le32_le32 [simp]: "of_le32 (le32 v) = v"
  unfolding of_le32_def le32_def
  by (rule bit_word_eqI) (auto simp: bit_simps less_diff_conv2, metis le_add_diff_inverse not_less)

lemma of_le64_le64 [simp]: "of_le64 (le64 v) = v"
proof -
  have "take 4 (le32 a @ x) = le32 a" "drop 4 (le32 a @ x) = x" for a x by (simp_all add: le32_def)
  then have "of_le64 (le64 v) = ucast (ucast v :: u32) OR push_bit 32 (ucast (ucast (drop_bit 32 v) :: u32))"
    by (simp add: of_le64_def le64_def)
  also have "\<dots> = v" by (rule bit_word_eqI) (auto simp: bit_simps)
  finally show ?thesis .
qed

lemma guid_of_guid_bytes [simp]: "length (Data4 g) = 8 \<Longrightarrow> guid_of_bytes (guid_bytes g) = g"
proof -
  assume l: "length (Data4 g) = 8"
  have "gslice 0 4 (guid_bytes g) = le32 (Data1 g)" "gslice 4 6 (guid_bytes g) = le16 (Data2 g)"
    "gslice 6 8 (guid_bytes g) = le16 (Data3 g)" "gslice 8 16 (guid_bytes g) = Data4 g"
    using l by (simp_all add: guid_bytes_def gslice_def le32_def le16_def)
  then show ?thesis by (simp add: guid_of_bytes_def)
qed


section \<open>Properties\<close>

text \<open>
  The raw socket address keeps its fields. An address written into the byte layout of the Windows API
  and read back has the Bluetooth family and the same device, service class and port.
\<close>

theorem raw_sockaddr_roundtrip:
  assumes "length (Data4 g) = 8"
  shows "sockaddrBthFromRaw (Some (newRawSockaddrBth btAddr g port)) =
    \<lparr>sb_AddressFamily = afBth, sb_BtAddr = btAddr, sb_ServiceClass = g, sb_Port = port\<rparr>"
  using assms by (simp add: sockaddrBthFromRaw_def newRawSockaddrBth_def)

theorem raw_sockaddr_roundtrip_witness:
  "sockaddrBthFromRaw (Some (newRawSockaddrBth 0x0123456789AB zero_GUID 3)) =
    \<lparr>sb_AddressFamily = afBth, sb_BtAddr = 0x0123456789AB, sb_ServiceClass = zero_GUID, sb_Port = 3\<rparr>"
  using raw_sockaddr_roundtrip[of zero_GUID] by (simp add: zero_GUID_def)

text \<open>
  Dialing by channel on Linux closes what it opened. Once the socket exists, \<open>dialRFCOMMByChannel\<close> either
  returns it, connected to the reversed octets of the address on the channel asked for, and
  closes nothing, or returns an error and has closed it exactly once.
\<close>

theorem linux_dial_closes_once:
  assumes "normalizeBDAddr uup (do_BDAddr opts) = Inr (print_bd bs)" "length bs = 6" "1 \<le> do_Channel opts" "do_Channel opts \<le> 30"
  shows "case dialRFCOMMByChannel uup (Inr fd) connect newfile ctx opts of
      (Inr f, closed) \<Rightarrow> f = fd \<and> closed = [] \<and> \<not> ctx \<and> connect (rev bs) (word_of_int (do_Channel opts)) = None
    | (Inl e, closed) \<Rightarrow> closed = [fd]"
proof -
  have "bdAddrToRFCOMMAddrLE uup (print_bd bs) = Inr (rev bs)"
    by (rule bdAddrToRFCOMMAddrLE_canonical[OF normalize_print_bd[OF assms(2)] assms(2)])
  then show ?thesis
    using assms by (auto simp: dialRFCOMMByChannel_def split: option.splits)
qed

definition ex_dial :: rfcomm_DialOptions where
  "ex_dial = \<lparr>do_BDAddr = ''01:23:45:67:89:AB'', do_UUID = DefaultRFCOMMUUID, do_Channel = 3, do_Adapter = ''hci0'', do_Insecure = False\<rparr>"

definition ex_bd :: "byte list" where
  "ex_bd = [0x01, 0x23, 0x45, 0x67, 0x89, 0xAB]"

lemma ex_bd_text: "print_bd ex_bd = ''01:23:45:67:89:AB''" "length ex_bd = 6"
  by code_simp+

lemma ex_bd_normal: "normalizeBDAddr uup (do_BDAddr ex_dial) = Inr (print_bd ex_bd)"
  using normalize_print_bd[OF ex_bd_text(2)] ex_bd_text(1) by (simp add: ex_dial_def)

theorem linux_dial_closes_once_witness:
  "\<exists>f e. dialRFCOMMByChannel id (Inr 4) (\<lambda>_ _. None) True False ex_dial = (Inr f, []) \<and> f = 4
     \<and> dialRFCOMMByChannel id (Inr 4) (\<lambda>_ _. None) True True ex_dial = (Inl e, [4])"
  using linux_dial_closes_once[OF ex_bd_normal ex_bd_text(2), where uup = id and fd = 4 and connect = "\<lambda>_ _. None" and newfile = True and ctx = False]
    linux_dial_closes_once[OF ex_bd_normal ex_bd_text(2), where uup = id and fd = 4 and connect = "\<lambda>_ _. None" and newfile = True and ctx = True]
  by (auto simp: ex_dial_def dialRFCOMMByChannel_def split: sum.splits)

text \<open>
  Dialing on Windows closes a socket twice. When the context ends the wait for the connect, \<open>dialNative\<close>
  calls \<open>Closesocket\<close> on the handle and the deferred function, which still sees the handle, calls it
  again; by then the handle may belong to another socket. On every other path after the socket
  exists, the handle is closed once on an error and not at all on success.
\<close>

theorem windows_dial_closes_twice:
  assumes "normalizeBDAddr uup (do_BDAddr opts) = Inr (print_bd bs)" "length bs = 6"
    and "isUUIDLike (do_UUID opts)"
  shows "case win_dialNative ulow uup None (Inr s) bind connect sockname ctx opts of
      (Inr (p, l, r), closed) \<Rightarrow> p = s \<and> closed = [] \<and> bind = None \<and> \<not> ctx
    | (Inl e, closed) \<Rightarrow> closed = (if bind = None \<and> ctx then [s, s] else [s])"
proof -
  have bt: "bdAddrToBTHAddr uup (print_bd bs) = Inr (bth_of bs)"
    by (rule bdAddrToBTHAddr_canonical[OF normalize_print_bd[OF assms(2)] assms(2)])
  let ?u = "ToLower ulow (TrimSpace (do_UUID opts))"
  have u: "?u = map lower_char (do_UUID opts)"
    using uuid_graphic[OF assms(3)] by (simp add: ToLower_def)
  have "isUUIDLike ?u"
    using assms(3) by (simp add: u isUUIDLike_lower)
  moreover have "TrimSpace ?u = ?u" "is_ascii ?u" using uuid_graphic[OF calculation] by blast+
  ultimately have "isUUIDLike (ToLower ulow (TrimSpace ?u))"
    by (simp add: ToLower_def isUUIDLike_lower)
  then obtain g where "uuidToGUID ulow ?u = Inr g" by (rule uuidToGUID_prints)
  then show ?thesis
    using assms(1) bt by (auto simp: win_dialNative_def Let_def split: option.splits)
qed

lemma default_uuid: "isUUIDLike DefaultRFCOMMUUID"
  by code_simp

theorem windows_dial_closes_twice_witness:
  "\<exists>e. win_dialNative id id None (Inr 9) None (\<lambda>_. None) None True ex_dial = (Inl e, [9, 9])"
proof -
  have "isUUIDLike (do_UUID ex_dial)" using default_uuid by (simp add: ex_dial_def)
  note w = windows_dial_closes_twice[OF ex_bd_normal[of id] ex_bd_text(2) this,
      where ulow = id and s = 9 and bind = None and connect = "\<lambda>_. None" and sockname = None and ctx = True]
  obtain r closed where "win_dialNative id id None (Inr 9) None (\<lambda>_. None) None True ex_dial = (r, closed)" by force
  then show ?thesis using w by (cases r) (auto split: prod.splits)
qed

text \<open>
  The Windows listener owns one socket and one service record. Starting it either fails, and then the
  socket has been closed exactly once and no record is left, or succeeds with a positive channel, the
  record registered under that channel and the socket open. Closing a started listener deletes the
  record and then closes the socket; closing it again does nothing.
\<close>

theorem windows_listener_lifecycle:
  assumes "win_listenNative ulow None (Inr s) bind sockname lsn setService opts = Inr (e, l)"
  shows "if e \<noteq> None then filter (\<lambda>c. c = CloseSock s) (wl_calls l) = [CloseSock s] \<and> \<not> wl_registered l \<and> wl_closed l
         else wl_channel l > 0 \<and> wl_registered l \<and> wl_sock l = Some s \<and> wl_calls l = [RegisterService (word_of_int (wl_channel l))]
           \<and> wl_calls (winListener_Close del l) = wl_calls l @ [DeleteService, CloseSock s]
           \<and> winListener_Close del' (winListener_Close del l) = winListener_Close del l"
proof -
  define l0 where "l0 = \<lparr>wl_uuid = ToLower ulow (TrimSpace (lo_UUID opts)),
      wl_guid = (case uuidToGUID ulow (ToLower ulow (TrimSpace (lo_UUID opts))) of Inr g \<Rightarrow> g | Inl _ \<Rightarrow> zero_GUID), wl_channel = lo_Channel opts,
      wl_sock = Some s, wl_closed = False, wl_registered = False, wl_calls = []\<rparr>"
  define l1 where "l1 = (if lo_Channel opts = 0
       then (case sockname of Inr got \<Rightarrow> if sb_Port got > 0 then l0\<lparr>wl_channel := uint (sb_Port got)\<rparr> else l0 | Inl _ \<Rightarrow> l0) else l0)"
  have f: "wl_sock x = Some s" "\<not> wl_closed x" "\<not> wl_registered x" "wl_calls x = []" if "x = l0 \<or> x = l1" for x
    using that by (auto simp: l0_def l1_def split: sum.splits if_splits)
  have "e \<noteq> None \<and> (l = winListener_Close None l0 \<or> l = winListener_Close None l1
          \<or> l = winListener_Close None (snd (registerService setService l1)) \<and> fst (registerService setService l1) \<noteq> None)
        \<or> e = None \<and> registerService setService l1 = (None, l)"
    using assms unfolding win_listenNative_def Let_def
    by (auto simp: l0_def[symmetric] l1_def split: sum.splits option.splits prod.splits if_splits) (auto simp: l0_def split: if_splits)
  then show ?thesis
    using f[of l0] f[of l1]
    by (auto simp: winListener_Close_def registerService_def deleteService_def Let_def split: if_splits option.splits)
qed

definition ex_listen :: rfcomm_Options where
  "ex_listen = \<lparr>lo_UUID = DefaultRFCOMMUUID, lo_Channel = 0, lo_Adapter = ''hci0'', lo_Insecure = False\<rparr>"

definition ex_sockname :: sockaddrBth where
  "ex_sockname = \<lparr>sb_AddressFamily = afBth, sb_BtAddr = 0, sb_ServiceClass = zero_GUID, sb_Port = 7\<rparr>"

theorem windows_listener_lifecycle_witness:
  "\<exists>l. win_listenNative id None (Inr 5) (\<lambda>_. None) (Inr ex_sockname) None (\<lambda>_. None) ex_listen = Inr (None, l)
     \<and> wl_channel l = 7 \<and> wl_sock l = Some 5 \<and> wl_calls (winListener_Close None l) = [RegisterService 7, DeleteService, CloseSock 5]"
proof -
  have u: "ToLower id (TrimSpace DefaultRFCOMMUUID) = DefaultRFCOMMUUID" by code_simp
  then have "isUUIDLike (ToLower id (TrimSpace DefaultRFCOMMUUID))" using default_uuid by simp
  then obtain g where g: "uuidToGUID id DefaultRFCOMMUUID = Inr g" by (rule uuidToGUID_prints)
  then obtain l where l: "win_listenNative id None (Inr 5) (\<lambda>_. None) (Inr ex_sockname) None (\<lambda>_. None) ex_listen = Inr (None, l)"
    "wl_channel l = 7"
    by (simp add: win_listenNative_def ex_listen_def u ex_sockname_def registerService_def Let_def)
  then show ?thesis
    using windows_listener_lifecycle[OF l(1), of None None] by auto
qed

end
