(* ===== verification/Bluez.thy ===== *)
theory Bluez
  imports Rfcomm_Native "HOL-Library.Multiset"
begin

text \<open>
  RFCOMM through BlueZ (\<^verbatim>\<open>bluez_linux.go\<close>): the profile object that BlueZ calls back over D-Bus,
  the listener and the dialer built on it, and the pipe of a dialed connection. D-Bus itself is a
  parameter: \<open>sysbus\<close> is the error of \<^verbatim>\<open>dbus.SystemBus\<close> and \<open>reply\<close> the error each call answers; the
  calls made are recorded in order, and so are the descriptors closed. An error wrapped with a
  message is the wrapped error. A \<open>select\<close> with several ready cases takes any of them: such an
  operation returns the list of its possible outcomes, and the empty list while it waits.

  The callbacks of D-Bus run in goroutines of their own. Section 4 therefore splits \<open>NewConnection\<close>
  at its test of \<open>closed\<close> and interleaves it with every other operation.
\<close>

definition and_then :: "'a outcome \<Rightarrow> ('a \<Rightarrow> 'b outcome) \<Rightarrow> 'b outcome" where
  "and_then r f = (case r of Ret x \<Rightarrow> f x | Panic \<Rightarrow> Panic)"

lemma and_then_simps [simp]: "and_then (Ret x) f = f x" "and_then Panic f = Panic"
  by (simp_all add: and_then_def)

lemma and_then_Ret_iff: "and_then r f = Ret y \<longleftrightarrow> (\<exists>x. r = Ret x \<and> f x = Ret y)"
  by (cases r) auto


section \<open>The profile object\<close>

record bluezAccept =
  ba_pipe :: "fd option"
  ba_local :: "rfcomm_Addr option"
  ba_remote :: "rfcomm_Addr option"
  ba_err :: "error option"

text \<open>\<open>bc_wrapPipe\<close> says whether a function to wrap the file is given; the dialer's is \<open>bluezDialPipe\<close>.\<close>

record bluezProfileConfig =
  bc_uuid :: string
  bc_expectedAdapter :: string
  bc_addrRole :: string
  bc_singleShot :: bool
  bc_wrapPipe :: bool

record bluezProfile =
  bp_uuid :: string
  bp_expectedAdapter :: string
  bp_addrRole :: string
  bp_singleShot :: bool
  bp_wrapPipe :: bool
  bp_acceptCh :: "bluezAccept list"
  bp_done :: bool
  bp_closed :: bool

definition newBluezProfile :: "(string \<Rightarrow> string) \<Rightarrow> bluezProfileConfig \<Rightarrow> bluezProfile" where
  "newBluezProfile ulow cfg =
     \<lparr>bp_uuid = ToLower ulow (TrimSpace (bc_uuid cfg)), bp_expectedAdapter = TrimSpace (bc_expectedAdapter cfg),
      bp_addrRole = TrimSpace (bc_addrRole cfg), bp_singleShot = bc_singleShot cfg, bp_wrapPipe = bc_wrapPipe cfg,
      bp_acceptCh = [], bp_done = False, bp_closed = False\<rparr>"

text \<open>A send that does not wait, on a channel of capacity 16.\<close>

definition offer :: "bluezAccept \<Rightarrow> bluezProfile \<Rightarrow> bluezProfile option" where
  "offer a p = (if length (bp_acceptCh p) < 16 then Some (p\<lparr>bp_acceptCh := bp_acceptCh p @ [a]\<rparr>) else None)"

text \<open>\<open>finish\<close>. Closing a channel that is closed already is a panic.\<close>

definition finish :: "error \<Rightarrow> bluezProfile \<Rightarrow> bluezProfile outcome" where
  "finish reason p =
     (if bp_closed p then Ret p
      else if bp_done p then Panic
      else let p1 = p\<lparr>bp_closed := True, bp_done := True\<rparr>
           in Ret (case offer \<lparr>ba_pipe = None, ba_local = None, ba_remote = None, ba_err = Some reason\<rparr> p1 of
                     Some p2 \<Rightarrow> p2 | None \<Rightarrow> p1))"

definition Release :: "bluezProfile \<Rightarrow> bluezProfile outcome" where
  "Release = finish (Err ''bluez profile released'')"

definition Cancel :: "bluezProfile \<Rightarrow> bluezProfile outcome" where
  "Cancel = finish (Err ''bluez profile canceled'')"

definition RequestDisconnection :: "string \<Rightarrow> bluezProfile \<Rightarrow> bluezProfile outcome" where
  "RequestDisconnection device p = Ret p"


section \<open>The bus, the descriptors and the clean-up\<close>

datatype dbus_Variant = VString string | VBool bool | VU16 u16

datatype dbus_call =
    ExportProfile string
  | RegisterProfile string string "(string \<times> dbus_Variant) list"
  | ConnectProfile string string
  | UnregisterProfile string
  | UnexportProfile string
  | CloseBus

text \<open>
  What one listener or one dial owns: the profile and its object path, the calls made on the bus,
  whether \<open>cleanupOnce\<close> has run, and the descriptors the code closed.
\<close>

record bluez =
  bz_prof :: bluezProfile
  bz_path :: string
  bz_calls :: "dbus_call list"
  bz_cleaned :: bool
  bz_closed :: "fd list"

abbreviation bz_call :: "dbus_call \<Rightarrow> bluez \<Rightarrow> bluez" where
  "bz_call c w \<equiv> w\<lparr>bz_calls := bz_calls w @ [c]\<rparr>"

definition bz_finish :: "error \<Rightarrow> bluez \<Rightarrow> bluez outcome" where
  "bz_finish reason w = map_outcome (\<lambda>p. w\<lparr>bz_prof := p\<rparr>) (finish reason (bz_prof w))"

text \<open>The closures \<open>cleanup\<close> of the listener, which finishes its profile first, and of the dialer.\<close>

definition cleanup :: "bool \<Rightarrow> bluez \<Rightarrow> bluez outcome" where
  "cleanup listening w =
     (if bz_cleaned w then Ret w
      else and_then (if listening then bz_finish (Err ''listener closed'') (w\<lparr>bz_cleaned := True\<rparr>)
                     else Ret (w\<lparr>bz_cleaned := True\<rparr>))
             (\<lambda>w1. Ret (bz_call CloseBus (bz_call (UnexportProfile (bz_path w1)) (bz_call (UnregisterProfile (bz_path w1)) w1)))))"

text \<open>The first \<open>Close\<close> of the pipe made from a descriptor.\<close>

definition close_pipe :: "fd \<Rightarrow> bluez \<Rightarrow> bluez outcome" where
  "close_pipe fd w =
     (let w1 = w\<lparr>bz_closed := bz_closed w @ [fd]\<rparr> in if bp_wrapPipe (bz_prof w) then cleanup False w1 else Ret w1)"

record bluezDialPipe =
  dp_fd :: fd
  dp_closed :: bool

definition bluezDialPipe_Close :: "bluezDialPipe \<Rightarrow> bluez \<Rightarrow> (bluezDialPipe \<times> bluez) outcome" where
  "bluezDialPipe_Close p w =
     (if dp_closed p then Ret (p, w)
      else map_outcome (\<lambda>w'. (p\<lparr>dp_closed := True\<rparr>, w')) (cleanup False (w\<lparr>bz_closed := bz_closed w @ [dp_fd p]\<rparr>)))"

text \<open>
  \<open>NewConnection\<close>: the tests, with \<open>newfile\<close> for whether \<open>os.NewFile\<close> returned a file, and the offer.
\<close>

definition NewConnection_check :: "bluezProfile \<Rightarrow> string \<Rightarrow> bool \<Rightarrow> error option" where
  "NewConnection_check p device newfile =
     (if bp_closed p then Some (Err ''profile closed'')
      else if bp_expectedAdapter p \<noteq> [] \<and> \<not> HasPrefix device (''/org/bluez/'' @ bp_expectedAdapter p @ ''/'')
      then Some (Err ''unexpected adapter'')
      else if \<not> newfile then Some (Err ''os.NewFile returned nil'')
      else None)"

definition NewConnection_offer :: "(string \<Rightarrow> string) \<Rightarrow> string \<Rightarrow> fd \<Rightarrow> bluez \<Rightarrow> (error option \<times> bluez) outcome" where
  "NewConnection_offer uup device fd w =
     (let p = bz_prof w;
          local = \<lparr>ad_BDAddr = [], ad_UUID = bp_uuid p, ad_Channel = 0, ad_Role = bp_addrRole p\<rparr>;
          remote = local\<lparr>ad_BDAddr := bluezBDAddrFromDevicePath uup device\<rparr>
      in case offer \<lparr>ba_pipe = Some fd, ba_local = Some local, ba_remote = Some remote, ba_err = None\<rparr> p of
           Some p1 \<Rightarrow> Ret (None, w\<lparr>bz_prof := (if bp_singleShot p1 then p1\<lparr>bp_closed := True\<rparr> else p1)\<rparr>)
         | None \<Rightarrow> map_outcome (\<lambda>w1. (Some (Err ''accept backlog full''), w1)) (close_pipe fd w))"

definition NewConnection :: "(string \<Rightarrow> string) \<Rightarrow> string \<Rightarrow> fd \<Rightarrow> bool \<Rightarrow> bluez \<Rightarrow> (error option \<times> bluez) outcome" where
  "NewConnection uup device fd newfile w =
     (case NewConnection_check (bz_prof w) device newfile of
        Some e \<Rightarrow> Ret (Some e, w\<lparr>bz_closed := bz_closed w @ [fd]\<rparr>)
      | None \<Rightarrow> NewConnection_offer uup device fd w)"


section \<open>Listening and dialing\<close>

definition profile_options :: "string \<Rightarrow> bool \<Rightarrow> bool \<Rightarrow> int \<Rightarrow> (string \<times> dbus_Variant) list" where
  "profile_options role auto insecure channel =
     [(''Name'', VString ''MyFlowHub''), (''Role'', VString role)] @ (if auto then [(''AutoConnect'', VBool True)] else [])
     @ [(''RequireAuthentication'', VBool (\<not> insecure)), (''RequireAuthorization'', VBool False)]
     @ (if channel > 0 then [(''Channel'', VU16 (word_of_int channel))] else [])"

record linuxBluezListener =
  bl_bluez :: bluez
  bl_uuid :: string
  bl_channel :: int
  bl_once :: bool

text \<open>
  \<open>listenRFCOMMBlueZ\<close> returns the listener, or an error with what was set up before it, and the new
  value of the path counter.
\<close>

definition listenRFCOMMBlueZ ::
  "(string \<Rightarrow> string) \<Rightarrow> error option \<Rightarrow> (dbus_call \<Rightarrow> error option) \<Rightarrow> rfcomm_Options \<Rightarrow> u64 \<Rightarrow>
   ((error \<times> bluez option) + linuxBluezListener) outcome \<times> u64" where
  "listenRFCOMMBlueZ ulow sysbus reply opts seq =
     (case sysbus of
        Some e \<Rightarrow> (Ret (Inl (e, None)), seq)
      | None \<Rightarrow>
          let (path, seq1) = newBluezProfilePath ''listen'' seq;
              uuid = ToLower ulow (TrimSpace (lo_UUID opts));
              prof = newBluezProfile ulow \<lparr>bc_uuid = uuid, bc_expectedAdapter = TrimSpace (lo_Adapter opts),
                       bc_addrRole = ''listen'', bc_singleShot = False, bc_wrapPipe = False\<rparr>;
              w0 = bz_call (ExportProfile path) \<lparr>bz_prof = prof, bz_path = path, bz_calls = [], bz_cleaned = False, bz_closed = []\<rparr>;
              fail = (\<lambda>e w. map_outcome (\<lambda>w'. Inl (e, Some w')) (cleanup True w));
              register = RegisterProfile path uuid (profile_options ''server'' True (lo_Insecure opts) (lo_Channel opts))
          in (case reply (ExportProfile path) of
                Some e \<Rightarrow> fail e w0
              | None \<Rightarrow>
                  (let w1 = bz_call register w0
                   in case reply register of
                        Some e \<Rightarrow> fail e w1
                      | None \<Rightarrow> Ret (Inr \<lparr>bl_bluez = w1, bl_uuid = uuid, bl_channel = lo_Channel opts, bl_once = False\<rparr>)),
              seq1))"

definition linuxBluezListener_Addr :: "linuxBluezListener \<Rightarrow> rfcomm_Addr" where
  "linuxBluezListener_Addr l = \<lparr>ad_BDAddr = [], ad_UUID = bl_uuid l, ad_Channel = bl_channel l, ad_Role = ''listen''\<rparr>"

text \<open>Taking the first entry of the accept channel, when there is one.\<close>

definition take_accept :: "bluez \<Rightarrow> (bluezAccept \<times> bluez) list" where
  "take_accept w =
     (case bp_acceptCh (bz_prof w) of
        [] \<Rightarrow> []
      | a # as \<Rightarrow> [(a, w\<lparr>bz_prof := (bz_prof w)\<lparr>bp_acceptCh := as\<rparr>\<rparr>)])"

definition linuxBluezListener_Accept ::
  "linuxBluezListener \<Rightarrow> ((error + fd option \<times> rfcomm_Addr option \<times> rfcomm_Addr option) \<times> linuxBluezListener) list" where
  "linuxBluezListener_Accept l =
     (if bp_done (bz_prof (bl_bluez l)) then [(Inl (Err ''listener closed''), l)] else [])
     @ map (\<lambda>(res, w). (case ba_err res of
                Some e \<Rightarrow> Inl e
              | None \<Rightarrow> Inr (ba_pipe res, ba_local res, ba_remote res), l\<lparr>bl_bluez := w\<rparr>))
         (take_accept (bl_bluez l))"

definition linuxBluezListener_Close :: "linuxBluezListener \<Rightarrow> linuxBluezListener outcome" where
  "linuxBluezListener_Close l =
     (if bl_once l then Ret l
      else map_outcome (\<lambda>w. l\<lparr>bl_bluez := w, bl_once := True\<rparr>) (cleanup True (bl_bluez l)))"

text \<open>The calls BlueZ makes on an exported profile, one after the other.\<close>

datatype callback = CbNewConnection string fd bool | CbRelease | CbCancel | CbRequestDisconnection string

definition callback_run :: "(string \<Rightarrow> string) \<Rightarrow> callback \<Rightarrow> bluez \<Rightarrow> bluez outcome" where
  "callback_run uup c w =
     (case c of
        CbNewConnection device fd newfile \<Rightarrow> map_outcome snd (NewConnection uup device fd newfile w)
      | CbRelease \<Rightarrow> map_outcome (\<lambda>p. w\<lparr>bz_prof := p\<rparr>) (Release (bz_prof w))
      | CbCancel \<Rightarrow> map_outcome (\<lambda>p. w\<lparr>bz_prof := p\<rparr>) (Cancel (bz_prof w))
      | CbRequestDisconnection device \<Rightarrow> map_outcome (\<lambda>p. w\<lparr>bz_prof := p\<rparr>) (RequestDisconnection device (bz_prof w)))"

fun callbacks_run :: "(string \<Rightarrow> string) \<Rightarrow> callback list \<Rightarrow> bluez \<Rightarrow> bluez outcome" where
  "callbacks_run uup [] w = Ret w"
| "callbacks_run uup (c # cs) w = and_then (callback_run uup c w) (callbacks_run uup cs)"

text \<open>The \<open>select\<close> of the dialer; \<open>ctx\<close> is the error of the context once it has ended.\<close>

definition dial_select :: "error option \<Rightarrow> bluez \<Rightarrow> ((error + bluezDialPipe) \<times> bluez) outcome list" where
  "dial_select ctx w =
     (let fail = (\<lambda>e w. map_outcome (\<lambda>w'. (Inl e, w')) (cleanup False w));
          finish_fail = (\<lambda>reason e w. and_then (bz_finish reason w) (fail e))
      in (case ctx of None \<Rightarrow> [] | Some e \<Rightarrow> [finish_fail e e w])
         @ (if bp_done (bz_prof w) then [fail (Err ''bluez dial aborted'') w] else [])
         @ map (\<lambda>(res, w1). case ba_err res of
                  Some e \<Rightarrow> finish_fail e e w1
                | None \<Rightarrow> (case ba_pipe res of
                             None \<Rightarrow> finish_fail (Err ''nil pipe'') (Err ''bluez dial returned nil pipe'') w1
                           | Some fd \<Rightarrow> Ret (Inr \<lparr>dp_fd = fd, dp_closed = False\<rparr>, w1)))
             (take_accept w))"

text \<open>
  \<open>dialRFCOMMByUUIDBlueZ\<close>: \<open>cbs\<close> are the callbacks that have run by the time of the \<open>select\<close>. An error
  before the bus is open comes with no state.
\<close>

definition dialRFCOMMByUUIDBlueZ ::
  "(string \<Rightarrow> string) \<Rightarrow> (string \<Rightarrow> string) \<Rightarrow> error option \<Rightarrow> (dbus_call \<Rightarrow> error option) \<Rightarrow> callback list \<Rightarrow> error option \<Rightarrow>
   rfcomm_DialOptions \<Rightarrow> u64 \<Rightarrow> ((error + bluezDialPipe) \<times> bluez option) outcome list \<times> u64" where
  "dialRFCOMMByUUIDBlueZ ulow uup sysbus reply cbs ctx opts seq =
     (case normalizeBDAddr uup (do_BDAddr opts) of
        Inl e \<Rightarrow> ([Ret (Inl e, None)], seq)
      | Inr bdaddr \<Rightarrow>
        case sysbus of
          Some e \<Rightarrow> ([Ret (Inl e, None)], seq)
        | None \<Rightarrow>
          let (path, seq1) = newBluezProfilePath ''dial'' seq;
              uuid = ToLower ulow (TrimSpace (do_UUID opts));
              adapter = TrimSpace (do_Adapter opts);
              prof = newBluezProfile ulow \<lparr>bc_uuid = uuid, bc_expectedAdapter = adapter,
                       bc_addrRole = ''dial'', bc_singleShot = True, bc_wrapPipe = True\<rparr>;
              w0 = bz_call (ExportProfile path) \<lparr>bz_prof = prof, bz_path = path, bz_calls = [], bz_cleaned = False, bz_closed = []\<rparr>;
              fail = (\<lambda>e w. [map_outcome (\<lambda>w'. (Inl e, Some w')) (cleanup False w)]);
              register = RegisterProfile path uuid (profile_options ''client'' False (do_Insecure opts) 0);
              connect = ConnectProfile (bluezDeviceObjectPath uup adapter bdaddr) uuid
          in (case reply (ExportProfile path) of
                Some e \<Rightarrow> fail e w0
              | None \<Rightarrow>
                  (let w1 = bz_call register w0
                   in case reply register of
                        Some e \<Rightarrow> fail e w1
                      | None \<Rightarrow>
                          (case callbacks_run uup cbs (bz_call connect w1) of
                             Panic \<Rightarrow> [Panic]
                           | Ret w2 \<Rightarrow>
                               (case reply connect of
                                  Some e \<Rightarrow> fail e w2
                                | None \<Rightarrow> map (map_outcome (map_prod id Some)) (dial_select ctx w2)))),
              seq1))"


section \<open>Every operation returns\<close>

definition bp_ok :: "bluezProfile \<Rightarrow> bool" where
  "bp_ok p = ((bp_done p \<longrightarrow> bp_closed p) \<and> length (bp_acceptCh p) \<le> 16)"

definition pipes :: "bluezAccept list \<Rightarrow> fd list" where
  "pipes as = List.map_filter ba_pipe as"

lemma pipes_simps [simp]:
  "pipes [] = []" "pipes (a # as) = (case ba_pipe a of None \<Rightarrow> [] | Some fd \<Rightarrow> [fd]) @ pipes as"
  "pipes (as @ bs) = pipes as @ pipes bs"
  by (auto simp: pipes_def List.map_filter_def split: option.splits)

abbreviation queued :: "bluez \<Rightarrow> fd list" where
  "queued w \<equiv> pipes (bp_acceptCh (bz_prof w))"

lemma newBluezProfile_ok [simp]: "bp_ok (newBluezProfile ulow cfg)"
  by (simp add: bp_ok_def newBluezProfile_def)

lemma finish_Ret:
  assumes "bp_ok p"
  obtains p' where "finish e p = Ret p'" "bp_ok p'" "bp_closed p'" "pipes (bp_acceptCh p') = pipes (bp_acceptCh p)"
    "\<not> bp_closed p \<Longrightarrow> bp_done p'" "bp_wrapPipe p' = bp_wrapPipe p" "bp_singleShot p' = bp_singleShot p"
    "bp_expectedAdapter p' = bp_expectedAdapter p" "bp_closed p \<Longrightarrow> p' = p"
proof (cases "bp_closed p")
  case True
  then show thesis using that[of p] assms by (simp add: finish_def)
next
  case False
  then have "\<not> bp_done p" using assms by (simp add: bp_ok_def)
  with False show thesis
    using assms by (intro that[of "case finish e p of Ret q \<Rightarrow> q"]) (auto simp: finish_def Let_def offer_def bp_ok_def)
qed

lemma cleanup_Ret:
  assumes "bp_ok (bz_prof w)"
  obtains w' where "cleanup listening w = Ret w'" "bp_ok (bz_prof w')" "bz_cleaned w'" "queued w' = queued w"
    "bz_closed w' = bz_closed w" "bz_path w' = bz_path w" "bp_wrapPipe (bz_prof w') = bp_wrapPipe (bz_prof w)"
    "listening \<Longrightarrow> \<not> bz_cleaned w \<Longrightarrow> bp_closed (bz_prof w')"
    "bz_calls w' = bz_calls w @ (if bz_cleaned w then [] else [UnregisterProfile (bz_path w), UnexportProfile (bz_path w), CloseBus])"
proof (cases "bz_cleaned w")
  case True
  then show thesis using that[of w] assms by (simp add: cleanup_def)
next
  case False
  obtain p where p: "finish (Err ''listener closed'') (bz_prof w) = Ret p" "bp_ok p" "bp_closed p"
    "pipes (bp_acceptCh p) = queued w" "bp_wrapPipe p = bp_wrapPipe (bz_prof w)"
    using finish_Ret[OF assms] by metis
  show thesis
    using False p assms by (intro that[of "case cleanup listening w of Ret q \<Rightarrow> q"]) (auto simp: cleanup_def bz_finish_def)
qed

lemma NewConnection_offer_Ret:
  assumes "bp_ok (bz_prof w)"
  obtains r w' where "NewConnection_offer uup device fd w = Ret (r, w')" "bp_ok (bz_prof w')"
    "if r = None then queued w' = queued w @ [fd] \<and> bz_closed w' = bz_closed w
     else queued w' = queued w \<and> bz_closed w' = bz_closed w @ [fd]"
proof (cases "length (bp_acceptCh (bz_prof w)) < 16")
  case True
  then show thesis
    using assms by (intro that[of None "case NewConnection_offer uup device fd w of Ret (r, q) \<Rightarrow> q"])
      (auto simp: NewConnection_offer_def Let_def offer_def bp_ok_def)
next
  case False
  let ?w1 = "w\<lparr>bz_closed := bz_closed w @ [fd]\<rparr>"
  obtain w' where w': "cleanup False ?w1 = Ret w'" "bp_ok (bz_prof w')" "queued w' = queued ?w1" "bz_closed w' = bz_closed ?w1"
    using cleanup_Ret[of ?w1 False] assms by auto
  show thesis
    using False w' assms
    by (intro that[of "Some (Err ''accept backlog full'')" "if bp_wrapPipe (bz_prof w) then w' else ?w1"])
      (auto simp: NewConnection_offer_def Let_def offer_def close_pipe_def)
qed


section \<open>Interleaving: who owns a descriptor\<close>

text \<open>
  Ghost state: the calls of \<open>NewConnection\<close> that are past the tests, the descriptors that were
  given to the code, and those it handed on to its caller.
\<close>

record bluez_run =
  br_bluez :: bluez
  br_checked :: "(fd \<times> string) list"
  br_given :: "fd list"
  br_delivered :: "fd list"

inductive bz_step :: "(string \<Rightarrow> string) \<Rightarrow> bool \<Rightarrow> bluez_run \<Rightarrow> bluez_run \<Rightarrow> bool" for uup listening where
  rejected: "fd \<notin> set (br_given s) \<Longrightarrow> NewConnection_check (bz_prof (br_bluez s)) device newfile = Some e \<Longrightarrow>
    bz_step uup listening s
      (s\<lparr>br_bluez := (br_bluez s)\<lparr>bz_closed := bz_closed (br_bluez s) @ [fd]\<rparr>, br_given := br_given s @ [fd]\<rparr>)"
| checked: "fd \<notin> set (br_given s) \<Longrightarrow> NewConnection_check (bz_prof (br_bluez s)) device newfile = None \<Longrightarrow>
    bz_step uup listening s (s\<lparr>br_checked := br_checked s @ [(fd, device)], br_given := br_given s @ [fd]\<rparr>)"
| offered: "br_checked s = xs @ (fd, device) # ys \<Longrightarrow> NewConnection_offer uup device fd (br_bluez s) = Ret (r, w) \<Longrightarrow>
    bz_step uup listening s (s\<lparr>br_bluez := w, br_checked := xs @ ys\<rparr>)"
| released: "Release (bz_prof (br_bluez s)) = Ret p \<Longrightarrow>
    bz_step uup listening s (s\<lparr>br_bluez := (br_bluez s)\<lparr>bz_prof := p\<rparr>\<rparr>)"
| cancelled: "Cancel (bz_prof (br_bluez s)) = Ret p \<Longrightarrow>
    bz_step uup listening s (s\<lparr>br_bluez := (br_bluez s)\<lparr>bz_prof := p\<rparr>\<rparr>)"
| finished: "bz_finish e (br_bluez s) = Ret w \<Longrightarrow> bz_step uup listening s (s\<lparr>br_bluez := w\<rparr>)"
| cleaned: "cleanup listening (br_bluez s) = Ret w \<Longrightarrow> bz_step uup listening s (s\<lparr>br_bluez := w\<rparr>)"
| taken: "(a, w) \<in> set (take_accept (br_bluez s)) \<Longrightarrow>
    bz_step uup listening s (s\<lparr>br_bluez := w, br_delivered := br_delivered s @ pipes [a]\<rparr>)"

definition bz_init :: "bluez \<Rightarrow> bluez_run" where
  "bz_init w = \<lparr>br_bluez = w, br_checked = [], br_given = [], br_delivered = []\<rparr>"

inductive bz_reachable :: "(string \<Rightarrow> string) \<Rightarrow> bool \<Rightarrow> bluez \<Rightarrow> bluez_run \<Rightarrow> bool" for uup listening w where
  init: "bz_reachable uup listening w (bz_init w)"
| step: "bz_reachable uup listening w s \<Longrightarrow> bz_step uup listening s s' \<Longrightarrow> bz_reachable uup listening w s'"

definition owned :: "bluez_run \<Rightarrow> fd list" where
  "owned s = map fst (br_checked s) @ queued (br_bluez s) @ br_delivered s @ bz_closed (br_bluez s)"

definition bz_inv :: "bluez_run \<Rightarrow> bool" where
  "bz_inv s = (bp_ok (bz_prof (br_bluez s)) \<and> distinct (br_given s) \<and> mset (owned s) = mset (br_given s))"

lemma bz_inv_quiet:
  assumes "bz_inv s" "bp_ok (bz_prof w)" "queued w = queued (br_bluez s)" "bz_closed w = bz_closed (br_bluez s)"
  shows "bz_inv (s\<lparr>br_bluez := w\<rparr>)"
  using assms by (simp add: bz_inv_def owned_def)

lemma bz_inv_finish:
  assumes "bz_inv s" "finish e (bz_prof (br_bluez s)) = Ret p"
  shows "bz_inv (s\<lparr>br_bluez := (br_bluez s)\<lparr>bz_prof := p\<rparr>\<rparr>)"
proof -
  have "bp_ok (bz_prof (br_bluez s))" using assms(1) by (simp add: bz_inv_def)
  from finish_Ret[OF this, of e] have "bp_ok p" "pipes (bp_acceptCh p) = queued (br_bluez s)"
    using assms(2) by (metis outcome.inject)+
  then show ?thesis by (intro bz_inv_quiet[OF assms(1)]) simp_all
qed

lemma bz_inv_offer:
  assumes "bz_inv s" "br_checked s = xs @ (fd, device) # ys" "NewConnection_offer uup device fd (br_bluez s) = Ret (r, w)"
  shows "bz_inv (s\<lparr>br_bluez := w, br_checked := xs @ ys\<rparr>)"
proof -
  have ok: "bp_ok (bz_prof (br_bluez s))" using assms(1) by (simp add: bz_inv_def)
  have "bp_ok (bz_prof w)" and q: "if r = None then queued w = queued (br_bluez s) @ [fd] \<and> bz_closed w = bz_closed (br_bluez s)
     else queued w = queued (br_bluez s) \<and> bz_closed w = bz_closed (br_bluez s) @ [fd]"
    using NewConnection_offer_Ret[OF ok, of uup device fd] unfolding assms(3) by (metis outcome.inject prod.inject)+
  moreover have "mset (owned (s\<lparr>br_bluez := w, br_checked := xs @ ys\<rparr>)) = mset (owned s)"
    using q assms(2) by (cases r) (simp_all add: owned_def)
  ultimately show ?thesis using assms(1) by (simp only: bz_inv_def) simp
qed

lemma bz_step_inv: "bz_step uup listening s s' \<Longrightarrow> bz_inv s \<Longrightarrow> bz_inv s'"
proof (induction rule: bz_step.induct)
  case (offered s xs fd device ys r w)
  then show ?case by (intro bz_inv_offer)
next
  case (released s p)
  then show ?case by (auto simp: Release_def intro: bz_inv_finish)
next
  case (cancelled s p)
  then show ?case by (auto simp: Cancel_def intro: bz_inv_finish)
next
  case (finished e s w)
  then obtain p where "finish e (bz_prof (br_bluez s)) = Ret p" "w = (br_bluez s)\<lparr>bz_prof := p\<rparr>"
    by (cases "finish e (bz_prof (br_bluez s))") (auto simp: bz_finish_def)
  with finished.prems show ?case using bz_inv_finish by blast
next
  case (cleaned s w)
  then have "bp_ok (bz_prof (br_bluez s))" by (simp add: bz_inv_def)
  from cleanup_Ret[OF this, of listening] have "bp_ok (bz_prof w)" "queued w = queued (br_bluez s)" "bz_closed w = bz_closed (br_bluez s)"
    using cleaned.hyps by (metis outcome.inject)+
  then show ?case by (rule bz_inv_quiet[OF cleaned.prems])
next
  case (taken a w s)
  then obtain as where "bp_acceptCh (bz_prof (br_bluez s)) = a # as" "w = (br_bluez s)\<lparr>bz_prof := (bz_prof (br_bluez s))\<lparr>bp_acceptCh := as\<rparr>\<rparr>"
    by (cases "bp_acceptCh (bz_prof (br_bluez s))") (auto simp: take_accept_def)
  with taken.prems show ?case by (simp add: bz_inv_def owned_def bp_ok_def union_ac)
qed (simp_all add: bz_inv_def owned_def)

lemma bz_reachable_inv: "bz_reachable uup listening w s \<Longrightarrow> bz_inv (bz_init w) \<Longrightarrow> bz_inv s"
  by (induction rule: bz_reachable.induct) (auto intro: bz_step_inv)

definition fresh_bluez :: "(string \<Rightarrow> string) \<Rightarrow> bluezProfileConfig \<Rightarrow> string \<Rightarrow> dbus_call list \<Rightarrow> bluez" where
  "fresh_bluez ulow cfg path calls =
     \<lparr>bz_prof = newBluezProfile ulow cfg, bz_path = path, bz_calls = calls, bz_cleaned = False, bz_closed = []\<rparr>"

lemma fresh_bluez_inv: "bz_inv (bz_init (fresh_bluez ulow cfg path calls))"
  by (simp add: bz_inv_def bz_init_def fresh_bluez_def owned_def) (simp add: newBluezProfile_def)

text \<open>
  C37. Every Bluetooth descriptor has one owner. However BlueZ's calls, the clean-up, the end of the
  context and the caller's \<open>Accept\<close> interleave, each descriptor that BlueZ has passed in is at one
  place only: with a call of \<open>NewConnection\<close> that is still running, in the accept queue, with the
  caller, or closed by the code, once. The queue holds at most 16 entries, and no operation panics:
  the done channel is closed only once.
\<close>

theorem bluez_descriptors_accounted:
  assumes "bz_reachable uup listening (fresh_bluez ulow cfg path calls) s"
  shows "distinct (owned s) \<and> set (owned s) = set (br_given s) \<and> length (bp_acceptCh (bz_prof (br_bluez s))) \<le> 16
    \<and> finish e (bz_prof (br_bluez s)) \<noteq> Panic \<and> cleanup listening' (br_bluez s) \<noteq> Panic
    \<and> NewConnection_offer uup device fd (br_bluez s) \<noteq> Panic"
proof -
  have inv: "bz_inv s" by (rule bz_reachable_inv[OF assms fresh_bluez_inv])
  then have ok: "bp_ok (bz_prof (br_bluez s))" by (simp add: bz_inv_def)
  have "distinct (owned s)" "set (owned s) = set (br_given s)"
    using inv mset_eq_imp_distinct_iff mset_eq_setD unfolding bz_inv_def by blast+
  moreover have "finish e (bz_prof (br_bluez s)) \<noteq> Panic" by (rule finish_Ret[OF ok, of e]) simp
  moreover have "cleanup listening' (br_bluez s) \<noteq> Panic" by (rule cleanup_Ret[OF ok, of listening']) simp
  moreover have "NewConnection_offer uup device fd (br_bluez s) \<noteq> Panic"
    by (rule NewConnection_offer_Ret[OF ok, of uup device fd]) simp
  ultimately show ?thesis using ok by (simp add: bp_ok_def)
qed

definition ex_listen_cfg :: bluezProfileConfig where
  "ex_listen_cfg = \<lparr>bc_uuid = ''u'', bc_expectedAdapter = [], bc_addrRole = ''listen'', bc_singleShot = False, bc_wrapPipe = False\<rparr>"

definition ex_fresh :: bluez where "ex_fresh = fresh_bluez id ex_listen_cfg ''/p'' []"

definition ex_acc :: bluezAccept where
  "ex_acc = \<lparr>ba_pipe = Some 7, ba_local = Some \<lparr>ad_BDAddr = [], ad_UUID = ''u'', ad_Channel = 0, ad_Role = ''listen''\<rparr>,
     ba_remote = Some \<lparr>ad_BDAddr = [], ad_UUID = ''u'', ad_Channel = 0, ad_Role = ''listen''\<rparr>, ba_err = None\<rparr>"

definition ex_end :: bluezAccept where
  "ex_end = \<lparr>ba_pipe = None, ba_local = None, ba_remote = None, ba_err = Some (Err ''listener closed'')\<rparr>"

definition ex_stranded :: bluez_run where
  "ex_stranded =
     \<lparr>br_bluez = ex_fresh\<lparr>bz_prof := (bz_prof ex_fresh)\<lparr>bp_acceptCh := [ex_acc, ex_end], bp_done := True, bp_closed := True\<rparr>,
        bz_calls := [UnregisterProfile ''/p'', UnexportProfile ''/p'', CloseBus], bz_cleaned := True\<rparr>,
      br_checked = [], br_given = [7], br_delivered = []\<rparr>"

lemma ex_path_addr: "bluezBDAddrFromDevicePath id ''/d'' = []"
  by code_simp

lemma ex_fresh_prof:
  "bz_prof ex_fresh = \<lparr>bp_uuid = ''u'', bp_expectedAdapter = [], bp_addrRole = ''listen'', bp_singleShot = False, bp_wrapPipe = False,
     bp_acceptCh = [], bp_done = False, bp_closed = False\<rparr>"
  by code_simp

lemma ex_fresh_fields: "bz_path ex_fresh = ''/p''" "bz_calls ex_fresh = []" "bz_cleaned ex_fresh = False" "bz_closed ex_fresh = []"
  by (simp_all add: ex_fresh_def fresh_bluez_def)

lemma ex_stranded_reachable: "bz_reachable id True ex_fresh ex_stranded"
proof -
  let ?s1 = "(bz_init ex_fresh)\<lparr>br_checked := br_checked (bz_init ex_fresh) @ [(7, ''/d'')], br_given := br_given (bz_init ex_fresh) @ [7]\<rparr>"
  let ?w2 = "ex_fresh\<lparr>bz_prof := (bz_prof ex_fresh)\<lparr>bp_acceptCh := [ex_acc]\<rparr>\<rparr>"
  let ?s2 = "?s1\<lparr>br_bluez := ?w2, br_checked := [] @ []\<rparr>"
  let ?s3 = "?s2\<lparr>br_bluez := br_bluez ex_stranded\<rparr>"
  have "bz_step id True (bz_init ex_fresh) ?s1"
    by (rule bz_step.checked[where newfile = True]) (simp_all add: bz_init_def NewConnection_check_def ex_fresh_prof)
  note 1 = bz_reachable.step[OF bz_reachable.init this]
  have "NewConnection_offer id ''/d'' 7 ex_fresh = Ret (None, ?w2)"
    by (simp add: NewConnection_offer_def offer_def ex_fresh_prof ex_path_addr ex_acc_def Let_def)
  then have "bz_step id True ?s1 ?s2"
    by (intro bz_step.offered[where fd = 7 and device = "''/d''" and r = None]) (simp_all add: bz_init_def)
  note 2 = bz_reachable.step[OF 1 this]
  have "cleanup True ?w2 = Ret (br_bluez ex_stranded)"
    by (simp add: offer_def ex_fresh_prof cleanup_def bz_finish_def finish_def ex_stranded_def ex_fresh_fields ex_end_def)
  then have "bz_step id True ?s2 ?s3" by (intro bz_step.cleaned) simp
  from bz_reachable.step[OF 2 this] show ?thesis by (simp add: bz_init_def ex_stranded_def)
qed

theorem bluez_descriptors_accounted_witness:
  "distinct (owned ex_stranded) \<and> owned ex_stranded = [7] \<and> cleanup True (br_bluez ex_stranded) \<noteq> Panic"
  using bluez_descriptors_accounted[OF ex_stranded_reachable[unfolded ex_fresh_def], where listening' = True]
  by (simp add: owned_def ex_stranded_def ex_fresh_fields ex_acc_def ex_end_def)

text \<open>
  A closed BlueZ listener can leave a connection behind. No clean-up touches the accept queue: what
  was queued before stays queued and unclosed. In a state that a listener reaches, a connection is
  in the queue, the clean-up is over, and an \<open>Accept\<close> may answer that the listener is closed without
  taking it; only the finalizer of the file can still close the descriptor.
\<close>

theorem bluez_close_strands_connection:
  "(bp_ok (bz_prof w) \<longrightarrow> (\<exists>w'. cleanup listening w = Ret w' \<and> queued w' = queued w \<and> bz_closed w' = bz_closed w))
   \<and> (\<exists>s. bz_reachable id True ex_fresh s \<and> bz_cleaned (br_bluez s) \<and> br_checked s = [] \<and> queued (br_bluez s) = [7]
        \<and> 7 \<notin> set (br_delivered s) \<and> 7 \<notin> set (bz_closed (br_bluez s))
        \<and> (Inl (Err ''listener closed''), \<lparr>bl_bluez = br_bluez s, bl_uuid = u, bl_channel = c, bl_once = True\<rparr>)
            \<in> set (linuxBluezListener_Accept \<lparr>bl_bluez = br_bluez s, bl_uuid = u, bl_channel = c, bl_once = True\<rparr>))"
proof
  show "bp_ok (bz_prof w) \<longrightarrow> (\<exists>w'. cleanup listening w = Ret w' \<and> queued w' = queued w \<and> bz_closed w' = bz_closed w)"
  proof
    assume "bp_ok (bz_prof w)"
    from cleanup_Ret[OF this, of listening]
    show "\<exists>w'. cleanup listening w = Ret w' \<and> queued w' = queued w \<and> bz_closed w' = bz_closed w" by metis
  qed
  show "\<exists>s. bz_reachable id True ex_fresh s \<and> bz_cleaned (br_bluez s) \<and> br_checked s = [] \<and> queued (br_bluez s) = [7]
        \<and> 7 \<notin> set (br_delivered s) \<and> 7 \<notin> set (bz_closed (br_bluez s))
        \<and> (Inl (Err ''listener closed''), \<lparr>bl_bluez = br_bluez s, bl_uuid = u, bl_channel = c, bl_once = True\<rparr>)
            \<in> set (linuxBluezListener_Accept \<lparr>bl_bluez = br_bluez s, bl_uuid = u, bl_channel = c, bl_once = True\<rparr>)"
    by (rule exI[of _ ex_stranded])
      (simp add: ex_stranded_reachable, simp add: ex_stranded_def linuxBluezListener_Accept_def ex_fresh_fields ex_acc_def ex_end_def)
qed


section \<open>The life of a listener and of a dial\<close>

text \<open>
  What holds of the profile between callbacks that run one after the other: a listener's profile is
  closed exactly when its done channel is, a dialer's is closed by its first entry.
\<close>

definition cb_inv :: "bluez \<Rightarrow> bool" where
  "cb_inv w = (bp_ok (bz_prof w) \<and>
     (if bp_singleShot (bz_prof w)
      then length (bp_acceptCh (bz_prof w)) \<le> 1 \<and> (bp_acceptCh (bz_prof w) \<noteq> [] \<longrightarrow> bp_closed (bz_prof w))
      else (bp_closed (bz_prof w) \<longleftrightarrow> bp_done (bz_prof w)) \<and> \<not> bp_wrapPipe (bz_prof w)))"

definition came_from :: "callback list \<Rightarrow> bluezAccept \<Rightarrow> bool" where
  "came_from cbs a = (ba_err a = None \<longrightarrow> (\<exists>device fd newfile. CbNewConnection device fd newfile \<in> set cbs \<and> ba_pipe a = Some fd))"

definition cb_keeps :: "callback list \<Rightarrow> bluez \<Rightarrow> bluez \<Rightarrow> bool" where
  "cb_keeps cbs w w' = (bz_calls w' = bz_calls w \<and> bz_cleaned w' = bz_cleaned w \<and> bz_path w' = bz_path w
     \<and> bp_singleShot (bz_prof w') = bp_singleShot (bz_prof w)
     \<and> (\<forall>a \<in> set (bp_acceptCh (bz_prof w')). a \<in> set (bp_acceptCh (bz_prof w)) \<or> came_from cbs a))"

lemma cb_keeps_refl [simp]: "cb_keeps cbs w w" "cb_keeps cbs w (w\<lparr>bz_closed := fds\<rparr>)"
  by (simp_all add: cb_keeps_def)

lemma came_from_mono: "came_from cbs a \<Longrightarrow> set cbs \<subseteq> set cbs' \<Longrightarrow> came_from cbs' a"
  by (auto simp: came_from_def)

lemma cb_keeps_trans:
  assumes "cb_keeps as w w1" "cb_keeps bs w1 w2" "set as \<subseteq> set cs" "set bs \<subseteq> set cs"
  shows "cb_keeps cs w w2"
  unfolding cb_keeps_def
proof (intro conjI ballI)
  fix a assume "a \<in> set (bp_acceptCh (bz_prof w2))"
  then have "a \<in> set (bp_acceptCh (bz_prof w)) \<or> came_from as a \<or> came_from bs a"
    using assms(1,2) unfolding cb_keeps_def by blast
  then show "a \<in> set (bp_acceptCh (bz_prof w)) \<or> came_from cs a" using came_from_mono assms(3,4) by blast
qed (use assms(1,2) in \<open>simp_all add: cb_keeps_def\<close>)

lemma cb_finish:
  assumes "cb_inv w"
  shows "\<exists>w'. map_outcome (\<lambda>p. w\<lparr>bz_prof := p\<rparr>) (finish e (bz_prof w)) = Ret w' \<and> cb_inv w' \<and> cb_keeps cbs w w'"
proof (cases "bp_closed (bz_prof w)")
  case True
  then show ?thesis using assms by (simp add: finish_def)
next
  case False
  let ?p1 = "(bz_prof w)\<lparr>bp_closed := True, bp_done := True\<rparr>"
  let ?a = "\<lparr>ba_pipe = None, ba_local = None, ba_remote = None, ba_err = Some e\<rparr>"
  let ?p = "if length (bp_acceptCh (bz_prof w)) < 16 then ?p1\<lparr>bp_acceptCh := bp_acceptCh (bz_prof w) @ [?a]\<rparr> else ?p1"
  have "finish e (bz_prof w) = Ret ?p" using False assms by (simp add: finish_def offer_def cb_inv_def bp_ok_def Let_def)
  moreover have "cb_inv (w\<lparr>bz_prof := ?p\<rparr>)" "cb_keeps cbs w (w\<lparr>bz_prof := ?p\<rparr>)"
    using False assms by (auto simp: cb_inv_def cb_keeps_def bp_ok_def came_from_def split: if_splits)
  ultimately show ?thesis by simp
qed

lemma cb_NewConnection:
  assumes "cb_inv w"
  shows "\<exists>w'. map_outcome snd (NewConnection uup device fd newfile w) = Ret w' \<and> cb_inv w'
    \<and> cb_keeps [CbNewConnection device fd newfile] w w'"
proof (cases "\<exists>e. NewConnection_check (bz_prof w) device newfile = Some e \<or> length (bp_acceptCh (bz_prof w)) \<ge> 16")
  case True
  let ?w = "w\<lparr>bz_closed := bz_closed w @ [fd]\<rparr>"
  have "map_outcome snd (NewConnection uup device fd newfile w) = Ret ?w"
  proof (cases "NewConnection_check (bz_prof w) device newfile")
    case None
    then have "\<not> length (bp_acceptCh (bz_prof w)) < 16" using True by auto
    moreover from this have "\<not> bp_wrapPipe (bz_prof w)" using assms by (auto simp: cb_inv_def split: if_splits)
    ultimately show ?thesis using None by (simp add: NewConnection_def NewConnection_offer_def offer_def close_pipe_def Let_def)
  qed (simp add: NewConnection_def)
  moreover have "cb_inv ?w" using assms by (simp add: cb_inv_def split: if_splits)
  ultimately show ?thesis by simp
next
  case False
  then have check: "NewConnection_check (bz_prof w) device newfile = None" and room: "length (bp_acceptCh (bz_prof w)) < 16" by auto
  have open_p: "\<not> bp_closed (bz_prof w)" using check by (auto simp: NewConnection_check_def split: if_splits)
  obtain a where a: "ba_pipe a = Some fd" "NewConnection_offer uup device fd w =
      Ret (None, w\<lparr>bz_prof := (bz_prof w)\<lparr>bp_acceptCh := bp_acceptCh (bz_prof w) @ [a], bp_closed := bp_singleShot (bz_prof w)\<rparr>\<rparr>)"
    (is "_ = Ret (None, ?w)")
  proof
    let ?l = "\<lparr>ad_BDAddr = [], ad_UUID = bp_uuid (bz_prof w), ad_Channel = 0, ad_Role = bp_addrRole (bz_prof w)\<rparr>"
    let ?a = "\<lparr>ba_pipe = Some fd, ba_local = Some ?l, ba_remote = Some (?l\<lparr>ad_BDAddr := bluezBDAddrFromDevicePath uup device\<rparr>), ba_err = None\<rparr>"
    show "ba_pipe ?a = Some fd" by simp
    show "NewConnection_offer uup device fd w =
        Ret (None, w\<lparr>bz_prof := (bz_prof w)\<lparr>bp_acceptCh := bp_acceptCh (bz_prof w) @ [?a], bp_closed := bp_singleShot (bz_prof w)\<rparr>\<rparr>)"
      using room open_p by (simp add: NewConnection_offer_def offer_def Let_def)
  qed
  moreover have "cb_inv ?w" "cb_keeps [CbNewConnection device fd newfile] w ?w"
    using assms open_p room a(1) by (auto simp: cb_inv_def cb_keeps_def bp_ok_def came_from_def split: if_splits)
  ultimately show ?thesis using check by (simp add: NewConnection_def)
qed

lemma callback_run_Ret:
  assumes "cb_inv w"
  shows "\<exists>w'. callback_run uup c w = Ret w' \<and> cb_inv w' \<and> cb_keeps [c] w w'"
  using cb_NewConnection[OF assms] cb_finish[OF assms] assms
  by (cases c) (simp_all add: callback_run_def Release_def Cancel_def RequestDisconnection_def)

lemma callbacks_run_Ret:
  "cb_inv w \<Longrightarrow> \<exists>w'. callbacks_run uup cbs w = Ret w' \<and> cb_inv w' \<and> cb_keeps cbs w w'"
proof (induction cbs arbitrary: w)
  case Nil
  then show ?case by (simp add: cb_keeps_def)
next
  case (Cons c cbs)
  obtain w1 where 1: "callback_run uup c w = Ret w1" "cb_inv w1" "cb_keeps [c] w w1" using callback_run_Ret[OF Cons.prems] by blast
  obtain w2 where 2: "callbacks_run uup cbs w1 = Ret w2" "cb_inv w2" "cb_keeps cbs w1 w2" using Cons.IH[OF 1(2)] by blast
  have "cb_keeps (c # cbs) w w2" by (rule cb_keeps_trans[OF 1(3) 2(3)]) auto
  with 1 2 show ?case by simp
qed

lemma cb_inv_fresh:
  assumes "bc_wrapPipe cfg \<longrightarrow> bc_singleShot cfg"
  shows "cb_inv \<lparr>bz_prof = newBluezProfile ulow cfg, bz_path = path, bz_calls = calls, bz_cleaned = False, bz_closed = []\<rparr>"
  using assms by (auto simp: cb_inv_def) (simp_all add: newBluezProfile_def)

lemma cleanup_once:
  assumes "bp_ok (bz_prof w)" "\<not> bz_cleaned w" "CloseBus \<notin> set (bz_calls w)" "cleanup listening w = Ret w'"
  shows "bz_cleaned w' \<and> count_list (bz_calls w') CloseBus = 1 \<and> UnregisterProfile (bz_path w) \<in> set (bz_calls w')
    \<and> bz_calls w' = bz_calls w @ [UnregisterProfile (bz_path w), UnexportProfile (bz_path w), CloseBus]"
proof -
  have "bz_cleaned w' \<and> bz_calls w' = bz_calls w @ [UnregisterProfile (bz_path w), UnexportProfile (bz_path w), CloseBus]"
    by (rule cleanup_Ret[OF assms(1), of listening]) (use assms(2,4) in simp)
  then show ?thesis using assms(3) by (simp add: count_list_0_iff)
qed

lemma listener_Close:
  assumes "cb_inv (bl_bluez l)" "\<not> bp_singleShot (bz_prof (bl_bluez l))" "\<not> bl_once l" "\<not> bz_cleaned (bl_bluez l)"
  obtains l' where "linuxBluezListener_Close l = Ret l'" "linuxBluezListener_Close l' = Ret l'"
    "bz_calls (bl_bluez l') = bz_calls (bl_bluez l)
       @ [UnregisterProfile (bz_path (bl_bluez l)), UnexportProfile (bz_path (bl_bluez l)), CloseBus]"
    "(Inl (Err ''listener closed''), l') \<in> set (linuxBluezListener_Accept l')"
proof -
  let ?w = "(bl_bluez l)\<lparr>bz_cleaned := True\<rparr>"
  have ok: "bp_ok (bz_prof (bl_bluez l))" and dn: "bp_closed (bz_prof (bl_bluez l)) \<longleftrightarrow> bp_done (bz_prof (bl_bluez l))"
    using assms(1,2) by (simp_all add: cb_inv_def)
  have "\<exists>p. finish (Err ''listener closed'') (bz_prof (bl_bluez l)) = Ret p \<and> bp_done p"
    by (rule finish_Ret[OF ok, of "Err ''listener closed''"]) (use dn in auto)
  then obtain p where p: "finish (Err ''listener closed'') (bz_prof (bl_bluez l)) = Ret p" and "bp_done p" by blast
  then show thesis
    using assms(3,4) p
    by (intro that[of "case linuxBluezListener_Close l of Ret q \<Rightarrow> q"])
      (simp_all add: linuxBluezListener_Close_def cleanup_def bz_finish_def linuxBluezListener_Accept_def)
qed

text \<open>
  A BlueZ listener cleans up once. \<open>listenRFCOMMBlueZ\<close> either fails on the call that failed, with the
  profile unregistered and the bus closed once, or has exported and registered the profile for the
  normal UUID. After any callbacks, the first \<open>Close\<close> unregisters the profile, withdraws it and closes
  the bus, in this order; a second one does nothing, and from then on \<open>Accept\<close> does not block.
\<close>

theorem bluez_listener_lifecycle:
  "case fst (listenRFCOMMBlueZ ulow None reply opts seq) of
     Panic \<Rightarrow> False
   | Ret (Inl (e, ow)) \<Rightarrow> (\<exists>w. ow = Some w \<and> (\<exists>c \<in> set (bz_calls w). reply c = Some e)
       \<and> count_list (bz_calls w) CloseBus = 1 \<and> UnregisterProfile (bz_path w) \<in> set (bz_calls w))
   | Ret (Inr l) \<Rightarrow>
       (\<exists>path options. bz_calls (bl_bluez l) = [ExportProfile path, RegisterProfile path (ToLower ulow (TrimSpace (lo_UUID opts))) options]
          \<and> (\<exists>w l'. callbacks_run uup cbs (bl_bluez l) = Ret w
               \<and> linuxBluezListener_Close (l\<lparr>bl_bluez := w\<rparr>) = Ret l'
               \<and> bz_calls (bl_bluez l') = bz_calls (bl_bluez l) @ [UnregisterProfile path, UnexportProfile path, CloseBus]
               \<and> linuxBluezListener_Close l' = Ret l'
               \<and> (Inl (Err ''listener closed''), l') \<in> set (linuxBluezListener_Accept l')))"
proof -
  obtain path seq1 where path: "newBluezProfilePath ''listen'' seq = (path, seq1)" by fastforce
  let ?uuid = "ToLower ulow (TrimSpace (lo_UUID opts))"
  let ?cfg = "\<lparr>bc_uuid = ?uuid, bc_expectedAdapter = TrimSpace (lo_Adapter opts), bc_addrRole = ''listen'',
      bc_singleShot = False, bc_wrapPipe = False\<rparr>"
  let ?reg = "RegisterProfile path ?uuid (profile_options ''server'' True (lo_Insecure opts) (lo_Channel opts))"
  let ?w = "\<lambda>calls. \<lparr>bz_prof = newBluezProfile ulow ?cfg, bz_path = path, bz_calls = calls, bz_cleaned = False, bz_closed = []\<rparr>"
  let ?l = "\<lparr>bl_bluez = ?w [ExportProfile path, ?reg], bl_uuid = ?uuid, bl_channel = lo_Channel opts, bl_once = False\<rparr>"
  have fails: "\<exists>w. cleanup True (?w calls) = Ret w \<and> bz_path w = path \<and> set calls \<subseteq> set (bz_calls w)
       \<and> count_list (bz_calls w) CloseBus = 1 \<and> UnregisterProfile path \<in> set (bz_calls w)" if "CloseBus \<notin> set calls" for calls
  proof -
    obtain w where w: "cleanup True (?w calls) = Ret w" "bz_path w = path" using cleanup_Ret[of "?w calls" True] by auto
    with cleanup_once[OF _ _ _ w(1)] that show ?thesis by auto
  qed
  have "cb_inv (?w [ExportProfile path, ?reg])" by (rule cb_inv_fresh) simp
  from callbacks_run_Ret[OF this, of uup cbs] obtain w where w: "callbacks_run uup cbs (?w [ExportProfile path, ?reg]) = Ret w"
    "cb_inv w" "cb_keeps cbs (?w [ExportProfile path, ?reg]) w" by blast
  have "\<not> bp_singleShot (bz_prof w)" "\<not> bz_cleaned w" "bz_path w = path" "bz_calls w = [ExportProfile path, ?reg]"
    using w(3) by (simp_all add: cb_keeps_def newBluezProfile_def)
  then obtain l' where l': "linuxBluezListener_Close (?l\<lparr>bl_bluez := w\<rparr>) = Ret l'" "linuxBluezListener_Close l' = Ret l'"
    "bz_calls (bl_bluez l') = [ExportProfile path, ?reg] @ [UnregisterProfile path, UnexportProfile path, CloseBus]"
    "(Inl (Err ''listener closed''), l') \<in> set (linuxBluezListener_Accept l')"
    using listener_Close[of "?l\<lparr>bl_bluez := w\<rparr>"] w(2) by auto
  show ?thesis
  proof (cases "reply (ExportProfile path)")
    case (Some e)
    obtain w1 where "cleanup True (?w [ExportProfile path]) = Ret w1" "bz_path w1 = path" "ExportProfile path \<in> set (bz_calls w1)"
      "count_list (bz_calls w1) CloseBus = 1" "UnregisterProfile path \<in> set (bz_calls w1)" using fails[of "[ExportProfile path]"] by auto
    with Some show ?thesis by (auto simp: listenRFCOMMBlueZ_def path Let_def)
  next
    case None
    show ?thesis
    proof (cases "reply ?reg")
      case (Some e)
      obtain w1 where "cleanup True (?w [ExportProfile path, ?reg]) = Ret w1" "bz_path w1 = path" "?reg \<in> set (bz_calls w1)"
        "count_list (bz_calls w1) CloseBus = 1" "UnregisterProfile path \<in> set (bz_calls w1)"
        using fails[of "[ExportProfile path, ?reg]"] by auto
      with None Some show ?thesis by (auto simp: listenRFCOMMBlueZ_def path Let_def)
    next
      case (None)
      with \<open>reply (ExportProfile path) = None\<close> w l' show ?thesis by (simp add: listenRFCOMMBlueZ_def path Let_def)
    qed
  qed
qed

definition dial_outcome :: "callback list \<Rightarrow> ((error + bluezDialPipe) \<times> bluez) outcome \<Rightarrow> bool" where
  "dial_outcome cbs r =
     (case r of
        Panic \<Rightarrow> False
      | Ret (Inl e, w) \<Rightarrow> bz_cleaned w \<and> count_list (bz_calls w) CloseBus = 1
      | Ret (Inr p, w) \<Rightarrow> CloseBus \<notin> set (bz_calls w) \<and> (\<exists>device newfile. CbNewConnection device (dp_fd p) newfile \<in> set cbs)
          \<and> (\<exists>p' w'. bluezDialPipe_Close p w = Ret (p', w') \<and> bz_closed w' = bz_closed w @ [dp_fd p]
               \<and> count_list (bz_calls w') CloseBus = 1 \<and> bluezDialPipe_Close p' w' = Ret (p', w')))"

lemma dial_fail:
  assumes "bp_ok (bz_prof w)" "\<not> bz_cleaned w" "CloseBus \<notin> set (bz_calls w)"
  shows "dial_outcome cbs (map_outcome (\<lambda>w'. (Inl e, w')) (cleanup False w))"
proof -
  obtain w' where w': "cleanup False w = Ret w'" by (rule cleanup_Ret[OF assms(1), of False])
  with cleanup_once[OF assms w'] assms(3) show ?thesis by (simp add: dial_outcome_def count_list_0_iff)
qed

lemma dial_finish_fail:
  assumes "bp_ok (bz_prof w)" "\<not> bz_cleaned w" "CloseBus \<notin> set (bz_calls w)"
  shows "dial_outcome cbs (and_then (bz_finish reason w) (\<lambda>w. map_outcome (\<lambda>w'. (Inl e, w')) (cleanup False w)))"
proof -
  obtain p where "finish reason (bz_prof w) = Ret p" "bp_ok p" by (rule finish_Ret[OF assms(1), of reason])
  with assms(2,3) dial_fail[of "w\<lparr>bz_prof := p\<rparr>"] show ?thesis by (simp add: bz_finish_def)
qed

lemma dial_pipe_Close:
  assumes "bp_ok (bz_prof w)" "\<not> bz_cleaned w" "CloseBus \<notin> set (bz_calls w)" "CbNewConnection device fd newfile \<in> set cbs"
  shows "dial_outcome cbs (Ret (Inr \<lparr>dp_fd = fd, dp_closed = False\<rparr>, w))"
proof -
  let ?w = "w\<lparr>bz_closed := bz_closed w @ [fd]\<rparr>"
  obtain w' where w': "cleanup False ?w = Ret w'" "bz_closed w' = bz_closed ?w"
    by (rule cleanup_Ret[of ?w False]) (use assms(1) in auto)
  from cleanup_once[OF _ _ _ w'(1)] assms(1,2,3) have "count_list (bz_calls w') CloseBus = 1" by simp
  with w' assms(3,4) show ?thesis by (auto simp: dial_outcome_def bluezDialPipe_Close_def)
qed

lemma dial_select_outcome:
  assumes "bp_ok (bz_prof w)" "\<not> bz_cleaned w" "CloseBus \<notin> set (bz_calls w)"
    and "\<forall>a \<in> set (bp_acceptCh (bz_prof w)). came_from cbs a" "r \<in> set (dial_select ctx w)"
  shows "dial_outcome cbs r"
proof -
  let ?fail = "\<lambda>e w. map_outcome (\<lambda>w'. (Inl e, w')) (cleanup False w)"
  consider e where "r = and_then (bz_finish e w) (?fail e)" | e where "r = ?fail e w"
    | a as where "bp_acceptCh (bz_prof w) = a # as"
        "r \<in> set (map (\<lambda>(res, w1). case ba_err res of
                  Some e \<Rightarrow> and_then (bz_finish e w1) (?fail e)
                | None \<Rightarrow> (case ba_pipe res of
                             None \<Rightarrow> and_then (bz_finish (Err ''nil pipe'') w1) (?fail (Err ''bluez dial returned nil pipe''))
                           | Some fd \<Rightarrow> Ret (Inr \<lparr>dp_fd = fd, dp_closed = False\<rparr>, w1))) (take_accept w))"
    using assms(5) unfolding dial_select_def Let_def
    by (cases "bp_acceptCh (bz_prof w)") (auto simp: take_accept_def split: option.splits if_splits)
  then show ?thesis
  proof cases
    case (3 a as)
    let ?w = "w\<lparr>bz_prof := (bz_prof w)\<lparr>bp_acceptCh := as\<rparr>\<rparr>"
    have w: "bp_ok (bz_prof ?w)" "\<not> bz_cleaned ?w" "CloseBus \<notin> set (bz_calls ?w)" using assms(1-3) 3(1) by (simp_all add: bp_ok_def)
    have a: "came_from cbs a" using assms(4) 3(1) by simp
    show ?thesis
    proof (cases "ba_err a")
      case None
      with a obtain device fd newfile where c: "CbNewConnection device fd newfile \<in> set cbs" "ba_pipe a = Some fd" by (auto simp: came_from_def)
      then show ?thesis using 3 None dial_pipe_Close[OF w c(1)] by (simp add: take_accept_def)
    next
      case (Some e)
      then show ?thesis using 3 dial_finish_fail[OF w] by (simp add: take_accept_def)
    qed
  qed (use dial_finish_fail[OF assms(1-3)] dial_fail[OF assms(1-3)] in auto)
qed

text \<open>
  A dial through BlueZ releases the bus. Whatever the bus answers, whichever callbacks have run and
  whichever case the \<open>select\<close> takes, \<open>dialRFCOMMByUUIDBlueZ\<close> does not panic; with an error it has closed
  the bus exactly once, unless it never got it. With success the bus is open, the pipe holds a
  descriptor that BlueZ passed in, and its first \<open>Close\<close> closes the descriptor and then the bus, once
  each; a second \<open>Close\<close> does nothing.
\<close>

theorem bluez_dial_releases_bus:
  assumes "r \<in> set (fst (dialRFCOMMByUUIDBlueZ ulow uup sysbus reply cbs ctx opts seq))"
  shows "case r of
      Panic \<Rightarrow> False
    | Ret (Inl e, None) \<Rightarrow> normalizeBDAddr uup (do_BDAddr opts) = Inl e \<or> sysbus = Some e
    | Ret (Inl e, Some w) \<Rightarrow> bz_cleaned w \<and> count_list (bz_calls w) CloseBus = 1
    | Ret (Inr p, None) \<Rightarrow> False
    | Ret (Inr p, Some w) \<Rightarrow> CloseBus \<notin> set (bz_calls w) \<and> (\<exists>device newfile. CbNewConnection device (dp_fd p) newfile \<in> set cbs)
        \<and> (\<exists>p' w'. bluezDialPipe_Close p w = Ret (p', w') \<and> bz_closed w' = bz_closed w @ [dp_fd p]
             \<and> count_list (bz_calls w') CloseBus = 1 \<and> bluezDialPipe_Close p' w' = Ret (p', w'))"
    (is "?P r")
proof -
  consider (none) e where "r = Ret (Inl e, None)" "normalizeBDAddr uup (do_BDAddr opts) = Inl e \<or> sysbus = Some e"
    | (bus) bdaddr where "normalizeBDAddr uup (do_BDAddr opts) = Inr bdaddr" "sysbus = None"
    using assms by (auto simp: dialRFCOMMByUUIDBlueZ_def split: sum.splits option.splits)
  then show ?thesis
  proof cases
    case none
    then show ?thesis by simp
  next
    case bus
    obtain path seq1 where path: "newBluezProfilePath ''dial'' seq = (path, seq1)" by fastforce
    have lift: "?P (map_outcome (map_prod id Some) q)" if "dial_outcome cbs q" for q
      using that by (auto simp: dial_outcome_def split: outcome.splits sum.splits prod.splits)
    let ?cfg = "\<lparr>bc_uuid = ToLower ulow (TrimSpace (do_UUID opts)), bc_expectedAdapter = TrimSpace (do_Adapter opts),
        bc_addrRole = ''dial'', bc_singleShot = True, bc_wrapPipe = True\<rparr>"
    let ?w = "\<lambda>calls. \<lparr>bz_prof = newBluezProfile ulow ?cfg, bz_path = path, bz_calls = calls, bz_cleaned = False, bz_closed = []\<rparr>"
    have fail: "?P (map_outcome (\<lambda>w'. (Inl e, Some w')) (cleanup False w))"
      if "bp_ok (bz_prof w)" "\<not> bz_cleaned w" "CloseBus \<notin> set (bz_calls w)" for e w
      using lift[OF dial_fail[OF that, where e = e]] by (simp add: outcome.map_comp comp_def)
    have "\<exists>w2. callbacks_run uup cbs (?w calls) = Ret w2 \<and> bp_ok (bz_prof w2) \<and> \<not> bz_cleaned w2 \<and> bz_calls w2 = calls
        \<and> (\<forall>a \<in> set (bp_acceptCh (bz_prof w2)). came_from cbs a)" for calls
      using callbacks_run_Ret[OF cb_inv_fresh[of ?cfg ulow path calls], of uup cbs]
      by (auto simp: cb_keeps_def cb_inv_def newBluezProfile_def)
    then obtain run where run: "\<And>calls. callbacks_run uup cbs (?w calls) = Ret (run calls) \<and> bp_ok (bz_prof (run calls))
        \<and> \<not> bz_cleaned (run calls) \<and> bz_calls (run calls) = calls \<and> (\<forall>a \<in> set (bp_acceptCh (bz_prof (run calls))). came_from cbs a)"
      by metis
    have sel: "?P (map_outcome (map_prod id Some) q)" if "q \<in> set (dial_select ctx (run calls))" "CloseBus \<notin> set calls" for q calls
      by (rule lift, rule dial_select_outcome[OF _ _ _ _ that(1)]) (use run[of calls] that(2) in auto)
    define ex where "ex = ExportProfile path"
    define reg where "reg = RegisterProfile path (ToLower ulow (TrimSpace (do_UUID opts))) (profile_options ''client'' False (do_Insecure opts) 0)"
    define conn where "conn = ConnectProfile (bluezDeviceObjectPath uup (TrimSpace (do_Adapter opts)) bdaddr) (ToLower ulow (TrimSpace (do_UUID opts)))"
    note calls_def = ex_def reg_def conn_def
    let ?fail = "\<lambda>e w. map_outcome (\<lambda>w'. (Inl e, Some w')) (cleanup False w)"
    have "fst (dialRFCOMMByUUIDBlueZ ulow uup sysbus reply cbs ctx opts seq) =
        (case reply ex of Some e \<Rightarrow> [?fail e (?w [ex])]
         | None \<Rightarrow> (case reply reg of Some e \<Rightarrow> [?fail e (?w [ex, reg])]
            | None \<Rightarrow> (case reply conn of Some e \<Rightarrow> [?fail e (run [ex, reg, conn])]
               | None \<Rightarrow> map (map_outcome (map_prod id Some)) (dial_select ctx (run [ex, reg, conn])))))"
      using bus run[THEN conjunct1] by (simp add: dialRFCOMMByUUIDBlueZ_def path Let_def calls_def split: option.splits)
    then consider e where "r = ?fail e (?w [ex])" | e where "r = ?fail e (?w [ex, reg])" | e where "r = ?fail e (run [ex, reg, conn])"
      | q where "r = map_outcome (map_prod id Some) q" "q \<in> set (dial_select ctx (run [ex, reg, conn]))"
      using assms by (auto split: option.splits)
    then show ?thesis
    proof cases
      case 1
      show ?thesis unfolding 1 by (rule fail) (simp_all add: calls_def)
    next
      case 2
      show ?thesis unfolding 2 by (rule fail) (simp_all add: calls_def)
    next
      case 3
      show ?thesis unfolding 3 by (rule fail) (use run[of "[ex, reg, conn]"] in \<open>auto simp: calls_def\<close>)
    next
      case 4
      show ?thesis unfolding 4(1) by (rule sel[OF 4(2)]) (simp add: calls_def)
    qed
  qed
qed

text \<open>
  A dial that BlueZ answers returns the connection, or loses it against the context. With every call
  answered and a device path of the adapter, the dial has one outcome, the pipe of the descriptor;
  when the context ends as well, it may also fail, and then the descriptor is left in the queue,
  neither returned nor closed.
\<close>

theorem bluez_dial_delivers:
  assumes "normalizeBDAddr uup (do_BDAddr opts) = Inr bdaddr" "\<forall>c. reply c = None"
    and "HasPrefix device (''/org/bluez/'' @ TrimSpace (TrimSpace (do_Adapter opts)) @ ''/'')"
  shows "\<exists>w1 w2. fst (dialRFCOMMByUUIDBlueZ ulow uup None reply [CbNewConnection device fd True] ctx opts seq) =
      (case ctx of None \<Rightarrow> [] | Some e \<Rightarrow> [Ret (Inl e, Some w1)]) @ [Ret (Inr \<lparr>dp_fd = fd, dp_closed = False\<rparr>, Some w2)]
    \<and> queued w1 = [fd] \<and> bz_closed w1 = []
    \<and> (\<exists>path options. bz_calls w2 = [ExportProfile path, RegisterProfile path (ToLower ulow (TrimSpace (do_UUID opts))) options,
         ConnectProfile (bluezDeviceObjectPath uup (TrimSpace (do_Adapter opts)) bdaddr) (ToLower ulow (TrimSpace (do_UUID opts)))])"
proof -
  obtain path seq1 where path: "newBluezProfilePath ''dial'' seq = (path, seq1)" by fastforce
  let ?cfg = "\<lparr>bc_uuid = ToLower ulow (TrimSpace (do_UUID opts)), bc_expectedAdapter = TrimSpace (do_Adapter opts),
      bc_addrRole = ''dial'', bc_singleShot = True, bc_wrapPipe = True\<rparr>"
  let ?w = "\<lambda>calls. \<lparr>bz_prof = newBluezProfile ulow ?cfg, bz_path = path, bz_calls = calls, bz_cleaned = False, bz_closed = []\<rparr>"
  have "NewConnection_check (newBluezProfile ulow ?cfg) device True = None"
    using assms(3) by (simp add: NewConnection_check_def newBluezProfile_def)
  then have run: "\<exists>a. callbacks_run uup [CbNewConnection device fd True] (?w calls) =
      Ret ((?w calls)\<lparr>bz_prof := (newBluezProfile ulow ?cfg)\<lparr>bp_acceptCh := [a], bp_closed := True\<rparr>\<rparr>)
      \<and> ba_pipe a = Some fd \<and> ba_err a = None" for calls
    by (simp add: callback_run_def NewConnection_def NewConnection_offer_def offer_def Let_def)
      (simp add: newBluezProfile_def)
  define calls where "calls = [ExportProfile path, RegisterProfile path (ToLower ulow (TrimSpace (do_UUID opts)))
      (profile_options ''client'' False (do_Insecure opts) 0),
      ConnectProfile (bluezDeviceObjectPath uup (TrimSpace (do_Adapter opts)) bdaddr) (ToLower ulow (TrimSpace (do_UUID opts)))]"
  obtain a where a: "callbacks_run uup [CbNewConnection device fd True] (?w calls) =
      Ret ((?w calls)\<lparr>bz_prof := (newBluezProfile ulow ?cfg)\<lparr>bp_acceptCh := [a], bp_closed := True\<rparr>\<rparr>)"
    (is "_ = Ret ?w1") "ba_pipe a = Some fd" "ba_err a = None" using run[of calls] by blast
  have *: "fst (dialRFCOMMByUUIDBlueZ ulow uup None reply [CbNewConnection device fd True] ctx opts seq) =
      map (map_outcome (map_prod id Some)) (dial_select ctx ?w1)"
    using assms(1,2) a(1) by (simp add: dialRFCOMMByUUIDBlueZ_def path Let_def calls_def del: callbacks_run.simps)
  obtain w' where w': "cleanup False ?w1 = Ret w'" "queued w' = queued ?w1" "bz_closed w' = bz_closed ?w1"
    by (rule cleanup_Ret[of ?w1 False]) (simp_all add: bp_ok_def newBluezProfile_def)
  have "dial_select ctx ?w1 = (case ctx of None \<Rightarrow> [] | Some e \<Rightarrow> [Ret (Inl e, w')])
      @ [Ret (Inr \<lparr>dp_fd = fd, dp_closed = False\<rparr>, ?w1\<lparr>bz_prof := (bz_prof ?w1)\<lparr>bp_acceptCh := []\<rparr>\<rparr>)]"
    using a(2,3) w'(1) by (simp add: dial_select_def take_accept_def bz_finish_def finish_def newBluezProfile_def split: option.splits)
  then show ?thesis unfolding * using w'(2,3) a(2) by - (rule exI[of _ w'], rule exI, auto simp: calls_def split: option.splits)
qed

definition ex_device :: string where "ex_device = ''/org/bluez/hci0/dev_01_23_45_67_89_AB''"

lemma ex_device_prefix: "HasPrefix ex_device (''/org/bluez/'' @ TrimSpace (TrimSpace (do_Adapter ex_dial)) @ ''/'')"
  by code_simp

abbreviation ex_bluez_dial :: "((error + bluezDialPipe) \<times> bluez option) outcome list" where
  "ex_bluez_dial \<equiv> fst (dialRFCOMMByUUIDBlueZ id id None (\<lambda>_. None) [CbNewConnection ex_device 9 True] (Some errCtxDone) ex_dial 0)"

theorem bluez_dial_releases_bus_witness:
  "\<exists>p w e w1. ex_bluez_dial = [Ret (Inl e, Some w1), Ret (Inr p, Some w)] \<and> dp_fd p = 9
     \<and> count_list (bz_calls w1) CloseBus = 1 \<and> CloseBus \<notin> set (bz_calls w)
     \<and> (\<exists>p' w'. bluezDialPipe_Close p w = Ret (p', w') \<and> bz_closed w' = bz_closed w @ [9])"
proof -
  obtain w1 w2 where w: "ex_bluez_dial = [Ret (Inl errCtxDone, Some w1), Ret (Inr \<lparr>dp_fd = 9, dp_closed = False\<rparr>, Some w2)]"
    using bluez_dial_delivers[OF ex_bd_normal _ ex_device_prefix, where uup = id and reply = "\<lambda>_. None" and fd = 9 and ctx = "Some errCtxDone"
        and seq = 0 and ulow = id] by fastforce
  have "Ret (Inl errCtxDone, Some w1) \<in> set ex_bluez_dial" "Ret (Inr \<lparr>dp_fd = 9, dp_closed = False\<rparr>, Some w2) \<in> set ex_bluez_dial"
    unfolding w by simp_all
  from this[THEN bluez_dial_releases_bus] w show ?thesis by auto
qed

theorem bluez_close_strands_connection_witness:
  "bp_ok (bz_prof ex_fresh) \<and> (\<exists>w. cleanup True ex_fresh = Ret w \<and> queued w = [] \<and> bz_closed w = [])"
proof -
  have ok: "bp_ok (bz_prof ex_fresh)" by (simp add: bp_ok_def ex_fresh_prof)
  with bluez_close_strands_connection[THEN conjunct1, THEN mp, OF ok, of True] show ?thesis by (auto simp: ex_fresh_prof ex_fresh_fields)
qed

end
