(* ===== verification/Inbound.thy ===== *)
theory Inbound
  imports Frame_IO Dispatcher
begin

text \<open>
  The way in, from the bytes on a connection to the queue of the receive dispatcher: the read loop of
  \<open>Frame_IO\<close>, the receive callback that \<^verbatim>\<open>Server.Start\<close> installs on a connection, and \<open>OnReceive\<close> of the
  dispatcher, composed as the code composes them.
\<close>

text \<open>
  The receive callback that \<open>Start\<close> gives a connection: each frame of the read loop becomes an event.
\<close>

definition inbound :: "cref \<Rightarrow> HeaderTcp \<times> byte list \<Rightarrow> dispatchEvent" where
  "inbound c = (\<lambda>(h, pl). \<lparr>ev_srv = True, ev_conn = Some c, ev_hdr = Some h, ev_payload = pl\<rparr>)"

fun receive_all ::
  "(cref \<Rightarrow> conn) \<Rightarrow> bool \<Rightarrow> (nat \<Rightarrow> bool) \<Rightarrow> dispatchEvent list \<Rightarrow> Dispatcher \<Rightarrow> Dispatcher outcome list" where
  "receive_all hp ctx_done waiting [] p = [Ret p]"
| "receive_all hp ctx_done waiting (e # es) p =
     concat (map (\<lambda>r. case r of Panic \<Rightarrow> [Panic] | Ret p' \<Rightarrow> receive_all hp ctx_done waiting es p')
       (disp_OnReceive hp ctx_done waiting e p))"

lemma receive_all_Cons:
  assumes "Ret q \<in> set (receive_all hp ctx_done waiting (e # es) p)"
  obtains p' where "Ret p' \<in> set (disp_OnReceive hp ctx_done waiting e p)" "Ret q \<in> set (receive_all hp ctx_done waiting es p')"
proof -
  obtain r where r: "r \<in> set (disp_OnReceive hp ctx_done waiting e p)"
    "Ret q \<in> set (case r of Panic \<Rightarrow> [Panic] | Ret p' \<Rightarrow> receive_all hp ctx_done waiting es p')"
    using assms by auto
  show thesis by (cases r) (use that r in auto)
qed

lemma OnReceive_room:
  assumes "Ret p' \<in> set (disp_OnReceive hp False waiting evt p)" "d_runtime p \<noteq> Cancelled"
    and "queue_index hp p evt = Ret (int i)" "length (queues p ! i) < chanBuffer p"
  shows "\<exists>c. p' = enqueue i evt (touched p c)"
proof -
  let ?c = "snd (SelectQueue (d_strategy p) (d_counter p) (map_option (\<lambda>x. conn_ID (hp x)) (ev_conn evt)) (ev_hdr evt) (chanCount p))"
  have "disp_selectQueue (ensureRuntime p) hp (ev_conn evt) (ev_hdr evt) = (queue_index hp p evt, touched p ?c)"
    by (simp add: disp_selectQueue_def queue_index_def touched_def ensureRuntime_def split: prod.splits)
  moreover have "d_runtime (touched p ?c) \<noteq> Cancelled" using assms(2) by (simp add: touched_def ensureRuntime_def)
  ultimately show ?thesis
    using assms(1,3,4) by (auto simp: disp_OnReceive_def Let_def split: if_splits)
qed

text \<open>The queue that hashing gives to a connection does not change while frames arrive.\<close>

lemma receive_all_in_order:
  assumes "d_strategy p = ConnHashStrategy" "\<forall>e \<in> set es. ev_conn e = Some c" "es \<noteq> []"
    and "Ret q \<in> set (receive_all hp ctx_done waiting es p)"
  shows "\<exists>i sub. i < length (queues p) \<and> subseq sub es \<and> queues q = (queues p)[i := queues p ! i @ sub]
    \<and> ConnHash_SelectQueue (Some (conn_ID (hp c))) None (chanCount p) = Ret (int i)
    \<and> (length (queues p ! i) + length es \<le> chanBuffer p \<and> \<not> ctx_done \<and> d_runtime p \<noteq> Cancelled \<longrightarrow> sub = es)"
  using assms
proof (induction es arbitrary: p)
  case (Cons e es)
  obtain p' where p': "Ret p' \<in> set (disp_OnReceive hp ctx_done waiting e p)" "Ret q \<in> set (receive_all hp ctx_done waiting es p')"
    by (rule receive_all_Cons[OF Cons.prems(4)])
  have idx: "queue_index hp p e = ConnHash_SelectQueue (Some (conn_ID (hp c))) None (chanCount p)"
    using Cons.prems(1,2) by (simp add: queue_index_def SelectQueue_def ConnHash_SelectQueue_def)
  obtain i d where i: "queue_index hp p e = Ret (int i)" "i < length (queues p)"
    and d: "p' = touched p d \<or> p' = enqueue i e (touched p d)"
    using OnReceive_cases[OF p'(1)] by (metis int_nat_eq)
  have keep: "d_strategy p' = ConnHashStrategy" "chanCount p' = chanCount p" "chanBuffer p' = chanBuffer p"
    using d Cons.prems(1) by (auto simp: enqueue_def)
  have run: "d_runtime p \<noteq> Cancelled \<Longrightarrow> d_runtime p' \<noteq> Cancelled"
    using d by (auto simp: enqueue_def touched_def ensureRuntime_def split: if_splits)
  have len: "length (queues p') = length (queues p)" using d by (auto simp: enqueue_def)
  obtain sub1 where s1: "queues p' = (queues p)[i := queues p ! i @ sub1]" "sub1 = [] \<or> sub1 = [e]"
  proof (cases "p' = touched p d")
    case True
    then show thesis using that[of "[]"] by simp
  next
    case False
    then show thesis using that[of "[e]"] d by (simp add: enqueue_def)
  qed
  have full: "sub1 = [e]" if "length (queues p ! i) + length (e # es) \<le> chanBuffer p" "\<not> ctx_done" "d_runtime p \<noteq> Cancelled"
  proof -
    have "\<exists>d. p' = enqueue i e (touched p d)" using OnReceive_room[of p' hp waiting e p i] p'(1) i(1) that by simp
    then have "queues p' ! i = queues p ! i @ [e]" using i(2) by (auto simp: enqueue_def)
    then show ?thesis using s1(1) i(2) by simp
  qed
  show ?case
  proof (cases "es = []")
    case True
    then have "q = p'" using p'(2) by simp
    then show ?thesis using True i idx s1 full by (intro exI[of _ i] exI[of _ sub1]) auto
  next
    case False
    have "\<forall>e \<in> set es. ev_conn e = Some c" using Cons.prems(2) by simp
    from Cons.IH[OF keep(1) this False p'(2)] obtain sub2 where s2: "subseq sub2 es" "queues q = (queues p')[i := queues p' ! i @ sub2]"
      "length (queues p' ! i) + length es \<le> chanBuffer p' \<and> \<not> ctx_done \<and> d_runtime p' \<noteq> Cancelled \<longrightarrow> sub2 = es"
      using i(1) idx keep(2) by auto
    have "queues q = (queues p)[i := queues p ! i @ (sub1 @ sub2)]" using s1(1) s2(2) i(2) by simp
    moreover have "subseq (sub1 @ sub2) (e # es)" using s1(2) s2(1) by auto
    moreover have "sub1 @ sub2 = e # es"
      if "length (queues p ! i) + length (e # es) \<le> chanBuffer p" "\<not> ctx_done" "d_runtime p \<noteq> Cancelled"
      using full[OF that] s1(1) s2(3) i(2) that run keep(3) by simp
    ultimately show ?thesis using i idx by (intro exI[of _ i] exI[of _ "sub1 @ sub2"]) auto
  qed
qed simp

text \<open>
  C15. From the peer's writer to the queue. Frames that a peer writes one after the other with success are
  read by the read loop of the connection in the same order, and their events all go to the one
  queue that the connection's id selects, behind what is there, in order; a frame may be dropped
  only when the queue is full or the context or the dispatcher is ending, and with room for all
  of them none is.
\<close>

theorem sent_frames_reach_the_queue:
  assumes "io_writer w written" "written (st 0) = []" "fs \<noteq> []"
    and "\<forall>i < length fs. WriteFrame (Some w) (st i) TcpCodec (fs ! i) = Some (Ret (st (Suc i), None))"
    and "\<forall>f \<in> set fs. length (Payload f) < 2 ^ 32" "\<forall>i. \<not> cancelled i" "d_strategy p = ConnHashStrategy"
  shows "\<exists>frames. ReadLoop Decode cancelled 0 \<lparr>avail = written (st (length fs)), fin = e\<rparr> [] = Some (frames, e)
    \<and> map snd frames = map Payload fs
    \<and> (\<forall>q. Ret q \<in> set (receive_all hp ctx_done waiting (map (inbound c) frames) p) \<longrightarrow>
        (\<exists>i sub. ConnHash_SelectQueue (Some (conn_ID (hp c))) None (chanCount p) = Ret (int i) \<and> i < length (queues p)
           \<and> subseq sub (map (inbound c) frames) \<and> queues q = (queues p)[i := queues p ! i @ sub]
           \<and> (length (queues p ! i) + length fs \<le> chanBuffer p \<and> \<not> ctx_done \<and> d_runtime p \<noteq> Cancelled
                \<longrightarrow> sub = map (inbound c) frames)))"
proof -
  let ?fr = "map received fs"
  have "written (st (length fs)) = concat (map frame_bytes fs)"
    using io_writer.write_frames_written[OF assms(1), of fs st] assms(2,4) by simp
  then have "ReadLoop Decode cancelled 0 \<lparr>avail = written (st (length fs)), fin = e\<rparr> [] = Some (?fr, e)"
    using tcp_codec.read_loop_frames[OF assms(6,5), of "\<lparr>avail = written (st (length fs)), fin = e\<rparr>" 0 "[]"] by simp
  moreover have "map snd ?fr = map Payload fs" by (simp add: received_def)
  moreover have "\<exists>i sub. ConnHash_SelectQueue (Some (conn_ID (hp c))) None (chanCount p) = Ret (int i) \<and> i < length (queues p)
           \<and> subseq sub (map (inbound c) ?fr) \<and> queues q = (queues p)[i := queues p ! i @ sub]
           \<and> (length (queues p ! i) + length fs \<le> chanBuffer p \<and> \<not> ctx_done \<and> d_runtime p \<noteq> Cancelled
                \<longrightarrow> sub = map (inbound c) ?fr)"
    if q: "Ret q \<in> set (receive_all hp ctx_done waiting (map (inbound c) ?fr) p)" for q
  proof -
    have "\<forall>e \<in> set (map (inbound c) ?fr). ev_conn e = Some c" by (auto simp: inbound_def split: prod.splits)
    from receive_all_in_order[OF assms(7) this _ q] assms(3) obtain i sub where "i < length (queues p)" "subseq sub (map (inbound c) ?fr)"
      "queues q = (queues p)[i := queues p ! i @ sub]"
      "ConnHash_SelectQueue (Some (conn_ID (hp c))) None (chanCount p) = Ret (int i)"
      "length (queues p ! i) + length (map (inbound c) ?fr) \<le> chanBuffer p \<and> \<not> ctx_done \<and> d_runtime p \<noteq> Cancelled \<longrightarrow> sub = map (inbound c) ?fr"
      by auto
    then show ?thesis by (intro exI[of _ i] exI[of _ sub]) simp
  qed
  ultimately show ?thesis by blast
qed

theorem sent_frames_reach_the_queue_witness:
  "\<exists>frames. ReadLoop Decode (\<lambda>_. False) 0 \<lparr>avail = frame_bytes \<lparr>Header = None, Payload = [7]\<rparr>, fin = EOF\<rparr> [] = Some (frames, EOF)
     \<and> map snd frames = [[7]]
     \<and> (\<forall>q. Ret q \<in> set (receive_all (\<lambda>_. \<lparr>conn_ID = ''c'', meta = (\<lambda>_. None)\<rparr>) False (\<lambda>_. False) (map (inbound 1) frames) ex_disp) \<longrightarrow>
          queues q = [map (inbound 1) frames])"
proof -
  let ?f = "\<lparr>Header = None, Payload = [7]\<rparr>"
  let ?st = "\<lambda>i :: nat. if i = 0 then [] else frame_bytes ?f"
  have "\<forall>i < length [?f]. WriteFrame (Some half_writer) (?st i) TcpCodec ([?f] ! i) = Some (Ret (?st (Suc i), None))"
    by (simp add: WriteFrame_def writeTCPFrame_eq WriteAll_def half_writer_loop frame_bytes_def)
  from sent_frames_reach_the_queue[OF half_writer_ok _ _ this, of "\<lambda>_. False" ex_disp EOF "\<lambda>_. \<lparr>conn_ID = ''c'', meta = (\<lambda>_. None)\<rparr>" False "\<lambda>_. False" 1]
  show ?thesis by (auto simp: ex_disp_def ConnHash_SelectQueue_def)
qed

end
