(* ===== verification/Server_Run.thy ===== *)
theory Server_Run
  imports Server Event_Bus Transport
begin

text \<open>
  The goroutines of server/server.go: \<open>serveConn\<close>, which runs the read loop of a connection and
  removes it afterwards, \<open>Broadcast\<close>, the default dialer of the parent link, and the end of the
  server, where \<open>Stop\<close> closes the event bus while the removal hook of \<open>Start\<close> publishes on it.
\<close>

section \<open>Serving a connection\<close>

text \<open>
  \<open>serveConn\<close>: \<open>rd\<close> are the readers of the connections, \<open>rFac\<close> the reader factory, and \<open>loop\<close> what the
  rest of the program does to the state while \<open>ReadLoop\<close> runs.
\<close>

definition serveConn ::
  "server_world env \<Rightarrow> (cref \<Rightarrow> nat option) \<Rightarrow> (server_world \<Rightarrow> server_world) \<Rightarrow> cref \<Rightarrow>
   (cref \<Rightarrow> nat option) \<times> server_world \<Rightarrow> (cref \<Rightarrow> nat option) \<times> server_world" where
  "serveConn env rFac loop c = (\<lambda>(rd, s).
     let rd1 = (if rd c = None then rd(c := rFac c) else rd)
     in if rd1 c = None then (rd1, s)
        else let s1 = loop s in (rd1, snd (Remove env (conn_ID (heap s1 c)) s1)))"

text \<open>\<open>defaultTCPParentDialer\<close>: \<open>DialContext\<close> returns the socket with its two addresses.\<close>

definition defaultTCPParentDialer ::
  "(string \<Rightarrow> string \<Rightarrow> ('p \<times> string \<times> string) result) \<Rightarrow> string \<Rightarrow> 'p stream_conn result" where
  "defaultTCPParentDialer DialContext addr =
     map_sum id (\<lambda>(raw, local, remote). NewTCPConnection local remote raw) (DialContext ''tcp'' addr)"

text \<open>
  What \<open>Start\<close> does when the listener returns \<open>err\<close>: an error stops the server, waiting for the read loops
  without a limit.
\<close>

definition listener_exits :: "server_world env \<Rightarrow> cref list \<Rightarrow> error option \<Rightarrow> server_world \<Rightarrow> server_world" where
  "listener_exits env order err s = (case err of None \<Rightarrow> s | Some e \<Rightarrow> snd (Server_Stop env True order s))"


section \<open>Broadcasting\<close>

definition first_of :: "error option \<Rightarrow> error option \<Rightarrow> error option" where
  "first_of firstErr e = (case firstErr of None \<Rightarrow> e | Some f \<Rightarrow> Some f)"

text \<open>
  \<open>Broadcast\<close> over the snapshot \<open>order\<close>. The callback of a task runs in the writer's goroutine: \<open>cb c\<close> is
  the error, if any, that callbacks have reported by the time the dispatch to \<open>c\<close> returns. \<open>New\<close>
  always makes a sender, so that the branch for a server without one is never taken.
\<close>

fun broadcast_each ::
  "(cref \<Rightarrow> conn) \<Rightarrow> ctx option \<Rightarrow> bool \<Rightarrow> bool \<Rightarrow> (nat \<Rightarrow> bool) \<Rightarrow> (cref \<Rightarrow> error option) \<Rightarrow> iheader option \<Rightarrow> byte list \<Rightarrow>
   cref list \<Rightarrow> error option \<Rightarrow> SendDispatcher \<Rightarrow> (error option \<times> SendDispatcher) outcome list" where
  "broadcast_each hp cx ctx_done fired waiting cb hdr payload [] firstErr d = [Ret (firstErr, d)]"
| "broadcast_each hp cx ctx_done fired waiting cb hdr payload (c # cs) firstErr d =
     concat (map (\<lambda>r. case r of
                Panic \<Rightarrow> [Panic]
              | Ret (e, d') \<Rightarrow> broadcast_each hp cx ctx_done fired waiting cb hdr payload cs (first_of (first_of firstErr (cb c)) e) d')
       (Dispatch hp cx ctx_done fired waiting
          \<lparr>t_conn = Some c, t_hdr = hdr, t_payload = payload, t_codec = Some TcpCodec\<rparr> d))"

definition Server_Broadcast ::
  "ctx option \<Rightarrow> bool \<Rightarrow> bool \<Rightarrow> (nat \<Rightarrow> bool) \<Rightarrow> (cref \<Rightarrow> error option) \<Rightarrow> cref list \<Rightarrow> iheader option \<Rightarrow> byte list \<Rightarrow> server_world \<Rightarrow>
   (error option \<times> server_world) outcome list" where
  "Server_Broadcast cx ctx_done fired waiting cb order hdr payload s =
     map (map_outcome (\<lambda>(e, d). (e, s\<lparr>sender := d\<rparr>)))
       (broadcast_each (heap s) cx ctx_done fired waiting cb hdr payload order None (sender s))"


section \<open>Stopping while connections go away\<close>

text \<open>
  The removal of a connection publishes \<^verbatim>\<open>conn.closed\<close> with the connection id and the node id; \<open>Stop\<close>
  cancels the context, which ends the read loops and so starts the removals, and then closes the
  bus. A removal is at its read loop, before the test of \<open>closed\<close> in \<open>Publish\<close>, behind it, or over.
\<close>

datatype conn_pc = Reading | Hooking | Publishing | Gone
datatype stop_pc = Up | CtxCancelled | BusClosed | Done

record stop_run =
  sr_bus :: "(nat, string \<times> u32) bus"
  sr_stop :: stop_pc
  sr_conns :: "((string \<times> u32) \<times> conn_pc) list"
  sr_crashed :: bool

definition closed_event ::
  "(string \<Rightarrow> string) \<Rightarrow> int \<Rightarrow> string \<times> u32 \<Rightarrow> stop_run \<Rightarrow> (error option \<times> (nat, string \<times> u32) bus) outcome list" where
  "closed_event ulow now d s =
     publish_rest (if sr_stop s = Up then None else Some errCtx) (normalize_name ulow ''conn.closed'') d Map.empty now (sr_bus s)"

inductive stop_step :: "(string \<Rightarrow> string) \<Rightarrow> int \<Rightarrow> stop_run \<Rightarrow> stop_run \<Rightarrow> bool" for ulow now where
  cancels: "sr_stop s = Up \<Longrightarrow> \<not> sr_crashed s \<Longrightarrow> stop_step ulow now s (s\<lparr>sr_stop := CtxCancelled\<rparr>)"
| closes_bus: "sr_stop s = CtxCancelled \<Longrightarrow> \<not> sr_crashed s \<Longrightarrow>
    stop_step ulow now s (s\<lparr>sr_stop := BusClosed, sr_bus := bus_Close (sr_bus s)\<rparr>)"
| waits: "sr_stop s = BusClosed \<Longrightarrow> \<not> sr_crashed s \<Longrightarrow> list_all (\<lambda>c. snd c = Gone) (sr_conns s) \<Longrightarrow>
    stop_step ulow now s (s\<lparr>sr_stop := Done\<rparr>)"
| reader_ends: "i < length (sr_conns s) \<Longrightarrow> sr_conns s ! i = (d, Reading) \<Longrightarrow> \<not> sr_crashed s \<Longrightarrow>
    stop_step ulow now s (s\<lparr>sr_conns := (sr_conns s)[i := (d, Hooking)]\<rparr>)"
| refused: "i < length (sr_conns s) \<Longrightarrow> sr_conns s ! i = (d, Hooking) \<Longrightarrow> \<not> sr_crashed s \<Longrightarrow> closed (sr_bus s) \<Longrightarrow>
    stop_step ulow now s (s\<lparr>sr_conns := (sr_conns s)[i := (d, Gone)]\<rparr>)"
| passes: "i < length (sr_conns s) \<Longrightarrow> sr_conns s ! i = (d, Hooking) \<Longrightarrow> \<not> sr_crashed s \<Longrightarrow> \<not> closed (sr_bus s) \<Longrightarrow>
    stop_step ulow now s (s\<lparr>sr_conns := (sr_conns s)[i := (d, Publishing)]\<rparr>)"
| publishes: "i < length (sr_conns s) \<Longrightarrow> sr_conns s ! i = (d, Publishing) \<Longrightarrow> \<not> sr_crashed s \<Longrightarrow>
    Ret (e, b) \<in> set (closed_event ulow now d s) \<Longrightarrow>
    stop_step ulow now s (s\<lparr>sr_conns := (sr_conns s)[i := (d, Gone)], sr_bus := b\<rparr>)"
| crashes: "i < length (sr_conns s) \<Longrightarrow> sr_conns s ! i = (d, Publishing) \<Longrightarrow> \<not> sr_crashed s \<Longrightarrow>
    Panic \<in> set (closed_event ulow now d s) \<Longrightarrow> stop_step ulow now s (s\<lparr>sr_crashed := True\<rparr>)"
| worker_takes: "lookup k (sr_bus s) = Some r \<Longrightarrow> \<not> sr_crashed s \<Longrightarrow> loop_take (bheap (sr_bus s) r) = Some (ev, bkt) \<Longrightarrow>
    stop_step ulow now s (s\<lparr>sr_bus := set_bucket r bkt (sr_bus s)\<rparr>)"

definition stop_init :: "(string \<times> u32) list \<Rightarrow> stop_run" where
  "stop_init ds = \<lparr>sr_bus = bus_New \<lparr>DefaultBuffer = 0, DefaultWorkers = 0\<rparr>, sr_stop = Up,
     sr_conns = map (\<lambda>d. (d, Reading)) ds, sr_crashed = False\<rparr>"

inductive stop_reachable :: "(string \<Rightarrow> string) \<Rightarrow> int \<Rightarrow> (string \<times> u32) list \<Rightarrow> stop_run \<Rightarrow> bool" for ulow now ds where
  init: "stop_reachable ulow now ds (stop_init ds)"
| step: "stop_reachable ulow now ds s \<Longrightarrow> stop_step ulow now s s' \<Longrightarrow> stop_reachable ulow now ds s'"

definition stop_inv :: "stop_run \<Rightarrow> bool" where
  "stop_inv s = (bus_inv (sr_bus s) \<and> (closed (sr_bus s) \<longleftrightarrow> sr_stop s \<in> {BusClosed, Done})
     \<and> (sr_crashed s \<longrightarrow> closed (sr_bus s) \<and> Publishing \<in> snd ` set (sr_conns s))
     \<and> (sr_stop s = Done \<longrightarrow> list_all (\<lambda>c. snd c = Gone) (sr_conns s)))"

lemma closed_key: "normalize_name ulow ''conn.closed'' = ''conn.closed''"
proof -
  have "map lower_char ''conn.closed'' = ''conn.closed''" "TrimSpace ''conn.closed'' = ''conn.closed''" "is_ascii ''conn.closed''"
    by code_simp+
  then show ?thesis by (simp add: normalize_name_def ToLower_def)
qed

text \<open>What the publication of a removal does: it panics exactly on a closed bus.\<close>

lemma closed_event_open:
  assumes "bus_inv (sr_bus s)" "\<not> closed (sr_bus s)"
  shows "Panic \<notin> set (closed_event ulow now d s)"
    and "Ret (e, b) \<in> set (closed_event ulow now d s) \<Longrightarrow> bus_inv b \<and> \<not> closed b"
proof -
  have p: "closed_event ulow now d s =
      Publish ulow (if sr_stop s = Up then None else Some errCtx) ''conn.closed'' d Map.empty now (sr_bus s)"
    using assms(2) by (simp add: closed_event_def Publish_def)
  show "Ret (e, b) \<in> set (closed_event ulow now d s) \<Longrightarrow> bus_inv b \<and> \<not> closed b"
    unfolding p using Publish_open[OF assms] by blast
  obtain r b1 where "getOrCreateBucket ''conn.closed'' (sr_bus s) = Ret (r, b1)"
    by (rule getOrCreateBucket_open[OF assms, of "''conn.closed''"]) simp_all
  then show "Panic \<notin> set (closed_event ulow now d s)"
    by (simp add: closed_event_def closed_key publish_rest_def Let_def)
qed

lemma closed_event_closed:
  assumes "bus_inv (sr_bus s)" "closed (sr_bus s)"
  shows "closed_event ulow now d s = [Panic]"
proof -
  have "buckets (sr_bus s) = None" using assms by (simp add: bus_inv_def)
  then have "getOrCreateBucket ''conn.closed'' (sr_bus s) = Panic"
    by (auto simp: getOrCreateBucket_def lookup_def split: outcome.splits)
  then show ?thesis by (simp add: closed_event_def closed_key publish_rest_def)
qed

lemma stop_inv_conns:
  assumes "stop_inv s" "\<not> sr_crashed s" "i < length (sr_conns s)" "snd (sr_conns s ! i) \<noteq> Gone"
  shows "stop_inv (s\<lparr>sr_conns := (sr_conns s)[i := x]\<rparr>)" "sr_stop s \<noteq> Done"
proof -
  have "\<not> list_all (\<lambda>c. snd c = Gone) (sr_conns s)" using assms(3,4) by (auto simp: list_all_length)
  then show "sr_stop s \<noteq> Done" using assms(1) by (auto simp: stop_inv_def)
  then show "stop_inv (s\<lparr>sr_conns := (sr_conns s)[i := x]\<rparr>)" using assms(1,2) by (simp add: stop_inv_def)
qed

lemma stop_step_inv: "stop_step ulow now s s' \<Longrightarrow> stop_inv s \<Longrightarrow> stop_inv s'"
proof (induction rule: stop_step.induct)
  case (closes_bus s)
  then show ?case by (simp add: stop_inv_def bus_Close_inv) (simp add: bus_Close_def)
next
  case (publishes i s d e b)
  have op: "\<not> closed (sr_bus s)"
  proof
    assume "closed (sr_bus s)"
    then have "closed_event ulow now d s = [Panic]"
      using publishes.prems closed_event_closed[of s] by (simp add: stop_inv_def)
    with publishes.hyps(4) show False by simp
  qed
  then have "bus_inv b \<and> \<not> closed b"
    using publishes.hyps(4) publishes.prems closed_event_open(2)[of s e b] by (simp add: stop_inv_def)
  with stop_inv_conns(1)[OF publishes.prems publishes.hyps(3,1), of "(d, Gone)"] publishes.hyps op show ?case
    by (simp add: stop_inv_def)
next
  case (crashes i s d)
  have "bus_inv (sr_bus s)" using crashes.prems by (simp add: stop_inv_def)
  then have "closed (sr_bus s)" using crashes.hyps(4) closed_event_open(1) by blast
  moreover have "(d, Publishing) \<in> set (sr_conns s)" using crashes.hyps(1,2) by (metis nth_mem)
  ultimately show ?case using crashes.prems by (force simp: stop_inv_def)
next
  case (worker_takes k s r ev bkt)
  then have inv: "bus_inv (sr_bus s)" by (simp add: stop_inv_def)
  have "bucket_ok (bus_opts (sr_bus s)) (unat (counter (sr_bus s))) k bkt"
    using lookup_bucket_ok[OF inv worker_takes.hyps(1)] worker_takes.hyps(3)
    by (auto simp: loop_take_def bucket_ok_def split: list.splits)
  then have "bus_inv (set_bucket r bkt (sr_bus s))" using set_bucket_inv[OF inv worker_takes.hyps(1)] by blast
  then show ?case using worker_takes.prems unfolding stop_inv_def by auto
qed (auto simp: stop_inv_conns intro: stop_inv_conns(1), auto simp: stop_inv_def)

lemma stop_init_inv: "stop_inv (stop_init ds)"
  by (simp add: stop_inv_def stop_init_def bus_New_inv)

lemma stop_reachable_inv: "stop_reachable ulow now ds s \<Longrightarrow> stop_inv s"
  by (induction rule: stop_reachable.induct) (auto intro: stop_step_inv stop_init_inv)

text \<open>
  C28. Stopping the server can crash it. When the removal of a connection is behind the test of \<open>closed\<close>
  in \<open>Publish\<close> and \<open>Stop\<close> closes the bus, the publication writes to the nil map of the closed bus and
  panics: with any connection open, some order of the steps leads there.
\<close>

theorem stop_can_crash: "\<exists>s. stop_reachable ulow now (d # ds) s \<and> sr_stop s = BusClosed \<and> sr_crashed s"
proof -
  let ?s0 = "stop_init (d # ds)"
  let ?s1 = "?s0\<lparr>sr_conns := (sr_conns ?s0)[0 := (d, Hooking)]\<rparr>"
  let ?s2 = "?s1\<lparr>sr_conns := (sr_conns ?s1)[0 := (d, Publishing)]\<rparr>"
  let ?s3 = "?s2\<lparr>sr_stop := CtxCancelled\<rparr>"
  let ?s4 = "?s3\<lparr>sr_stop := BusClosed, sr_bus := bus_Close (sr_bus ?s3)\<rparr>"
  let ?s5 = "?s4\<lparr>sr_crashed := True\<rparr>"
  have op: "\<not> closed (sr_bus ?s0)" by (simp add: stop_init_def bus_New_inv)
  have "stop_step ulow now ?s0 ?s1" by (rule reader_ends) (simp_all add: stop_init_def)
  note r1 = stop_reachable.step[OF stop_reachable.init this]
  have "stop_step ulow now ?s1 ?s2" by (rule passes) (use op in \<open>simp_all add: stop_init_def\<close>)
  note r2 = stop_reachable.step[OF r1 this]
  have "stop_step ulow now ?s2 ?s3" by (rule cancels) (simp_all add: stop_init_def)
  note r3 = stop_reachable.step[OF r2 this]
  have "stop_step ulow now ?s3 ?s4" by (rule closes_bus) (simp_all add: stop_init_def)
  note r = stop_reachable.step[OF r3 this]
  have "stop_inv ?s4" by (rule stop_reachable_inv[OF r])
  then have "closed_event ulow now d ?s4 = [Panic]" by (intro closed_event_closed) (simp_all add: stop_inv_def)
  then have "Panic \<in> set (closed_event ulow now d ?s4)" by (simp only: list.set insertI1)
  from crashes[OF _ _ _ this, where i = 0] have "stop_step ulow now ?s4 ?s5" by (simp add: stop_init_def)
  with r have "stop_reachable ulow now (d # ds) ?s5" by (rule stop_reachable.step)
  then show ?thesis by (intro exI[of _ ?s5]) simp
qed

text \<open>
  Nothing else goes wrong at the end. A panic happens only after \<open>Stop\<close> has closed the bus, and only to
  a removal that had passed the test before. When \<open>Stop\<close> has waited, every connection has been
  removed. And as long as the server has not crashed and \<open>Stop\<close> is not over, some step is
  possible: a removal never waits for the bus once the context is cancelled.
\<close>

theorem stop_crash_needs_race:
  assumes "stop_reachable ulow now ds s"
  shows "(sr_crashed s \<longrightarrow> closed (sr_bus s) \<and> Publishing \<in> snd ` set (sr_conns s))
    \<and> (sr_stop s = Done \<longrightarrow> list_all (\<lambda>c. snd c = Gone) (sr_conns s))
    \<and> (\<not> sr_crashed s \<and> sr_stop s \<noteq> Done \<longrightarrow> (\<exists>s'. stop_step ulow now s s' \<and> s' \<noteq> s))"
proof (intro conjI impI)
  have inv: "stop_inv s" by (rule stop_reachable_inv[OF assms])
  then show "closed (sr_bus s)" "Publishing \<in> snd ` set (sr_conns s)" if "sr_crashed s" using that unfolding stop_inv_def by blast+
  show "list_all (\<lambda>c. snd c = Gone) (sr_conns s)" if "sr_stop s = Done" using that inv by (simp add: stop_inv_def)
  assume s: "\<not> sr_crashed s \<and> sr_stop s \<noteq> Done"
  show "\<exists>s'. stop_step ulow now s s' \<and> s' \<noteq> s"
  proof (cases "sr_stop s = BusClosed \<and> \<not> list_all (\<lambda>c. snd c = Gone) (sr_conns s)")
    case True
    then obtain i d p where i: "i < length (sr_conns s)" "sr_conns s ! i = (d, p)" "p \<noteq> Gone"
      by (auto simp: list_all_length) (metis prod.collapse)
    have c: "bus_inv (sr_bus s)" "closed (sr_bus s)" using inv True by (simp_all add: stop_inv_def)
    have upd: "s\<lparr>sr_conns := (sr_conns s)[i := (d, q)]\<rparr> \<noteq> s" if "q \<noteq> p" for q
      using i that by (metis nth_list_update_eq prod.inject stop_run.select_convs(3) stop_run.surjective stop_run.update_convs(3))
    show ?thesis
    proof (cases p)
      case Reading
      then show ?thesis using reader_ends[of i s d] i s upd by blast
    next
      case Hooking
      then show ?thesis using refused[of i s d] i s c upd by blast
    next
      case Publishing
      have "Panic \<in> set (closed_event ulow now d s)" using closed_event_closed[OF c] by simp
      then have "stop_step ulow now s (s\<lparr>sr_crashed := True\<rparr>)" using crashes[of i s d] Publishing i s by blast
      moreover have "s\<lparr>sr_crashed := True\<rparr> \<noteq> s"
        using s by (metis stop_run.select_convs(4) stop_run.surjective stop_run.update_convs(4))
      ultimately show ?thesis by blast
    qed (use i in simp)
  next
    case False
    have upd: "\<exists>s'. stop_step ulow now s s' \<and> s' \<noteq> s" if "stop_step ulow now s t" "sr_stop t \<noteq> sr_stop s" for t
      using that by blast
    show ?thesis
    proof (cases "sr_stop s")
      case Up
      with s show ?thesis by (intro upd[OF cancels]) simp_all
    next
      case CtxCancelled
      with s show ?thesis by (intro upd[OF closes_bus]) simp_all
    next
      case BusClosed
      with False s show ?thesis by (intro upd[OF waits]) simp_all
    qed (use s in simp)
  qed
qed

theorem stop_crash_needs_race_witness:
  "\<exists>s. stop_reachable id 0 [(''c1'', 7)] s \<and> sr_crashed s \<and> closed (sr_bus s) \<and> Publishing \<in> snd ` set (sr_conns s)"
proof -
  obtain s where s: "stop_reachable id 0 [(''c1'', 7)] s" "sr_crashed s" using stop_can_crash by blast
  with stop_crash_needs_race[OF s(1)] show ?thesis by blast
qed


section \<open>Serving and broadcasting\<close>

lemma Ret_in_concat:
  "Ret y \<in> set (concat (map (\<lambda>r. case r of Panic \<Rightarrow> [Panic] | Ret (e, d) \<Rightarrow> f e d) rs)) \<longleftrightarrow> (\<exists>e d. Ret (e, d) \<in> set rs \<and> Ret y \<in> set (f e d))"
proof (induction rs)
  case (Cons r rs)
  then show ?case by (cases r) auto
qed simp

lemma broadcast_each_Cons:
  assumes "Ret y \<in> set (broadcast_each hp cx ctx_done fired waiting cb hdr payload (c # cs) firstErr d)"
  obtains e d1 where "Ret (e, d1) \<in> set (Dispatch hp cx ctx_done fired waiting
        \<lparr>t_conn = Some c, t_hdr = hdr, t_payload = payload, t_codec = Some TcpCodec\<rparr> d)"
    "Ret y \<in> set (broadcast_each hp cx ctx_done fired waiting cb hdr payload cs (first_of (first_of firstErr (cb c)) e) d1)"
  using assms unfolding broadcast_each.simps Ret_in_concat by blast

lemma broadcast_each_no_error:
  "Ret (None, d') \<in> set (broadcast_each hp cx ctx_done fired waiting cb hdr payload cs firstErr d) \<Longrightarrow> firstErr = None"
proof (induction cs arbitrary: firstErr d)
  case (Cons c cs)
  obtain e d1 where "Ret (None, d') \<in> set (broadcast_each hp cx ctx_done fired waiting cb hdr payload cs
      (first_of (first_of firstErr (cb c)) e) d1)"
    by (rule broadcast_each_Cons[OF Cons.prems])
  from Cons.IH[OF this] show ?case by (auto simp: first_of_def split: option.splits)
qed simp

lemma Dispatch_one:
  assumes "Ret (None, d') \<in> set (Dispatch hp cx ctx_done fired waiting t d)" "t_conn t = Some c"
  obtains i where "shard_of (shardCount d) (conn_ID (hp c)) = Ret (int i)" "i < length (shards d)"
    "shards d' = (shards d)[i := shards d ! i @ [t]]" "shardCount d' = shardCount d"
proof -
  obtain idx where idx: "sd_selectQueue (ensureStarted cx d) (Some (conn_ID (hp c))) None = Ret idx"
    using assms by (auto simp: Dispatch_def Let_def split: outcome.splits)
  have same: "shardCount (ensureStarted cx d) = shardCount d" "shards (ensureStarted cx d) = shards d"
    by (simp_all add: ensureStarted_def)
  have "0 \<le> idx \<and> nat idx < length (shards d) \<and> shards d' = (shards d)[nat idx := shards d ! nat idx @ [t]] \<and> shardCount d' = shardCount d"
    using assms idx same by (auto simp: Dispatch_def Let_def split: if_splits)
  then show thesis
    using that[of "nat idx"] idx same by (simp add: sd_selectQueue_shard_of)
qed

lemma broadcast_each_queues:
  assumes "Ret (None, d') \<in> set (broadcast_each hp cx ctx_done fired waiting cb hdr payload cs None d)"
  defines "task \<equiv> \<lambda>c. \<lparr>t_conn = Some c, t_hdr = hdr, t_payload = payload, t_codec = Some TcpCodec\<rparr>"
  shows "length (shards d') = length (shards d)
    \<and> (\<forall>c \<in> set cs. \<exists>i < length (shards d). shard_of (shardCount d) (conn_ID (hp c)) = Ret (int i))
    \<and> (\<forall>i < length (shards d). shards d' ! i =
         shards d ! i @ map task (filter (\<lambda>c. shard_of (shardCount d) (conn_ID (hp c)) = Ret (int i)) cs))"
  using assms(1)
proof (induction cs arbitrary: d)
  case (Cons c cs)
  obtain e d1 where d1: "Ret (e, d1) \<in> set (Dispatch hp cx ctx_done fired waiting (task c) d)"
    and rest: "Ret (None, d') \<in> set (broadcast_each hp cx ctx_done fired waiting cb hdr payload cs (first_of (first_of None (cb c)) e) d1)"
    unfolding task_def by (rule broadcast_each_Cons[OF Cons.prems])
  have "first_of (first_of None (cb c)) e = None" by (rule broadcast_each_no_error[OF rest])
  then have e: "e = None" and rest': "Ret (None, d') \<in> set (broadcast_each hp cx ctx_done fired waiting cb hdr payload cs None d1)"
    using rest by (auto simp: first_of_def split: option.splits)
  obtain i where i: "shard_of (shardCount d) (conn_ID (hp c)) = Ret (int i)" "i < length (shards d)"
    "shards d1 = (shards d)[i := shards d ! i @ [task c]]" "shardCount d1 = shardCount d"
    by (rule Dispatch_one[OF d1[unfolded e], of c]) (simp add: task_def)
  note IH = Cons.IH[OF rest']
  show ?case
  proof (intro conjI allI impI)
    show "length (shards d') = length (shards d)" using IH i(3) by simp
    show "\<forall>c \<in> set (c # cs). \<exists>i < length (shards d). shard_of (shardCount d) (conn_ID (hp c)) = Ret (int i)" using IH i by auto
  next
    fix j assume j: "j < length (shards d)"
    then have "shards d' ! j = shards d1 ! j @ map task (filter (\<lambda>c. shard_of (shardCount d) (conn_ID (hp c)) = Ret (int j)) cs)"
      using IH i(3,4) by simp
    then show "shards d' ! j = shards d ! j @ map task (filter (\<lambda>c. shard_of (shardCount d) (conn_ID (hp c)) = Ret (int j)) (c # cs))"
      using i j by (cases "j = i") auto
  qed
qed simp

text \<open>
  C22. A broadcast reaches every connection. When \<open>Broadcast\<close> returns no error, each managed connection has
  got exactly one task with the frame, appended to the shard that its id selects, in the order of
  the snapshot, so that a broadcast and the unicast frames of a connection share one queue; nothing
  else in the dispatcher's queues has changed.
\<close>

theorem broadcast_queues_each_connection:
  assumes "Ret (None, s') \<in> set (Server_Broadcast cx ctx_done fired waiting cb order hdr payload s)" "snapshot (mgr s) order"
  defines "task \<equiv> \<lambda>c. \<lparr>t_conn = Some c, t_hdr = hdr, t_payload = payload, t_codec = Some TcpCodec\<rparr>"
  shows "mset order = mset (map snd (conns (mgr s))) \<and> mgr s' = mgr s
    \<and> (\<forall>c \<in> set order. \<exists>i < length (shards (sender s)). shard_of (shardCount (sender s)) (conn_ID (heap s c)) = Ret (int i))
    \<and> (\<forall>i < length (shards (sender s)). shards (sender s') ! i = shards (sender s) ! i
         @ map task (filter (\<lambda>c. shard_of (shardCount (sender s)) (conn_ID (heap s c)) = Ret (int i)) order))"
proof -
  obtain d where d: "Ret (None, d) \<in> set (broadcast_each (heap s) cx ctx_done fired waiting cb hdr payload order None (sender s))"
    "s' = s\<lparr>sender := d\<rparr>"
    using assms(1) unfolding Server_Broadcast_def Ret_in_map_outcome by auto
  show ?thesis
    using broadcast_each_queues[OF d(1)] assms(2) d(2) by (simp add: snapshot_def task_def)
qed

text \<open>
  Serving a connection ends with its removal. Once the read loop of a connection is over, no connection
  is registered under its id any more and all others stay; a reader that the factory made is kept.
  Without a reader nothing is removed: the connection stays in the manager and nobody reads it.
\<close>

theorem serve_conn_removes:
  assumes "serveConn (server_env net_send net_close) rFac loop c (rd, s) = (rd', s')"
  shows "if rd c = None \<and> rFac c = None then s' = s \<and> rd' = rd
    else Get (mgr s') = (Get (mgr (loop s)))(conn_ID (heap (loop s) c) := None)
      \<and> rd' c = (if rd c = None then rFac c else rd c)"
proof (cases "rd c = None \<and> rFac c = None")
  case True
  then show ?thesis using assms by (auto simp: serveConn_def Let_def)
next
  case False
  then have "s' = snd (Remove (server_env net_send net_close) (conn_ID (heap (loop s) c)) (loop s))"
    and "rd' = (if rd c = None then rd(c := rFac c) else rd)"
    using assms by (auto simp: serveConn_def Let_def split: if_splits)
  with False show ?thesis by (auto simp: server_mgr.conn_table.get_remove)
qed

abbreviation ex_broadcast :: "(error option \<times> server_world) outcome list" where
  "ex_broadcast \<equiv> Server_Broadcast (Some 7) False False (\<lambda>_. False) (\<lambda>_. None) [0, 1, 2] (Some (HTcp (msg 5 0))) [1] ex_server"

theorem broadcast_queues_each_connection_witness:
  "\<exists>s'. ex_broadcast = [Ret (None, s')] \<and> length (shards (sender s') ! 0) = 3 \<and> mgr s' = mgr ex_server"
proof -
  obtain s' where s': "ex_broadcast = [Ret (None, s')]"
    by (simp add: Server_Broadcast_def ex_server_def Dispatch_def ensureStarted_def ex_sd_def sd_selectQueue_def first_of_def)
  have "snapshot (mgr ex_server) [0, 1, 2]" by (simp add: snapshot_def ex_server_def hub_world_def)
  from broadcast_queues_each_connection[OF _ this, of s' "Some 7" False False "\<lambda>_. False" "\<lambda>_. None" "Some (HTcp (msg 5 0))" "[1]"] s'
  have "mgr s' = mgr ex_server" "shards (sender s') ! 0 = map (\<lambda>c. \<lparr>t_conn = Some c, t_hdr = Some (HTcp (msg 5 0)), t_payload = [1], t_codec = Some TcpCodec\<rparr>) [0, 1, 2]"
    by (simp_all add: ex_server_def ex_sd_def shard_of_def)
  with s' show ?thesis by simp
qed

theorem serve_conn_removes_witness:
  "Get (mgr (snd (serveConn (server_env (\<lambda>_ _. None) (\<lambda>_. None)) (\<lambda>_. Some 1) (\<lambda>s. s) 0 (\<lambda>_. None, ex_server)))) ''up'' = None
   \<and> Get (mgr ex_server) ''up'' = Some 0"
proof -
  obtain rd' s' where r: "serveConn (server_env (\<lambda>_ _. None) (\<lambda>_. None)) (\<lambda>_. Some 1) (\<lambda>s. s) 0 (\<lambda>_. None, ex_server) = (rd', s')"
    by fastforce
  from serve_conn_removes[OF r] show ?thesis unfolding r by (simp add: ex_server_def hub_world_def Get_def Manager_New_def hub_heap_def)
qed

text \<open>A listener that fails takes every connection of a started server with it; one that returns without an error takes none.\<close>

lemma listener_failure_stops:
  assumes "started s"
  shows "conns (mgr (listener_exits (server_env net_send net_close) order (Some e) s)) = []"
    "listener_exits (server_env net_send net_close) order None s = s"
  using assms server_mgr.CloseAll_empties(2)[where order = order]
  by (simp_all add: listener_exits_def Server_Stop_def Let_def)

end
