(* ===== verification/Listeners.thy ===== *)
theory Listeners
  imports Transport "HOL-Library.Multiset"
begin

text \<open>
  The listeners: \<^verbatim>\<open>tcp_listener/listener.go\<close>, \<^verbatim>\<open>quic_listener/listener.go\<close>, \<^verbatim>\<open>rfcomm_listener/listener.go\<close> and
  \<^verbatim>\<open>multi_listener/listener.go\<close>. The accept loops run over the results of \<open>Accept\<close>, one per round; each
  comes with what the loop sees of the closed flag and of the context in that round. A new
  connection is put into the manager's heap at a reference that the result names and handed to
  \<open>Manager.Add\<close>. Starting, stopping and closing race with each other; they are step relations.
\<close>


section \<open>Handing connections to the manager\<close>

text \<open>What one round of an accept loop does: go on, return from \<open>Listen\<close> or panic.\<close>

datatype round = Continue | Return "error option" | Crash

definition admit :: "'x world_scheme env \<Rightarrow> cref \<Rightarrow> conn \<Rightarrow> 'x world_scheme \<Rightarrow> 'x world_scheme" where
  "admit env r cn w =
     (case Add env (Some r) (w\<lparr>heap := (heap w)(r := cn)\<rparr>) of
        (None, w') \<Rightarrow> w'
      | (Some e, w') \<Rightarrow> snd (conn_Close env r w'))"

text \<open>\<open>None\<close>: the loop is still waiting for the next \<open>Accept\<close>.\<close>

fun accept_loop :: "('e \<Rightarrow> 'w \<Rightarrow> round \<times> 'w) \<Rightarrow> 'e list \<Rightarrow> 'w \<Rightarrow> round option \<times> 'w" where
  "accept_loop iter [] w = (None, w)"
| "accept_loop iter (e # es) w =
     (case iter e w of
        (Continue, w') \<Rightarrow> accept_loop iter es w'
      | (r, w') \<Rightarrow> (Some r, w'))"


section \<open>TCP\<close>

record tcp_Options =
  to_Addr :: string
  to_KeepAlive :: bool
  to_KeepAlivePeriod :: int

definition tcp_setDefaults :: "tcp_Options \<Rightarrow> tcp_Options" where
  "tcp_setDefaults o1 = (if to_KeepAlivePeriod o1 \<le> 0 then o1\<lparr>to_KeepAlivePeriod := 30000000000\<rparr> else o1)"

definition tcp_New :: "string \<Rightarrow> tcp_Options list \<Rightarrow> tcp_Options" where
  "tcp_New addr opts =
     (let o1 = (case opts of o2 # _ \<Rightarrow> o2 | [] \<Rightarrow> \<lparr>to_Addr = [], to_KeepAlive = True, to_KeepAlivePeriod = 0\<rparr>)
      in tcp_setDefaults (o1\<lparr>to_Addr := addr\<rparr>))"

text \<open>A string as \<open>strings.Contains\<close> sees it.\<close>

definition Contains :: "string \<Rightarrow> string \<Rightarrow> bool" where
  "Contains s sub = list_ex (\<lambda>i. HasPrefix (drop i s) sub) [0..<Suc (length s)]"

text \<open>
  The results of \<open>Accept\<close>: a connection with the texts of its addresses, or an error, which may be
  temporary, with its text. \<open>stopped\<close> is \<open>l.closed.Load() || ctx.Err() != nil\<close>. The keep-alive
  setting a connection gets is the pair of the options.
\<close>

datatype tcp_accept =
    TcpConn cref string string
  | TcpErr error bool string

record 'a accept_ev =
  ev_res :: 'a
  stopped :: bool

definition keepalive :: "tcp_Options \<Rightarrow> bool \<times> int option" where
  "keepalive opts = (to_KeepAlive opts, if to_KeepAlive opts then Some (to_KeepAlivePeriod opts) else None)"

definition tcp_round ::
  "(string \<Rightarrow> string) \<Rightarrow> 'x world_scheme env \<Rightarrow> tcp_accept accept_ev \<Rightarrow> 'x world_scheme \<Rightarrow> round \<times> 'x world_scheme" where
  "tcp_round ulow env ev w =
     (case ev_res ev of
        TcpErr err temporary text \<Rightarrow>
          (if stopped ev then Return None
           else if temporary then Continue
           else if Contains (ToLower ulow text) ''closed'' then Return None
           else Return (Some err), w)
      | TcpConn r local remote \<Rightarrow> (Continue, admit env r (as_conn (NewTCPConnection local remote r)) w))"

text \<open>\<open>Listen\<close>: the checks, \<open>net.Listen\<close> and the loop; \<open>ln\<close> is the result of \<open>net.Listen\<close>.\<close>

definition tcp_Listen ::
  "(string \<Rightarrow> string) \<Rightarrow> 'x world_scheme env \<Rightarrow> bool \<Rightarrow> tcp_Options \<Rightarrow> error option \<Rightarrow> tcp_accept accept_ev list \<Rightarrow>
   'x world_scheme \<Rightarrow> round option \<times> 'x world_scheme" where
  "tcp_Listen ulow env closed opts ln evs w =
     (if closed then (Some (Return (Some (Err ''tcp listener already closed''))), w)
      else if to_Addr opts = [] then (Some (Return (Some (Err ''tcp listener addr is empty''))), w)
      else case ln of Some e \<Rightarrow> (Some (Return (Some e)), w) | None \<Rightarrow> accept_loop (tcp_round ulow env) evs w)"


section \<open>QUIC and RFCOMM\<close>

text \<open>The state of these loops is the package's counter of connection ids and the world.\<close>

definition admit_numbered ::
  "'x world_scheme env \<Rightarrow> cref \<Rightarrow> nat stream_conn result \<times> u64 \<Rightarrow> 'x world_scheme \<Rightarrow> round \<times> u64 \<times> 'x world_scheme" where
  "admit_numbered env r made w =
     (case made of
        (Inr c, seq') \<Rightarrow> (Continue, seq', admit env r (as_conn c) w)
      | (Inl e, seq') \<Rightarrow> (Crash, seq', w))"

text \<open>
  QUIC: a connection comes with the result of \<open>AcceptStream\<close>; an error may be \<open>quic.ErrServerClosed\<close>.
  Closing the QUIC connection without a stream is the close of the reference its wrapper would
  have had. The pipe is never nil, so the constructor does not fail.
\<close>

datatype quic_accept =
    QuicConn cref "error option" string string
  | QuicErr error bool

definition quic_round ::
  "string \<Rightarrow> 'x world_scheme env \<Rightarrow> quic_accept accept_ev \<Rightarrow> u64 \<times> 'x world_scheme \<Rightarrow> round \<times> u64 \<times> 'x world_scheme" where
  "quic_round alpn env ev s =
     (case s of (seq, w) \<Rightarrow> case ev_res ev of
        QuicErr err server_closed \<Rightarrow> (if stopped ev \<or> server_closed then Return None else Return (Some err), s)
      | QuicConn r (Some e) local remote \<Rightarrow> (Continue, seq, snd (conn_Close env r w))
      | QuicConn r None local remote \<Rightarrow>
          admit_numbered env r
            (NewQUICConnection (Some r)
               (Some (QuicAddr \<lparr>qa_Address = local, qa_ALPN = alpn, qa_Role = ''listen''\<rparr>))
               (Some (QuicAddr \<lparr>qa_Address = remote, qa_ALPN = alpn, qa_Role = ''listen''\<rparr>)) seq) w)"

definition quic_Listen ::
  "('cert, 'pool) tls_env \<Rightarrow> 'x world_scheme env \<Rightarrow> bool \<Rightarrow> bool \<Rightarrow> quic_Options \<Rightarrow>
   (string \<Rightarrow> ('cert, 'pool) tls_config \<Rightarrow> error option) \<Rightarrow> quic_accept accept_ev list \<Rightarrow>
   u64 \<times> 'x world_scheme \<Rightarrow> round option \<times> u64 \<times> 'x world_scheme" where
  "quic_Listen tls env closed has_cm opts0 ListenAddr evs w =
     (if closed then (Some (Return (Some (Err ''quic listener already closed''))), w)
      else if \<not> has_cm then (Some (Return (Some (Err ''connection manager required''))), w)
      else let opts = quic_Options_setDefaults opts0
           in case quic_Options_Validate opts of
                Some e \<Rightarrow> (Some (Return (Some e)), w)
              | None \<Rightarrow>
                  (case buildServerTLSConfig tls opts of
                     Inl e \<Rightarrow> (Some (Return (Some e)), w)
                   | Inr cfg \<Rightarrow>
                       (case ListenAddr (TrimSpace (ql_Addr opts)) cfg of
                          Some e \<Rightarrow> (Some (Return (Some e)), w)
                        | None \<Rightarrow> accept_loop (quic_round (ql_ALPN opts) env) evs w)))"

text \<open>
  RFCOMM: the native \<open>Accept\<close> returns a pipe, which may be nil, and two addresses, which may be nil.
  The constructor fails on a nil pipe only, and then the loop closes the nil pipe.
\<close>

datatype rfcomm_accept =
    RfcommConn cref bool "net_addr option" "net_addr option"
  | RfcommErr error bool

definition rfcomm_round ::
  "rfcomm_Options \<Rightarrow> 'x world_scheme env \<Rightarrow> rfcomm_accept accept_ev \<Rightarrow> u64 \<times> 'x world_scheme \<Rightarrow> round \<times> u64 \<times> 'x world_scheme" where
  "rfcomm_round opts env ev s =
     (case s of (seq, w) \<Rightarrow> case ev_res ev of
        RfcommErr err temporary \<Rightarrow>
          (if stopped ev then Return None else if temporary then Continue else Return (Some err), s)
      | RfcommConn r has_pipe local remote \<Rightarrow>
          (let dflt = Some (RfcommAddr \<lparr>ad_BDAddr = [], ad_UUID = lo_UUID opts, ad_Channel = lo_Channel opts, ad_Role = ''listen''\<rparr>)
           in admit_numbered env r
                (NewRFCOMMConnection (if has_pipe then Some r else None)
                   (if local = None then dflt else local) (if remote = None then dflt else remote) seq) w))"

definition rfcomm_Listen ::
  "'x world_scheme env \<Rightarrow> bool \<Rightarrow> bool \<Rightarrow> rfcomm_Options \<Rightarrow> error option \<Rightarrow> rfcomm_accept accept_ev list \<Rightarrow>
   u64 \<times> 'x world_scheme \<Rightarrow> round option \<times> u64 \<times> 'x world_scheme" where
  "rfcomm_Listen env closed has_cm opts native evs w =
     (if closed then (Some (Return (Some (Err ''rfcomm listener already closed''))), w)
      else if \<not> has_cm then (Some (Return (Some (Err ''connection manager required''))), w)
      else case Options_Validate opts of
             Some e \<Rightarrow> (Some (Return (Some e)), w)
           | None \<Rightarrow> (case native of Some e \<Rightarrow> (Some (Return (Some e)), w) | None \<Rightarrow> accept_loop (rfcomm_round opts env) evs w))"


section \<open>Accept loops as clients of the manager\<close>

text \<open>
  The state in which a connection is offered to the manager: its object has been written to the heap.
\<close>

definition offered :: "'x world_scheme \<Rightarrow> cref \<times> conn \<Rightarrow> 'x world_scheme" where
  "offered w p = w\<lparr>heap := (heap w)(fst p := snd p)\<rparr>"

lemma offered_fields [simp]: "mgr (offered w p) = mgr w" "heap (offered w p) (fst p) = snd p"
  by (simp_all add: offered_def)

text \<open>
  What a loop relies on. A round offers a connection object, which \<open>Add\<close> accepts when its id is free and
  which is closed when the id is taken; or it closes a connection that it cannot use (\<open>stray\<close>), or leaves
  the world alone.
\<close>

locale accept_rounds = quiet_env env for env :: "'x world_scheme env" +
  fixes wd :: "'s \<Rightarrow> 'x world_scheme"
    and iter :: "'e \<Rightarrow> 's \<Rightarrow> round \<times> 's"
    and offer :: "'e \<Rightarrow> 's \<Rightarrow> (cref \<times> conn) option"
    and stray :: "'e \<Rightarrow> cref option"
    and refs :: "'e \<Rightarrow> cref set"
  assumes free_added: "offer e s = Some p \<Longrightarrow> Get (mgr (wd s)) (conn_ID (snd p)) = None \<Longrightarrow>
        Add env (Some (fst p)) (offered (wd s) p) = (None, wd (snd (iter e s)))"
    and taken_closed: "offer e s = Some p \<Longrightarrow> Get (mgr (wd s)) (conn_ID (snd p)) \<noteq> None \<Longrightarrow>
        wd (snd (iter e s)) = snd (conn_Close env (fst p) (offered (wd s) p))"
    and no_offer: "offer e s = None \<Longrightarrow>
        wd (snd (iter e s)) = (case stray e of None \<Rightarrow> wd s | Some r \<Rightarrow> snd (conn_Close env r (wd s)))"
    and offered_ref: "offer e s = Some p \<Longrightarrow> fst p \<in> refs e"
    and round_inv: "mgr_inv (wd s) \<Longrightarrow> \<forall>r \<in> refs e. \<not> managed (mgr (wd s)) r \<Longrightarrow> mgr_inv (wd (snd (iter e s)))"
begin

lemma offer_table:
  assumes "offer e s = Some p"
  shows "Get (mgr (wd (snd (iter e s)))) =
     (if Get (mgr (wd s)) (conn_ID (snd p)) = None then (Get (mgr (wd s)))(conn_ID (snd p) \<mapsto> fst p) else Get (mgr (wd s)))"
  using conn_table.add_new[of "offered (wd s) p" "fst p"] free_added[OF assms] taken_closed[OF assms]
    close_quiet[of "fst p" "offered (wd s) p"]
  by (auto simp: same_ids_def)

lemma no_offer_table: "offer e s = None \<Longrightarrow> Get (mgr (wd (snd (iter e s)))) = Get (mgr (wd s))"
  using no_offer[of e s] close_quiet[of _ "wd s"] by (auto simp: same_ids_def split: option.splits)

lemma round_table: "Get (mgr (wd s)) k = Some c \<Longrightarrow> Get (mgr (wd (snd (iter e s)))) k = Some c"
  using offer_table[of e s] no_offer_table[of e s] by (cases "offer e s") auto

lemma round_refs:
  assumes "mgr_inv (wd s)" "managed (mgr (wd (snd (iter e s)))) r" "r \<notin> refs e" "\<forall>r \<in> refs e. \<not> managed (mgr (wd s)) r"
  shows "managed (mgr (wd s)) r"
proof -
  note inv' = round_inv[OF assms(1,4)]
  obtain k where k: "Get (mgr (wd (snd (iter e s)))) k = Some r"
    using assms(2) mgr_invD(1)[OF inv'] by (auto simp: managed_def Get_def in_set_map_of[symmetric])
  have "Get (mgr (wd s)) k = Some r"
  proof (cases "offer e s")
    case None
    then show ?thesis using no_offer_table[OF None] k by simp
  next
    case (Some p)
    then have "fst p \<noteq> r" using offered_ref assms(3) by blast
    then show ?thesis using offer_table[OF Some] k by (auto split: if_splits)
  qed
  then show ?thesis
    using mgr_invD(1)[OF assms(1)] by (auto simp: managed_def Get_def in_set_map_of[symmetric] intro!: image_eqI[of _ _ "(k, r)"])
qed

text \<open>The whole loop: earlier connections stay, and the manager's invariant holds at the end.\<close>

lemma accept_loop_table: "Get (mgr (wd w)) k = Some c \<Longrightarrow> Get (mgr (wd (snd (accept_loop iter es w)))) k = Some c"
proof (induction es arbitrary: w)
  case (Cons e es)
  obtain r w' where i: "iter e w = (r, w')" by force
  then have "Get (mgr (wd w')) k = Some c" using round_table[OF Cons.prems, of e] by simp
  then show ?case using Cons.IH[of w'] i by (cases r) simp_all
qed simp

lemma accept_loop_inv:
  assumes "mgr_inv (wd w)" "\<forall>e \<in> set es. \<forall>r \<in> refs e. \<not> managed (mgr (wd w)) r"
    and "\<forall>i < length es. \<forall>j < i. refs (es ! j) \<inter> refs (es ! i) = {}"
  shows "mgr_inv (wd (snd (accept_loop iter es w)))"
  using assms
proof (induction es arbitrary: w)
  case (Cons e es)
  obtain r w' where i: "iter e w = (r, w')" by force
  have w': "mgr_inv (wd w')" using round_inv[of w e] Cons.prems i by simp
  have "\<not> managed (mgr (wd w')) r'" if e': "e' \<in> set es" "r' \<in> refs e'" for e' r'
  proof
    assume m: "managed (mgr (wd w')) r'"
    obtain n where n: "n < length es" "es ! n = e'" using e'(1) by (auto simp: in_set_conv_nth)
    then have "r' \<notin> refs e" using Cons.prems(3)[rule_format, of "Suc n" 0] e'(2) by auto
    then have "managed (mgr (wd w)) r'" using round_refs[of w e r'] Cons.prems(1,2) m i by simp
    then show False using Cons.prems(2) e' by auto
  qed
  moreover have "\<forall>i < length es. \<forall>j < i. refs (es ! j) \<inter> refs (es ! i) = {}"
    using Cons.prems(3) by (metis Suc_less_eq length_Cons nth_Cons_Suc)
  ultimately have "mgr_inv (wd (snd (accept_loop iter es w')))" using Cons.IH[OF w'] by blast
  then show ?case using i w' by (cases r) simp_all
qed simp

text \<open>Every connection offered in a round that the loop reached is in the table at the end, or its id is.\<close>

lemma accept_loop_offers:
  assumes "accept_loop iter es w = (res, w')" "es = xs @ e # ys" "accept_loop iter xs w = (None, w1)" "offer e w1 = Some p"
  shows "Get (mgr (wd w')) (conn_ID (snd p)) =
     Some (case Get (mgr (wd w1)) (conn_ID (snd p)) of Some c \<Rightarrow> c | None \<Rightarrow> fst p)"
proof -
  have split: "accept_loop iter (xs @ ys) w = accept_loop iter ys w1" if "accept_loop iter xs w = (None, w1)" for xs ys w w1
    using that
  proof (induction xs arbitrary: w)
    case (Cons x xs)
    then show ?case by (cases "iter x w") (auto split: round.splits)
  qed simp
  have w': "w' = snd (accept_loop iter (e # ys) w1)"
    using split[OF assms(3), of "e # ys"] assms(1,2) by simp
  obtain a w2 where i: "iter e w1 = (a, w2)" by force
  have "Get (mgr (wd w2)) (conn_ID (snd p)) =
      Some (case Get (mgr (wd w1)) (conn_ID (snd p)) of Some c \<Rightarrow> c | None \<Rightarrow> fst p)"
    using offer_table[OF assms(4)] i by (auto split: option.split)
  then show ?thesis
    using accept_loop_table[of w2 "conn_ID (snd p)"] w' i by (cases a) simp_all
qed

end

lemma mgr_inv_heap_unmanaged:
  assumes "mgr_inv w" "\<not> managed (mgr w) r"
  shows "mgr_inv (w\<lparr>heap := (heap w)(r := cn)\<rparr>)"
proof -
  have "conn_ID (((heap w)(r := cn)) c) = k" if kc: "(k, c) \<in> set (conns (mgr w))" for k c
  proof -
    have "c \<noteq> r" using assms(2) kc by (force simp: managed_def)
    then show ?thesis using mgr_invD(2)[OF assms(1) kc] by simp
  qed
  then have "\<forall>(k, c) \<in> set (conns (mgr w)). conn_ID (((heap w)(r := cn)) c) = k" by blast
  then show ?thesis using assms(1) unfolding mgr_inv_def by (simp del: fun_upd_apply)
qed

context quiet_env
begin

lemma admit_free:
  assumes "Get (mgr w) (conn_ID cn) = None"
  shows "Add env (Some r) (offered w (r, cn)) = (None, admit env r cn w)"
  using conn_table.add_new[of "offered w (r, cn)" r] assms
  by (cases "Add env (Some r) (offered w (r, cn))") (auto simp: admit_def offered_def)

lemma admit_taken:
  assumes "Get (mgr w) (conn_ID cn) \<noteq> None"
  shows "admit env r cn w = snd (conn_Close env r (offered w (r, cn)))"
  using conn_table.add_taken[of "offered w (r, cn)" r] assms
  by (cases "Add env (Some r) (offered w (r, cn))") (auto simp: admit_def offered_def)

lemma admit_inv:
  assumes "mgr_inv w" "\<not> managed (mgr w) r"
  shows "mgr_inv (admit env r cn w)"
proof -
  let ?w = "w\<lparr>heap := (heap w)(r := cn)\<rparr>"
  obtain e w' where a: "Add env (Some r) ?w = (e, w')" by force
  have "mgr_inv w'" using mgr_inv_Add[OF mgr_inv_heap_unmanaged[OF assms, of cn], of "Some r"] a by simp
  then show ?thesis using a mgr_inv_same_ids[OF close_quiet] by (cases e) (simp_all add: admit_def)
qed

end

text \<open>The connection each round offers, with its id, and no metadata yet.\<close>

definition fresh_conn :: "string \<Rightarrow> conn" where
  "fresh_conn k = \<lparr>conn_ID = k, meta = (\<lambda>_. None)\<rparr>"

lemma fresh_conn_ID [simp]: "conn_ID (fresh_conn k) = k"
  by (simp add: fresh_conn_def)

fun tcp_offer :: "tcp_accept accept_ev \<Rightarrow> 'x world_scheme \<Rightarrow> (cref \<times> conn) option" where
  "tcp_offer ev w = (case ev_res ev of TcpConn r l m \<Rightarrow> Some (r, fresh_conn (l @ ''->'' @ m)) | TcpErr _ _ _ \<Rightarrow> None)"

fun tcp_refs :: "tcp_accept accept_ev \<Rightarrow> cref set" where
  "tcp_refs ev = (case ev_res ev of TcpConn r _ _ \<Rightarrow> {r} | _ \<Rightarrow> {})"

fun quic_offer :: "quic_accept accept_ev \<Rightarrow> u64 \<times> 'x world_scheme \<Rightarrow> (cref \<times> conn) option" where
  "quic_offer ev (seq, w) =
     (case ev_res ev of QuicConn r None _ _ \<Rightarrow> Some (r, fresh_conn (''quic#'' @ itoa (unat (seq + 1)))) | _ \<Rightarrow> None)"

fun quic_stray :: "quic_accept accept_ev \<Rightarrow> cref option" where
  "quic_stray ev = (case ev_res ev of QuicConn r (Some e) _ _ \<Rightarrow> Some r | _ \<Rightarrow> None)"

fun quic_refs :: "quic_accept accept_ev \<Rightarrow> cref set" where
  "quic_refs ev = (case ev_res ev of QuicConn r _ _ _ \<Rightarrow> {r} | _ \<Rightarrow> {})"

fun rfcomm_offer :: "rfcomm_accept accept_ev \<Rightarrow> u64 \<times> 'x world_scheme \<Rightarrow> (cref \<times> conn) option" where
  "rfcomm_offer ev (seq, w) =
     (case ev_res ev of RfcommConn r True _ _ \<Rightarrow> Some (r, fresh_conn (''rfcomm#'' @ itoa (unat (seq + 1)))) | _ \<Rightarrow> None)"

fun rfcomm_refs :: "rfcomm_accept accept_ev \<Rightarrow> cref set" where
  "rfcomm_refs ev = (case ev_res ev of RfcommConn r _ _ _ \<Rightarrow> {r} | _ \<Rightarrow> {})"

abbreviation no_stray :: "'e \<Rightarrow> cref option" where "no_stray \<equiv> \<lambda>_. None"

lemmas numbered_defs = admit_numbered_def NewQUICConnection_def NewRFCOMMConnection_def numbered_conn_def as_conn_def
  fresh_conn_def

sublocale quiet_env \<subseteq> tcp_accept: accept_rounds env "\<lambda>w. w" "tcp_round ulow env" tcp_offer no_stray tcp_refs for ulow
  by unfold_locales
    (auto simp: tcp_round_def admit_free admit_taken admit_inv as_conn_def NewTCPConnection_def fresh_conn_def
      split: tcp_accept.splits)

sublocale quiet_env \<subseteq> quic_accept: accept_rounds env snd "quic_round alpn env" quic_offer quic_stray quic_refs for alpn
  by unfold_locales
    (auto simp: quic_round_def numbered_defs admit_free admit_taken admit_inv Let_def mgr_inv_same_ids[OF close_quiet]
      close_quiet[unfolded same_ids_def] split: quic_accept.splits option.splits)

sublocale quiet_env \<subseteq> rfcomm_accept: accept_rounds env snd "rfcomm_round opts env" rfcomm_offer no_stray rfcomm_refs for opts
  by unfold_locales
    (auto simp: rfcomm_round_def numbered_defs admit_free admit_taken admit_inv Let_def split: rfcomm_accept.splits bool.splits)


section \<open>Starting and closing a listener\<close>

text \<open>
  The three listeners start and stop in the same way. \<open>Listen\<close> tests the closed flag, opens the
  socket, stores it in the listener and then accepts; \<open>Close\<close> sets the flag and then closes the
  socket it finds in the listener, if any; a goroutine of \<open>Listen\<close> calls \<open>Close\<close> when the context is
  done. The flag is atomic, the field is not, and nothing orders the two calls. \<open>closing\<close> counts
  the calls of \<open>Close\<close> between the two steps, \<open>missed\<close> those that found no socket.

  When a round of the accept loop ends \<open>Listen\<close>, a deferred function runs (\<open>Leaving\<close>): that of TCP closes the
  socket, those of QUIC and RFCOMM call \<open>Close\<close> (\<open>Unlisten\<close> is the time between its two steps). It
  runs too when the loop panics, which then ends the process.
\<close>

datatype listen_kind = TcpKind | QuicKind | RfcommKind

definition already_closed :: "listen_kind \<Rightarrow> error" where
  "already_closed k =
     (case k of
        TcpKind \<Rightarrow> Err ''tcp listener already closed''
      | QuicKind \<Rightarrow> Err ''quic listener already closed''
      | RfcommKind \<Rightarrow> Err ''rfcomm listener already closed'')"

datatype listen_pc =
    Checking | Opened | Accepting | Leaving round | Unlisten round | Returned "error option" | Panicked

record listener =
  l_pc :: listen_pc
  l_closed :: bool
  l_ln :: bool
  l_sock :: bool
  l_ctx :: bool
  l_closing :: nat
  l_missed :: nat

definition listener_init :: listener where
  "listener_init = \<lparr>l_pc = Checking, l_closed = False, l_ln = False, l_sock = False, l_ctx = False, l_closing = 0, l_missed = 0\<rparr>"

text \<open>
  The results a round of each loop can have, with \<open>stop\<close> for \<open>l.closed.Load() || ctx.Err() != nil\<close>: an error
  ends \<open>Listen\<close> without an error when the listener stops; otherwise TCP returns nil for an error whose text says
  so, QUIC for \<open>quic.ErrServerClosed\<close>, and RFCOMM panics on a nil pipe.
\<close>

fun round_result :: "listen_kind \<Rightarrow> bool \<Rightarrow> round \<Rightarrow> bool" where
  "round_result k stop Continue = True"
| "round_result k stop (Return None) = (stop \<or> k \<noteq> RfcommKind)"
| "round_result k stop (Return (Some e)) = (\<not> stop)"
| "round_result k stop Crash = (k = RfcommKind)"

lemma round_results:
  "round_result TcpKind (stopped tev) (fst (tcp_round ulow env tev w))"
  "round_result QuicKind (stopped qev) (fst (quic_round alpn env qev (seq, w)))"
  "round_result RfcommKind (stopped bev) (fst (rfcomm_round opts env bev (seq, w)))"
  by (auto simp: tcp_round_def quic_round_def rfcomm_round_def admit_numbered_def NewQUICConnection_def
      numbered_conn_def Let_def split: tcp_accept.splits quic_accept.splits rfcomm_accept.splits option.splits sum.splits prod.splits)

fun end_pc :: "round \<Rightarrow> listen_pc" where
  "end_pc (Return e) = Returned e"
| "end_pc Crash = Panicked"
| "end_pc Continue = Accepting"

inductive listen_step :: "listen_kind \<Rightarrow> listener \<Rightarrow> listener \<Rightarrow> bool" for k where
  check_closed: "l_pc s = Checking \<Longrightarrow> l_closed s \<Longrightarrow> listen_step k s (s\<lparr>l_pc := Returned (Some (already_closed k))\<rparr>)"
| open_fails: "l_pc s = Checking \<Longrightarrow> \<not> l_closed s \<Longrightarrow> listen_step k s (s\<lparr>l_pc := Returned (Some e)\<rparr>)"
| open_sock: "l_pc s = Checking \<Longrightarrow> \<not> l_closed s \<Longrightarrow> listen_step k s (s\<lparr>l_pc := Opened, l_sock := True\<rparr>)"
| store: "l_pc s = Opened \<Longrightarrow> listen_step k s (s\<lparr>l_pc := Accepting, l_ln := True\<rparr>)"
| accept_more: "l_pc s = Accepting \<Longrightarrow> l_sock s \<or> \<not> (l_closed s \<or> l_ctx s) \<Longrightarrow> listen_step k s s"
| accept_ends: "l_pc s = Accepting \<Longrightarrow> round_result k (l_closed s \<or> l_ctx s) r \<Longrightarrow> r \<noteq> Continue \<Longrightarrow>
    listen_step k s (s\<lparr>l_pc := Leaving r\<rparr>)"
| leave_tcp: "l_pc s = Leaving r \<Longrightarrow> k = TcpKind \<Longrightarrow> listen_step k s (s\<lparr>l_pc := end_pc r, l_sock := False\<rparr>)"
| leave_begin: "l_pc s = Leaving r \<Longrightarrow> k \<noteq> TcpKind \<Longrightarrow>
    listen_step k s (s\<lparr>l_pc := Unlisten r, l_closed := True, l_closing := Suc (l_closing s)\<rparr>)"
| leave_end: "l_pc s = Unlisten r \<Longrightarrow> l_closing s = Suc n \<Longrightarrow>
    listen_step k s (s\<lparr>l_pc := end_pc r, l_closing := n, l_sock := False\<rparr>)"
| cancel: "listen_step k s (s\<lparr>l_ctx := True\<rparr>)"
| close_begin: "listen_step k s (s\<lparr>l_closed := True, l_closing := Suc (l_closing s)\<rparr>)"
| close_end: "l_closing s = Suc n \<Longrightarrow> n > 0 \<or> (\<forall>r. l_pc s \<noteq> Unlisten r) \<Longrightarrow>
    listen_step k s (if l_ln s then s\<lparr>l_closing := n, l_sock := False\<rparr> else s\<lparr>l_closing := n, l_missed := Suc (l_missed s)\<rparr>)"

inductive listen_reachable :: "listen_kind \<Rightarrow> listener \<Rightarrow> bool" for k where
  init: "listen_reachable k listener_init"
| step: "listen_reachable k s \<Longrightarrow> listen_step k s s' \<Longrightarrow> listen_reachable k s'"

inductive_cases listen_stepE: "listen_step k s s'"

text \<open>
  The invariant: a listener that has ended has no open socket, only an accepting one has stored
  its socket, and a socket that is open and stored has not been closed by anybody: every call of
  \<open>Close\<close> that is over came too early.
\<close>

definition listen_inv :: "listener \<Rightarrow> bool" where
  "listen_inv s =
     ((\<forall>e. l_pc s = Returned e \<longrightarrow> \<not> l_sock s) \<and> (l_pc s = Panicked \<longrightarrow> \<not> l_sock s)
      \<and> (l_pc s = Checking \<longrightarrow> \<not> l_sock s \<and> \<not> l_ln s) \<and> (l_pc s = Opened \<longrightarrow> \<not> l_ln s)
      \<and> (\<forall>r. l_pc s = Leaving r \<or> l_pc s = Unlisten r \<longrightarrow> r \<noteq> Continue)
      \<and> (\<forall>r. l_pc s = Unlisten r \<longrightarrow> l_closing s > 0)
      \<and> (l_closing s > 0 \<longrightarrow> l_closed s)
      \<and> (l_closed s \<and> l_sock s \<longrightarrow> l_closing s > 0 \<or> l_missed s > 0))"

lemma end_pc_cases: "r \<noteq> Continue \<Longrightarrow> end_pc r = Panicked \<or> (\<exists>e. end_pc r = Returned e)"
  by (cases r) simp_all

lemma listen_inv_step: "listen_step k s s' \<Longrightarrow> listen_inv s \<Longrightarrow> listen_inv s'"
proof (induction rule: listen_step.induct)
  case (leave_tcp s r)
  then show ?case using end_pc_cases[of r] by (auto simp: listen_inv_def)
next
  case (leave_end s r n)
  then show ?case using end_pc_cases[of r] by (auto simp: listen_inv_def)
qed (auto simp: listen_inv_def split: if_splits)

lemma listen_inv_reachable: "listen_reachable k s \<Longrightarrow> listen_inv s"
proof (induction rule: listen_reachable.induct)
  case init
  then show ?case by (simp add: listen_inv_def listener_init_def)
qed (rule listen_inv_step)


section \<open>The multi-listener\<close>

definition errNoListeners :: error where "errNoListeners = Err ''no listeners''"

text \<open>\<open>New\<close>: a nil child is \<open>None\<close>.\<close>

fun multi_copy :: "'l option list \<Rightarrow> 'l list result" where
  "multi_copy [] = Inr []"
| "multi_copy (None # ls) = Inl (Err ''nil listener'')"
| "multi_copy (Some l # ls) = (case multi_copy ls of Inl e \<Rightarrow> Inl e | Inr cp \<Rightarrow> Inr (l # cp))"

definition multi_New :: "'l option list \<Rightarrow> 'l list result" where
  "multi_New listeners = (if listeners = [] then Inl errNoListeners else multi_copy listeners)"

text \<open>
  \<open>Listen\<close>: one goroutine per child, which sends what the child's \<open>Listen\<close> returns into \<open>errCh\<close>; the
  collecting loop; the goroutine that calls \<open>Close\<close> when the derived context is done; and
  the parent's context. The derived context is done when it has been cancelled or the parent is
  done. \<open>ml_shut\<close> tells which children have been closed, \<open>ml_got\<close> lists what the loop has received, oldest first.
\<close>

datatype child = Idle | Running | Exited "error option"

datatype multi_pc = Starting | Collecting | Finished "error option"

record multi =
  ml_pc :: multi_pc
  ml_closed :: bool
  ml_children :: "child list"
  ml_shut :: "bool list"
  ml_errCh :: "error option list"
  ml_got :: "error option list"
  ml_first :: "error option"
  ml_ctx :: bool
  ml_cancelled :: bool
  ml_watching :: bool

definition multi_init :: "nat \<Rightarrow> multi" where
  "multi_init n = \<lparr>ml_pc = Starting, ml_closed = False, ml_children = replicate n Idle, ml_shut = replicate n False,
     ml_errCh = [], ml_got = [], ml_first = None, ml_ctx = False, ml_cancelled = False, ml_watching = False\<rparr>"

text \<open>
  \<open>Close\<close>: the flag is set, every child is closed, in order, and the first error is returned. \<open>cerr i\<close> is
  the error of the \<open>Close\<close> of child \<open>i\<close>. No child is nil, since \<open>New\<close> refuses one.
\<close>

definition child_Close :: "(nat \<Rightarrow> error option) \<Rightarrow> nat \<Rightarrow> multi \<Rightarrow> error option \<times> multi" where
  "child_Close cerr i s = (cerr i, s\<lparr>ml_shut := (ml_shut s)[i := True]\<rparr>)"

fun close_children :: "('l \<Rightarrow> 'w \<Rightarrow> error option \<times> 'w) \<Rightarrow> 'l list \<Rightarrow> error option \<Rightarrow> 'w \<Rightarrow> error option \<times> 'w" where
  "close_children close [] firstErr w = (firstErr, w)"
| "close_children close (l # ls) firstErr w =
     (let (err, w1) = close l w
      in close_children close ls (if err \<noteq> None \<and> firstErr = None then err else firstErr) w1)"

definition multi_Close :: "(nat \<Rightarrow> error option) \<Rightarrow> multi \<Rightarrow> error option \<times> multi" where
  "multi_Close cerr s = close_children (child_Close cerr) [0..<length (ml_children s)] None (s\<lparr>ml_closed := True\<rparr>)"

definition multi_receive :: "(nat \<Rightarrow> error option) \<Rightarrow> error option \<Rightarrow> multi \<Rightarrow> multi" where
  "multi_receive cerr e s =
     (let s1 = s\<lparr>ml_got := ml_got s @ [e]\<rparr>
      in if e \<noteq> None \<and> ml_first s = None
         then snd (multi_Close cerr (s1\<lparr>ml_first := e, ml_cancelled := True\<rparr>))
         else s1)"

text \<open>
  The steps of one call of \<open>Listen\<close> with the calls of \<open>Close\<close> from elsewhere. A call of \<open>Close\<close> is one step: it reads
  nothing that the others write.
\<close>

inductive multi_step :: "(nat \<Rightarrow> error option) \<Rightarrow> multi \<Rightarrow> multi \<Rightarrow> bool" for cerr where
  begin_closed: "ml_pc s = Starting \<Longrightarrow> ml_closed s \<Longrightarrow>
    multi_step cerr s (s\<lparr>ml_pc := Finished (Some (Err ''multi listener already closed''))\<rparr>)"
| begin_empty: "ml_pc s = Starting \<Longrightarrow> \<not> ml_closed s \<Longrightarrow> ml_children s = [] \<Longrightarrow>
    multi_step cerr s (s\<lparr>ml_pc := Finished (Some errNoListeners)\<rparr>)"
| begin_all: "ml_pc s = Starting \<Longrightarrow> \<not> ml_closed s \<Longrightarrow> ml_children s \<noteq> [] \<Longrightarrow>
    multi_step cerr s (s\<lparr>ml_pc := Collecting, ml_watching := True,
                          ml_children := replicate (length (ml_children s)) Running\<rparr>)"
| child_exits: "i < length (ml_children s) \<Longrightarrow> ml_children s ! i = Running \<Longrightarrow>
    multi_step cerr s (s\<lparr>ml_children := (ml_children s)[i := Exited e], ml_errCh := ml_errCh s @ [e]\<rparr>)"
| receive: "ml_pc s = Collecting \<Longrightarrow> ml_errCh s = e # q \<Longrightarrow> length (ml_got s) < length (ml_children s) \<Longrightarrow>
    multi_step cerr s (multi_receive cerr e (s\<lparr>ml_errCh := q\<rparr>))"
| parent_cancel: "multi_step cerr s (s\<lparr>ml_ctx := True\<rparr>)"
| watcher: "ml_watching s \<Longrightarrow> ml_cancelled s \<or> ml_ctx s \<Longrightarrow>
    multi_step cerr s (snd (multi_Close cerr (s\<lparr>ml_watching := False\<rparr>)))"
| close_call: "multi_step cerr s (snd (multi_Close cerr s))"
| return: "ml_pc s = Collecting \<Longrightarrow> length (ml_got s) = length (ml_children s) \<Longrightarrow>
    list_all (\<lambda>c. c \<noteq> Running) (ml_children s) \<Longrightarrow>
    multi_step cerr s (s\<lparr>ml_pc := Finished (if ml_ctx s then None else ml_first s), ml_cancelled := True\<rparr>)"

inductive multi_reachable :: "(nat \<Rightarrow> error option) \<Rightarrow> nat \<Rightarrow> multi \<Rightarrow> bool" for cerr n where
  init: "multi_reachable cerr n (multi_init n)"
| step: "multi_reachable cerr n s \<Longrightarrow> multi_step cerr s s' \<Longrightarrow> multi_reachable cerr n s'"

text \<open>The first error of a list of results, and the results of the children that have exited.\<close>

fun first_error :: "error option list \<Rightarrow> error option" where
  "first_error [] = None"
| "first_error (e # es) = (if e \<noteq> None then e else first_error es)"

lemma first_error_snoc: "first_error (es @ [e]) = (if first_error es \<noteq> None then first_error es else e)"
  by (induction es) auto

fun exit_results :: "child list \<Rightarrow> error option list" where
  "exit_results [] = []"
| "exit_results (Exited e # cs) = e # exit_results cs"
| "exit_results (_ # cs) = exit_results cs"

lemma exit_results_replicate [simp]:
  "exit_results (replicate n Idle) = []" "exit_results (replicate n Running) = []"
  by (induction n) simp_all

lemma exit_results_idle: "set cs \<subseteq> {Idle} \<Longrightarrow> exit_results cs = []"
  by (induction cs) auto

lemma exit_results_exit:
  "i < length cs \<Longrightarrow> cs ! i = Running \<Longrightarrow> mset (exit_results (cs[i := Exited e])) = add_mset e (mset (exit_results cs))"
proof (induction cs arbitrary: i)
  case (Cons c cs)
  then show ?case by (cases c; cases i) auto
qed simp

lemma length_exit_results: "length (exit_results cs) \<le> length cs"
  "length (exit_results cs) = length cs \<longleftrightarrow> (\<forall>c \<in> set cs. \<exists>e. c = Exited e)"
proof -
  show le: "length (exit_results cs) \<le> length cs"
    for cs by (induction cs rule: exit_results.induct) simp_all
  show "length (exit_results cs) = length cs \<longleftrightarrow> (\<forall>c \<in> set cs. \<exists>e. c = Exited e)"
    using le by (induction cs rule: exit_results.induct) (auto, (metis Suc_n_not_le_n)+)
qed

text \<open>\<open>Close\<close> closes every child and returns the first of their errors.\<close>

lemma close_children_spec:
  "close_children (child_Close cerr) is fe s =
     (if fe \<noteq> None then fe else first_error (map cerr is),
      s\<lparr>ml_shut := fold (\<lambda>i sh. sh[i := True]) is (ml_shut s)\<rparr>)"
  by (induction "is" arbitrary: fe s) (auto simp: child_Close_def)

lemma shut_all:
  "length (fold (\<lambda>i sh. sh[i := True]) is sh) = length sh"
  "i < length sh \<Longrightarrow> fold (\<lambda>i sh. sh[i := True]) is sh ! i = (i \<in> set is \<or> sh ! i)"
proof (induction "is" arbitrary: sh)
  case (Cons a "is")
  {
    case 1
    show ?case using Cons(1)[of "sh[a := True]"] by simp
  next
    case 2
    then show ?case using Cons(2)[of "sh[a := True]"] by (cases "i = a") auto
  }
qed simp_all

lemma multi_Close_spec:
  assumes "length (ml_shut s) = length (ml_children s)"
  shows "multi_Close cerr s =
     (first_error (map cerr [0..<length (ml_children s)]),
      s\<lparr>ml_closed := True, ml_shut := replicate (length (ml_children s)) True\<rparr>)"
proof -
  have "fold (\<lambda>i sh. sh[i := True]) [0..<length (ml_children s)] (ml_shut s) = replicate (length (ml_children s)) True"
    using assms by (intro nth_equalityI) (simp_all add: shut_all)
  then show ?thesis by (simp add: multi_Close_def close_children_spec)
qed

definition multi_inv :: "nat \<Rightarrow> multi \<Rightarrow> bool" where
  "multi_inv n s =
     (length (ml_children s) = n \<and> length (ml_shut s) = n
      \<and> (ml_pc s = Starting \<longrightarrow> set (ml_children s) \<subseteq> {Idle} \<and> ml_got s = [])
      \<and> (ml_pc s = Collecting \<longrightarrow> Idle \<notin> set (ml_children s) \<and> ml_children s \<noteq> [])
      \<and> mset (ml_got s @ ml_errCh s) = mset (exit_results (ml_children s))
      \<and> ml_first s = first_error (ml_got s)
      \<and> (ml_first s \<noteq> None \<longrightarrow> ml_cancelled s \<and> ml_closed s \<and> ml_shut s = replicate n True))"

lemma multi_inv_Close: "multi_inv n s \<Longrightarrow> multi_inv n (snd (multi_Close cerr s))"
  by (subst multi_Close_spec) (auto simp: multi_inv_def)

lemma multi_inv_step: "multi_step cerr s s' \<Longrightarrow> multi_inv n s \<Longrightarrow> multi_inv n s'"
proof (induction rule: multi_step.induct)
  case (child_exits i s e)
  have "Running \<in> set (ml_children s)"
    using child_exits(1,2) by (metis nth_mem)
  then have "ml_pc s \<noteq> Starting"
    using child_exits.prems unfolding multi_inv_def by (metis child.distinct(1) singletonD subsetD)
  moreover have "Idle \<in> set ((ml_children s)[i := Exited e]) \<Longrightarrow> Idle \<in> set (ml_children s)"
    using set_update_subset_insert[of "ml_children s" i "Exited e"] by auto
  ultimately show ?case
    using exit_results_exit[OF child_exits(1,2), of e] child_exits.prems by (auto simp: multi_inv_def)
next
  case (receive s e q)
  let ?s = "s\<lparr>ml_errCh := q, ml_got := ml_got s @ [e]\<rparr>"
  have base: "length (ml_children s) = n" "length (ml_shut s) = n" "mset (ml_got s @ [e] @ q) = mset (exit_results (ml_children s))"
    using receive.prems receive.hyps(2) by (simp_all add: multi_inv_def)
  show ?case
  proof (cases "e \<noteq> None \<and> ml_first s = None")
    case True
    have "multi_receive cerr e (s\<lparr>ml_errCh := q\<rparr>) =
        ?s\<lparr>ml_first := e, ml_cancelled := True, ml_closed := True, ml_shut := replicate n True\<rparr>"
      using True base by (simp add: multi_receive_def multi_Close_spec)
    then show ?thesis
      using receive.prems receive.hyps True base by (auto simp: multi_inv_def first_error_snoc)
  next
    case False
    then show ?thesis
      using receive.prems receive.hyps base by (auto simp: multi_inv_def multi_receive_def first_error_snoc)
  qed
next
  case (watcher s)
  then show ?case by (intro multi_inv_Close) (simp add: multi_inv_def)
next
  case (close_call s)
  then show ?case by (rule multi_inv_Close)
qed (auto simp: multi_inv_def exit_results_idle)

lemma multi_inv_reachable: "multi_reachable cerr n s \<Longrightarrow> multi_inv n s"
proof (induction rule: multi_reachable.induct)
  case init
  then show ?case by (auto simp: multi_inv_def multi_init_def)
qed (rule multi_inv_step)


section \<open>Properties\<close>

definition fresh_refs :: "('e \<Rightarrow> cref set) \<Rightarrow> 'e list \<Rightarrow> Manager \<Rightarrow> bool" where
  "fresh_refs refs evs m =
     ((\<forall>e \<in> set evs. \<forall>r \<in> refs e. \<not> managed m r) \<and> (\<forall>i < length evs. \<forall>j < i. refs (evs ! j) \<inter> refs (evs ! i) = {}))"

text \<open>
  What one round with the event \<open>e\<close> makes of the world: an offered connection is accepted by \<open>Add\<close>, or
  closed and nothing else done when its id is taken; a stray connection is closed; otherwise nothing happens.
\<close>

definition round_serves ::
  "'x world_scheme env \<Rightarrow> (cref \<times> conn) option \<Rightarrow> cref option \<Rightarrow> 'x world_scheme \<Rightarrow> 'x world_scheme \<Rightarrow> bool" where
  "round_serves env off str w w' =
     (case off of
        Some p \<Rightarrow>
          if Get (mgr w) (conn_ID (snd p)) = None then Add env (Some (fst p)) (offered w p) = (None, w')
          else w' = snd (conn_Close env (fst p) (offered w p))
      | None \<Rightarrow> w' = (case str of None \<Rightarrow> w | Some r \<Rightarrow> snd (conn_Close env r w)))"

definition serves ::
  "'x world_scheme env \<Rightarrow> ('s \<Rightarrow> 'x world_scheme) \<Rightarrow> ('e \<Rightarrow> 's \<Rightarrow> round \<times> 's) \<Rightarrow> ('e \<Rightarrow> 's \<Rightarrow> (cref \<times> conn) option)
   \<Rightarrow> ('e \<Rightarrow> cref option) \<Rightarrow> 'e list \<Rightarrow> 's \<Rightarrow> bool" where
  "serves env wd iter offer stray evs s =
     (let s' = snd (accept_loop iter evs s)
      in mgr_inv (wd s')
         \<and> (\<forall>k c. Get (mgr (wd s)) k = Some c \<longrightarrow> Get (mgr (wd s')) k = Some c)
         \<and> (\<forall>xs e ys s1. evs = xs @ e # ys \<longrightarrow> accept_loop iter xs s = (None, s1) \<longrightarrow>
              round_serves env (offer e s1) (stray e) (wd s1) (wd (snd (iter e s1)))
            \<and> (\<forall>p. offer e s1 = Some p \<longrightarrow>
                 Get (mgr (wd s')) (conn_ID (snd p)) =
                   Some (case Get (mgr (wd s1)) (conn_ID (snd p)) of Some c \<Rightarrow> c | None \<Rightarrow> fst p))))"

context accept_rounds
begin

lemma serves_manager:
  assumes "mgr_inv (wd s)" "fresh_refs refs evs (mgr (wd s))"
  shows "serves env wd iter offer stray evs s"
proof -
  obtain res s' where l: "accept_loop iter evs s = (res, s')" by force
  have "mgr_inv (wd s')"
    using accept_loop_inv[OF assms(1), of evs] assms(2) l by (simp add: fresh_refs_def)
  moreover have "Get (mgr (wd s)) k = Some c \<Longrightarrow> Get (mgr (wd s')) k = Some c" for k c
    using accept_loop_table[of s k c evs] l by simp
  moreover have "round_serves env (offer e s1) (stray e) (wd s1) (wd (snd (iter e s1)))" for e s1
    using free_added[of e s1] taken_closed[of e s1] no_offer[of e s1]
    by (auto simp: round_serves_def split: option.split)
  moreover have "Get (mgr (wd s')) (conn_ID (snd p)) = Some (case Get (mgr (wd s1)) (conn_ID (snd p)) of Some c \<Rightarrow> c | None \<Rightarrow> fst p)"
    if "evs = xs @ e # ys" "accept_loop iter xs s = (None, s1)" "offer e s1 = Some p" for xs e ys s1 p
    using accept_loop_offers[OF l that] .
  ultimately show ?thesis unfolding serves_def l Let_def snd_conv by blast
qed

end

context quiet_env
begin

lemma loops_serve:
  assumes "mgr_inv w"
  shows "fresh_refs tcp_refs tevs (mgr w) \<Longrightarrow> serves env (\<lambda>w. w) (tcp_round ulow env) tcp_offer no_stray tevs w"
    and "fresh_refs quic_refs qevs (mgr w) \<Longrightarrow> serves env snd (quic_round alpn env) quic_offer quic_stray qevs (seq, w)"
    and "fresh_refs rfcomm_refs revs (mgr w) \<Longrightarrow> serves env snd (rfcomm_round opts env) rfcomm_offer no_stray revs (seq, w)"
  using assms by (auto intro: tcp_accept.serves_manager quic_accept.serves_manager rfcomm_accept.serves_manager)

end

text \<open>
  C32. The accept loops serve the manager. Whatever \<open>Accept\<close> returns, for as long as it lasts, the loops
  of all three listeners keep the manager's invariant and never disturb a connection that is already in
  the table. Each round that accepts a connection offers it under its id: if the id is free, \<open>Add\<close> succeeds
  and the connection is in the table when the loop ends; if the id is taken, the connection is closed,
  nothing else changes, and the earlier one stays. A QUIC connection that opens no stream is closed, and every
  other round leaves the world alone. The connection objects that \<open>Accept\<close> returns are new.
\<close>

theorem accept_loops_serve_manager:
  assumes "quiet_env env" "mgr_inv w"
  shows "(fresh_refs tcp_refs tevs (mgr w) \<longrightarrow> serves env (\<lambda>w. w) (tcp_round ulow env) tcp_offer no_stray tevs w)
    \<and> (fresh_refs quic_refs qevs (mgr w) \<longrightarrow> serves env snd (quic_round alpn env) quic_offer quic_stray qevs (seq, w))
    \<and> (fresh_refs rfcomm_refs revs (mgr w) \<longrightarrow> serves env snd (rfcomm_round opts env) rfcomm_offer no_stray revs (seq, w))"
  using quiet_env.loops_serve[OF assms] by blast

definition ex_tcp_evs :: "tcp_accept accept_ev list" where
  "ex_tcp_evs = [\<lparr>ev_res = TcpErr (Err ''busy'') True [], stopped = False\<rparr>,
     \<lparr>ev_res = TcpConn 7 ''h:1'' ''p:2'', stopped = False\<rparr>, \<lparr>ev_res = TcpConn 8 ''h:1'' ''p:2'', stopped = False\<rparr>,
     \<lparr>ev_res = TcpErr (Err ''gone'') False [], stopped = True\<rparr>]"

theorem accept_loops_serve_manager_witness:
  "fst (accept_loop (tcp_round id trace_env) ex_tcp_evs ex_world) = Some (Return None)
   \<and> serves trace_env (\<lambda>w. w) (tcp_round id trace_env) tcp_offer no_stray ex_tcp_evs ex_world
   \<and> Get (mgr (snd (accept_loop (tcp_round id trace_env) ex_tcp_evs ex_world))) ''h:1->p:2'' = Some 7
   \<and> trace (snd (accept_loop (tcp_round id trace_env) ex_tcp_evs ex_world)) = [EClose 8]"
proof -
  have empty: "mgr ex_world = Manager_New" by (simp add: ex_world_def)
  then have inv: "mgr_inv ex_world" by (simp add: mgr_inv_def Manager_New_def)
  have fresh: "fresh_refs tcp_refs ex_tcp_evs (mgr ex_world)"
    unfolding fresh_refs_def empty by (auto simp: managed_def Manager_New_def ex_tcp_evs_def nth_Cons less_Suc_eq split: nat.splits)
  have "serves trace_env (\<lambda>w. w) (tcp_round id trace_env) tcp_offer no_stray ex_tcp_evs ex_world"
    using accept_loops_serve_manager[OF traced_mgr.quiet_env_axioms inv, of ex_tcp_evs id "[]" "[]" 0 "[]"] fresh by blast
  moreover have "accept_loop (tcp_round id trace_env) ex_tcp_evs ex_world = (Some (Return None), w')
      \<Longrightarrow> map_of (conns (mgr w')) ''h:1->p:2'' = Some 7 \<and> trace w' = [EClose 8]" for w'
    by (auto simp: ex_tcp_evs_def tcp_round_def as_conn_def NewTCPConnection_def admit_def ex_eval Let_def trace_env_def emit_def)
  moreover have "fst (accept_loop (tcp_round id trace_env) ex_tcp_evs ex_world) = Some (Return None)"
    by (simp add: ex_tcp_evs_def tcp_round_def)
  ultimately show ?thesis
    by (metis Get_def prod.collapse)
qed

text \<open>
  C33. A listener that has returned has let go of its socket. For each of the three listeners and in every
  interleaving of \<open>Listen\<close>, any number of calls of \<open>Close\<close> and the cancellation of the context, the socket is
  closed once \<open>Listen\<close> has returned, or has panicked; and when a call of \<open>Close\<close> is over and none found the
  listener without a socket, the socket is closed as well.
\<close>

theorem listener_releases_socket:
  assumes "listen_reachable k s"
    and "(\<exists>e. l_pc s = Returned e) \<or> l_pc s = Panicked \<or> l_closed s \<and> l_closing s = 0 \<and> l_missed s = 0"
  shows "\<not> l_sock s"
  using listen_inv_reachable[OF assms(1)] assms(2) by (auto simp: listen_inv_def)

text \<open>Runs that start in the initial state.\<close>

fun listen_runs :: "listen_kind \<Rightarrow> listener list \<Rightarrow> bool" where
  "listen_runs k (s # s' # ss) = (listen_step k s s' \<and> listen_runs k (s' # ss))"
| "listen_runs k _ = True"

lemma listen_runs_reachable:
  "listen_runs k ss \<Longrightarrow> ss \<noteq> [] \<Longrightarrow> listen_reachable k (hd ss) \<Longrightarrow> listen_reachable k (last ss)"
proof (induction k ss rule: listen_runs.induct)
  case (1 k s s' ss)
  then have "listen_reachable k s'" by (auto intro: listen_reachable.step)
  then show ?case using 1 by simp
qed simp_all

abbreviation lst :: "listen_pc \<Rightarrow> bool \<Rightarrow> bool \<Rightarrow> bool \<Rightarrow> nat \<Rightarrow> nat \<Rightarrow> listener" where
  "lst pc closed ln sock closing missed \<equiv>
     \<lparr>l_pc = pc, l_closed = closed, l_ln = ln, l_sock = sock, l_ctx = False, l_closing = closing, l_missed = missed\<rparr>"

lemma lst_init: "listen_reachable k (lst Checking False False False 0 0)"
  using listen_reachable.init by (simp add: listener_init_def)

lemma rfcomm_panic_reachable: "listen_reachable RfcommKind (lst Panicked True True False 0 0)"
proof -
  let ?run = "[lst Checking False False False 0 0, lst Opened False False True 0 0, lst Accepting False True True 0 0,
    lst (Leaving Crash) False True True 0 0, lst (Unlisten Crash) True True True 1 0, lst Panicked True True False 0 0]"
  have "listen_runs RfcommKind ?run"
    using open_sock[of "lst Checking False False False 0 0"] store[of "lst Opened False False True 0 0"]
      accept_ends[of "lst Accepting False True True 0 0" RfcommKind Crash] leave_begin[of "lst (Leaving Crash) False True True 0 0" Crash RfcommKind]
      leave_end[of "lst (Unlisten Crash) True True True 1 0" Crash 0] by simp
  then have "listen_reachable RfcommKind (last ?run)" by (rule listen_runs_reachable) (simp_all add: lst_init)
  then show ?thesis by simp
qed

lemma tcp_stop_reachable: "listen_reachable TcpKind (lst (Returned None) True True False 0 0)"
proof -
  let ?run = "[lst Checking False False False 0 0, lst Opened False False True 0 0, lst Accepting False True True 0 0,
    lst Accepting True True True 1 0, lst Accepting True True False 0 0, lst (Leaving (Return None)) True True False 0 0,
    lst (Returned None) True True False 0 0]"
  have "listen_runs TcpKind ?run"
    using open_sock[of "lst Checking False False False 0 0"] store[of "lst Opened False False True 0 0"]
      close_begin[of TcpKind "lst Accepting False True True 0 0"] close_end[of "lst Accepting True True True 1 0" 0 TcpKind]
      accept_ends[of "lst Accepting True True False 0 0" TcpKind "Return None"]
      leave_tcp[of "lst (Leaving (Return None)) True True False 0 0" "Return None" TcpKind] by simp
  then have "listen_reachable TcpKind (last ?run)" by (rule listen_runs_reachable) (simp_all add: lst_init)
  then show ?thesis by simp
qed

theorem listener_releases_socket_witness:
  "(\<exists>s. listen_reachable TcpKind s \<and> l_pc s = Returned None \<and> l_closed s \<and> \<not> l_sock s)
   \<and> (\<exists>s. listen_reachable RfcommKind s \<and> l_pc s = Panicked \<and> \<not> l_sock s)"
proof -
  have "\<not> l_sock (lst (Returned None) True True False 0 0)" "\<not> l_sock (lst Panicked True True False 0 0)"
    by (rule listener_releases_socket[OF tcp_stop_reachable], simp)
      (rule listener_releases_socket[OF rfcomm_panic_reachable], simp)
  then show ?thesis
    using tcp_stop_reachable rfcomm_panic_reachable
    by (intro conjI exI[of _ "lst (Returned None) True True False 0 0"] exI[of _ "lst Panicked True True False 0 0"]) simp_all
qed

text \<open>
  A close can miss the listener. When \<open>Close\<close> runs after \<open>Listen\<close> has tested the flag and before it has
  stored its socket, \<open>Close\<close> is over, the flag is set, and the listener goes on to accept connections on
  an open socket; with the context not cancelled nothing ends it.
\<close>

theorem close_can_miss_listener:
  "\<exists>s. listen_reachable k s \<and> l_closed s \<and> l_closing s = 0 \<and> \<not> l_ctx s \<and> l_pc s = Accepting \<and> l_sock s \<and> listen_step k s s"
proof -
  let ?run = "[lst Checking False False False 0 0, lst Opened False False True 0 0, lst Opened True False True 1 0,
    lst Opened True False True 0 1, lst Accepting True True True 0 1]"
  have "listen_runs k ?run"
    using open_sock[of "lst Checking False False False 0 0"] close_begin[of k "lst Opened False False True 0 0"]
      close_end[of "lst Opened True False True 1 0" 0 k] store[of "lst Opened True False True 0 1"] by simp
  then have "listen_reachable k (last ?run)" by (rule listen_runs_reachable) (simp_all add: lst_init)
  then show ?thesis
    by (intro exI[of _ "lst Accepting True True True 0 1"]) (simp add: accept_more)
qed

text \<open>What the collecting loop has received and still has to receive.\<close>

lemma multi_counts:
  assumes "multi_inv n s"
  shows "length (ml_got s) + length (ml_errCh s) = length (exit_results (ml_children s))"
    and "length (ml_got s) = length (ml_children s) \<Longrightarrow> ml_errCh s = [] \<and> (\<forall>c \<in> set (ml_children s). \<exists>e. c = Exited e)"
proof -
  have "size (mset (ml_got s @ ml_errCh s)) = size (mset (exit_results (ml_children s)))"
    using assms by (simp only: multi_inv_def)
  then show got: "length (ml_got s) + length (ml_errCh s) = length (exit_results (ml_children s))"
    by simp
  assume eq: "length (ml_got s) = length (ml_children s)"
  then have "length (ml_errCh s) = 0"
    using got length_exit_results(1)[of "ml_children s"] by linarith
  then show "ml_errCh s = [] \<and> (\<forall>c \<in> set (ml_children s). \<exists>e. c = Exited e)"
    using got eq length_exit_results(2)[of "ml_children s"] by simp
qed

lemma multi_goes_on:
  assumes "multi_inv n s" "ml_pc s = Collecting" "ml_errCh s \<noteq> [] \<or> (\<forall>c \<in> set (ml_children s). \<exists>e. c = Exited e)"
  shows "\<exists>t. multi_step cerr s t \<and> (length (ml_got t) = Suc (length (ml_got s)) \<or> (\<exists>r. ml_pc t = Finished r))"
proof (cases "ml_errCh s")
  case Nil
  then have "multi_step cerr s (s\<lparr>ml_pc := Finished (if ml_ctx s then None else ml_first s), ml_cancelled := True\<rparr>)"
    using assms multi_counts(1)[OF assms(1)] length_exit_results(2)[of "ml_children s"]
    by (intro multi_step.return) (auto simp: list_all_iff)
  then show ?thesis by force
next
  case (Cons e q)
  have "length (ml_got s) < length (ml_children s)"
    using multi_counts(1)[OF assms(1)] Cons length_exit_results(1)[of "ml_children s"] by simp
  then have "multi_step cerr s (multi_receive cerr e (s\<lparr>ml_errCh := q\<rparr>))"
    using assms(2) Cons by (intro multi_step.receive) simp_all
  moreover have "length (ml_got (multi_receive cerr e (s\<lparr>ml_errCh := q\<rparr>))) = Suc (length (ml_got s))"
    using assms(1) by (simp add: multi_receive_def Let_def multi_Close_spec multi_inv_def)
  ultimately show ?thesis by blast
qed

lemma multi_returns:
  assumes inv: "multi_inv n s" and st: "multi_step cerr s s'" "ml_pc s' = Finished r" "ml_pc s \<noteq> Finished r"
  shows "ml_pc s = Starting \<and> ml_closed s \<and> r = Some (Err ''multi listener already closed'')
      \<or> ml_pc s = Starting \<and> \<not> ml_closed s \<and> n = 0 \<and> r = Some errNoListeners
      \<or> ml_pc s = Collecting \<and> (\<forall>c \<in> set (ml_children s). \<exists>e. c = Exited e)
        \<and> mset (ml_got s) = mset (exit_results (ml_children s)) \<and> length (ml_got s) = n
        \<and> r = (if ml_ctx s then None else first_error (ml_got s))"
proof -
  have len: "length (ml_children s) = n" "length (ml_shut s) = length (ml_children s)"
    using inv by (simp_all add: multi_inv_def)
  from st(1) show ?thesis
  proof cases
    case return
    then show ?thesis using st(2) inv multi_counts(2)[OF inv] by (auto simp: multi_inv_def)
  qed (use st(2,3) len in \<open>auto simp: multi_receive_def Let_def multi_Close_spec split: if_splits\<close>)
qed


abbreviation mst :: "multi_pc \<Rightarrow> child list \<Rightarrow> error option list \<Rightarrow> error option list \<Rightarrow> error option \<Rightarrow> bool \<Rightarrow> multi" where
  "mst pc cs q g f st \<equiv> \<lparr>ml_pc = pc, ml_closed = st, ml_children = cs, ml_shut = [st, st], ml_errCh = q, ml_got = g,
     ml_first = f, ml_ctx = False, ml_cancelled = st, ml_watching = True\<rparr>"

lemma multi_start: "multi_reachable cerr 2 (mst Collecting [Running, Running] [] [] None False)"
  using multi_reachable.step[OF multi_reachable.init begin_all, of 2 cerr]
  by (simp add: multi_init_def numeral_2_eq_2)

lemma multi_failed: "multi_reachable cerr 2 (mst Collecting [Exited None, Exited (Some EOF)] [] [Some EOF, None] (Some EOF) True)"
proof -
  let ?x = "Exited (Some EOF)" and ?y = "Exited None"
  note s = multi_reachable.step
  have 1: "multi_reachable cerr 2 (mst Collecting [Running, ?x] [Some EOF] [] None False)"
    using s[OF multi_start child_exits[of 1 _ cerr "Some EOF"]] by simp
  have 2: "multi_reachable cerr 2 (mst Collecting [Running, ?x] [] [Some EOF] (Some EOF) True)"
    using s[OF 1 receive] by (simp add: multi_receive_def multi_Close_spec numeral_2_eq_2)
  have 3: "multi_reachable cerr 2 (mst Collecting [?y, ?x] [None] [Some EOF] (Some EOF) True)"
    using s[OF 2 child_exits[of 0 _ cerr None]] by simp
  show ?thesis
    using s[OF 3 receive] by (simp add: multi_receive_def)
qed


text \<open>
  A child that returns without an error stops nobody. After one child has returned nil and its result
  has been received, the others are still running, their context is not cancelled and nothing has
  been closed. The comments on \<open>MultiListener\<close> and on its \<open>Listen\<close> promise that the exit of any child
  shuts all of them down.
\<close>

theorem quiet_exit_stops_nobody:
  "\<exists>s. multi_reachable cerr 2 s \<and> ml_pc s = Collecting \<and> ml_children s = [Exited None, Running] \<and> ml_got s = [None]
     \<and> \<not> ml_cancelled s \<and> \<not> ml_ctx s \<and> \<not> ml_closed s \<and> ml_shut s = [False, False]"
proof -
  note s = multi_reachable.step
  have 1: "multi_reachable cerr 2 (mst Collecting [Exited None, Running] [None] [] None False)"
    using s[OF multi_start child_exits[of 0 _ cerr None]] by simp
  have 2: "multi_reachable cerr 2 (mst Collecting [Exited None, Running] [] [None] None False)"
    using s[OF 1 receive] by (simp add: multi_receive_def)
  then show ?thesis by (intro exI) auto
qed

end
