(* ===== verification/Parent_Link.thy ===== *)
theory Parent_Link
  imports Server_Run Listeners
begin

text \<open>
  The loop of the parent link (\<open>runParentLink\<close> in server/server.go) on the connection manager of the server. The
  race of the loop with the removal of the connection is the step relation \<open>link_step\<close> of \<open>Server\<close>; here each
  round is a function of what happens to it: whether the context has ended at the top of the loop, what the
  dialer returns, what the rest of the program does to the state while the loop waits, and how the wait ends.
  The log of a run has the durations of the calls of \<open>time.Sleep\<close>.
\<close>

datatype dial_result = DialFailed error | DialNil | Dialled cref conn

datatype wait_end = ContextDone | LinkDown

record parent_ev =
  pe_done :: bool
  pe_dial :: dial_result
  pe_during :: "server_world \<Rightarrow> server_world"
  pe_end :: wait_end

text \<open>The start of the loop: nothing to do without a parent, the dialer and the interval between attempts.\<close>

definition runParentLink_start :: "parentState option \<Rightarrow> 'd option \<Rightarrow> 'd \<Rightarrow> ('d \<times> int) option" where
  "runParentLink_start p ParentDialer tcpDialer =
     (case p of
        None \<Rightarrow> None
      | Some ps \<Rightarrow>
          if \<not> hasParent (Some ps) then None
          else Some (case ParentDialer of None \<Rightarrow> tcpDialer | Some d \<Rightarrow> d,
                     if p_reconnect ps \<le> 0 then seconds 3 else p_reconnect ps))"

text \<open>The connected part of a round: \<open>setConn\<close> arms the wake-up, then the loop waits.\<close>

definition parent_connected :: "cref \<Rightarrow> server_world \<Rightarrow> server_world" where
  "parent_connected r s = s\<lparr>parent := setConn (conn_ID (heap s r)) (parent s)\<rparr>"

definition parent_round ::
  "server_world env \<Rightarrow> int \<Rightarrow> parent_ev \<Rightarrow> int list \<times> server_world \<Rightarrow> round \<times> int list \<times> server_world" where
  "parent_round env retry ev = (\<lambda>(sleeps, s).
     if pe_done ev then (Return None, sleeps, s)
     else case pe_dial ev of
            DialFailed e \<Rightarrow> (Continue, sleeps @ [retry], s)
          | DialNil \<Rightarrow> (Continue, sleeps @ [retry], s)
          | Dialled r cn \<Rightarrow>
              (case Add env (Some r) (s\<lparr>heap := (heap s)(r := SetMeta MetaRoleKey (VString RoleParent) cn)\<rparr>) of
                 (Some e, s1) \<Rightarrow> (Continue, sleeps @ [retry], snd (conn_Close env r s1))
               | (None, s1) \<Rightarrow>
                   (let s2 = pe_during ev (parent_connected r s1)
                    in case pe_end ev of
                         ContextDone \<Rightarrow> (Return None, sleeps, snd (conn_Close env r s2))
                       | LinkDown \<Rightarrow> (Continue, sleeps @ [retry], s2))))"

definition parent_loop ::
  "server_world env \<Rightarrow> int \<Rightarrow> parent_ev list \<Rightarrow> server_world \<Rightarrow> round option \<times> int list \<times> server_world" where
  "parent_loop env retry evs s = accept_loop (parent_round env retry) evs ([], s)"


section \<open>Properties\<close>

lemma retry_positive: "runParentLink_start p opt tcpDialer = Some (d, retry) \<Longrightarrow> 0 < retry"
  by (auto simp: runParentLink_start_def seconds_def wrap64_def split: option.splits if_splits)

lemma failed_rounds:
  assumes "\<And>ev. ev \<in> set evs \<Longrightarrow> \<not> pe_done ev \<and> (pe_dial ev = DialNil \<or> (\<exists>e. pe_dial ev = DialFailed e))"
  shows "accept_loop (parent_round env retry) evs (sl, s) = (None, sl @ replicate (length evs) retry, s)"
  using assms
proof (induction evs arbitrary: sl)
  case (Cons ev evs)
  have "parent_round env retry ev (sl, s) = (Continue, sl @ [retry], s)"
    using Cons.prems[of ev] by (auto simp: parent_round_def)
  then show ?case using Cons by simp
qed simp

lemma parent_heap_role: "isParentConn (Some (SetMeta MetaRoleKey (VString RoleParent) cn))"
  by (simp add: isParentConn_def GetMeta_def SetMeta_def)

lemma on_add_parent:
  "isParentConn (Some (heap s r)) \<Longrightarrow> on_add r s = s"
  by (auto simp: on_add_def isParentConn_def split: option.splits)

lemma index_hooks:
  "conn_hooks (addNodeIndexLocked cn c m) = conn_hooks m" "linkHooks (addNodeIndexLocked cn c m) = linkHooks m"
  "conn_hooks (addDeviceIndexLocked cn c m) = conn_hooks m" "linkHooks (addDeviceIndexLocked cn c m) = linkHooks m"
  by (simp_all add: addNodeIndexLocked_def addDeviceIndexLocked_def split: option.split any.split)

lemma added_hooks [simp]:
  "conn_hooks (added cn c m) = conn_hooks m" "linkHooks (added cn c m) = linkHooks m"
  by (simp_all add: added_def index_hooks)

text \<open>Adding the dialled connection with the hooks of a started server.\<close>

lemma parent_Add:
  fixes s :: server_world
  assumes "Get (mgr s) (conn_ID (heap s r)) = None" "conn_hooks (mgr s) = server_hooks"
    and "linkHooks (mgr s) = \<lparr>OnAdd = None, OnRemove = None\<rparr>" "isParentConn (Some (heap s r))"
  shows "Add (server_env net_send net_close) (Some r) s = (None, s\<lparr>mgr := added (heap s r) r (mgr s)\<rparr>)"
  using assms on_add_parent[of "s\<lparr>mgr := added (heap s r) r (mgr s)\<rparr>" r]
  by (simp add: Add_def Get_def added_def Let_def call_hook_def server_hooks_def server_env_def)

lemma parent_connects:
  fixes s :: server_world
  assumes inv: "mgr_inv s" and hooks: "conn_hooks (mgr s) = server_hooks" "linkHooks (mgr s) = \<lparr>OnAdd = None, OnRemove = None\<rparr>"
    and ev: "\<not> pe_done ev" "pe_dial ev = Dialled r cn" "\<not> managed (mgr s) r" "conn_ID cn \<noteq> []"
    and free: "Get (mgr s) (conn_ID cn) = None"
  defines "up \<equiv> parent_connected r (s\<lparr>heap := (heap s)(r := SetMeta MetaRoleKey (VString RoleParent) cn),
                   mgr := added (SetMeta MetaRoleKey (VString RoleParent) cn) r (mgr s)\<rparr>)"
  shows "Get (mgr up) = (Get (mgr s))(conn_ID cn \<mapsto> r)" "mgr_inv up" "isParentConn (Some (heap up r))"
    and "snapshot (mgr up) porder \<Longrightarrow> findParentConn (heap up) porder \<noteq> None"
    and "\<not> p_down (parent (snd (Remove (server_env net_send net_close) (conn_ID cn) up)))"
    and "parent_round (server_env net_send net_close) retry ev (sl, s) =
           (case pe_end ev of
              ContextDone \<Rightarrow> (Return None, sl, snd (conn_Close (server_env net_send net_close) r (pe_during ev up)))
            | LinkDown \<Rightarrow> (Continue, sl @ [retry], pe_during ev up))"
proof -
  let ?env = "server_env net_send net_close" and ?cn = "SetMeta MetaRoleKey (VString RoleParent) cn"
  let ?s1 = "s\<lparr>heap := (heap s)(r := ?cn)\<rparr>"
  have id: "conn_ID ?cn = conn_ID cn" by (simp add: SetMeta_def)
  have add: "Add ?env (Some r) ?s1 = (None, ?s1\<lparr>mgr := added ?cn r (mgr s)\<rparr>)"
    using parent_Add[of ?s1 r net_send net_close] free hooks id parent_heap_role by simp
  show inv2: "mgr_inv up"
    using mgr_inv_upto_added[of "{}", unfolded mgr_inv_upto_empty, OF mgr_inv_heap_unmanaged[OF inv ev(3), of ?cn], of r] free id
    by (simp add: up_def parent_connected_def mgr_inv_def)
  show tab: "Get (mgr up) = (Get (mgr s))(conn_ID cn \<mapsto> r)"
    using id by (simp add: up_def parent_connected_def Get_def added_fields update_conv' fun_eq_iff)
  show par: "isParentConn (Some (heap up r))"
    by (simp add: up_def parent_connected_def parent_heap_role)
  show "findParentConn (heap up) porder \<noteq> None" if "snapshot (mgr up) porder"
  proof -
    have "Get (mgr up) (conn_ID cn) = Some r" using tab by simp
    then have "r \<in> snd ` set (conns (mgr up))" by (force simp: Get_def dest: map_of_SomeD)
    then have "r \<in> set porder"
      using mset_eq_setD[OF that[unfolded snapshot_def]] by simp
    then show ?thesis using par by (auto simp: findParentConn_def find_None_iff)
  qed
  have "snd (Remove ?env (conn_ID cn) up) = on_remove r (up\<lparr>mgr := removed (conn_ID cn) r (mgr up)\<rparr>)"
    using tab hooks by (intro Remove_server(2) inv2) (simp_all add: up_def parent_connected_def)
  then show "\<not> p_down (parent (snd (Remove ?env (conn_ID cn) up)))"
    using ev(4) id by (simp add: up_def on_remove_def Let_def parent_connected_def setConn_def notifyDown_def)
  show "parent_round ?env retry ev (sl, s) =
          (case pe_end ev of
             ContextDone \<Rightarrow> (Return None, sl, snd (conn_Close ?env r (pe_during ev up)))
           | LinkDown \<Rightarrow> (Continue, sl @ [retry], pe_during ev up))"
    using ev(1,2) add by (simp add: up_def parent_round_def Let_def split: wait_end.split)
qed

lemma parent_refused:
  fixes s :: server_world
  assumes ev: "\<not> pe_done ev" "pe_dial ev = Dialled r cn" and taken: "Get (mgr s) (conn_ID cn) \<noteq> None"
  shows "\<exists>s'. parent_round (server_env net_send net_close) retry ev (sl, s) = (Continue, sl @ [retry], s') \<and> mgr s' = mgr s"
proof -
  let ?s1 = "s\<lparr>heap := (heap s)(r := SetMeta MetaRoleKey (VString RoleParent) cn)\<rparr>"
  obtain c' where "Get (mgr ?s1) (conn_ID (heap ?s1 r)) = Some c'"
    using taken by (auto simp: SetMeta_def)
  then have "Add (server_env net_send net_close) (Some r) ?s1 = (Some (Err ''conn exists''), ?s1)"
    by (rule server_mgr.Add_refused)
  then show ?thesis
    using ev by (simp add: parent_round_def server_env_def)
qed

text \<open>
  C23. The parent link. The interval between two attempts is positive, whatever the configuration says, and each attempt
  that fails is followed by one sleep of that length and changes nothing else, so that the loop never spins. When
  a dialled connection comes up under an id that is not taken, it is in the table of the manager under that id while
  the loop waits, is marked as the parent, so that the router finds a parent in every snapshot of the table, and its
  removal by the manager ends the wait; the invariant of the manager holds. When the id is taken, the table stays as
  it is, and the loop sleeps and tries again.
\<close>

theorem parent_link_round:
  fixes s :: server_world
  assumes start: "runParentLink_start (Some (parent s)) opt tcpDialer = Some (d, retry)"
    and inv: "mgr_inv s" and hooks: "conn_hooks (mgr s) = server_hooks" "linkHooks (mgr s) = \<lparr>OnAdd = None, OnRemove = None\<rparr>"
    and ev: "\<not> pe_done ev" "pe_dial ev = Dialled r cn" "\<not> managed (mgr s) r" "conn_ID cn \<noteq> []"
  shows "0 < retry
    \<and> (\<forall>evs. (\<forall>e \<in> set evs. \<not> pe_done e \<and> (pe_dial e = DialNil \<or> (\<exists>x. pe_dial e = DialFailed x))) \<longrightarrow>
         parent_loop (server_env net_send net_close) retry evs s = (None, replicate (length evs) retry, s))
    \<and> (Get (mgr s) (conn_ID cn) = None \<longrightarrow>
         (\<exists>up. Get (mgr up) = (Get (mgr s))(conn_ID cn \<mapsto> r) \<and> mgr_inv up \<and> isParentConn (Some (heap up r))
            \<and> (\<forall>porder. snapshot (mgr up) porder \<longrightarrow> findParentConn (heap up) porder \<noteq> None)
            \<and> \<not> p_down (parent (snd (Remove (server_env net_send net_close) (conn_ID cn) up)))
            \<and> parent_round (server_env net_send net_close) retry ev (sl, s) =
                (case pe_end ev of
                   ContextDone \<Rightarrow> (Return None, sl, snd (conn_Close (server_env net_send net_close) r (pe_during ev up)))
                 | LinkDown \<Rightarrow> (Continue, sl @ [retry], pe_during ev up))))
    \<and> (Get (mgr s) (conn_ID cn) \<noteq> None \<longrightarrow>
         (\<exists>s'. parent_round (server_env net_send net_close) retry ev (sl, s) = (Continue, sl @ [retry], s')
            \<and> mgr s' = mgr s))"
proof (intro conjI allI impI)
  show "0 < retry" using start by (rule retry_positive)
  show "parent_loop (server_env net_send net_close) retry evs s = (None, replicate (length evs) retry, s)"
    if "\<forall>e \<in> set evs. \<not> pe_done e \<and> (pe_dial e = DialNil \<or> (\<exists>x. pe_dial e = DialFailed x))" for evs
    using failed_rounds[of evs "server_env net_send net_close" retry "[]" s] that by (simp add: parent_loop_def)
qed (use parent_connects[OF inv hooks ev] parent_refused[OF ev(1,2)] in blast)+

definition ex_orphan :: server_world where
  "ex_orphan = ex_server\<lparr>mgr := Manager_New\<lparr>conn_hooks := server_hooks\<rparr>,
      parent := \<lparr>p_enable = True, p_addr = ''h:1'', p_reconnect = - 4, p_connID = [], p_down = False\<rparr>\<rparr>"

definition ex_parent_ev :: parent_ev where
  "ex_parent_ev = \<lparr>pe_done = False, pe_dial = Dialled 7 \<lparr>conn_ID = ''up'', meta = (\<lambda>_. None)\<rparr>, pe_during = (\<lambda>s. s), pe_end = LinkDown\<rparr>"

theorem parent_link_round_witness:
  "\<exists>up. Get (mgr up) ''up'' = Some 7 \<and> isParentConn (Some (heap up 7))
      \<and> parent_round (server_env (\<lambda>_ _. None) (\<lambda>_. None)) 3000000000 ex_parent_ev ([], ex_orphan) = (Continue, [3000000000], up)"
proof -
  have "runParentLink_start (Some (parent ex_orphan)) None () = Some ((), 3000000000)"
    by (simp add: runParentLink_start_def ex_orphan_def hasParent_def seconds_def wrap64_def)
  moreover have "mgr_inv ex_orphan" "conn_hooks (mgr ex_orphan) = server_hooks"
    "linkHooks (mgr ex_orphan) = \<lparr>OnAdd = None, OnRemove = None\<rparr>" "\<not> managed (mgr ex_orphan) 7" "Get (mgr ex_orphan) ''up'' = None"
    by (simp_all add: ex_orphan_def mgr_inv_def Manager_New_def managed_def Get_def)
  ultimately show ?thesis
    using parent_link_round[of ex_orphan None "()" "()" 3000000000 ex_parent_ev 7 "\<lparr>conn_ID = ''up'', meta = (\<lambda>_. None)\<rparr>"
        "\<lambda>_ _. None" "\<lambda>_. None" "[]"]
    by (auto simp: ex_parent_ev_def)
qed

end
