(* ===== verification/Send_Results.thy ===== *)
theory Send_Results
  imports Send_Dispatcher "HOL-Library.Multiset"
begin

text \<open>
  The results of the sends (process/senddispatcher.go): the loop of a connection's writer, which writes each task
  to the pipe and hands the result to the task's callback, and the loop of a shard worker, which calls the callback
  only when the task could not be given to the writer. The machine of \<open>Send_Dispatcher\<close> is extended by the pipes and
  by a log of the results, in the order in which they are reported; a task without a callback (\<open>Server.Send\<close> gives
  none) has its result dropped at that point.

  \<open>pipe_of\<close> is the pipe of each connection, an arbitrary writer of package io, \<open>None\<close> when \<open>Pipe()\<close> is nil.
\<close>

record 's results =
  rs :: sd_state
  pipe_state :: "cref \<Rightarrow> 's"
  reported :: "(sendTask \<times> error option) list"

inductive res_step :: "(cref \<Rightarrow> conn) \<Rightarrow> (cref \<Rightarrow> 's writer option) \<Rightarrow> 's results \<Rightarrow> 's results \<Rightarrow> bool" for hp pipe_of where
  dispatched: "Ret (None, d') \<in> set (Dispatch hp c ctx_done fired waiting t (sd (rs s))) \<Longrightarrow>
     res_step hp pipe_of s (s\<lparr>rs := (rs s)\<lparr>sd := d', sd_accepted := sd_accepted (rs s) @ [t]\<rparr>\<rparr>)"
| refused: "Ret (Some e, d') \<in> set (Dispatch hp c ctx_done fired waiting t (sd (rs s))) \<Longrightarrow>
     res_step hp pipe_of s (s\<lparr>rs := (rs s)\<lparr>sd := d'\<rparr>\<rparr>)"
| shard_take: "\<lbrakk>i < length (shards (sd (rs s))); shards (sd (rs s)) ! i = t # ts; in_hand (rs s) i = None; t_conn t = Some cr;
     getOrCreateWriter hp cr ((sd (rs s))\<lparr>shards := (shards (sd (rs s)))[i := ts]\<rparr>) = (w, d')\<rbrakk> \<Longrightarrow>
     res_step hp pipe_of s (s\<lparr>rs := (rs s)\<lparr>sd := d', in_hand := (in_hand (rs s))(i \<mapsto> (t, w))\<rparr>\<rparr>)"
| shard_put: "\<lbrakk>in_hand (rs s) i = Some (t, w); wheap (sd (rs s)) w = Some cw;
     (e, cw') \<in> set (connWriter_enqueue (connBuffer (sd (rs s))) fired wt t cw)\<rbrakk> \<Longrightarrow>
     res_step hp pipe_of s
       (s\<lparr>rs := (rs s)\<lparr>sd := (sd (rs s))\<lparr>wheap := (wheap (sd (rs s)))(w \<mapsto> cw')\<rparr>, in_hand := (in_hand (rs s))(i := None)\<rparr>,
          reported := reported s @ (case e of None \<Rightarrow> [] | Some err \<Rightarrow> [(t, Some err)])\<rparr>)"
| writer_write: "\<lbrakk>wheap (sd (rs s)) w = Some cw; w_ch cw = t # ts;
     connWriter_write cw (pipe_of (w_conn cw)) (pipe_state s (w_conn cw)) t = Some (Ret (st, err))\<rbrakk> \<Longrightarrow>
     res_step hp pipe_of s
       (s\<lparr>rs := (rs s)\<lparr>sd := (sd (rs s))\<lparr>wheap := (wheap (sd (rs s)))(w \<mapsto> cw\<lparr>w_ch := ts\<rparr>)\<rparr>,
                      written := (written (rs s))(w := written (rs s) w @ [t])\<rparr>,
          pipe_state := (pipe_state s)(w_conn cw := st), reported := reported s @ [(t, err)]\<rparr>)"
| close_conn: "res_step hp pipe_of s (s\<lparr>rs := (rs s)\<lparr>sd := CloseConn cid (sd (rs s))\<rparr>\<rparr>)"
| shutdown: "res_step hp pipe_of s (s\<lparr>rs := (rs s)\<lparr>sd := sd_Shutdown (sd (rs s))\<rparr>\<rparr>)"
| ctx_cancel: "res_step hp pipe_of s (s\<lparr>rs := (rs s)\<lparr>sd := ctx_cancelled c (sd (rs s))\<rparr>\<rparr>)"
| close_shards: "res_step hp pipe_of s (s\<lparr>rs := (rs s)\<lparr>sd := close_shard i (sd (rs s))\<rparr>\<rparr>)"
| stop_all: "res_step hp pipe_of s (s\<lparr>rs := (rs s)\<lparr>sd := stop_all_writers (sd (rs s))\<rparr>\<rparr>)"

inductive res_reachable ::
  "(cref \<Rightarrow> conn) \<Rightarrow> (cref \<Rightarrow> 's writer option) \<Rightarrow> SendOptions \<Rightarrow> 's results \<Rightarrow> bool" for hp pipe_of opts where
  init: "NewSendDispatcher opts = Inr d \<Longrightarrow>
     res_reachable hp pipe_of opts
       \<lparr>rs = \<lparr>sd = d, sd_accepted = [], in_hand = (\<lambda>_. None), written = (\<lambda>_. [])\<rparr>, pipe_state = p0, reported = []\<rparr>"
| step: "res_reachable hp pipe_of opts s \<Longrightarrow> res_step hp pipe_of s s' \<Longrightarrow> res_reachable hp pipe_of opts s'"


section \<open>The machine refines the send dispatcher\<close>

lemma res_step_refines: "res_step hp pipe_of s s' \<Longrightarrow> sd_step hp (rs s) (rs s')"
  by (induction rule: res_step.induct) (auto intro: sd_step.intros)

lemma res_reachable_sd: "res_reachable hp pipe_of opts s \<Longrightarrow> sd_reachable hp opts (rs s)"
proof (induction rule: res_reachable.induct)
  case (init d p0)
  then show ?case using sd_reachable.init[OF init] by simp
next
  case (step s s')
  then show ?case using res_step_refines by (blast intro: sd_reachable.step)
qed


section \<open>Where a task is\<close>

definition hand :: "sd_state \<Rightarrow> nat \<Rightarrow> sendTask list" where
  "hand s i = (case in_hand s i of None \<Rightarrow> [] | Some (t, _) \<Rightarrow> [t])"

definition waiting_tasks :: "sd_state \<Rightarrow> sendTask multiset" where
  "waiting_tasks s =
     (\<Sum>i<length (shards (sd s)). mset (shards (sd s) ! i) + mset (hand s i))
   + (\<Sum>w<next_wid (sd s). mset (writer_queue (sd s) w))"

definition accounted :: "'s results \<Rightarrow> bool" where
  "accounted s \<longleftrightarrow> mset (sd_accepted (rs s)) = mset (map fst (reported s)) + waiting_tasks (rs s)"

lemma waiting_tasks_quiet:
  assumes "shards d' = shards (sd s)" "next_wid d' = next_wid (sd s)" "\<And>w. wview (wheap d' w) = wview (wheap (sd s) w)"
  shows "waiting_tasks (s\<lparr>sd := d'\<rparr>) = waiting_tasks s"
  using assms by (simp add: waiting_tasks_def hand_def writer_queue_wview)

lemma waiting_tasks_dispatched:
  assumes "Ret (None, d') \<in> set (Dispatch hp c ctx_done fired waiting t (sd s))"
  shows "waiting_tasks (s\<lparr>sd := d', sd_accepted := acc\<rparr>) = waiting_tasks s + {#t#}"
proof -
  obtain i where i: "i < length (shards (sd s))"
    and d': "shards d' = (shards (sd s))[i := shards (sd s) ! i @ [t]]" "next_wid d' = next_wid (sd s)" "wheap d' = wheap (sd s)"
    using assms by (auto simp: Dispatch_def Let_def ensureStarted_def split: option.splits outcome.splits if_splits)
  have "(\<Sum>j<length (shards (sd s)). mset (shards d' ! j) + mset (hand s j)) =
      (\<Sum>j<length (shards (sd s)). mset (shards (sd s) ! j) + mset (hand s j)) + {#t#}"
    using i d' by (intro sum_bump[of i]) auto
  then show ?thesis
    using d' by (simp add: waiting_tasks_def hand_def writer_queue_def)
qed

lemma waiting_tasks_take:
  assumes "i < length (shards (sd s))" "shards (sd s) ! i = t # ts" "in_hand s i = None"
    and g: "getOrCreateWriter hp cr ((sd s)\<lparr>shards := (shards (sd s))[i := ts]\<rparr>) = (w, d')" and inv: "sd_inv hp s"
  shows "waiting_tasks (s\<lparr>sd := d', in_hand := (in_hand s)(i \<mapsto> (t, w))\<rparr>) = waiting_tasks s"
proof -
  let ?s' = "s\<lparr>sd := d', in_hand := (in_hand s)(i \<mapsto> (t, w))\<rparr>"
  note G = getOrCreateWriter_serves[OF inv g]
  have "(\<Sum>j<length (shards (sd s)). mset (shards d' ! j) + mset (hand ?s' j)) =
      (\<Sum>j<length (shards (sd s)). mset (shards (sd s) ! j) + mset (hand s j)) + {#}"
    using assms(1-3) by (intro sum_bump[of i]) (auto simp: G(5) hand_def)
  moreover have "(\<Sum>v<next_wid d'. mset (writer_queue (sd s) v)) = (\<Sum>v<next_wid (sd s). mset (writer_queue (sd s) v))"
    using g
  proof (cases rule: getOrCreateWriter_cases)
    case new
    have "wheap (sd s) (next_wid (sd s)) = None"
      using sd_invD(4)[OF inv] by (metis less_irrefl)
    then show ?thesis using new by (simp add: writer_queue_def)
  qed simp
  ultimately show ?thesis
    by (simp add: waiting_tasks_def G(4,5))
qed

lemma writer_queue_bump:
  assumes "wheap (sd s) w = Some cw" "w < next_wid (sd s)" "mset (w_ch cw') = mset (w_ch cw) + x"
  shows "(\<Sum>v<next_wid (sd s). mset (writer_queue ((sd s)\<lparr>wheap := (wheap (sd s))(w \<mapsto> cw')\<rparr>) v)) =
     (\<Sum>v<next_wid (sd s). mset (writer_queue (sd s) v)) + x"
  using assms by (intro sum_bump[of w]) (auto simp: writer_queue_def)

lemma waiting_tasks_put:
  assumes h: "in_hand s i = Some (t, w)" and cw: "wheap (sd s) w = Some cw" and inv: "sd_inv hp s"
    and e: "(e, cw') \<in> set (connWriter_enqueue cap fired wt t cw)"
  shows "waiting_tasks s = waiting_tasks (s\<lparr>sd := (sd s)\<lparr>wheap := (wheap (sd s))(w \<mapsto> cw')\<rparr>, in_hand := (in_hand s)(i := None)\<rparr>)
     + (if e = None then {#} else {#t#})"
proof -
  let ?s' = "s\<lparr>sd := (sd s)\<lparr>wheap := (wheap (sd s))(w \<mapsto> cw')\<rparr>, in_hand := (in_hand s)(i := None)\<rparr>"
  have i: "i < length (shards (sd s))" using sd_invD(2)[OF inv h] by simp
  have w: "w < next_wid (sd s)" using sd_invD(4)[OF inv, of w] cw by simp
  have "(\<Sum>j<length (shards (sd s)). mset (shards (sd s) ! j) + mset (hand s j)) =
      (\<Sum>j<length (shards (sd s)). mset (shards (sd s) ! j) + mset (hand ?s' j)) + {#t#}"
    using i h by (intro sum_bump[of i]) (auto simp: hand_def)
  moreover have "mset (w_ch cw') = mset (w_ch cw) + (if e = None then {#t#} else {#})"
    using e by (auto simp: connWriter_enqueue_def split: if_splits)
  note writer_queue_bump[OF cw w this]
  ultimately show ?thesis
    by (simp add: waiting_tasks_def)
qed

lemma waiting_tasks_write:
  assumes cw: "wheap (sd s) w = Some cw" "w_ch cw = t # ts" and inv: "sd_inv hp s"
  shows "waiting_tasks s = waiting_tasks (s\<lparr>sd := (sd s)\<lparr>wheap := (wheap (sd s))(w \<mapsto> cw\<lparr>w_ch := ts\<rparr>)\<rparr>, written := wr\<rparr>) + {#t#}"
proof -
  have w: "w < next_wid (sd s)" using sd_invD(4)[OF inv, of w] cw by simp
  let ?s' = "s\<lparr>sd := (sd s)\<lparr>wheap := (wheap (sd s))(w \<mapsto> cw\<lparr>w_ch := ts\<rparr>)\<rparr>, written := wr\<rparr>"
  have "(\<Sum>v<next_wid (sd s). mset (writer_queue (sd s) v)) = (\<Sum>v<next_wid (sd s). mset (writer_queue (sd ?s') v)) + {#t#}"
    using w cw by (intro sum_bump[of w]) (auto simp: writer_queue_def)
  then show ?thesis by (simp add: waiting_tasks_def hand_def)
qed

lemma accounted_step:
  assumes "res_step hp pipe_of s s'" "accounted s" "sd_inv hp (rs s)"
  shows "accounted s'"
  using assms
proof (induction rule: res_step.induct)
  case (dispatched d' c ctx_done fired waiting t s)
  then show ?case by (simp add: accounted_def waiting_tasks_dispatched)
next
  case (refused e d' c ctx_done fired waiting t s)
  then have "shards d' = shards (sd (rs s))" "next_wid d' = next_wid (sd (rs s))" "wheap d' = wheap (sd (rs s))"
    by (auto simp: Dispatch_def Let_def ensureStarted_def split: option.splits outcome.splits if_splits)
  then show ?case using refused.prems(1) by (simp add: accounted_def waiting_tasks_quiet)
next
  case (shard_take i s t ts cr w d')
  then show ?case by (simp add: accounted_def waiting_tasks_take)
next
  case (shard_put s i t w cw e cw' fired wt)
  then show ?case
    using waiting_tasks_put[OF shard_put.hyps(1,2) shard_put.prems(2) shard_put.hyps(3)]
    by (cases e) (simp_all add: accounted_def)
next
  case (writer_write s w cw t ts st err)
  then show ?case
    using waiting_tasks_write[OF writer_write.hyps(1,2) writer_write.prems(2)] by (simp add: accounted_def)
next
  case (close_conn s cid)
  have "waiting_tasks ((rs s)\<lparr>sd := CloseConn cid (sd (rs s))\<rparr>) = waiting_tasks (rs s)"
    by (intro waiting_tasks_quiet) (simp_all add: CloseConn_def wview_stop_writer split: option.split)
  then show ?case using close_conn by (simp add: accounted_def)
next
  case (stop_all s)
  have "waiting_tasks ((rs s)\<lparr>sd := stop_all_writers (sd (rs s))\<rparr>) = waiting_tasks (rs s)"
    by (intro waiting_tasks_quiet) (simp_all add: stop_all_writers_def wview_fold_stop)
  then show ?case using stop_all by (simp add: accounted_def)
qed (simp_all add: accounted_def waiting_tasks_quiet sd_Shutdown_def ctx_cancelled_def close_shard_def)

lemma accounted_reachable: "res_reachable hp pipe_of opts s \<Longrightarrow> accounted s"
proof (induction rule: res_reachable.induct)
  case (init d p0)
  then have "shards d ! i = []" if "i < length (shards d)" for i
    using that by (auto simp: NewSendDispatcher_def Let_def)
  moreover have "next_wid d = 0"
    using init by (auto simp: NewSendDispatcher_def Let_def)
  ultimately show ?case by (simp add: accounted_def waiting_tasks_def hand_def)
next
  case (step s s')
  then show ?case
    using accounted_step sd_inv_reachable[OF res_reachable_sd[OF step.hyps(1)]] by blast
qed

text \<open>A task in the channel of a writer is one of the connection id the writer serves.\<close>

lemma queued_task_of_conn:
  assumes "sd_reachable hp opts s" "so_ChannelCount opts < 2 ^ 32" "wheap (sd s) w = Some cw" "t \<in> set (w_ch cw)"
  shows "of_conn hp (conn_ID (hp (w_conn cw))) t"
proof -
  have "t \<in> set (filter (of_conn hp (conn_ID (hp (w_conn cw)))) (sd_accepted s))"
    using list_emb_set[OF writer_pipeline[OF assms(1-3)], of t] assms(4) by auto
  then show ?thesis by simp
qed

lemma res_reachable_success:
  assumes "res_reachable hp pipe_of opts s" "so_ChannelCount opts < 2 ^ 32" "(t, None) \<in> set (reported s)"
  shows "\<exists>cw st st'. of_conn hp (conn_ID (hp (w_conn cw))) t
           \<and> connWriter_write cw (pipe_of (w_conn cw)) st t = Some (Ret (st', None))"
  using assms(1,3)
proof (induction rule: res_reachable.induct)
  case (init d p0)
  then show ?case by simp
next
  case (step s s')
  show ?case
  proof (cases "(t, None) \<in> set (reported s)")
    case False
    show ?thesis
      using step.hyps(2) step.prems False
    proof cases
      case (writer_write w cw u us st err)
      then have "u = t" "err = None" using False step.prems by auto
      then show ?thesis
        using writer_write(2-4) queued_task_of_conn[OF res_reachable_sd[OF step.hyps(1)] assms(2) writer_write(2), of t]
        by auto
    qed (auto split: option.splits)
  qed (rule step.IH)
qed


section \<open>Properties\<close>

text \<open>
  C10. Every accepted send has exactly one result. In every reachable state, whatever the interleaving of senders, shard
  workers, writers, connection closes and the shutdown, and whatever the pipes answer, the tasks that \<open>Dispatch\<close> has
  accepted are those whose result has been reported and those still in a shard, in the hands of a shard worker or
  in the channel of a writer, each exactly once: no result is reported twice and none gets lost when a connection
  or the dispatcher is closed. A result without error means that the writer of a connection with the task's
  connection id has written the frame to its pipe without error.
\<close>

theorem sends_answered_once:
  assumes "res_reachable hp pipe_of opts s" "so_ChannelCount opts < 2 ^ 32"
  shows "mset (sd_accepted (rs s)) =
           mset (map fst (reported s))
           + (\<Sum>i<length (shards (sd (rs s))). mset (shards (sd (rs s)) ! i) + mset (hand (rs s) i))
           + (\<Sum>w<next_wid (sd (rs s)). mset (writer_queue (sd (rs s)) w))
       \<and> (\<forall>t. (t, None) \<in> set (reported s) \<longrightarrow>
            (\<exists>cw st st'. of_conn hp (conn_ID (hp (w_conn cw))) t
               \<and> connWriter_write cw (pipe_of (w_conn cw)) st t = Some (Ret (st', None))))"
  using accounted_reachable[OF assms(1)] res_reachable_success[OF assms]
  by (simp add: accounted_def waiting_tasks_def)

text \<open>The run of one frame to a pipe that is missing, for the witness: its result is an error.\<close>

definition ex_r3 :: "unit results" where
  "ex_r3 = \<lparr>rs = ex_s2, pipe_state = (\<lambda>_. ()), reported = []\<rparr>"

definition ex_r4 :: "unit results" where
  "ex_r4 = \<lparr>rs = ex_s2\<lparr>sd := (sd ex_s2)\<lparr>wheap := [0 \<mapsto> ex_writer\<lparr>w_ch := [ex_task]\<rparr>]\<rparr>, in_hand := (\<lambda>_. None)\<rparr>,
            pipe_state = (\<lambda>_. ()), reported = []\<rparr>"

definition ex_r5 :: "unit results" where
  "ex_r5 = ex_r4\<lparr>rs := (rs ex_r4)\<lparr>sd := sd ex_s2, written := (\<lambda>_. [])(0 := [ex_task])\<rparr>,
                 reported := [(ex_task, Some errNilPipe)]\<rparr>"

lemma ex_r5_reachable: "res_reachable ex_ids (\<lambda>_. None) ex_so ex_r5"
proof -
  let ?p = "\<lambda>_ :: cref. None :: unit writer option"
  let ?r0 = "\<lparr>rs = \<lparr>sd = ex_sd, sd_accepted = [], in_hand = (\<lambda>_. None), written = (\<lambda>_. [])\<rparr>, pipe_state = (\<lambda>_. ()), reported = []\<rparr>"
  have r0: "res_reachable ex_ids ?p ex_so ?r0"
    by (rule res_reachable.init[OF ex_sd_new])
  have "res_step ex_ids ?p ?r0 (?r0\<lparr>rs := ex_s1\<rparr>)"
    using res_step.dispatched[of "ex_sd\<lparr>shards := [[ex_task]], sd_ctx := Some (Some 7)\<rparr>" ex_ids "Some 7" False False "\<lambda>_. False" ex_task ?r0 ?p]
    by (simp add: ex_sd_dispatch ex_s1_def)
  with r0 have r1: "res_reachable ex_ids ?p ex_so (?r0\<lparr>rs := ex_s1\<rparr>)"
    by (rule res_reachable.step)
  have "res_step ex_ids ?p (?r0\<lparr>rs := ex_s1\<rparr>) ex_r3"
    using res_step.shard_take[of 0 "?r0\<lparr>rs := ex_s1\<rparr>" ex_task "[]" 1 ex_ids 0 "sd ex_s2" ?p]
    by (simp add: ex_r3_def ex_s1_def ex_s2_def ex_sd_def ex_task_def getOrCreateWriter_def ex_ids_def ex_writer_def fun_eq_iff)
  with r1 have r3: "res_reachable ex_ids ?p ex_so ex_r3"
    by (rule res_reachable.step)
  have "res_step ex_ids ?p ex_r3 ex_r4"
    using res_step.shard_put[of ex_r3 0 ex_task 0 ex_writer None "ex_writer\<lparr>w_ch := [ex_task]\<rparr>" False False ex_ids ?p]
    by (simp add: ex_r3_def ex_r4_def ex_s2_def ex_sd_def ex_writer_def connWriter_enqueue_def fun_eq_iff)
  with r3 have r4: "res_reachable ex_ids ?p ex_so ex_r4"
    by (rule res_reachable.step)
  have "res_step ex_ids ?p ex_r4
      (ex_r4\<lparr>rs := (rs ex_r4)\<lparr>sd := (sd (rs ex_r4))\<lparr>wheap := (wheap (sd (rs ex_r4)))(0 \<mapsto> ex_writer\<lparr>w_ch := [ex_task], w_ch := []\<rparr>)\<rparr>,
                          written := (written (rs ex_r4))(0 := written (rs ex_r4) 0 @ [ex_task])\<rparr>,
             pipe_state := (pipe_state ex_r4)(w_conn (ex_writer\<lparr>w_ch := [ex_task]\<rparr>) := ()), reported := reported ex_r4 @ [(ex_task, Some errNilPipe)]\<rparr>)"
    by (rule res_step.writer_write) (simp_all add: ex_r4_def ex_task_def connWriter_write_def)
  also have "\<dots> = ex_r5"
    by (simp add: ex_r5_def ex_r4_def ex_s2_def ex_sd_def ex_writer_def fun_eq_iff)
  finally have "res_step ex_ids ?p ex_r4 ex_r5" .
  with r4 show ?thesis
    by (rule res_reachable.step)
qed

theorem sends_answered_once_witness:
  "mset (sd_accepted (rs ex_r5)) = mset (map fst (reported ex_r5)) \<and> reported ex_r5 = [(ex_task, Some errNilPipe)]"
  using sends_answered_once[OF ex_r5_reachable]
  by (simp add: ex_so_def) (simp add: ex_r5_def ex_r4_def ex_s2_def ex_sd_def hand_def writer_queue_def ex_writer_def)

end
