(* ===== verification/Connections.thy ===== *)
theory Connections
  imports Transport
begin

text \<open>
  The methods of the connection types, transport by transport (\<^verbatim>\<open>tcp_listener/connection.go\<close>,
  \<^verbatim>\<open>quic_listener/connection.go\<close>), beside those of RFCOMM in \<open>Transport\<close>, and the contract that the rest of the
  program relies on when it holds an \<open>IConnection\<close>: a locale over the operations of the interface, with the
  abstract connection (a metadata map, a receive handler, a reader) as its specification, interpreted for the
  three transports.
\<close>

section \<open>TCP\<close>

text \<open>
  The pipe of a TCP connection hands every call to the \<open>net.Conn\<close>, which is given by its read, write and close
  operations on a state.
\<close>

record 's net_conn =
  nc_Read :: "'s \<Rightarrow> nat \<Rightarrow> 's \<times> byte list \<times> error option"
  nc_Write :: "'s writer"
  nc_Close :: "'s \<Rightarrow> 's \<times> error option"

definition tcpPipe_Read :: "'s net_conn \<Rightarrow> 's \<Rightarrow> nat \<Rightarrow> 's \<times> byte list \<times> error option" where
  "tcpPipe_Read nc = nc_Read nc"

definition tcpPipe_Write :: "'s net_conn \<Rightarrow> 's writer" where
  "tcpPipe_Write nc = nc_Write nc"

definition tcpPipe_Close :: "'s net_conn \<Rightarrow> 's \<Rightarrow> 's \<times> error option" where
  "tcpPipe_Close nc = nc_Close nc"

definition tcp_Close :: "'s net_conn \<Rightarrow> 's \<Rightarrow> 's \<times> error option" where
  "tcp_Close nc = nc_Close nc"

definition tcp_OnReceive :: "nat option \<Rightarrow> 'p stream_conn \<Rightarrow> 'p stream_conn" where
  "tcp_OnReceive h c = c\<lparr>sc_recvH := h\<rparr>"

definition tcp_SetMeta :: "string \<Rightarrow> any \<Rightarrow> 'p stream_conn \<Rightarrow> 'p stream_conn" where
  "tcp_SetMeta key val c = c\<lparr>sc_meta := AList.update key val (sc_meta c)\<rparr>"

definition tcp_GetMeta :: "string \<Rightarrow> 'p stream_conn \<Rightarrow> any option" where
  "tcp_GetMeta key c = map_of (sc_meta c) key"

fun tcp_copy :: "(string \<times> any) list \<Rightarrow> (string \<times> any) list \<Rightarrow> (string \<times> any) list" where
  "tcp_copy cp [] = cp"
| "tcp_copy cp ((k, v) # order) = tcp_copy (AList.update k v cp) order"

definition tcp_Metadata :: "(string \<times> any) list \<Rightarrow> (string \<times> any) list" where
  "tcp_Metadata order = tcp_copy [] order"

definition tcp_LocalAddr :: "'p stream_conn \<Rightarrow> net_addr option" where
  "tcp_LocalAddr c = sc_local c"

definition tcp_RemoteAddr :: "'p stream_conn \<Rightarrow> net_addr option" where
  "tcp_RemoteAddr c = sc_remote c"

definition tcp_Reader :: "'p stream_conn \<Rightarrow> nat option" where
  "tcp_Reader c = sc_reader c"

definition tcp_SetReader :: "nat option \<Rightarrow> 'p stream_conn \<Rightarrow> 'p stream_conn" where
  "tcp_SetReader r c = c\<lparr>sc_reader := r\<rparr>"

definition tcp_DispatchReceive :: "'p stream_conn \<Rightarrow> HeaderTcp option \<Rightarrow> byte list \<Rightarrow> (nat \<times> HeaderTcp option \<times> byte list) option" where
  "tcp_DispatchReceive c h payload =
     (case sc_recvH c of None \<Rightarrow> None | Some recv \<Rightarrow> Some (recv, h, payload))"

text \<open>
  \<open>Send\<close> and \<open>SendWithHeader\<close> write with a single call and look only at the error, unlike the other transports,
  which loop until everything is written.
\<close>

definition tcp_Send :: "'s net_conn \<Rightarrow> 's \<Rightarrow> byte list \<Rightarrow> 's \<times> error option" where
  "tcp_Send nc s data = (case nc_Write nc s data of (s', _, err) \<Rightarrow> (s', err))"

definition tcp_SendWithHeader ::
  "'s net_conn \<Rightarrow> 's \<Rightarrow> iheader option \<Rightarrow> byte list \<Rightarrow> codec option \<Rightarrow> ('s \<times> error option) outcome" where
  "tcp_SendWithHeader nc s hdr payload codec =
     (case codec of
        None \<Rightarrow> Ret (s, Some ErrNoProgress)
      | Some c \<Rightarrow>
          (case (case c of TcpCodec \<Rightarrow> Encode hdr payload | OtherCodec enc \<Rightarrow> Ret (enc hdr payload)) of
             Panic \<Rightarrow> Panic
           | Ret (Inl err) \<Rightarrow> Ret (s, Some err)
           | Ret (Inr frame) \<Rightarrow> (case nc_Write nc s frame of (s', _, err) \<Rightarrow> Ret (s', err))))"


section \<open>QUIC\<close>

definition quic_OnReceive :: "nat option \<Rightarrow> 'p stream_conn \<Rightarrow> 'p stream_conn" where
  "quic_OnReceive h c = c\<lparr>sc_recvH := h\<rparr>"

definition quic_SetMeta :: "string \<Rightarrow> any \<Rightarrow> 'p stream_conn \<Rightarrow> 'p stream_conn" where
  "quic_SetMeta key val c = c\<lparr>sc_meta := AList.update key val (sc_meta c)\<rparr>"

definition quic_GetMeta :: "string \<Rightarrow> 'p stream_conn \<Rightarrow> any option" where
  "quic_GetMeta key c = map_of (sc_meta c) key"

fun quic_copy :: "(string \<times> any) list \<Rightarrow> (string \<times> any) list \<Rightarrow> (string \<times> any) list" where
  "quic_copy cp [] = cp"
| "quic_copy cp ((k, v) # order) = quic_copy (AList.update k v cp) order"

definition quic_Metadata :: "(string \<times> any) list \<Rightarrow> (string \<times> any) list" where
  "quic_Metadata order = quic_copy [] order"

definition quic_LocalAddr :: "'p stream_conn \<Rightarrow> net_addr option" where
  "quic_LocalAddr c = sc_local c"

definition quic_RemoteAddr :: "'p stream_conn \<Rightarrow> net_addr option" where
  "quic_RemoteAddr c = sc_remote c"

definition quic_Reader :: "'p stream_conn \<Rightarrow> nat option" where
  "quic_Reader c = sc_reader c"

definition quic_SetReader :: "nat option \<Rightarrow> 'p stream_conn \<Rightarrow> 'p stream_conn" where
  "quic_SetReader r c = c\<lparr>sc_reader := r\<rparr>"

definition quic_DispatchReceive :: "'p stream_conn \<Rightarrow> HeaderTcp option \<Rightarrow> byte list \<Rightarrow> (nat \<times> HeaderTcp option \<times> byte list) option" where
  "quic_DispatchReceive c h payload =
     (case sc_recvH c of None \<Rightarrow> None | Some recv \<Rightarrow> Some (recv, h, payload))"

definition quic_Send :: "'s writer option \<Rightarrow> 's \<Rightarrow> byte list \<Rightarrow> ('s \<times> error option) outcome option" where
  "quic_Send pipe s data = WriteAll pipe s data"

definition quic_SendWithHeader ::
  "'s writer option \<Rightarrow> 's \<Rightarrow> iheader option \<Rightarrow> byte list \<Rightarrow> codec option \<Rightarrow> ('s \<times> error option) outcome option" where
  "quic_SendWithHeader pipe s hdr payload codec =
     (case codec of
        None \<Rightarrow> Some (Ret (s, Some ErrNoProgress))
      | Some c \<Rightarrow>
          (case (case c of TcpCodec \<Rightarrow> Encode hdr payload | OtherCodec enc \<Rightarrow> Ret (enc hdr payload)) of
             Panic \<Rightarrow> Some Panic
           | Ret (Inl err) \<Rightarrow> Some (Ret (s, Some err))
           | Ret (Inr frame) \<Rightarrow> WriteAll pipe s frame))"


section \<open>The interface\<close>

text \<open>The calls a client makes on a connection, and what each returns to it.\<close>

datatype conn_call =
    CallOnReceive "nat option"
  | CallSetMeta string any
  | CallGetMeta string
  | CallMetadata
  | CallSetReader "nat option"
  | CallReader
  | CallDispatchReceive "HeaderTcp option" "byte list"

datatype conn_answer =
    NoAnswer
  | MetaAnswer "any option"
  | MapAnswer "string \<rightharpoonup> any"
  | ReaderAnswer "nat option"
  | HandlerCalled "(nat \<times> HeaderTcp option \<times> byte list) option"

record 'c conn_ops =
  op_OnReceive :: "nat option \<Rightarrow> 'c \<Rightarrow> 'c"
  op_SetMeta :: "string \<Rightarrow> any \<Rightarrow> 'c \<Rightarrow> 'c"
  op_GetMeta :: "string \<Rightarrow> 'c \<Rightarrow> any option"
  op_Metadata :: "'c \<Rightarrow> string \<rightharpoonup> any"
  op_SetReader :: "nat option \<Rightarrow> 'c \<Rightarrow> 'c"
  op_Reader :: "'c \<Rightarrow> nat option"
  op_DispatchReceive :: "'c \<Rightarrow> HeaderTcp option \<Rightarrow> byte list \<Rightarrow> (nat \<times> HeaderTcp option \<times> byte list) option"

fun conn_call_result :: "'c conn_ops \<Rightarrow> conn_call \<Rightarrow> 'c \<Rightarrow> conn_answer \<times> 'c" where
  "conn_call_result ops (CallOnReceive h) c = (NoAnswer, op_OnReceive ops h c)"
| "conn_call_result ops (CallSetMeta k v) c = (NoAnswer, op_SetMeta ops k v c)"
| "conn_call_result ops (CallGetMeta k) c = (MetaAnswer (op_GetMeta ops k c), c)"
| "conn_call_result ops CallMetadata c = (MapAnswer (op_Metadata ops c), c)"
| "conn_call_result ops (CallSetReader r) c = (NoAnswer, op_SetReader ops r c)"
| "conn_call_result ops CallReader c = (ReaderAnswer (op_Reader ops c), c)"
| "conn_call_result ops (CallDispatchReceive h pl) c = (HandlerCalled (op_DispatchReceive ops c h pl), c)"

fun conn_answers :: "'c conn_ops \<Rightarrow> conn_call list \<Rightarrow> 'c \<Rightarrow> conn_answer list" where
  "conn_answers ops [] c = []"
| "conn_answers ops (x # xs) c = (let (a, c') = conn_call_result ops x c in a # conn_answers ops xs c')"

text \<open>The specification: a connection is a map, a handler and a reader.\<close>

record conn_spec =
  sp_meta :: "string \<rightharpoonup> any"
  sp_recvH :: "nat option"
  sp_reader :: "nat option"

definition spec_ops :: "conn_spec conn_ops" where
  "spec_ops = \<lparr>op_OnReceive = (\<lambda>h c. c\<lparr>sp_recvH := h\<rparr>), op_SetMeta = (\<lambda>k v c. c\<lparr>sp_meta := (sp_meta c)(k \<mapsto> v)\<rparr>),
     op_GetMeta = (\<lambda>k c. sp_meta c k), op_Metadata = sp_meta, op_SetReader = (\<lambda>r c. c\<lparr>sp_reader := r\<rparr>),
     op_Reader = sp_reader, op_DispatchReceive = (\<lambda>c h pl. map_option (\<lambda>recv. (recv, h, pl)) (sp_recvH c))\<rparr>"

text \<open>
  The contract: on the connections that satisfy \<open>ok\<close>, which every call keeps, the operations are those of the
  specification as seen through \<open>view\<close>.
\<close>

locale connection_contract =
  fixes ops :: "'c conn_ops" and view :: "'c \<Rightarrow> conn_spec" and ok :: "'c \<Rightarrow> bool"
  assumes keeps:
      "ok c \<Longrightarrow> ok (op_OnReceive ops h c)" "ok c \<Longrightarrow> ok (op_SetMeta ops k v c)" "ok c \<Longrightarrow> ok (op_SetReader ops r c)"
    and updates:
      "ok c \<Longrightarrow> view (op_OnReceive ops h c) = (view c)\<lparr>sp_recvH := h\<rparr>"
      "ok c \<Longrightarrow> view (op_SetMeta ops k v c) = (view c)\<lparr>sp_meta := (sp_meta (view c))(k \<mapsto> v)\<rparr>"
      "ok c \<Longrightarrow> view (op_SetReader ops r c) = (view c)\<lparr>sp_reader := r\<rparr>"
    and reads:
      "ok c \<Longrightarrow> op_GetMeta ops k c = sp_meta (view c) k"
      "ok c \<Longrightarrow> op_Metadata ops c = sp_meta (view c)"
      "ok c \<Longrightarrow> op_Reader ops c = sp_reader (view c)"
      "ok c \<Longrightarrow> op_DispatchReceive ops c hdr pl = map_option (\<lambda>recv. (recv, hdr, pl)) (sp_recvH (view c))"
begin

lemma call_refines:
  assumes "ok c" "conn_call_result ops x c = (a, c')"
  shows "conn_call_result spec_ops x (view c) = (a, view c') \<and> ok c'"
  using assms by (cases x) (auto simp: spec_ops_def updates reads keeps)

lemma answers_refine: "ok c \<Longrightarrow> conn_answers ops xs c = conn_answers spec_ops xs (view c)"
proof (induction xs arbitrary: c)
  case (Cons x xs)
  obtain a c' where r: "conn_call_result ops x c = (a, c')" by fastforce
  then show ?case using Cons.IH[of c'] call_refines[OF Cons.prems r] by (simp add: Let_def)
qed simp

end

definition stream_view :: "'p stream_conn \<Rightarrow> conn_spec" where
  "stream_view c = \<lparr>sp_meta = map_of (sc_meta c), sp_recvH = sc_recvH c, sp_reader = sc_reader c\<rparr>"

definition tcp_ops :: "'p stream_conn conn_ops" where
  "tcp_ops = \<lparr>op_OnReceive = tcp_OnReceive, op_SetMeta = tcp_SetMeta, op_GetMeta = tcp_GetMeta,
     op_Metadata = (\<lambda>c. map_of (tcp_Metadata (sc_meta c))), op_SetReader = tcp_SetReader, op_Reader = tcp_Reader,
     op_DispatchReceive = tcp_DispatchReceive\<rparr>"

definition quic_ops :: "'p stream_conn conn_ops" where
  "quic_ops = \<lparr>op_OnReceive = quic_OnReceive, op_SetMeta = quic_SetMeta, op_GetMeta = quic_GetMeta,
     op_Metadata = (\<lambda>c. map_of (quic_Metadata (sc_meta c))), op_SetReader = quic_SetReader, op_Reader = quic_Reader,
     op_DispatchReceive = quic_DispatchReceive\<rparr>"

definition rfcomm_ops :: "'p stream_conn conn_ops" where
  "rfcomm_ops = \<lparr>op_OnReceive = stream_OnReceive, op_SetMeta = stream_SetMeta, op_GetMeta = stream_GetMeta,
     op_Metadata = (\<lambda>c. map_of (stream_Metadata (sc_meta c))), op_SetReader = stream_SetReader, op_Reader = sc_reader,
     op_DispatchReceive = stream_DispatchReceive\<rparr>"

definition stream_ok :: "'p stream_conn \<Rightarrow> bool" where
  "stream_ok c \<longleftrightarrow> distinct (map fst (sc_meta c))"

lemma copy_eq_fold:
  "tcp_copy cp order = fold (\<lambda>(k, v) cp. AList.update k v cp) order cp"
  "quic_copy cp order = fold (\<lambda>(k, v) cp. AList.update k v cp) order cp"
  by (induction order arbitrary: cp) auto

lemma Metadata_copies:
  assumes "distinct (map fst order)"
  shows "tcp_Metadata order = order" "quic_Metadata order = order"
  using stream_Metadata_copies[OF assms] by (simp_all add: tcp_Metadata_def quic_Metadata_def copy_eq_fold stream_Metadata_def)

lemmas stream_contract_simps = stream_view_def stream_ok_def update_conv' distinct_update Metadata_copies stream_Metadata_copies

lemmas tcp_method_defs = tcp_OnReceive_def tcp_SetMeta_def tcp_GetMeta_def tcp_SetReader_def tcp_Reader_def
  tcp_DispatchReceive_def
lemmas quic_method_defs = quic_OnReceive_def quic_SetMeta_def quic_GetMeta_def quic_SetReader_def quic_Reader_def
  quic_DispatchReceive_def
lemmas rfcomm_method_defs = stream_OnReceive_def stream_SetMeta_def stream_GetMeta_def stream_SetReader_def
  stream_DispatchReceive_def

interpretation tcp_contract: connection_contract tcp_ops stream_view stream_ok
  by unfold_locales (simp_all add: tcp_ops_def tcp_method_defs stream_contract_simps split: option.split)

interpretation quic_contract: connection_contract quic_ops stream_view stream_ok
  by unfold_locales (simp_all add: quic_ops_def quic_method_defs stream_contract_simps split: option.split)

interpretation rfcomm_contract: connection_contract rfcomm_ops stream_view stream_ok
  by unfold_locales (simp_all add: rfcomm_ops_def rfcomm_method_defs stream_contract_simps)

definition fresh_spec :: conn_spec where
  "fresh_spec = \<lparr>sp_meta = (\<lambda>_. None), sp_recvH = None, sp_reader = None\<rparr>"

lemma fresh_view:
  "stream_ok (NewTCPConnection l r p) \<and> stream_view (NewTCPConnection l r p) = fresh_spec"
  "numbered_conn pre pipe l' r' seq = (Inr c, seq') \<Longrightarrow> stream_ok c \<and> stream_view c = fresh_spec"
  by (auto simp: NewTCPConnection_def numbered_conn_def Let_def stream_ok_def stream_view_def fresh_spec_def split: option.splits)


section \<open>Properties\<close>

text \<open>
  A client cannot tell the transports apart. Whatever calls a client makes on a new connection, in whatever
  order (metadata, receive handler, reader, dispatching a frame), a TCP, a QUIC and an RFCOMM connection give
  the same answers, those of a map, a handler and a reader that start empty.
\<close>

theorem transports_answer_alike:
  assumes "NewQUICConnection qp ql qr qseq = (Inr q, qseq')" "NewRFCOMMConnection rp rl rr rseq = (Inr r, rseq')"
  shows "conn_answers tcp_ops calls (NewTCPConnection la ra tp) = conn_answers spec_ops calls fresh_spec
       \<and> conn_answers quic_ops calls q = conn_answers spec_ops calls fresh_spec
       \<and> conn_answers rfcomm_ops calls r = conn_answers spec_ops calls fresh_spec"
proof (intro conjI)
  note q = fresh_view(2)[OF assms(1)[unfolded NewQUICConnection_def]]
    and r = fresh_view(2)[OF assms(2)[unfolded NewRFCOMMConnection_def]]
  show "conn_answers tcp_ops calls (NewTCPConnection la ra tp) = conn_answers spec_ops calls fresh_spec"
    using tcp_contract.answers_refine[of "NewTCPConnection la ra tp" calls] fresh_view(1)[of la ra tp] by simp
  show "conn_answers quic_ops calls q = conn_answers spec_ops calls fresh_spec"
    using quic_contract.answers_refine[of q calls] q by simp
  show "conn_answers rfcomm_ops calls r = conn_answers spec_ops calls fresh_spec"
    using rfcomm_contract.answers_refine[of r calls] r by simp
qed

abbreviation ex_calls :: "conn_call list" where
  "ex_calls \<equiv> [CallDispatchReceive None [1], CallOnReceive (Some 3), CallSetMeta ''role'' (VString ''child''), CallGetMeta ''role'',
              CallDispatchReceive None [2]]"

theorem transports_answer_alike_witness:
  "conn_answers tcp_ops ex_calls (NewTCPConnection ''a'' ''b'' (7::nat)) =
     [HandlerCalled None, NoAnswer, NoAnswer, MetaAnswer (Some (VString ''child'')), HandlerCalled (Some (3, None, [2]))]"
proof -
  obtain q r where "NewQUICConnection (Some (1::nat)) None None 0 = (Inr q, 1)" "NewRFCOMMConnection (Some (2::nat)) None None 0 = (Inr r, 1)"
    by (simp add: NewQUICConnection_def NewRFCOMMConnection_def numbered_conn_def)
  from transports_answer_alike[OF this, of ex_calls "''a''" "''b''" "7 :: nat"]
  have "conn_answers tcp_ops ex_calls (NewTCPConnection ''a'' ''b'' (7::nat)) = conn_answers spec_ops ex_calls fresh_spec"
    by (rule conjunct1)
  then show ?thesis
    by (simp only:) (simp add: spec_ops_def fresh_spec_def)
qed

text \<open>
  A frame goes out whole over TCP as well. \<open>Send\<close> and \<open>SendWithHeader\<close> of a TCP connection call \<open>Write\<close> once. If the
  \<open>net.Conn\<close> keeps the contract of \<open>io.Writer\<close>, including that a short write reports an error, a call that returns no
  error has written all the bytes, exactly as the looping methods of the other transports do on the same pipe;
  without a codec nothing is written and the error is \<open>io.ErrNoProgress\<close>.
\<close>

theorem tcp_sends_whole_frame:
  assumes w: "io_writer (nc_Write nc) out"
    and full: "\<And>s d s' n. nc_Write nc s d = (s', n, None) \<Longrightarrow> n = int (length d)"
  shows "(tcp_Send nc s data = (s1, None) \<longrightarrow> out s1 = out s @ data)
       \<and> (tcp_SendWithHeader nc s hdr payload (Some cd) = Ret (s2, None) \<longrightarrow>
            (\<exists>frame. (case cd of TcpCodec \<Rightarrow> Encode hdr payload | OtherCodec enc \<Rightarrow> Ret (enc hdr payload)) = Ret (Inr frame)
               \<and> out s2 = out s @ frame
               \<and> (\<forall>s3. quic_SendWithHeader (Some (nc_Write nc)) s hdr payload (Some cd) = Some (Ret (s3, None)) \<longrightarrow>
                    out s3 = out s2)))
       \<and> tcp_SendWithHeader nc s hdr payload None = Ret (s, Some ErrNoProgress)"
proof -
  have one: "out s' = out s @ d" if "nc_Write nc s d = (s', n, None)" for d s' n
    using io_writer.count_written[OF w that] full[OF that] by simp
  have loop: "out s3 = out s @ frame" if "WriteAll (Some (nc_Write nc)) s frame = Some (Ret (s3, None))" for frame s3
    using io_writer.write_loop_returns[OF w, of s frame] that by (auto simp: WriteAll_def)
  show ?thesis
    using one loop
    by (auto simp: tcp_Send_def tcp_SendWithHeader_def quic_SendWithHeader_def split: prod.splits outcome.splits sum.splits)
qed

definition ex_net :: "byte list net_conn" where
  "ex_net = \<lparr>nc_Read = (\<lambda>s n. (drop n s, take n s, None)), nc_Write = (\<lambda>s d. (s @ d, int (length d), None)), nc_Close = (\<lambda>s. (s, None))\<rparr>"

theorem tcp_sends_whole_frame_witness: "tcp_Send ex_net [1] [2, 3] = ([1, 2, 3], None) \<and> id (fst (tcp_Send ex_net [1] [2, 3])) = [1] @ [2, 3]"
proof -
  have "io_writer (nc_Write ex_net) id"
    by unfold_locales (auto simp: ex_net_def)
  moreover have "n = int (length d)" if "nc_Write ex_net s d = (s', n, None)" for s d s' n
    using that by (simp add: ex_net_def)
  moreover have "tcp_Send ex_net [1] [2, 3] = ([1, 2, 3], None)"
    by (simp add: tcp_Send_def ex_net_def)
  ultimately show ?thesis
    using tcp_sends_whole_frame[of ex_net id "[1]" "[2, 3]" "[1, 2, 3]"] by simp
qed

end
