(* ===== verification/Listener_Objects.thy ===== *)
theory Listener_Objects
  imports Listeners Rfcomm_Native
begin

text \<open>
  The listener objects as their users see them (\<^verbatim>\<open>tcp_listener/listener.go\<close>, \<^verbatim>\<open>quic_listener/listener.go\<close>,
  \<^verbatim>\<open>rfcomm_listener/listener.go\<close>): construction, \<open>Protocol\<close>, \<open>Addr\<close> and \<open>Close\<close>, beside the accept loops of
  \<open>Listeners\<close>; and the package state behind the native RFCOMM layers: the Android provider and the start of Winsock.
\<close>

section \<open>Listener objects\<close>

text \<open>
  \<open>ob_ln\<close> is the open socket or native listener, once \<open>Listen\<close> has one. \<open>close\<close> is its own \<open>Close\<close>; the first component
  of a result of \<open>Close\<close> is the error it returns.
\<close>

record ('o, 'n) listener_object =
  ob_opts :: 'o
  ob_ln :: "'n option"
  ob_closed :: bool

definition tcp_object :: "string \<Rightarrow> tcp_Options list \<Rightarrow> (tcp_Options, 'n) listener_object" where
  "tcp_object addr opts = \<lparr>ob_opts = tcp_New addr opts, ob_ln = None, ob_closed = False\<rparr>"

definition tcp_Protocol :: string where "tcp_Protocol = ''tcp''"

definition tcp_Addr :: "('n \<Rightarrow> net_addr) \<Rightarrow> (tcp_Options, 'n) listener_object \<Rightarrow> net_addr option" where
  "tcp_Addr addr_of l = map_option addr_of (ob_ln l)"

definition tcp_listener_Close ::
  "('n \<Rightarrow> error option) \<Rightarrow> (tcp_Options, 'n) listener_object \<Rightarrow> error option \<times> (tcp_Options, 'n) listener_object" where
  "tcp_listener_Close close l =
     (let l1 = l\<lparr>ob_closed := True\<rparr> in case ob_ln l1 of Some n \<Rightarrow> (close n, l1) | None \<Rightarrow> (None, l1))"

definition quic_New :: "quic_Options \<Rightarrow> (quic_Options, 'n) listener_object" where
  "quic_New opts = \<lparr>ob_opts = quic_Options_setDefaults opts, ob_ln = None, ob_closed = False\<rparr>"

definition quic_Protocol :: string where "quic_Protocol = ''quic''"

definition quic_listener_Addr :: "('n \<Rightarrow> string) \<Rightarrow> (quic_Options, 'n) listener_object \<Rightarrow> net_addr option" where
  "quic_listener_Addr addr_of l =
     (case ob_ln l of
        None \<Rightarrow> None
      | Some n \<Rightarrow> Some (QuicAddr \<lparr>qa_Address = addr_of n, qa_ALPN = ql_ALPN (ob_opts l), qa_Role = ''listen''\<rparr>))"

definition quic_listener_Close ::
  "('n \<Rightarrow> error option) \<Rightarrow> (quic_Options, 'n) listener_object \<Rightarrow> error option \<times> (quic_Options, 'n) listener_object" where
  "quic_listener_Close close l =
     (let l1 = l\<lparr>ob_closed := True\<rparr> in case ob_ln l1 of Some n \<Rightarrow> (close n, l1) | None \<Rightarrow> (None, l1))"

text \<open>The settings of the QUIC transport, in nanoseconds: the keep-alive period and the idle time-out.\<close>

definition defaultQUICConfig :: "int \<times> int" where
  "defaultQUICConfig = (15 * 1000000000, 60 * 1000000000)"

definition rfcomm_object :: "(string \<Rightarrow> string) \<Rightarrow> rfcomm_Options \<Rightarrow> (rfcomm_Options, 'n) listener_object" where
  "rfcomm_object ulow opts = \<lparr>ob_opts = rfcomm_New ulow opts, ob_ln = None, ob_closed = False\<rparr>"

definition rfcomm_Protocol :: string where "rfcomm_Protocol = ''rfcomm''"

definition rfcomm_listener_Addr :: "('n \<Rightarrow> net_addr option) \<Rightarrow> (rfcomm_Options, 'n) listener_object \<Rightarrow> net_addr option" where
  "rfcomm_listener_Addr addr_of l = (case ob_ln l of Some n \<Rightarrow> addr_of n | None \<Rightarrow> None)"

definition rfcomm_listener_Close ::
  "('n \<Rightarrow> error option) \<Rightarrow> (rfcomm_Options, 'n) listener_object \<Rightarrow> error option \<times> (rfcomm_Options, 'n) listener_object" where
  "rfcomm_listener_Close close l =
     (let l1 = l\<lparr>ob_closed := True\<rparr> in case ob_ln l1 of Some n \<Rightarrow> (close n, l1) | None \<Rightarrow> (None, l1))"

definition androidListener_Addr :: "string \<times> int \<times> 'l \<Rightarrow> net_addr" where
  "androidListener_Addr a =
     (case a of (uuid, channel, _) \<Rightarrow> RfcommAddr \<lparr>ad_BDAddr = [], ad_UUID = uuid, ad_Channel = channel, ad_Role = ''listen''\<rparr>)"

definition winListener_Addr :: "winListener \<Rightarrow> net_addr" where
  "winListener_Addr l =
     RfcommAddr \<lparr>ad_BDAddr = [], ad_UUID = wl_uuid l, ad_Channel = wl_channel l, ad_Role = ''listen''\<rparr>"


section \<open>Package state\<close>

text \<open>The package variable \<open>androidProvider\<close>; a nil provider unsets it.\<close>

definition SetAndroidRFCOMMProvider ::
  "('p, 'l) android_provider option \<Rightarrow> ('p, 'l) android_provider option \<Rightarrow> ('p, 'l) android_provider option" where
  "SetAndroidRFCOMMProvider p androidProvider = p"

text \<open>
  \<open>ensureWSA\<close>: a \<open>sync.Once\<close> around \<open>WSAStartup\<close>, whose result is kept for all later calls. \<open>startup\<close> is what
  \<open>WSAStartup\<close> answers to the requested version if it is called now.
\<close>

record wsa_state =
  wsaDone :: bool
  wsaInitErr :: "error option"
  wsaStarts :: "u16 list"

definition ensureWSA :: "(u16 \<Rightarrow> error option) \<Rightarrow> wsa_state \<Rightarrow> error option \<times> wsa_state" where
  "ensureWSA startup st =
     (let st1 = (if wsaDone st then st
                 else st\<lparr>wsaDone := True, wsaInitErr := startup 0x0202, wsaStarts := wsaStarts st @ [0x0202]\<rparr>)
      in (wsaInitErr st1, st1))"

fun ensureWSA_all :: "(u16 \<Rightarrow> error option) list \<Rightarrow> wsa_state \<Rightarrow> error option list \<times> wsa_state" where
  "ensureWSA_all [] st = ([], st)"
| "ensureWSA_all (f # fs) st =
     (case ensureWSA f st of (e, st') \<Rightarrow> case ensureWSA_all fs st' of (es, st'') \<Rightarrow> (e # es, st''))"

text \<open>The option that \<open>setSockSendTimeout\<close> sets, if any; the error of \<open>SetsockoptInt\<close> is ignored.\<close>

definition setSockSendTimeout :: "int option \<Rightarrow> int \<Rightarrow> (int \<times> int) option" where
  "setSockSendTimeout sock timeoutMs = (case sock of None \<Rightarrow> None | Some s \<Rightarrow> if timeoutMs \<le> 0 then None else Some (s, timeoutMs))"


section \<open>Properties\<close>

lemma ensureWSA_done: "wsaDone st \<Longrightarrow> ensureWSA_all fs st = (replicate (length fs) (wsaInitErr st), st)"
  by (induction fs) (simp_all add: ensureWSA_def)

text \<open>
  Winsock is started once. However often \<open>ensureWSA\<close> is called, \<open>WSAStartup\<close> runs exactly once, with version 2.2, and
  every call returns its result: a failed start is never tried again.
\<close>

theorem winsock_starts_once:
  "ensureWSA_all (f # fs) \<lparr>wsaDone = False, wsaInitErr = None, wsaStarts = []\<rparr> =
     (replicate (Suc (length fs)) (f 0x0202), \<lparr>wsaDone = True, wsaInitErr = f 0x0202, wsaStarts = [0x0202]\<rparr>)"
  by (simp add: ensureWSA_def ensureWSA_done)

text \<open>
  A closed listener stays closed. After \<open>Close\<close>, whatever it returned, \<open>Listen\<close> of the same object refuses to start:
  it returns an error, accepts nothing and leaves the manager as it is. A fresh object has no address; after
  \<open>Close\<close> the address is the one it had.
\<close>

theorem closed_listener_refuses:
  fixes w :: "'x world_scheme"
  shows "(\<exists>e. tcp_Listen ulow env (ob_closed (snd (tcp_listener_Close close lt))) (ob_opts lt) res evs w = (Some (Return (Some e)), w))
   \<and> (\<exists>e. quic_Listen tls env (ob_closed (snd (quic_listener_Close close' lq))) has_cm (ob_opts lq) LA qevs (seq, w) =
        (Some (Return (Some e)), seq, w))
   \<and> (\<exists>e. rfcomm_Listen env (ob_closed (snd (rfcomm_listener_Close close'' lr))) has_cm (ob_opts lr) nat_res revs (seq, w) =
        (Some (Return (Some e)), seq, w))
   \<and> tcp_Addr addr_of (snd (tcp_listener_Close close lt)) = tcp_Addr addr_of lt
   \<and> tcp_Addr addr_of (tcp_object addr opts) = None"
  by (simp add: tcp_listener_Close_def quic_listener_Close_def rfcomm_listener_Close_def Let_def tcp_Listen_def quic_Listen_def
      rfcomm_Listen_def tcp_Addr_def tcp_object_def split: option.split)

text \<open>The provider that was set last is the one dialling uses; unsetting it makes dialling fail without a call.\<close>

lemma provider_set_get:
  "getAndroidRFCOMMProvider (SetAndroidRFCOMMProvider (Some p) old) = Inr p"
  "android_dialNative (SetAndroidRFCOMMProvider None old) opts = Inl (Err ''android rfcomm provider not set'')"
  by (simp_all add: SetAndroidRFCOMMProvider_def getAndroidRFCOMMProvider_def android_dialNative_def)

end
