(* ===== verification/Process_Hooks.thy ===== *)
theory Process_Hooks
  imports Dispatcher
begin

text \<open>
  The life-cycle hooks of the processing pipeline: those of \<open>SimpleProcess\<close> (process/simple.go) and of
  \<open>PreRoutingProcess\<close> (process/prerouting.go), and the dispatcher (process/dispatcher.go) that hands them on to
  its base process. What a hook does is the line it logs.
\<close>

section \<open>Life-cycle hooks\<close>

text \<open>
  The hooks of \<open>SimpleProcess\<close> and \<open>PreRoutingProcess\<close> write a line to the log with the id of the connection; a nil
  connection panics. \<open>hp\<close> gives the ids, \<open>remote\<close> the printed remote addresses.
\<close>

datatype log_level = LevelInfo | LevelDebug

record log_line =
  level :: log_level
  message :: string
  attrs :: "(string \<times> string) list"

definition log_conn ::
  "(cref \<Rightarrow> conn) \<Rightarrow> log_level \<Rightarrow> string \<Rightarrow> (cref \<Rightarrow> (string \<times> string) list) \<Rightarrow> cref option \<Rightarrow> log_line outcome" where
  "log_conn hp lv txt extra conn =
     (case conn of
        None \<Rightarrow> Panic
      | Some c \<Rightarrow> Ret \<lparr>level = lv, message = txt, attrs = (''id'', conn_ID (hp c)) # extra c\<rparr>)"

definition Simple_OnListen :: "(cref \<Rightarrow> conn) \<Rightarrow> (cref \<Rightarrow> string) \<Rightarrow> cref option \<Rightarrow> log_line outcome" where
  "Simple_OnListen hp remote = log_conn hp LevelInfo ''connection listen'' (\<lambda>c. [(''remote'', remote c)])"

definition Simple_OnReceive :: "(cref \<Rightarrow> conn) \<Rightarrow> cref option \<Rightarrow> byte list \<Rightarrow> log_line outcome" where
  "Simple_OnReceive hp conn payload = log_conn hp LevelInfo ''recv'' (\<lambda>_. [(''bytes'', itoa (length payload))]) conn"

definition Simple_OnSend :: "(cref \<Rightarrow> conn) \<Rightarrow> cref option \<Rightarrow> byte list \<Rightarrow> (error option \<times> log_line) outcome" where
  "Simple_OnSend hp conn payload =
     map_outcome (Pair None) (log_conn hp LevelDebug ''send'' (\<lambda>_. [(''bytes'', itoa (length payload))]) conn)"

definition Simple_OnClose :: "(cref \<Rightarrow> conn) \<Rightarrow> cref option \<Rightarrow> log_line outcome" where
  "Simple_OnClose hp = log_conn hp LevelInfo ''connection close'' (\<lambda>_. [])"

definition PreRouting_OnListen :: "(cref \<Rightarrow> conn) \<Rightarrow> (cref \<Rightarrow> string) \<Rightarrow> cref option \<Rightarrow> log_line outcome" where
  "PreRouting_OnListen hp remote = log_conn hp LevelInfo ''new connection'' (\<lambda>c. [(''remote'', remote c)])"

definition PreRouting_OnSend :: "cref option \<Rightarrow> byte list \<Rightarrow> error option" where
  "PreRouting_OnSend conn payload = None"

definition PreRouting_OnClose :: "(cref \<Rightarrow> conn) \<Rightarrow> cref option \<Rightarrow> log_line outcome" where
  "PreRouting_OnClose hp = log_conn hp LevelInfo ''connection closed'' (\<lambda>_. [])"

text \<open>The dispatcher hands the hooks on to its base process, if there is one.\<close>

definition disp_OnListen :: "(cref \<Rightarrow> conn) \<Rightarrow> (cref \<Rightarrow> string) \<Rightarrow> base \<Rightarrow> cref option \<Rightarrow> log_line list outcome" where
  "disp_OnListen hp remote b conn =
     (case b of
        NoBase \<Rightarrow> Ret []
      | PreRouteBase _ \<Rightarrow> map_outcome (\<lambda>l. [l]) (PreRouting_OnListen hp remote conn)
      | ObserverBase \<Rightarrow> map_outcome (\<lambda>l. [l]) (Simple_OnListen hp remote conn))"

definition disp_OnSend ::
  "(cref \<Rightarrow> conn) \<Rightarrow> base \<Rightarrow> cref option \<Rightarrow> byte list \<Rightarrow> (error option \<times> log_line list) outcome" where
  "disp_OnSend hp b conn payload =
     (case b of
        NoBase \<Rightarrow> Ret (None, [])
      | PreRouteBase _ \<Rightarrow> Ret (PreRouting_OnSend conn payload, [])
      | ObserverBase \<Rightarrow> map_outcome (\<lambda>(e, l). (e, [l])) (Simple_OnSend hp conn payload))"

definition disp_OnClose :: "(cref \<Rightarrow> conn) \<Rightarrow> base \<Rightarrow> cref option \<Rightarrow> log_line list outcome" where
  "disp_OnClose hp b conn =
     (case b of
        NoBase \<Rightarrow> Ret []
      | PreRouteBase _ \<Rightarrow> map_outcome (\<lambda>l. [l]) (PreRouting_OnClose hp conn)
      | ObserverBase \<Rightarrow> map_outcome (\<lambda>l. [l]) (Simple_OnClose hp conn))"

lemmas hook_defs = disp_OnListen_def disp_OnSend_def disp_OnClose_def Simple_OnListen_def Simple_OnSend_def
  Simple_OnClose_def Simple_OnReceive_def PreRouting_OnListen_def PreRouting_OnSend_def PreRouting_OnClose_def log_conn_def

text \<open>
  The base processes of the repository never veto. For a connection none of the hooks panics, \<open>OnSend\<close> reports no
  error, so that \<open>Server.Send\<close> goes on to the send dispatcher, and pre-routing through a \<open>SimpleProcess\<close> lets
  every frame through exactly when its \<open>OnReceive\<close> returns.
\<close>

theorem base_process_never_vetoes:
  "(\<exists>l. disp_OnListen hp remote b (Some c) = Ret l) \<and> (\<exists>l. disp_OnClose hp b (Some c) = Ret l)
   \<and> (\<exists>l. disp_OnSend hp b (Some c) payload = Ret (None, l))
   \<and> disp_preRoute ObserverBase send srv order porder conn hdr payload w =
       [map_outcome (\<lambda>_. (True, [], w)) (Simple_OnReceive hp conn payload)]"
  by (cases b; cases conn) (simp_all add: hook_defs disp_preRoute_def)

end
