(* ===== verification/Server_Context.thy ===== *)
theory Server_Context
  imports Inbound
begin

text \<open>
  contextutil.go: the server inside a context, and the contexts of the way in. A context is the chain of
  values and cancellations it was built from. The key type \<open>serverCtxKey\<close> is private to the package, so
  no other package can store anything under it; every other key is one of \<open>OtherKey\<close>. The value under the
  key is an \<open>IServer\<close>, possibly a nil one; a value of another type is \<open>VAny\<close>. A nil context is \<open>None\<close>.
\<close>

datatype ctx_key = serverCtxKey | OtherKey string

datatype 'srv ctx_value = VServer "'srv option" | VAny nat

datatype 'srv go_context = Background | WithValue "'srv go_context" ctx_key "'srv ctx_value" | WithCancel "'srv go_context"

fun ctx_Value :: "'srv go_context \<Rightarrow> ctx_key \<Rightarrow> 'srv ctx_value option" where
  "ctx_Value Background k = None"
| "ctx_Value (WithValue c k' v) k = (if k' = k then Some v else ctx_Value c k)"
| "ctx_Value (WithCancel c) k = ctx_Value c k"

text \<open>\<open>context.WithValue\<close> panics when the parent is nil.\<close>

definition WithServerContext :: "'srv go_context option \<Rightarrow> 'srv option \<Rightarrow> 'srv go_context outcome" where
  "WithServerContext ctx srv =
     (case ctx of None \<Rightarrow> Panic | Some c \<Rightarrow> Ret (WithValue c serverCtxKey (VServer srv)))"

text \<open>The type assertion fails on a nil interface value as it does on a value of another type.\<close>

definition ServerFromContext :: "'srv go_context option \<Rightarrow> 'srv option" where
  "ServerFromContext ctx =
     (case ctx of
        None \<Rightarrow> None
      | Some c \<Rightarrow>
          (case ctx_Value c serverCtxKey of
             Some (VServer (Some srv)) \<Rightarrow> Some srv
           | _ \<Rightarrow> None))"

text \<open>
  What \<open>OnReceive\<close> of the dispatcher queues: a nil context is replaced by the background context before
  the event is built. Of the context the dispatcher later asks only for the server.
\<close>

definition OnReceive_event ::
  "'srv go_context option \<Rightarrow> cref option \<Rightarrow> HeaderTcp option \<Rightarrow> byte list \<Rightarrow> dispatchEvent" where
  "OnReceive_event ctx conn hdr payload =
     (let c = (case ctx of None \<Rightarrow> Background | Some c \<Rightarrow> c)
      in \<lparr>ev_srv = (ServerFromContext (Some c) \<noteq> None), ev_conn = conn, ev_hdr = hdr, ev_payload = payload\<rparr>)"

text \<open>
  \<open>Start\<close> derives the server's context from the caller's and puts the server into it; the receive callback
  it installs on each connection puts the server in once more and calls the dispatcher.
\<close>

definition Start_context :: "'srv go_context \<Rightarrow> 'srv \<Rightarrow> 'srv go_context outcome" where
  "Start_context ctx srv = WithServerContext (Some (WithCancel ctx)) (Some srv)"

definition Start_receive ::
  "'srv go_context \<Rightarrow> 'srv \<Rightarrow> cref \<Rightarrow> HeaderTcp \<Rightarrow> byte list \<Rightarrow> dispatchEvent outcome" where
  "Start_receive s_ctx srv c hdr payload =
     (case WithServerContext (Some s_ctx) (Some srv) of
        Panic \<Rightarrow> Panic
      | Ret ctx2 \<Rightarrow> Ret (OnReceive_event (Some ctx2) (Some c) (Some hdr) payload))"


section \<open>Properties\<close>

lemma ServerFromContext_WithServerContext:
  "WithServerContext (Some c) srv = Ret c' \<Longrightarrow> ServerFromContext (Some c') = srv"
  by (auto simp: WithServerContext_def ServerFromContext_def split: option.splits)

lemma ServerFromContext_derived [simp]:
  "ServerFromContext (Some (WithCancel c)) = ServerFromContext (Some c)"
  "ServerFromContext (Some (WithValue c (OtherKey k) v)) = ServerFromContext (Some c)"
  by (simp_all add: ServerFromContext_def)

text \<open>
  Contexts derived from another one, as requests and time-outs derive them: cancellations and values
  of other packages.
\<close>

inductive derived :: "'srv go_context \<Rightarrow> 'srv go_context \<Rightarrow> bool" for c where
  self: "derived c c"
| cancel: "derived c d \<Longrightarrow> derived c (WithCancel d)"
| val: "derived c d \<Longrightarrow> derived c (WithValue d (OtherKey k) v)"

lemma derived_server: "derived c d \<Longrightarrow> ServerFromContext (Some d) = ServerFromContext (Some c)"
  by (induction rule: derived.induct) simp_all

text \<open>
  A context gives back the server that was put into it last. Whatever servers the context already held
  and however it is derived further, \<open>ServerFromContext\<close> returns the server of the innermost
  \<open>WithServerContext\<close>, also when that one is nil: it hides the outer server. Without one, and for a nil
  context, there is none; storing a server in a nil context panics. The events of the receive callback
  that \<open>Start\<close> installs therefore always have a server and are those the way in is proved about.
\<close>

theorem context_carries_server:
  assumes "WithServerContext (Some c) srv = Ret c'" "derived c' d"
  shows "ServerFromContext (Some d) = srv"
    and "ServerFromContext (None :: 'srv go_context option) = None"
    and "WithServerContext (None :: 'srv go_context option) srv' = Panic"
    and "Start_context c s = Ret sc \<Longrightarrow> ServerFromContext (Some sc) = Some s
           \<and> Start_receive sc s cr h pl = Ret (inbound cr (h, pl))"
  using ServerFromContext_WithServerContext[OF assms(1)] derived_server[OF assms(2)]
  by (auto simp: Start_context_def Start_receive_def OnReceive_event_def WithServerContext_def inbound_def
      ServerFromContext_def[of None] ServerFromContext_def[of "Some (WithValue _ _ _)"])

end
