(* ===== verification/Worker_Pool.thy ===== *)
theory Worker_Pool
  imports Server_Context "HOL-Library.Multiset"
begin

text \<open>
  The worker pool of the receive dispatcher (process/dispatcher.go): what a worker does with an event it has
  taken, and the pool as a state machine in which any number of workers per queue interleave with arriving
  frames, registrations and the shutdown.

  The \<open>OnReceive\<close> of a handler is code of the application. It is an argument \<open>onrecv\<close>: an arbitrary function
  that gets the handler, the event and the state of the program, and returns or panics with a new state. The
  state is the connection table and heap of the model, extended by whatever the application keeps (the type
  variable of the record scheme). The method \<open>Send\<close> of the server, which pre-routing calls, is the argument
  \<open>send\<close>, with the list of its possible outcomes. The \<open>disp_step\<close> machine of \<open>Dispatcher\<close> is the abstraction of the pool that
  forgets the workers.
\<close>

section \<open>Handling one event\<close>

type_synonym 'x app = "handler \<Rightarrow> dispatchEvent \<Rightarrow> 'x world_scheme \<Rightarrow> unit outcome \<times> 'x world_scheme"

text \<open>
  \<open>callHandler\<close>: a panic of the handler is recovered and logged with the id of the connection; the effects it
  had before stay. Reading the id of a nil connection panics again, in the deferred function, and nothing
  recovers that.
\<close>

definition callHandler ::
  "'x app \<Rightarrow> handler option \<Rightarrow> dispatchEvent \<Rightarrow> 'x world_scheme \<Rightarrow> unit outcome \<times> 'x world_scheme" where
  "callHandler onrecv h evt w =
     (case h of
        None \<Rightarrow> (Ret (), w)
      | Some sp \<Rightarrow>
          (case onrecv sp evt w of
             (Ret _, w') \<Rightarrow> (Ret (), w')
           | (Panic, w') \<Rightarrow> (case ev_conn evt of None \<Rightarrow> (Panic, w') | Some _ \<Rightarrow> (Ret (), w'))))"

text \<open>
  The whole of \<open>route\<close>: the decision of \<open>Dispatcher.route\<close>, with the calls of \<open>Send\<close>, then the call of the
  handler it selects. Only the handler's panics are recovered; one of \<open>Send\<close> ends the process.
\<close>

definition route_run ::
  "'x app \<Rightarrow> 'x world_scheme send_fn \<Rightarrow> Dispatcher \<Rightarrow> u32 \<Rightarrow> cref list \<Rightarrow> cref list \<Rightarrow> dispatchEvent \<Rightarrow> 'x world_scheme
   \<Rightarrow> (route_result \<times> 'x world_scheme) outcome list" where
  "route_run onrecv send p nodeID order porder evt w =
     bind_outcomes (route p send nodeID order porder evt w)
       (\<lambda>(r, w1). case callHandler onrecv (called r) evt w1 of
                   (Panic, w2) \<Rightarrow> [Panic]
                 | (Ret _, w2) \<Rightarrow> [Ret (r, w2)])"

text \<open>What is left of the state when the selected handler has run.\<close>

definition after_handler :: "'x app \<Rightarrow> handler option \<Rightarrow> dispatchEvent \<Rightarrow> 'x world_scheme \<Rightarrow> 'x world_scheme" where
  "after_handler onrecv h evt w = (case h of None \<Rightarrow> w | Some sp \<Rightarrow> snd (onrecv sp evt w))"

lemma callHandler_conn: "ev_conn evt = Some c \<Longrightarrow> callHandler onrecv h evt w = (Ret (), after_handler onrecv h evt w)"
  by (simp add: callHandler_def after_handler_def split_def split: option.split outcome.split)

lemma route_run_eq:
  assumes "ev_conn evt = Some c"
  shows "route_run onrecv send p nodeID order porder evt w =
    map (map_outcome (\<lambda>(r, w1). (r, after_handler onrecv (called r) evt w1))) (route p send nodeID order porder evt w)"
  unfolding bind_outcomes_return[symmetric] route_run_def
  by (intro bind_outcomes_cong) (simp add: callHandler_conn[OF assms] split_def)

lemma route_run_Ret:
  assumes "Ret (r, w') \<in> set (route_run onrecv send p nodeID order porder evt w)"
  shows "\<exists>w1. Ret (r, w1) \<in> set (route p send nodeID order porder evt w)"
proof -
  obtain q w1 where q: "Ret (q, w1) \<in> set (route p send nodeID order porder evt w)"
    and r: "Ret (r, w') \<in> set (case callHandler onrecv (called q) evt w1 of (Panic, w2) \<Rightarrow> [Panic] | (Ret _, w2) \<Rightarrow> [Ret (q, w2)])"
    using assms by (auto simp: route_run_def)
  obtain x w2 where "callHandler onrecv (called q) evt w1 = (x, w2)" by force
  then have "r = q" using r by (cases x) simp_all
  then show ?thesis using q by blast
qed

text \<open>With a connection, only a call of \<open>Send\<close> for this frame can panic, and \<open>route\<close> ends when those calls do.\<close>

lemma route_panics:
  assumes "Panic \<in> set (route p send nodeID order porder evt w)" "ev_conn evt = Some c"
  shows "\<exists>h r v. ev_hdr evt = Some h \<and> forwarded_req h (ev_payload evt) r \<and> Panic \<in> set (send r v)"
proof -
  have "Panic \<in> set (disp_preRoute (d_base p) send (if ev_srv evt then Some nodeID else None) order porder
      (Some c) (ev_hdr evt) (ev_payload evt) w)"
    using assms by (auto simp: route_def split: prod.split_asm option.split_asm if_split_asm)
  then obtain pr where "Panic \<in> set (PreRoute pr send (if ev_srv evt then Some nodeID else None) order porder
      (Some c) (ev_hdr evt) (ev_payload evt) w)"
    by (auto simp: disp_preRoute_def split: base.splits)
  from PreRoute_panics[OF this] show ?thesis by blast
qed

lemma route_nonempty:
  assumes "\<And>r v. send r v \<noteq> []"
  shows "route p send nodeID order porder evt w \<noteq> []"
  using PreRoute_nonempty[OF assms, where w = w]
  by (simp add: route_def disp_preRoute_def split: prod.split option.split base.split)


section \<open>The pool\<close>

text \<open>
  \<open>busy (i, k)\<close> is the event that worker \<open>k\<close> of queue \<open>i\<close> is handling. The ghost logs hold the events in the order
  they were accepted, per queue in the order they were taken, and per queue in the order their handling ended,
  with what \<open>route\<close> decided. A panic that nothing recovers ends the process (\<open>crashed\<close>).
\<close>

record 'w pool =
  pl_disp :: Dispatcher
  pl_world :: 'w
  busy :: "nat \<times> nat \<Rightarrow> dispatchEvent option"
  pl_accepted :: "dispatchEvent list"
  pl_taken :: "nat \<Rightarrow> dispatchEvent list"
  handled :: "nat \<Rightarrow> (dispatchEvent \<times> route_result) list"
  crashed :: bool

definition idle_worker :: "'w pool \<Rightarrow> nat \<Rightarrow> nat \<Rightarrow> bool" where
  "idle_worker s i k \<longleftrightarrow> int k < workersPerChan (pl_disp s) \<and> busy s (i, k) = None"

text \<open>
  The steps. A frame arrives and is accepted, dropped, or panics; a channel hands an element directly to a
  worker only if the queue is empty and a worker idle. A worker takes an event, and ends its handling: \<open>route\<close>
  looks at the connections and at the handlers registered at that time. The rest of the program may change
  its state at any time. \<open>Shutdown\<close> cancels, the supervisors of the queues close them.
\<close>

inductive pool_step :: "'x app \<Rightarrow> 'x world_scheme send_fn \<Rightarrow> (cref \<Rightarrow> conn) \<Rightarrow> 'x world_scheme pool \<Rightarrow> 'x world_scheme pool \<Rightarrow> bool"
  for onrecv send hp where
  accept: "\<lbrakk>\<not> crashed s; Ret p' \<in> set (disp_OnReceive hp ctx_done waiting evt (pl_disp s)); queues p' \<noteq> queues (pl_disp s);
            \<forall>i. waiting i \<longrightarrow> queues (pl_disp s) ! i = [] \<and> (\<exists>k. idle_worker s i k)\<rbrakk>
           \<Longrightarrow> pool_step onrecv send hp s (s\<lparr>pl_disp := p', pl_accepted := pl_accepted s @ [evt]\<rparr>)"
| dropped: "\<lbrakk>\<not> crashed s; Ret p' \<in> set (disp_OnReceive hp ctx_done waiting evt (pl_disp s)); queues p' = queues (pl_disp s)\<rbrakk>
           \<Longrightarrow> pool_step onrecv send hp s (s\<lparr>pl_disp := p'\<rparr>)"
| receive_panic: "\<lbrakk>\<not> crashed s; Panic \<in> set (disp_OnReceive hp ctx_done waiting evt (pl_disp s))\<rbrakk>
           \<Longrightarrow> pool_step onrecv send hp s (s\<lparr>crashed := True\<rparr>)"
| take_one: "\<lbrakk>\<not> crashed s; idle_worker s i k; worker_take i (pl_disp s) = Some (e, p')\<rbrakk>
           \<Longrightarrow> pool_step onrecv send hp s (s\<lparr>pl_disp := p', busy := (busy s)((i, k) := Some e),
                                      pl_taken := (pl_taken s)(i := pl_taken s i @ [e])\<rparr>)"
| finish: "\<lbrakk>\<not> crashed s; busy s (i, k) = Some e; Ret (r, w') \<in> set (route_run onrecv send (pl_disp s) nodeID order porder e (pl_world s))\<rbrakk>
           \<Longrightarrow> pool_step onrecv send hp s (s\<lparr>pl_world := w', busy := (busy s)((i, k) := None),
                                      handled := (handled s)(i := handled s i @ [(e, r)])\<rparr>)"
| finish_panic: "\<lbrakk>\<not> crashed s; busy s (i, k) = Some e; Panic \<in> set (route_run onrecv send (pl_disp s) nodeID order porder e (pl_world s))\<rbrakk>
           \<Longrightarrow> pool_step onrecv send hp s (s\<lparr>crashed := True\<rparr>)"
| environment: "\<not> crashed s \<Longrightarrow> pool_step onrecv send hp s (s\<lparr>pl_world := w'\<rparr>)"
| cancel: "\<not> crashed s \<Longrightarrow> pool_step onrecv send hp s (s\<lparr>pl_disp := Shutdown_cancel (pl_disp s)\<rparr>)"
| close_one: "\<not> crashed s \<Longrightarrow> pool_step onrecv send hp s (s\<lparr>pl_disp := close_queue i (pl_disp s)\<rparr>)"
| register: "\<not> crashed s \<Longrightarrow> pool_step onrecv send hp s (s\<lparr>pl_disp := snd (RegisterHandler h (pl_disp s))\<rparr>)"
| register_default: "\<not> crashed s \<Longrightarrow> pool_step onrecv send hp s (s\<lparr>pl_disp := RegisterDefaultHandler h (pl_disp s)\<rparr>)"

definition new_pool :: "Dispatcher \<Rightarrow> 'w \<Rightarrow> 'w pool" where
  "new_pool p w = \<lparr>pl_disp = p, pl_world = w, busy = (\<lambda>_. None), pl_accepted = [], pl_taken = (\<lambda>_. []),
                   handled = (\<lambda>_. []), crashed = False\<rparr>"

inductive pool_reachable ::
  "'x app \<Rightarrow> 'x world_scheme send_fn \<Rightarrow> (cref \<Rightarrow> conn) \<Rightarrow> DispatchOptions \<Rightarrow> 'x world_scheme pool \<Rightarrow> bool" for onrecv send hp opts where
  init: "NewDispatcher opts = Inr p \<Longrightarrow> pool_reachable onrecv send hp opts (new_pool p w)"
| step: "pool_reachable onrecv send hp opts s \<Longrightarrow> pool_step onrecv send hp s s' \<Longrightarrow> pool_reachable onrecv send hp opts s'"


section \<open>The pool refines the dispatcher\<close>

definition pool_abs :: "'w pool \<Rightarrow> disp_state" where
  "pool_abs s = \<lparr>disp = pl_disp s, accepted = pl_accepted s, taken = pl_taken s\<rparr>"

lemma pool_abs_sel [simp]:
  "disp (pool_abs s) = pl_disp s" "accepted (pool_abs s) = pl_accepted s" "taken (pool_abs s) = pl_taken s"
  by (simp_all add: pool_abs_def)

lemma pool_abs_upd [simp]:
  "(pool_abs s)\<lparr>disp := p'\<rparr> = pool_abs (s\<lparr>pl_disp := p'\<rparr>)"
  "pool_abs (s\<lparr>busy := b\<rparr>) = pool_abs s" "pool_abs (s\<lparr>pl_world := w\<rparr>) = pool_abs s"
  "pool_abs (s\<lparr>handled := l\<rparr>) = pool_abs s" "pool_abs (s\<lparr>crashed := x\<rparr>) = pool_abs s"
  by (simp_all add: pool_abs_def)

lemma pool_step_refines:
  "pool_step onrecv send hp s s' \<Longrightarrow> pool_abs s' = pool_abs s \<or> disp_step hp (pool_abs s) (pool_abs s')"
proof (induction rule: pool_step.induct)
  case (accept s p' ctx_done waiting evt)
  then have "disp_step hp (pool_abs s) ((pool_abs s)\<lparr>disp := p', accepted := accepted (pool_abs s) @ [evt]\<rparr>)"
    by (intro disp_step.accept) auto
  then show ?case by (simp add: pool_abs_def)
next
  case (dropped s p' ctx_done waiting evt)
  then have "disp_step hp (pool_abs s) ((pool_abs s)\<lparr>disp := p'\<rparr>)"
    by (intro disp_step.dropped) auto
  then show ?case by simp
next
  case (take_one s i k e p')
  then have "disp_step hp (pool_abs s) ((pool_abs s)\<lparr>disp := p', taken := (taken (pool_abs s))(i := taken (pool_abs s) i @ [e])\<rparr>)"
    by (intro disp_step.take_one) auto
  then show ?case by (simp add: pool_abs_def)
next
  case (cancel s)
  then show ?case using disp_step.cancel[of hp "pool_abs s"] by simp
next
  case (close_one s i)
  then show ?case using disp_step.close_one[of hp "pool_abs s" i] by simp
next
  case (register s h)
  then show ?case using disp_step.register[of hp "pool_abs s" h] by simp
next
  case (register_default s h)
  then show ?case using disp_step.register_default[of hp "pool_abs s" h] by simp
qed simp_all

lemma pool_abs_reachable: "pool_reachable onrecv send hp opts s \<Longrightarrow> disp_reachable hp opts (pool_abs s)"
proof (induction rule: pool_reachable.induct)
  case (init p w)
  then show ?case using disp_reachable.init[OF init, of hp] by (simp add: new_pool_def pool_abs_def)
next
  case (step s s')
  then show ?case using pool_step_refines[OF step.hyps(2)] by (auto intro: disp_reachable.step)
qed


section \<open>Conservation of events\<close>

text \<open>Every accepted event is in a queue or has been taken, once.\<close>

definition conserved :: "disp_state \<Rightarrow> bool" where
  "conserved s \<longleftrightarrow>
     mset (accepted s) = (\<Sum>i<length (queues (disp s)). mset (taken s i) + mset (queues (disp s) ! i))"

lemma conserved_step:
  assumes "disp_step hp s s'" "conserved s"
  shows "conserved s'"
  using assms
proof (induction rule: disp_step.induct)
  case (accept p' ctx_done waiting evt s)
  obtain idx c where "0 \<le> idx" "nat idx < length (queues (disp s))" "p' = enqueue (nat idx) evt (touched (disp s) c)"
    using OnReceive_cases[OF accept.hyps(1)] accept.hyps(2) by auto
  then have q: "queues p' = (queues (disp s))[nat idx := queues (disp s) ! nat idx @ [evt]]" "nat idx < length (queues (disp s))"
    by (simp_all add: enqueue_def)
  have "(\<Sum>i<length (queues (disp s)). mset (taken s i) + mset (queues p' ! i)) =
      (\<Sum>i<length (queues (disp s)). mset (taken s i) + mset (queues (disp s) ! i)) + {#evt#}"
    using q by (intro sum_bump[of "nat idx"]) auto
  then show ?case using accept.prems q by (simp add: conserved_def)
next
  case (take_one i s e p')
  obtain es where i: "i < length (queues (disp s))" and q: "queues (disp s) ! i = e # es"
    and p': "p' = (disp s)\<lparr>queues := (queues (disp s))[i := es]\<rparr>"
    using take_one.hyps by (rule worker_take_SomeD)
  have "(\<Sum>j<length (queues (disp s)). mset (((taken s)(i := taken s i @ [e])) j) + mset (queues p' ! j)) =
      (\<Sum>j<length (queues (disp s)). mset (taken s j) + mset (queues (disp s) ! j)) + {#}"
    using i q p' by (intro sum_bump[of i]) auto
  then show ?case using take_one.prems i p' by (simp add: conserved_def)
qed (auto simp: conserved_def Shutdown_cancel_def close_queue_def RegisterHandler_def RegisterDefaultHandler_def Let_def
      split: option.splits)

lemma conserved_reachable: "disp_reachable hp opts s \<Longrightarrow> conserved s"
proof (induction rule: disp_reachable.induct)
  case (init p)
  have "queues p ! i = []" if "i < length (queues p)" for i
    using init that by (auto simp: NewDispatcher_def Let_def)
  then show ?case by (simp add: conserved_def)
qed (rule conserved_step)

text \<open>The events that the workers of a queue are handling.\<close>

definition pool_workers :: "'w pool \<Rightarrow> nat" where
  "pool_workers s = nat (workersPerChan (pl_disp s))"

definition running :: "'w pool \<Rightarrow> nat \<Rightarrow> dispatchEvent list" where
  "running s i = concat (map (\<lambda>k. case busy s (i, k) of None \<Rightarrow> [] | Some e \<Rightarrow> [e]) [0..<pool_workers s])"

lemma mset_concat_upt: "mset (concat (map f [0..<n])) = (\<Sum>k<n. mset (f k))"
  by (induction n) simp_all

lemma mset_running: "mset (running s i) = (\<Sum>k<pool_workers s. mset (case busy s (i, k) of None \<Rightarrow> [] | Some e \<Rightarrow> [e]))"
  by (simp add: running_def mset_concat_upt)

definition pool_inv :: "'w pool \<Rightarrow> bool" where
  "pool_inv s \<longleftrightarrow>
     1 \<le> pool_workers s
   \<and> (\<forall>i k. busy s (i, k) \<noteq> None \<longrightarrow> k < pool_workers s \<and> i < length (queues (pl_disp s)))
   \<and> (\<forall>i. mset (pl_taken s i) = mset (map fst (handled s i)) + mset (running s i))
   \<and> (pool_workers s = 1 \<longrightarrow> (\<forall>i. pl_taken s i = map fst (handled s i) @ running s i))"

lemma pool_invI:
  assumes "1 \<le> pool_workers s" "\<And>i k. busy s (i, k) \<noteq> None \<Longrightarrow> k < pool_workers s \<and> i < length (queues (pl_disp s))"
    and "\<And>i. mset (pl_taken s i) = mset (map fst (handled s i)) + mset (running s i)"
    and "\<And>i. pool_workers s = 1 \<Longrightarrow> pl_taken s i = map fst (handled s i) @ running s i"
  shows "pool_inv s"
  unfolding pool_inv_def using assms by blast

lemma pool_inv_pl:
  assumes "pool_inv s" "workersPerChan p' = workersPerChan (pl_disp s)" "length (queues p') = length (queues (pl_disp s))"
  shows "pool_inv (s\<lparr>pl_disp := p', pl_accepted := acc\<rparr>)"
  using assms by (simp add: pool_inv_def pool_workers_def running_def)

lemma mset_running_take:
  assumes "k < pool_workers s" "busy s (i, k) = None"
  shows "mset (running (s\<lparr>busy := (busy s)((i, k) := Some e)\<rparr>) j) = mset (running s j) + (if j = i then {#e#} else {#})"
proof (cases "j = i")
  case True
  have "(\<Sum>n<pool_workers s. mset (case ((busy s)((i, k) := Some e)) (i, n) of None \<Rightarrow> [] | Some e \<Rightarrow> [e])) =
      (\<Sum>n<pool_workers s. mset (case busy s (i, n) of None \<Rightarrow> [] | Some e \<Rightarrow> [e])) + {#e#}"
    using assms by (intro sum_bump[of k]) auto
  then show ?thesis using True by (simp add: mset_running pool_workers_def)
next
  case False
  then show ?thesis by (simp add: running_def pool_workers_def)
qed

lemma mset_running_finish:
  assumes "k < pool_workers s" "busy s (i, k) = Some e"
  shows "mset (running s j) = mset (running (s\<lparr>busy := (busy s)((i, k) := None)\<rparr>) j) + (if j = i then {#e#} else {#})"
proof -
  let ?s = "s\<lparr>busy := (busy s)((i, k) := None)\<rparr>"
  have "s = ?s\<lparr>busy := (busy ?s)((i, k) := Some e)\<rparr>"
    using assms(2) by (simp add: fun_upd_idem)
  then show ?thesis
    using mset_running_take[of k ?s i e j] assms(1) by (simp add: pool_workers_def)
qed

lemma running_one: "pool_workers s = 1 \<Longrightarrow> running s i = (case busy s (i, 0) of None \<Rightarrow> [] | Some e \<Rightarrow> [e])"
  by (simp add: running_def)

lemma pool_inv_take:
  assumes inv: "pool_inv s" and k: "idle_worker s i k" and t: "worker_take i (pl_disp s) = Some (e, p')"
  shows "pool_inv (s\<lparr>pl_disp := p', busy := (busy s)((i, k) := Some e), pl_taken := (pl_taken s)(i := pl_taken s i @ [e])\<rparr>)"
proof -
  let ?s' = "s\<lparr>pl_disp := p', busy := (busy s)((i, k) := Some e), pl_taken := (pl_taken s)(i := pl_taken s i @ [e])\<rparr>"
  obtain es where i: "i < length (queues (pl_disp s))" and p': "p' = (pl_disp s)\<lparr>queues := (queues (pl_disp s))[i := es]\<rparr>"
    using t by (rule worker_take_SomeD)
  have k': "k < pool_workers s" "busy s (i, k) = None"
    using k by (auto simp: idle_worker_def pool_workers_def)
  have W: "pool_workers ?s' = pool_workers s" and L: "length (queues (pl_disp ?s')) = length (queues (pl_disp s))"
    by (simp_all add: pool_workers_def p')
  have R: "running ?s' j = running (s\<lparr>busy := (busy s)((i, k) := Some e)\<rparr>) j" for j
    by (simp add: running_def pool_workers_def p')
  have "pl_taken ?s' j = map fst (handled s j) @ running ?s' j" if one: "pool_workers s = 1" for j
  proof -
    have "k = 0" using k' one by simp
    then show ?thesis
      using inv one k' W by (cases "j = i") (auto simp: pool_inv_def running_one)
  qed
  moreover have "mset (pl_taken ?s' j) = mset (map fst (handled s j)) + mset (running ?s' j)" for j
    using inv mset_running_take[OF k', of e j] by (simp add: pool_inv_def R)
  moreover have "m < pool_workers s \<and> j < length (queues (pl_disp s))" if "busy ?s' (j, m) \<noteq> None" for j m
    using inv that k' i by (auto simp: pool_inv_def split: if_splits)
  moreover have "1 \<le> pool_workers s"
    using inv by (simp add: pool_inv_def)
  ultimately show ?thesis
    by (intro pool_invI) (simp_all only: W L, simp_all)
qed

lemma pool_inv_finish:
  assumes inv: "pool_inv s" and b: "busy s (i, k) = Some e"
  shows "pool_inv (s\<lparr>pl_world := w', busy := (busy s)((i, k) := None), handled := (handled s)(i := handled s i @ [(e, r)])\<rparr>)"
proof -
  let ?s' = "s\<lparr>pl_world := w', busy := (busy s)((i, k) := None), handled := (handled s)(i := handled s i @ [(e, r)])\<rparr>"
  have k': "k < pool_workers s" "i < length (queues (pl_disp s))"
    using inv b by (auto simp: pool_inv_def)
  have W: "pool_workers ?s' = pool_workers s"
    by (simp add: pool_workers_def)
  have R: "running ?s' j = running (s\<lparr>busy := (busy s)((i, k) := None)\<rparr>) j" for j
    by (simp add: running_def pool_workers_def)
  have "pl_taken s j = map fst (handled ?s' j) @ running ?s' j" if one: "pool_workers s = 1" for j
  proof -
    have "k = 0" using k' one by simp
    then show ?thesis
      using inv one b W by (cases "j = i") (auto simp: pool_inv_def running_one)
  qed
  moreover have "mset (pl_taken s j) = mset (map fst (handled ?s' j)) + mset (running ?s' j)" for j
    using inv mset_running_finish[OF k'(1) b, of j] by (simp add: pool_inv_def R)
  moreover have "m < pool_workers s \<and> j < length (queues (pl_disp s))" if "busy ?s' (j, m) \<noteq> None" for j m
    using inv that by (auto simp: pool_inv_def split: if_splits)
  moreover have "1 \<le> pool_workers s"
    using inv by (simp add: pool_inv_def)
  ultimately show ?thesis
    by (intro pool_invI) (simp_all only: W, simp_all)
qed

lemma OnReceive_sizes:
  assumes "Ret p' \<in> set (disp_OnReceive hp ctx_done waiting evt p)"
  shows "workersPerChan p' = workersPerChan p" "length (queues p') = length (queues p)" "handlers p' = handlers p"
  using OnReceive_cases[OF assms] by (auto simp: enqueue_def touched_def ensureRuntime_def)

lemma pool_inv_step: "pool_step onrecv send hp s s' \<Longrightarrow> pool_inv s \<Longrightarrow> pool_inv s'"
proof (induction rule: pool_step.induct)
  case (accept s p' ctx_done waiting evt)
  then show ?case by (intro pool_inv_pl) (simp_all add: OnReceive_sizes)
next
  case (dropped s p' ctx_done waiting evt)
  then show ?case
    using pool_inv_pl[of s p' "pl_accepted s"] by (simp add: OnReceive_sizes)
next
  case (take_one s i k e p')
  then show ?case by (intro pool_inv_take)
next
  case (finish s i k e nodeID order porder r w')
  then show ?case by (intro pool_inv_finish)
next
  case (cancel s)
  then show ?case using pool_inv_pl[of s _ "pl_accepted s"] by (simp add: Shutdown_cancel_def)
next
  case (close_one s i)
  then show ?case using pool_inv_pl[of s _ "pl_accepted s"] by (simp add: close_queue_def)
next
  case (register s h)
  then show ?case
    using pool_inv_pl[of s _ "pl_accepted s"] by (simp add: RegisterHandler_def Let_def split: option.split)
next
  case (register_default s h)
  then show ?case
    using pool_inv_pl[of s _ "pl_accepted s"] by (simp add: RegisterDefaultHandler_def split: option.split)
qed (simp_all add: pool_inv_def pool_workers_def running_def)

lemma pool_inv_reachable: "pool_reachable onrecv send hp opts s \<Longrightarrow> pool_inv s"
proof (induction rule: pool_reachable.induct)
  case (init p w)
  then have "1 \<le> workersPerChan p"
    by (auto simp: NewDispatcher_def Let_def)
  then show ?case
    by (simp add: pool_inv_def new_pool_def pool_workers_def running_def)
qed (rule pool_inv_step)

text \<open>Every logged result is a decision of \<open>route\<close>.\<close>

lemma handled_routed:
  assumes "pool_reachable (onrecv :: 'x app) send hp opts s" "(e, r) \<in> set (handled s i)"
  shows "\<exists>p nodeID w order porder w'. Ret (r, w') \<in> set (route p send nodeID order porder e (w :: 'x world_scheme))"
  using assms
proof (induction arbitrary: e r i rule: pool_reachable.induct)
  case (init p w)
  then show ?case by (simp add: new_pool_def)
next
  case (step s s')
  show ?case
    using step.hyps(2) step.prems
  proof cases
    case (finish j k d q w' nodeID order porder)
    show ?thesis
    proof (cases "(e, r) \<in> set (handled s i)")
      case False
      then have "(e, r) = (d, q)"
        using step.prems finish(1) by (auto split: if_splits)
      then show ?thesis using route_run_Ret[OF finish(4)] by blast
    qed (rule step.IH)
  qed (use step.IH in simp_all)
qed

lemma accepted_split:
  assumes "pool_reachable onrecv send hp opts s"
  shows "mset (pl_accepted s) =
     (\<Sum>i<length (queues (pl_disp s)). mset (map fst (handled s i)) + mset (running s i) + mset (queues (pl_disp s) ! i))"
  using conserved_reachable[OF pool_abs_reachable[OF assms]] pool_inv_reachable[OF assms]
  by (simp add: conserved_def pool_inv_def)

lemma in_accepted:
  assumes "pool_reachable onrecv send hp opts s" "i < length (queues (pl_disp s))" "e \<in> set (running s i) \<union> set (queues (pl_disp s) ! i)"
  shows "e \<in> set (pl_accepted s)"
proof -
  let ?f = "\<lambda>i. mset (map fst (handled s i)) + mset (running s i) + mset (queues (pl_disp s) ! i)"
  have "(\<Sum>j<length (queues (pl_disp s)). ?f j) = ?f i + (\<Sum>j\<in>{..<length (queues (pl_disp s))} - {i}. ?f j)"
    using assms(2) by (intro sum.remove) simp_all
  moreover have "e \<in># ?f i"
    using assms(3) by auto
  ultimately have "e \<in># mset (pl_accepted s)"
    unfolding accepted_split[OF assms(1)] by (simp only: union_iff simp_thms)
  then show ?thesis by simp
qed

lemma in_running: "k < pool_workers s \<Longrightarrow> busy s (i, k) = Some e \<Longrightarrow> e \<in> set (running s i)"
  by (force simp: running_def)


section \<open>Draining\<close>

text \<open>
  \<open>Shutdown\<close> returns when every supervisor has returned: it has closed its queue, and every worker of the queue
  has left its loop, which a \<open>range\<close> over a closed channel does when the channel is empty.
\<close>

definition pool_stopped :: "'w pool \<Rightarrow> bool" where
  "pool_stopped s \<longleftrightarrow>
     d_runtime (pl_disp s) = Cancelled
   \<and> list_all (\<lambda>i. q_closed (pl_disp s) ! i \<and> queues (pl_disp s) ! i = [] \<and> running s i = []) [0..<length (queues (pl_disp s))]"

text \<open>The steps of the supervisors and the workers after the cancellation.\<close>

inductive drain_step :: "'x app \<Rightarrow> 'x world_scheme send_fn \<Rightarrow> 'x world_scheme pool \<Rightarrow> 'x world_scheme pool \<Rightarrow> bool" for onrecv send where
  take_one: "\<lbrakk>\<not> crashed s; idle_worker s i k; worker_take i (pl_disp s) = Some (e, p')\<rbrakk>
     \<Longrightarrow> drain_step onrecv send s (s\<lparr>pl_disp := p', busy := (busy s)((i, k) := Some e),
                                pl_taken := (pl_taken s)(i := pl_taken s i @ [e])\<rparr>)"
| finish: "\<lbrakk>\<not> crashed s; busy s (i, k) = Some e; Ret (r, w') \<in> set (route_run onrecv send (pl_disp s) nodeID order porder e (pl_world s))\<rbrakk>
     \<Longrightarrow> drain_step onrecv send s (s\<lparr>pl_world := w', busy := (busy s)((i, k) := None),
                                handled := (handled s)(i := handled s i @ [(e, r)])\<rparr>)"
| finish_panic: "\<lbrakk>\<not> crashed s; busy s (i, k) = Some e; Panic \<in> set (route_run onrecv send (pl_disp s) nodeID order porder e (pl_world s))\<rbrakk>
     \<Longrightarrow> drain_step onrecv send s (s\<lparr>crashed := True\<rparr>)"
| close_one: "\<lbrakk>\<not> crashed s; d_runtime (pl_disp s) = Cancelled; i < length (q_closed (pl_disp s)); \<not> q_closed (pl_disp s) ! i\<rbrakk>
     \<Longrightarrow> drain_step onrecv send s (s\<lparr>pl_disp := close_queue i (pl_disp s)\<rparr>)"

lemma drain_is_pool_step: "drain_step onrecv send s s' \<Longrightarrow> pool_step onrecv send hp s s'"
  by (induction rule: drain_step.induct) (blast intro: pool_step.intros)+

definition work :: "'w pool \<Rightarrow> nat" where
  "work s = (\<Sum>i<length (queues (pl_disp s)).
     2 * length (queues (pl_disp s) ! i) + length (running s i) + (if q_closed (pl_disp s) ! i then 0 else 1))"

lemma work_bump:
  assumes "i < length (queues (pl_disp s))" "length (queues (pl_disp s')) = length (queues (pl_disp s))"
    and "\<And>j. j \<noteq> i \<Longrightarrow> queues (pl_disp s) ! j = queues (pl_disp s') ! j \<and> q_closed (pl_disp s) ! j = q_closed (pl_disp s') ! j
                      \<and> length (running s j) = length (running s' j)"
    and "2 * length (queues (pl_disp s) ! i) + length (running s i) + (if q_closed (pl_disp s) ! i then 0 else 1) =
         2 * length (queues (pl_disp s') ! i) + length (running s' i) + (if q_closed (pl_disp s') ! i then 0 else 1) + (1::nat)"
  shows "work s = work s' + 1"
  unfolding work_def assms(2) using assms(1,3,4) by (intro sum_bump[of i]) simp_all

text \<open>A pool that is shutting down and whose events all have a connection.\<close>

definition draining :: "'x app \<Rightarrow> 'x world_scheme send_fn \<Rightarrow> (cref \<Rightarrow> conn) \<Rightarrow> DispatchOptions \<Rightarrow> 'x world_scheme pool \<Rightarrow> bool" where
  "draining onrecv send hp opts s \<longleftrightarrow> pool_reachable onrecv send hp opts s \<and> \<not> crashed s \<and> d_runtime (pl_disp s) = Cancelled
     \<and> (\<forall>e \<in> set (pl_accepted s). ev_conn e \<noteq> None)"

lemma draining_busy:
  assumes "draining onrecv send hp opts s" "busy s (i, k) = Some e"
  shows "i < length (queues (pl_disp s))" "k < pool_workers s" "\<exists>c. ev_conn e = Some c"
proof -
  have r: "pool_reachable onrecv send hp opts s" using assms(1) by (simp add: draining_def)
  then show i: "i < length (queues (pl_disp s))" and k: "k < pool_workers s"
    using pool_inv_reachable[OF r] assms(2) by (auto simp: pool_inv_def)
  have "e \<in> set (pl_accepted s)"
    using in_accepted[OF r i, of e] in_running[OF k assms(2)] by blast
  then show "\<exists>c. ev_conn e = Some c"
    using assms(1) by (auto simp: draining_def)
qed

text \<open>
  Which panics the draining can meet: a call of \<open>Send\<close> for one of the accepted frames.
\<close>

definition send_can_panic :: "'w send_fn \<Rightarrow> dispatchEvent list \<Rightarrow> bool" where
  "send_can_panic send es \<longleftrightarrow>
     (\<exists>e \<in> set es. \<exists>h r v. ev_hdr e = Some h \<and> forwarded_req h (ev_payload e) r \<and> Panic \<in> set (send r v))"

lemma work_busy:
  assumes "busy s (i, k) = Some e" "i < length (queues (pl_disp s))" "k < pool_workers s"
  shows "1 \<le> work s"
proof -
  have "running s i \<noteq> []"
    using in_running[OF assms(3,1)] by auto
  then have "1 \<le> 2 * length (queues (pl_disp s) ! i) + length (running s i) + (if q_closed (pl_disp s) ! i then 0 else 1)"
    by (cases "running s i") auto
  also have "\<dots> \<le> work s"
    unfolding work_def using assms(2) by (intro member_le_sum) simp_all
  finally show ?thesis .
qed

lemma draining_step:
  assumes d: "draining onrecv send hp opts s" and st: "drain_step onrecv send s s'"
  shows "draining onrecv send hp opts s' \<and> pl_accepted s' = pl_accepted s \<and> work s = work s' + 1
       \<or> crashed s' \<and> 1 \<le> work s \<and> send_can_panic send (pl_accepted s)"
proof -
  have r: "pool_reachable onrecv send hp opts s" using d by (simp add: draining_def)
  then have r': "pool_reachable onrecv send hp opts s'"
    using drain_is_pool_step[OF st] by (rule pool_reachable.step)
  have len: "length (q_closed (pl_disp s)) = length (queues (pl_disp s))"
    using disp_inv_reachable[OF pool_abs_reachable[OF r]] by (simp add: disp_inv_def disp_wf_def)
  from st show ?thesis
  proof cases
    case (take_one i k e p')
    obtain es where i: "i < length (queues (pl_disp s))" and q: "queues (pl_disp s) ! i = e # es"
      and p': "p' = (pl_disp s)\<lparr>queues := (queues (pl_disp s))[i := es]\<rparr>"
      using take_one(4) by (rule worker_take_SomeD)
    have k: "k < pool_workers s" "busy s (i, k) = None"
      using take_one(3) by (auto simp: idle_worker_def pool_workers_def)
    have "length (running s' j) = length (running s j) + (if j = i then 1 else 0)" for j
    proof -
      have "running s' j = running (s\<lparr>busy := (busy s)((i, k) := Some e)\<rparr>) j"
        by (simp add: take_one(1) running_def pool_workers_def p')
      then show ?thesis
        using arg_cong[OF mset_running_take[OF k, of e j], of size] by simp
    qed
    then have "work s = work s' + 1"
      using i q p' take_one(1) by (intro work_bump[of i]) (simp_all only:, simp_all)
    then show ?thesis using d r' take_one(1) p' by (simp add: draining_def)
  next
    case (finish i k e q w' nodeID order porder)
    note b = draining_busy[OF d finish(3)]
    have "length (running s j) = length (running s' j) + (if j = i then 1 else 0)" for j
    proof -
      have "running s' j = running (s\<lparr>busy := (busy s)((i, k) := None)\<rparr>) j"
        by (simp add: finish(1) running_def pool_workers_def)
      then show ?thesis
        using arg_cong[OF mset_running_finish[OF b(2) finish(3), of j], of size] by simp
    qed
    then have "work s = work s' + 1"
      using b(1) finish(1) by (intro work_bump[of i]) (simp_all only:, simp_all)
    then show ?thesis using d r' finish(1) by (simp add: draining_def)
  next
    case (finish_panic i k e nodeID order porder)
    note b = draining_busy[OF d finish_panic(3)]
    obtain c where c: "ev_conn e = Some c" using b(3) by blast
    have "e \<in> set (pl_accepted s)"
      using in_accepted[OF r b(1), of e] in_running[OF b(2) finish_panic(3)] by blast
    moreover have "Panic \<in> set (route (pl_disp s) send nodeID order porder e (pl_world s))"
      using finish_panic(4) by (simp add: route_run_eq[OF c])
    ultimately show ?thesis
      using route_panics[OF _ c] work_busy[OF finish_panic(3) b(1,2)] finish_panic(1) unfolding send_can_panic_def
      by simp blast
  next
    case (close_one i)
    have "running s' = running s"
      by (simp add: close_one(1) running_def pool_workers_def close_queue_def fun_eq_iff)
    then have "work s = work s' + 1"
      using close_one len by (intro work_bump[of i]) (simp_all add: close_queue_def)
    then show ?thesis using d r' close_one(1) by (simp add: draining_def close_queue_def)
  qed
qed

text \<open>When every call of \<open>Send\<close> ends, the pool can go on until it has stopped.\<close>

lemma draining_progress:
  assumes d: "draining onrecv send hp opts s" and n: "\<not> pool_stopped s" and ends: "\<forall>r v. send r v \<noteq> []"
  obtains s' where "drain_step onrecv send s s'"
proof -
  have r: "pool_reachable onrecv send hp opts s" and c: "\<not> crashed s" "d_runtime (pl_disp s) = Cancelled"
    using d by (simp_all add: draining_def)
  have inv: "pool_inv s" using r by (rule pool_inv_reachable)
  have len: "length (q_closed (pl_disp s)) = length (queues (pl_disp s))"
    using disp_inv_reachable[OF pool_abs_reachable[OF r]] by (simp add: disp_inv_def disp_wf_def)
  consider (b) i k e where "busy s (i, k) = Some e"
    | (q) i e es where "i < length (queues (pl_disp s))" "queues (pl_disp s) ! i = e # es" "busy s (i, 0) = None"
    | (o) i where "i < length (queues (pl_disp s))" "\<not> q_closed (pl_disp s) ! i"
    | (stop) "\<forall>i k. busy s (i, k) = None" "\<forall>i < length (queues (pl_disp s)). queues (pl_disp s) ! i = [] \<and> q_closed (pl_disp s) ! i"
    by (metis list.exhaust not_None_eq)
  then show thesis
  proof cases
    case b
    obtain cr where cr: "ev_conn e = Some cr" using draining_busy(3)[OF d b] by blast
    let ?outs = "route_run onrecv send (pl_disp s) 0 [] [] e (pl_world s)"
    have "?outs \<noteq> []"
      using route_nonempty[of send] ends by (simp add: route_run_eq[OF cr])
    then obtain out where out: "out \<in> set ?outs" by (cases ?outs) auto
    show ?thesis
    proof (cases out)
      case (Ret x)
      then show ?thesis using that drain_step.finish[OF c(1) b] out by (cases x) blast
    next
      case Panic
      then show ?thesis using that drain_step.finish_panic[OF c(1) b] out by blast
    qed
  next
    case q
    then have "worker_take i (pl_disp s) = Some (e, (pl_disp s)\<lparr>queues := (queues (pl_disp s))[i := es]\<rparr>)"
      using c by (simp add: worker_take_def)
    moreover have "idle_worker s i 0"
      using q(3) inv by (auto simp: idle_worker_def pool_inv_def pool_workers_def)
    ultimately show ?thesis using that drain_step.take_one[OF c(1)] by blast
  next
    case o
    then show ?thesis using that drain_step.close_one[OF c] len by metis
  next
    case stop
    then have "pool_stopped s"
      using c(2) by (simp add: pool_stopped_def list_all_iff running_def)
    then show ?thesis using n by simp
  qed
qed

lemma crashed_final: "drain_step onrecv send s s' \<Longrightarrow> \<not> crashed s"
  by (induction rule: drain_step.induct) simp_all

lemma draining_run:
  "(drain_step onrecv send ^^ n) s s' \<Longrightarrow> draining onrecv send hp opts s \<Longrightarrow>
     draining onrecv send hp opts s' \<and> pl_accepted s' = pl_accepted s \<and> work s = work s' + n
   \<or> crashed s' \<and> n \<le> work s \<and> send_can_panic send (pl_accepted s)"
proof (induction n arbitrary: s')
  case (Suc n)
  then obtain t where t: "(drain_step onrecv send ^^ n) s t" "drain_step onrecv send t s'" by auto
  have "draining onrecv send hp opts t \<and> pl_accepted t = pl_accepted s \<and> work s = work t + n"
    using Suc.IH[OF t(1) Suc.prems(2)] crashed_final[OF t(2)] by blast
  then show ?case using draining_step[OF _ t(2), of hp opts] by auto
qed simp

lemma draining_ends:
  assumes "draining onrecv send hp opts s" "\<forall>r v. send r v \<noteq> []"
  shows "\<exists>n s'. (drain_step onrecv send ^^ n) s s' \<and> (pool_stopped s' \<or> crashed s')"
  using assms(1)
proof (induction "work s" arbitrary: s rule: less_induct)
  case less
  show ?case
  proof (cases "pool_stopped s")
    case False
    then obtain t where t: "drain_step onrecv send s t" using draining_progress[OF less.prems _ assms(2)] by blast
    show ?thesis
    proof (cases "crashed t")
      case True
      then show ?thesis using t relpowp_Suc_I2[of "drain_step onrecv send", OF t relpowp_0_I] by blast
    next
      case False
      then have "draining onrecv send hp opts t" "work t < work s"
        using draining_step[OF less.prems t] by auto
      then obtain n s' where "(drain_step onrecv send ^^ n) t s'" "pool_stopped s' \<or> crashed s'"
        using less.hyps by blast
      then show ?thesis using relpowp_Suc_I2[of "drain_step onrecv send", OF t] by blast
    qed
  next
    case True
    then show ?thesis using relpowp_0_I[of "drain_step onrecv send" s] by blast
  qed
qed


lemma pool_step_workers: "pool_step onrecv send hp s s' \<Longrightarrow> workersPerChan (pl_disp s') = workersPerChan (pl_disp s)"
  by (induction rule: pool_step.induct)
    (auto simp: OnReceive_sizes worker_take_def Shutdown_cancel_def close_queue_def RegisterHandler_def
       RegisterDefaultHandler_def Let_def split: if_splits list.splits option.splits)

lemma pool_workers_reachable: "pool_reachable onrecv send hp opts s \<Longrightarrow> pool_workers s = nat (max 1 (WorkersPerChan opts))"
proof (induction rule: pool_reachable.induct)
  case (init p w)
  then show ?case by (auto simp: NewDispatcher_def Let_def new_pool_def pool_workers_def)
qed (simp add: pool_workers_def pool_step_workers)


section \<open>Properties\<close>

text \<open>
  C8. A handler that panics harms nobody else. For a frame that has a connection, the outcomes of handling it
  are those of the decision of \<open>route\<close>, with its calls of \<open>Send\<close>, each followed by one run of the selected
  handler, if any: whether the handler returns or panics, what it did stays and the worker goes on. A panic
  escapes only when a call of \<open>Send\<close> that forwards this very frame panics. For a frame without a connection a panic of
  the handler escapes, from the log call of the recovery.
\<close>

theorem handler_panics_contained:
  "(ev_conn evt = Some c \<longrightarrow>
      route_run onrecv send p nodeID order porder evt w =
        map (map_outcome (\<lambda>(r, w1). (r, case called r of None \<Rightarrow> w1 | Some h \<Rightarrow> snd (onrecv h evt w1))))
          (route p send nodeID order porder evt w)
    \<and> (Panic \<in> set (route_run onrecv send p nodeID order porder evt w) \<longrightarrow>
         (\<exists>h r v. ev_hdr evt = Some h \<and> forwarded_req h (ev_payload evt) r \<and> Panic \<in> set (send r v))))
   \<and> (ev_conn evt = None \<and> Ret (r, w1) \<in> set (route p send nodeID order porder evt w) \<and> called r = Some h
        \<and> fst (onrecv h evt w1) = Panic
      \<longrightarrow> Panic \<in> set (route_run onrecv send p nodeID order porder evt w))"
proof (intro conjI impI)
  assume c: "ev_conn evt = Some c"
  note eq = route_run_eq[OF c, of onrecv send p nodeID order porder w]
  show "route_run onrecv send p nodeID order porder evt w =
        map (map_outcome (\<lambda>(r, w1). (r, case called r of None \<Rightarrow> w1 | Some h \<Rightarrow> snd (onrecv h evt w1))))
          (route p send nodeID order porder evt w)"
    using eq by (simp add: after_handler_def)
  show "\<exists>h r v. ev_hdr evt = Some h \<and> forwarded_req h (ev_payload evt) r \<and> Panic \<in> set (send r v)"
    if "Panic \<in> set (route_run onrecv send p nodeID order porder evt w)"
    using that eq route_panics[OF _ c, of p send nodeID order porder w] by simp
next
  assume "ev_conn evt = None \<and> Ret (r, w1) \<in> set (route p send nodeID order porder evt w) \<and> called r = Some h
        \<and> fst (onrecv h evt w1) = Panic"
  moreover from this obtain w2 where "callHandler onrecv (called r) evt w1 = (Panic, w2)"
    by (cases "onrecv h evt w1") (simp add: callHandler_def)
  ultimately show "Panic \<in> set (route_run onrecv send p nodeID order porder evt w)"
    unfolding route_run_def Panic_in_bind_outcomes by (intro disjI2 exI[of _ "(r, w1)"]) simp
qed

text \<open>
  C6. Every accepted frame is handled exactly once. In every reachable state of the pool, for every strategy, number
  of queues and workers, and whatever handlers do, the accepted frames are those whose handling has ended, those
  that a worker is handling and those in a queue, each exactly once, and each that was handled went through
  \<open>route\<close>. Once \<open>Shutdown\<close> has returned every accepted frame has been handled.
\<close>

theorem accepted_frames_handled_once:
  assumes "pool_reachable (onrecv :: 'x app) send hp opts s"
  shows "mset (pl_accepted s) =
           (\<Sum>i<length (queues (pl_disp s)). mset (map fst (handled s i)) + mset (running s i) + mset (queues (pl_disp s) ! i))
       \<and> (\<forall>i e r. (e, r) \<in> set (handled s i) \<longrightarrow>
            (\<exists>p nodeID w order porder w'. Ret (r, w') \<in> set (route p send nodeID order porder e (w :: 'x world_scheme))))
       \<and> (pool_stopped s \<longrightarrow> mset (pl_accepted s) = (\<Sum>i<length (queues (pl_disp s)). mset (map fst (handled s i))))"
  using accepted_split[OF assms] handled_routed[OF assms]
  by (auto simp: pool_stopped_def list_all_iff)

text \<open>
  C7. Shutting down ends. After the cancellation, if every accepted frame has a connection and every call of \<open>Send\<close>
  ends, the supervisors and workers make at most \<open>work s\<close> further steps, in whatever order they run, and they
  can go on until every queue is closed and empty and every worker has left its loop, or until a call of
  \<open>Send\<close> that forwards one of the accepted frames panics, which ends the process; nothing else stops them. Such a
  run exists, so where \<open>Send\<close> does not panic \<open>Shutdown\<close> returns, provided the handlers return and no further frame
  arrives.
\<close>

theorem shutdown_drains:
  assumes "pool_reachable onrecv send hp opts s" "\<not> crashed s" "d_runtime (pl_disp s) = Cancelled"
    and "\<forall>e \<in> set (pl_accepted s). ev_conn e \<noteq> None" "\<forall>r v. send r v \<noteq> []"
  shows "(\<forall>n s'. (drain_step onrecv send ^^ n) s s' \<longrightarrow>
            n \<le> work s
          \<and> (crashed s' \<longrightarrow> (\<exists>e \<in> set (pl_accepted s). \<exists>h r v. ev_hdr e = Some h
                \<and> forwarded_req h (ev_payload e) r \<and> Panic \<in> set (send r v)))
          \<and> (pool_stopped s' \<or> crashed s' \<or> (\<exists>s''. drain_step onrecv send s' s'')))
       \<and> (\<exists>n s'. (drain_step onrecv send ^^ n) s s' \<and> (pool_stopped s' \<or> crashed s'))"
proof -
  have d: "draining onrecv send hp opts s" using assms(1-4) by (simp add: draining_def)
  have "n \<le> work s \<and> (crashed s' \<longrightarrow> send_can_panic send (pl_accepted s))
      \<and> (pool_stopped s' \<or> crashed s' \<or> (\<exists>s''. drain_step onrecv send s' s''))"
    if run: "(drain_step onrecv send ^^ n) s s'" for n s'
  proof (cases "crashed s'")
    case True
    then show ?thesis using draining_run[OF run d] by (auto simp: draining_def)
  next
    case False
    then have "draining onrecv send hp opts s'" "n \<le> work s"
      using draining_run[OF run d] by auto
    then show ?thesis using draining_progress[OF _ _ assms(5)] False by blast
  qed
  then show ?thesis using draining_ends[OF d assms(5)] unfolding send_can_panic_def by blast
qed

text \<open>
  With one worker per queue, frames of a connection are handled in the order they arrive: under the default
  strategy all frames of a connection go to one queue, the handled ones first, then the one being handled, then
  the waiting ones, in the order of acceptance.
\<close>

theorem one_worker_keeps_order:
  assumes "pool_reachable onrecv send hp opts s" "Strategy opts = None \<or> Strategy opts = Some ConnHashStrategy"
    and "ChannelCount opts < 2 ^ 32" "WorkersPerChan opts \<le> 1"
  shows "\<exists>i < length (queues (pl_disp s)).
           filter (from_conn hp cid) (pl_accepted s) =
             filter (from_conn hp cid) (map fst (handled s i)) @ filter (from_conn hp cid) (running s i)
               @ filter (from_conn hp cid) (queues (pl_disp s) ! i)"
proof -
  have d: "disp_reachable hp opts (pool_abs s)"
    using assms(1) by (rule pool_abs_reachable)
  have "pool_workers s = 1"
    using pool_workers_reachable[OF assms(1)] assms(4) by simp
  then have "pl_taken s i = map fst (handled s i) @ running s i" for i
    using pool_inv_reachable[OF assms(1)] by (simp add: pool_inv_def)
  then show ?thesis
    using conn_frames_one_queue[OF d assms(2,3), of cid] by simp blast
qed

text \<open>
  A pool with one queue, two workers and two frames of the same connection, for the witnesses. The handler
  accepts every frame and panics.
\<close>

definition two_opts :: DispatchOptions where
  "two_opts = \<lparr>ChannelCount = 1, WorkersPerChan = 2, ChannelBuffer = 4, Base = NoBase, Strategy = None\<rparr>"

definition two_handler :: handler where
  "two_handler = \<lparr>h_id = 1, h_SubProto = 9, h_Init = True, AcceptCmd = False, AllowSourceMismatch = True\<rparr>"

definition panicking :: "unit app" where
  "panicking h e w = (Panic, w)"

definition second_event :: dispatchEvent where
  "second_event = ex_event\<lparr>ev_payload := [2]\<rparr>"

definition two_disp :: "dispatchEvent list \<Rightarrow> Dispatcher" where
  "two_disp q = \<lparr>d_base = NoBase, handlers = (\<lambda>_. None), fallback = Some two_handler, queues = [q], q_closed = [False],
              chanBuffer = 4, chanCount = 1, workersPerChan = 2, d_strategy = ConnHashStrategy,
              d_counter = 0, d_runtime = Running\<rparr>"

definition two_pool :: "world pool" where
  "two_pool = \<lparr>pl_disp = two_disp [ex_event, second_event], pl_world = hub_world, busy = (\<lambda>_. None),
               pl_accepted = [ex_event, second_event], pl_taken = (\<lambda>_. []), handled = (\<lambda>_. []), crashed = False\<rparr>"

lemma two_receive:
  assumes "length q < 4"
  shows "disp_OnReceive hub_heap False (\<lambda>_. False) (ex_event\<lparr>ev_payload := x\<rparr>) (two_disp q) =
     [Ret (two_disp (q @ [ex_event\<lparr>ev_payload := x\<rparr>]))]"
  using assms by (simp add: disp_OnReceive_def ensureRuntime_def disp_selectQueue_def SelectQueue_def
      ConnHash_SelectQueue_def enqueue_def two_disp_def)

lemma two_pool_reachable: "pool_reachable panicking send_ok hub_heap two_opts two_pool"
proof -
  let ?p0 = "(two_disp [])\<lparr>fallback := None, d_runtime := NotStarted\<rparr>"
  let ?s1 = "(new_pool ?p0 hub_world)\<lparr>pl_disp := (two_disp [])\<lparr>d_runtime := NotStarted\<rparr>\<rparr>"
  let ?s2 = "?s1\<lparr>pl_disp := two_disp [ex_event], pl_accepted := [ex_event]\<rparr>"
  have "NewDispatcher two_opts = Inr ?p0"
    by (simp add: NewDispatcher_def two_opts_def two_disp_def)
  then have r0: "pool_reachable panicking send_ok hub_heap two_opts (new_pool ?p0 hub_world)"
    by (rule pool_reachable.init)
  have "RegisterDefaultHandler (Some two_handler) ?p0 = (two_disp [])\<lparr>d_runtime := NotStarted\<rparr>"
    by (simp add: RegisterDefaultHandler_def two_disp_def)
  then have r1: "pool_reachable panicking send_ok hub_heap two_opts ?s1"
    using pool_reachable.step[OF r0 pool_step.register_default[of _ _ _ _ "Some two_handler"]] by (simp add: new_pool_def)
  have ev: "ex_event\<lparr>ev_payload := [1]\<rparr> = ex_event" "ex_event\<lparr>ev_payload := [2]\<rparr> = second_event"
    by (simp_all add: ex_event_def second_event_def)
  have "disp_OnReceive hub_heap False (\<lambda>_. False) ex_event ((two_disp [])\<lparr>d_runtime := NotStarted\<rparr>) =
      disp_OnReceive hub_heap False (\<lambda>_. False) (ex_event\<lparr>ev_payload := [1]\<rparr>) (two_disp [])"
    by (simp add: disp_OnReceive_def ensureRuntime_def ev(1)) (simp add: two_disp_def)
  then have rx: "Ret (two_disp [ex_event]) \<in> set (disp_OnReceive hub_heap False (\<lambda>_. False) ex_event (pl_disp ?s1))"
    using two_receive[of "[]" "[1]"] ev(1) by simp
  have r2: "pool_reachable panicking send_ok hub_heap two_opts ?s2"
    using pool_reachable.step[OF r1 pool_step.accept[OF _ rx]] by (simp add: new_pool_def two_disp_def)
  have rx2: "Ret (two_disp [ex_event, second_event]) \<in> set (disp_OnReceive hub_heap False (\<lambda>_. False) second_event (pl_disp ?s2))"
    using two_receive[of "[ex_event]" "[2]"] ev(2) by simp
  have "pool_reachable panicking send_ok hub_heap two_opts (?s2\<lparr>pl_disp := two_disp [ex_event, second_event], pl_accepted := pl_accepted ?s2 @ [second_event]\<rparr>)"
    by (rule pool_reachable.step[OF r2 pool_step.accept[OF _ rx2]]) (simp_all add: new_pool_def two_disp_def)
  then show ?thesis
    by (simp add: two_pool_def new_pool_def)
qed

definition two_result :: route_result where
  "two_result = \<lparr>called = Some two_handler, sent_reqs = []\<rparr>"

definition overtaken :: "world pool" where
  "overtaken = two_pool\<lparr>pl_disp := two_disp [], busy := (\<lambda>_. None), pl_taken := (\<lambda>_. [])(0 := [ex_event, second_event]),
                        handled := (\<lambda>_. [])(0 := [(second_event, two_result), (ex_event, two_result)])\<rparr>"

lemma two_route:
  assumes "e = ex_event \<or> e = second_event"
  shows "route_run panicking send_ok (two_disp q) 5 [] [] e hub_world = [Ret (two_result, hub_world)]"
proof -
  have e: "ev_hdr e = Some (msg 11 5)" "ev_conn e = Some 1"
    using assms by (auto simp: ex_event_def second_event_def)
  have "route (two_disp q) send_ok 5 [] [] e hub_world = [Ret (two_result, hub_world)]"
    by (simp add: route_def e selectHandler_def extractSubProto_def two_disp_def sourceMismatch_def two_handler_def
        disp_preRoute_def two_result_def)
  then show ?thesis
    by (simp add: route_run_eq[OF e(2)] after_handler_def two_result_def panicking_def)
qed

lemma overtaken_reachable: "pool_reachable panicking send_ok hub_heap two_opts overtaken"
proof -
  have idle: "idle_worker s i k" if "workersPerChan (pl_disp s) = 2" "k < 2" "busy s (i, k) = None" for s :: "world pool" and i k
    using that by (simp add: idle_worker_def)
  let ?t1 = "two_pool\<lparr>pl_disp := two_disp [second_event], busy := (busy two_pool)((0, 0) := Some ex_event),
                     pl_taken := (pl_taken two_pool)(0 := pl_taken two_pool 0 @ [ex_event])\<rparr>"
  have "pool_reachable panicking send_ok hub_heap two_opts ?t1"
    by (rule pool_reachable.step[OF two_pool_reachable], rule pool_step.take_one)
      (simp_all add: idle two_pool_def two_disp_def worker_take_def)
  moreover let ?t2 = "?t1\<lparr>pl_disp := two_disp [], busy := (busy ?t1)((0, 1) := Some second_event),
                     pl_taken := (pl_taken ?t1)(0 := pl_taken ?t1 0 @ [second_event])\<rparr>"
  have "pool_step panicking send_ok hub_heap ?t1 ?t2"
    by (rule pool_step.take_one) (simp_all add: idle two_pool_def two_disp_def worker_take_def)
  ultimately have r2: "pool_reachable panicking send_ok hub_heap two_opts ?t2"
    by (rule pool_reachable.step)
  let ?t3 = "?t2\<lparr>pl_world := hub_world, busy := (busy ?t2)((0, 1) := None),
                 handled := (handled ?t2)(0 := handled ?t2 0 @ [(second_event, two_result)])\<rparr>"
  have "pool_step panicking send_ok hub_heap ?t2 ?t3"
    by (rule pool_step.finish[where nodeID = 5 and order = "[]" and porder = "[]"])
      (simp_all add: two_pool_def two_route)
  with r2 have r3: "pool_reachable panicking send_ok hub_heap two_opts ?t3"
    by (rule pool_reachable.step)
  let ?t4 = "?t3\<lparr>pl_world := hub_world, busy := (busy ?t3)((0, 0) := None),
                 handled := (handled ?t3)(0 := handled ?t3 0 @ [(ex_event, two_result)])\<rparr>"
  have "pool_step panicking send_ok hub_heap ?t3 ?t4"
    by (rule pool_step.finish[where nodeID = 5 and order = "[]" and porder = "[]"])
      (simp_all add: two_pool_def two_route)
  with r3 have "pool_reachable panicking send_ok hub_heap two_opts ?t4"
    by (rule pool_reachable.step)
  moreover have "?t4 = overtaken"
    by (simp add: overtaken_def two_pool_def fun_eq_iff)
  ultimately show ?thesis by (simp only:)
qed

text \<open>
  More than one worker per queue gives up the order of a connection. With two workers on a queue a state is
  reachable in which the handler has seen the second frame of a connection before the first, under the strategy
  whose comment promises the order of each connection.
\<close>

theorem two_workers_reorder_connection:
  "\<exists>s. pool_reachable panicking send_ok hub_heap two_opts s \<and> \<not> crashed s \<and> d_strategy (pl_disp s) = ConnHashStrategy
      \<and> filter (from_conn hub_heap ''c1'') (pl_accepted s) = [ex_event, second_event] \<and> ex_event \<noteq> second_event
      \<and> map (\<lambda>(e, r). (e, called r)) (handled s 0) = [(second_event, Some two_handler), (ex_event, Some two_handler)]"
proof (intro exI conjI)
  show "pool_reachable panicking send_ok hub_heap two_opts overtaken"
    by (rule overtaken_reachable)
qed (simp_all add: overtaken_def two_pool_def two_disp_def from_conn_def second_event_def ex_event_def hub_heap_def two_result_def)

theorem handler_panics_contained_witness:
  "route_run panicking send_ok (two_disp []) 5 [] [] ex_event hub_world = [Ret (two_result, hub_world)]"
proof -
  have "ev_conn ex_event = Some 1"
    by (simp add: ex_event_def)
  then have eq: "route_run panicking send_ok (two_disp []) 5 [] [] ex_event hub_world =
      map (map_outcome (\<lambda>(r, w1). (r, case called r of None \<Rightarrow> w1 | Some h \<Rightarrow> snd (panicking h ex_event w1))))
        (route (two_disp []) send_ok 5 [] [] ex_event hub_world)"
    using handler_panics_contained[of ex_event 1] by blast
  have "route (two_disp []) send_ok 5 [] [] ex_event hub_world = [Ret (two_result, hub_world)]"
    by (simp add: route_def selectHandler_def extractSubProto_def two_disp_def sourceMismatch_def
        two_handler_def disp_preRoute_def two_result_def ex_event_def)
  then show ?thesis using eq by (simp add: panicking_def two_result_def)
qed

theorem accepted_frames_handled_once_witness:
  "mset (pl_accepted overtaken) = mset (map fst (handled overtaken 0)) \<and> pl_accepted overtaken = [ex_event, second_event]"
  using accepted_frames_handled_once[OF overtaken_reachable]
  by (simp add: overtaken_def two_pool_def two_disp_def running_def)

theorem shutdown_drains_witness:
  "\<exists>n s'. (drain_step panicking send_ok ^^ n) (overtaken\<lparr>pl_disp := Shutdown_cancel (pl_disp overtaken)\<rparr>) s' \<and> pool_stopped s'"
proof -
  let ?s = "overtaken\<lparr>pl_disp := Shutdown_cancel (pl_disp overtaken)\<rparr>"
  have "\<not> crashed overtaken"
    by (simp add: overtaken_def two_pool_def)
  then have "pool_reachable panicking send_ok hub_heap two_opts ?s"
    by (intro pool_reachable.step[OF overtaken_reachable] pool_step.cancel)
  moreover have "\<not> crashed ?s" "d_runtime (pl_disp ?s) = Cancelled" "\<forall>e \<in> set (pl_accepted ?s). ev_conn e \<noteq> None"
    by (simp_all add: overtaken_def two_pool_def two_disp_def Shutdown_cancel_def ex_event_def second_event_def)
  moreover have "\<forall>r v. send_ok r (v :: world) \<noteq> []" "\<And>r v. Panic \<notin> set (send_ok r (v :: world))"
    by (simp_all add: send_ok_def)
  ultimately show ?thesis
    using shutdown_drains[of panicking send_ok hub_heap two_opts ?s] by metis
qed

end
