(* ===== verification/Server_Workers.thy ===== *)
theory Server_Workers
  imports Worker_Pool Server
begin

text \<open>
  The worker pool together with the sending side of the server: the parameter \<open>send\<close> of \<open>Routing\<close> and
  \<open>Worker_Pool\<close>, instantiated by the model of \<open>Server.Send\<close>. It is here that the locale of pre-routing's
  requirements gets its instance in the model, and that the shutdown of the two dispatchers meets.
\<close>

section \<open>The server's Send as pre-routing calls it\<close>

text \<open>
  All outcomes of \<open>Server.Send\<close>: whether the context of the call is cancelled, whether the timer has expired
  and whether a shard worker waits (for an empty shard only) are left open.
\<close>

definition server_sends ::
  "(cref \<Rightarrow> HeaderTcp \<Rightarrow> byte list \<Rightarrow> error option) \<Rightarrow> ctx option \<Rightarrow> server_world send_fn" where
  "server_sends onSend cx r s =
     concat (map (\<lambda>(ctx_done, fired, waits).
         Server_Send onSend cx ctx_done fired (\<lambda>i. waits \<and> shards (sender s) ! i = [])
           (req_conn r) (Some (req_hdr r)) (req_payload r) s)
       (List.product [True, False] (List.product [True, False] [True, False])))"

lemma in_server_sends:
  assumes "out \<in> set (server_sends onSend cx r s)"
  obtains ctx_done fired waiting where
    "out \<in> set (Server_Send onSend cx ctx_done fired waiting (req_conn r) (Some (req_hdr r)) (req_payload r) s)"
  using assms unfolding server_sends_def by auto

lemma Server_Send_keeps:
  assumes "Ret (err, s') \<in> set (Server_Send onSend cx ctx_done fired waiting cid hdr pl s)"
  shows "heap s' = heap s \<and> mgr s' = mgr s"
  using assms by (auto simp: Server_Send_def Let_def split: option.splits prod.splits)

interpretation server_send: quiet_send "server_sends onSend cx" for onSend cx
proof unfold_locales
  fix err w' r and w :: server_world
  assume "Ret (err, w') \<in> set (server_sends onSend cx r w)"
  then show "heap w' = heap w \<and> mgr w' = mgr w"
    by (elim in_server_sends) (rule Server_Send_keeps)
qed

text \<open>
  \<open>Send\<close> panics only for a managed connection, when its shard is closed or does not exist or when the context
  of the call is nil.
\<close>

lemma Server_Send_panics:
  assumes "Panic \<in> set (Server_Send onSend cx ctx_done fired waiting cid hdr pl s)"
  shows "\<exists>c. Get (mgr s) cid = Some c \<and> (cx = None \<or>
      (\<forall>i. shard_of (shardCount (sender s)) (conn_ID (heap s c)) = Ret (int i) \<and> i < length (shards (sender s))
         \<longrightarrow> shard_closed (sender s) ! i))"
  using assms
  by (auto simp: Server_Send_def Let_def Dispatch_def ensureStarted_def sd_selectQueue_shard_of
      split: option.splits prod.splits outcome.splits if_splits)

lemma server_sends_panics:
  assumes "Panic \<in> set (server_sends onSend cx r s)"
  shows "\<exists>c. Get (mgr s) (req_conn r) = Some c \<and> (cx = None \<or>
      (\<forall>i. shard_of (shardCount (sender s)) (conn_ID (heap s c)) = Ret (int i) \<and> i < length (shards (sender s))
         \<longrightarrow> shard_closed (sender s) ! i))"
  using assms by (elim in_server_sends) (rule Server_Send_panics)


section \<open>A shutdown that crashes\<close>

text \<open>
  A hub with a pre-routing process, one queue and one worker, and a send dispatcher with one shard that has
  accepted a frame before.
\<close>

definition stop_opts :: DispatchOptions where
  "stop_opts = \<lparr>ChannelCount = 1, WorkersPerChan = 1, ChannelBuffer = 4, Base = PreRouteBase NewPreRoutingProcess,
                Strategy = None\<rparr>"

definition stop_disp :: "dispatchEvent list \<Rightarrow> Dispatcher" where
  "stop_disp q = \<lparr>d_base = PreRouteBase NewPreRoutingProcess, handlers = (\<lambda>_. None), fallback = Some two_handler,
                 queues = [q], q_closed = [False], chanBuffer = 4, chanCount = 1, workersPerChan = 1,
                 d_strategy = ConnHashStrategy, d_counter = 0, d_runtime = Running\<rparr>"

definition stop_event :: dispatchEvent where
  "stop_event = \<lparr>ev_srv = True, ev_conn = Some 1, ev_hdr = Some (msg 11 12), ev_payload = [1]\<rparr>"

definition stop_send_opts :: SendOptions where
  "stop_send_opts = \<lparr>so_ChannelCount = 1, so_WorkersPerChan = 1, so_ChannelBuffer = 4, so_ConnBuffer = 4,
                     so_EnqueueTimeout = 0, so_EncodeInWriter = True\<rparr>"

definition stop_task :: sendTask where
  "stop_task = \<lparr>t_conn = Some 2, t_hdr = Some (HTcp (msg 11 12)), t_payload = [], t_codec = Some TcpCodec\<rparr>"

definition stop_sender :: "bool \<Rightarrow> bool \<Rightarrow> SendDispatcher" where
  "stop_sender canc clo =
     \<lparr>shards = [[stop_task]], shard_closed = [clo], shardBuffer = 4, shardCount = 1, sd_workersPerChan = 1,
      connBuffer = 4, enqueueTimeout = 0, encodeInWriter = True, sd_ctx = Some (Some 0), sd_cancelled = canc,
      writers = [], wheap = (\<lambda>_. None), next_wid = 0\<rparr>"

definition stop_world :: "SendDispatcher \<Rightarrow> server_world" where
  "stop_world d = \<lparr>heap = hub_heap, mgr = mgr hub_world, started = False, nodeID = 5, traceSeq = 1, sender = d,
                   proc_disp = None, parent = buildParentState id None, bus_closed = True\<rparr>"

text \<open>The sender that has been shut down and whose clean-up goroutine has closed the shard.\<close>

lemma stop_sender_reachable: "\<exists>st. sd_reachable hub_heap stop_send_opts st \<and> sd st = stop_sender True True"
proof -
  let ?d0 = "(stop_sender False False)\<lparr>shards := [[]], sd_ctx := None\<rparr>"
  let ?st = "\<lambda>d acc. \<lparr>sd = d, sd_accepted = acc, in_hand = (\<lambda>_. None), written = (\<lambda>_. [])\<rparr>"
  have "NewSendDispatcher stop_send_opts = Inr ?d0"
    by (simp add: NewSendDispatcher_def stop_send_opts_def stop_sender_def)
  then have "sd_reachable hub_heap stop_send_opts (?st ?d0 [])"
    by (rule sd_reachable.init)
  moreover have "Ret (None, stop_sender False False) \<in> set (Dispatch hub_heap (Some 0) False False (\<lambda>_. False) stop_task (sd (?st ?d0 [])))"
    by (simp add: Dispatch_def Let_def stop_task_def ensureStarted_def sd_selectQueue_def stop_sender_def)
  then have "sd_step hub_heap (?st ?d0 []) (?st (stop_sender False False) [stop_task])"
    using sd_step.dispatched[of "stop_sender False False" hub_heap "Some 0" False False "\<lambda>_. False" stop_task "?st ?d0 []"] by simp
  moreover have "sd_step hub_heap (?st (stop_sender False False) [stop_task]) (?st (stop_sender True False) [stop_task])"
    using sd_step.shutdown[of hub_heap "?st (stop_sender False False) [stop_task]"] by (simp add: sd_Shutdown_def stop_sender_def)
  moreover have "sd_step hub_heap (?st (stop_sender True False) [stop_task]) (?st (stop_sender True True) [stop_task])"
    using sd_step.close_shards[of hub_heap "?st (stop_sender True False) [stop_task]" 0] by (simp add: close_shard_def stop_sender_def)
  ultimately have "sd_reachable hub_heap stop_send_opts (?st (stop_sender True True) [stop_task])"
    by (meson sd_reachable.step)
  then show ?thesis by (metis sd_state.select_convs(1))
qed

text \<open>Forwarding the frame calls \<open>Send\<close>, which sends on the closed shard.\<close>

lemma stop_send_panics:
  "Panic \<in> set (server_sends (\<lambda>_ _ _. None) (Some 0) \<lparr>req_conn = ''c2'', req_hdr = h, req_payload = pl\<rparr>
                  (stop_world (stop_sender True True)))"
  by (simp add: server_sends_def Server_Send_def Get_def stop_world_def hub_world_def Let_def split_def Dispatch_def
      ensureStarted_def sd_selectQueue_def stop_sender_def)

lemma stop_route_panics:
  "Panic \<in> set (route_run onrecv (server_sends (\<lambda>_ _ _. None) (Some 0)) (p\<lparr>d_runtime := Cancelled\<rparr>) 5 [2, 0, 1] [2, 0, 1] stop_event
                  (stop_world (stop_sender True True)))"
  if "p = stop_disp []" for onrecv :: "_ app"
proof -
  let ?send = "server_sends (\<lambda>_ _ _. None) (Some 0)"
  let ?w = "stop_world (stop_sender True True)"
  have "Panic \<in> set (PreRoute NewPreRoutingProcess ?send (Some 5) [2, 0, 1] [2, 0, 1] (Some 1) (Some (msg 11 12)) [1] ?w)"
    using stop_send_panics[of "(msg 11 12)\<lparr>HopLimit := 15\<rparr>" "[1]"]
    by (simp add: PreRoute_unicast Kind_Decide MajorCmd_def NewPreRoutingProcess_def cloneForForward_eq
      hop_of_def DefaultHopLimit_def msg_def zero_header_def SubProto_def Major_def next_hop_def GetByNode_def
      stop_world_def hub_world_def req_to_def hub_heap_def word8_le_iff Panic_in_bind_outcomes)
  then have "Panic \<in> set (route (p\<lparr>d_runtime := Cancelled\<rparr>) ?send 5 [2, 0, 1] [2, 0, 1] stop_event ?w)"
    using that by (simp add: route_def selectHandler_def extractSubProto_def stop_disp_def stop_event_def
        sourceMismatch_def two_handler_def disp_preRoute_def)
  then show ?thesis
    by (simp add: route_run_def Panic_in_bind_outcomes)
qed

definition stop_pool :: "server_world pool" where
  "stop_pool = \<lparr>pl_disp = (stop_disp [])\<lparr>d_runtime := Cancelled\<rparr>, pl_world = stop_world (stop_sender True True),
                busy = (\<lambda>_. None)((0, 0) := Some stop_event), pl_accepted = [stop_event],
                pl_taken = (\<lambda>_. [])(0 := [stop_event]), handled = (\<lambda>_. []), crashed = False\<rparr>"

lemma stop_pool_reachable: "pool_reachable onrecv send hub_heap stop_opts stop_pool"
proof -
  let ?p0 = "(stop_disp [])\<lparr>fallback := None, d_runtime := NotStarted\<rparr>"
  let ?w = "stop_world (stop_sender True True)"
  let ?s1 = "(new_pool ?p0 ?w)\<lparr>pl_disp := (stop_disp [])\<lparr>d_runtime := NotStarted\<rparr>\<rparr>"
  let ?s2 = "?s1\<lparr>pl_disp := stop_disp [stop_event], pl_accepted := [stop_event]\<rparr>"
  let ?s3 = "?s2\<lparr>pl_disp := stop_disp [], busy := (busy ?s2)((0, 0) := Some stop_event),
                 pl_taken := (pl_taken ?s2)(0 := pl_taken ?s2 0 @ [stop_event])\<rparr>"
  have "NewDispatcher stop_opts = Inr ?p0"
    by (simp add: NewDispatcher_def stop_opts_def stop_disp_def)
  then have r0: "pool_reachable onrecv send hub_heap stop_opts (new_pool ?p0 ?w)"
    by (rule pool_reachable.init)
  have r1: "pool_reachable onrecv send hub_heap stop_opts ?s1"
    using pool_reachable.step[OF r0 pool_step.register_default[of _ _ _ _ "Some two_handler"]]
    by (simp add: new_pool_def RegisterDefaultHandler_def stop_disp_def)
  have "disp_OnReceive hub_heap False (\<lambda>_. False) stop_event (pl_disp ?s1) = [Ret (stop_disp [stop_event])]"
    by (simp add: disp_OnReceive_def ensureRuntime_def disp_selectQueue_def SelectQueue_def
      ConnHash_SelectQueue_def enqueue_def stop_disp_def stop_event_def)
  then have rx: "Ret (stop_disp [stop_event]) \<in> set (disp_OnReceive hub_heap False (\<lambda>_. False) stop_event (pl_disp ?s1))"
    by simp
  have r2: "pool_reachable onrecv send hub_heap stop_opts ?s2"
    using pool_reachable.step[OF r1 pool_step.accept[OF _ rx]] by (simp add: new_pool_def stop_disp_def)
  have "pool_step onrecv send hub_heap ?s2 ?s3"
    by (rule pool_step.take_one) (simp_all add: idle_worker_def new_pool_def stop_disp_def worker_take_def)
  with r2 have r3: "pool_reachable onrecv send hub_heap stop_opts ?s3"
    by (rule pool_reachable.step)
  have "pool_step onrecv send hub_heap ?s3 (?s3\<lparr>pl_disp := Shutdown_cancel (pl_disp ?s3)\<rparr>)"
    by (rule pool_step.cancel) (simp add: new_pool_def)
  with r3 have "pool_reachable onrecv send hub_heap stop_opts (?s3\<lparr>pl_disp := Shutdown_cancel (pl_disp ?s3)\<rparr>)"
    by (rule pool_reachable.step)
  then show ?thesis
    by (simp add: stop_pool_def new_pool_def Shutdown_cancel_def stop_disp_def)
qed

text \<open>
  \<open>Server.Stop\<close> cancels the receive and the send dispatcher together. A worker that then forwards an accepted
  frame calls \<open>Send\<close>; once the clean-up goroutine has closed the shard, the \<open>select\<close> of \<open>Dispatch\<close> may pick the
  send on the closed channel, which panics outside every recovery and ends the process. All frames here have a
  connection, and the handlers are never called.
\<close>

theorem draining_forward_can_crash:
  "\<exists>s s'. pool_reachable onrecv (server_sends (\<lambda>_ _ _. None) (Some 0)) hub_heap stop_opts s
      \<and> \<not> crashed s \<and> d_runtime (pl_disp s) = Cancelled \<and> (\<forall>e \<in> set (pl_accepted s). ev_conn e \<noteq> None)
      \<and> (\<exists>st. sd_reachable hub_heap stop_send_opts st \<and> sd st = sender (pl_world s))
      \<and> drain_step onrecv (server_sends (\<lambda>_ _ _. None) (Some 0)) s s' \<and> crashed s'"
proof (rule exI[of _ stop_pool], rule exI[of _ "stop_pool\<lparr>crashed := True\<rparr>"], intro conjI)
  let ?send = "server_sends (\<lambda>_ _ _. None) (Some 0)"
  show "pool_reachable onrecv ?send hub_heap stop_opts stop_pool"
    by (rule stop_pool_reachable)
  have "busy stop_pool (0, 0) = Some stop_event" "\<not> crashed stop_pool"
    by (simp_all add: stop_pool_def)
  moreover have "Panic \<in> set (route_run onrecv ?send (pl_disp stop_pool) 5 [2, 0, 1] [2, 0, 1] stop_event (pl_world stop_pool))"
    using stop_route_panics[of "stop_disp []" onrecv] by (simp add: stop_pool_def)
  ultimately show "drain_step onrecv ?send stop_pool (stop_pool\<lparr>crashed := True\<rparr>)"
    by (intro drain_step.finish_panic)
qed (use stop_sender_reachable in \<open>simp_all add: stop_pool_def stop_event_def stop_world_def\<close>)

end
