(* ===== verification/Spec2Isabelle.thy ===== *)
theory Spec2Isabelle
  imports Frame_IO Win_Pipe Event_Bus Sub_Protocol Bootstrap Bluez Inbound
    Parent_Link Send_Results Connections Listener_Objects Process_Hooks Server_Workers
begin

text \<open>
  MyFlowHub Core, the framework of a hub that accepts connections over TCP, QUIC and Bluetooth
  RFCOMM, reads frames from them, routes each frame to its target node or hands it to a handler,
  and writes frames back. The development models the Go code under \<^verbatim>\<open>src/\<close>, one theory per component,
  and proves the properties that make each component and their composition correct.

  \<^bold>\<open>How a frame travels.\<close> A listener accepts a socket, wraps it as a connection and adds it to the
  connection manager, whose hook starts a read loop. The loop decodes frames and passes them to the
  receive dispatcher, which queues them per connection. A worker takes a frame and runs \<open>route\<close>:
  pre-routing decides from the header whether the frame is forwarded (to the connection that the node
  index names, to the parent, or to all children) or handled here, the source gate checks the sender,
  and the handler of the sub-protocol runs. Whatever is sent goes through \<open>Server.Send\<close>, which fills
  in hop limit and trace id, to the send dispatcher, whose per-connection writer encodes the frame
  and writes all of its bytes. When a connection ends, the manager forgets it and its hooks close the
  writer, wake the parent loop and publish an event.

  \<^bold>\<open>The theories\<close>, in the order of the code they model.

  \<^item> \<open>Hub_Prelude\<close>: Go's integers as words, errors and panics as values, the collections \<open>state_simps\<close> and
    \<open>inv_intros\<close>, lemmas on lists, association lists and words. \<open>Go_Strings\<close> and \<open>Go_Url\<close>: the functions of
    Go's packages \<^verbatim>\<open>strings\<close>, \<^verbatim>\<open>strconv\<close>, \<^verbatim>\<open>encoding/hex\<close> and \<^verbatim>\<open>net/url\<close> that the code calls. Case mapping of
    text that is not ASCII and bracketed IP literals are parameters (\<open>ulow\<close>, \<open>uup\<close>, \<open>lit\<close>).
  \<^item> \<open>Header\<close> (\<^verbatim>\<open>header/header.go\<close>): the 32-byte header as a record of words, \<open>Encode\<close>, \<open>Decode\<close> over a byte stream
    that ends with a given error, setters, clones and responses. Round trip, exact acceptance, truncation,
    the 32-bit length.
  \<^item> \<open>Frame_IO\<close> (\<^verbatim>\<open>writeutil.go\<close>, \<^verbatim>\<open>frame.go\<close>, \<^verbatim>\<open>process/frame_writer.go\<close>, \<^verbatim>\<open>reader/\<close>): \<open>WriteAll\<close> and the frame writer
    against an arbitrary \<^verbatim>\<open>io.Writer\<close> (locale \<open>io_writer\<close>), the read loop. Completeness of writing, equality of
    the zero-copy writer with \<open>Encode\<close>, frames read in the order written.
  \<^item> \<open>Win_Pipe\<close> (\<^verbatim>\<open>native_windows.go\<close>, the pipe): chunked writes with the message-size fallback and the read
    cache; the pipe is an instance of \<open>io_writer\<close>.
  \<^item> \<open>Config\<close> (\<^verbatim>\<open>config/\<close>, \<^verbatim>\<open>util.go\<close>): the key/value map (locale \<open>iconfig\<close>), its
    defaults, environment and YAML loaders.
  \<^item> \<open>Queue_Strategy\<close> (\<^verbatim>\<open>process/queuestrategy.go\<close>): the four strategies with FNV-1a at 32 bits (locales
    \<open>queue_strategy\<close> and \<open>keyed_strategy\<close>).
  \<^item> \<open>Conn_Manager\<close> (\<^verbatim>\<open>connmgr/manager.go\<close>, \<^verbatim>\<open>link.go\<close>): connections on a heap, the node and device index, hooks as
    state transformers (locale \<open>quiet_env\<close>), the manager as a map (locale \<open>conn_table\<close>).
  \<^item> \<open>Routing\<close> (\<^verbatim>\<open>process/header_router.go\<close>, \<^verbatim>\<open>process/prerouting.go\<close>): the decision, unicast, broadcast and upward
    forwarding, each performing the calls of \<open>Send\<close> it makes, and a network of nodes for the termination of
    forwarding. \<open>Send\<close> is an argument, a function from the call and the state to the list of its outcomes, each an
    error with the state after it or a panic (locale \<open>quiet_send\<close> for the methods that leave the manager alone).
  \<^item> \<open>Permission\<close> (\<^verbatim>\<open>kit/permission/\<close>): role and permission tables, parsing, resolution, snapshots, updates.
  \<^item> \<open>Dispatcher\<close> and \<open>Send_Dispatcher\<close> (\<^verbatim>\<open>process/dispatcher.go\<close>, \<^verbatim>\<open>process/senddispatcher.go\<close>): queues, workers,
    writers, timeouts and shutdown as step relations with invariants by rule induction.
  \<^item> \<open>Worker_Pool\<close> and \<open>Send_Results\<close> refine these two machines: the workers of the receive dispatcher with the
    whole of \<open>route\<close>, the handlers as arbitrary functions that may panic, and the draining of the queues by
    \<open>Shutdown\<close>; the loops of the connection writers with the pipes and the results they report. Both account
    for every accepted frame by multisets. \<open>Server_Workers\<close> puts \<open>Server.Send\<close> in the place of the argument, which
    is the instance of \<open>quiet_send\<close>, and shows a shutdown in which forwarding on a closed shard crashes.
  \<^item> \<open>Process_Hooks\<close> (\<^verbatim>\<open>process/simple.go\<close> and the hooks of \<^verbatim>\<open>process/prerouting.go\<close>, \<^verbatim>\<open>process/dispatcher.go\<close>): what
    the life-cycle hooks log, and that they never veto. \<open>Server_Context\<close> (\<^verbatim>\<open>contextutil.go\<close>): the server in a
    context, and the contexts of the receive callback.
  \<^item> \<open>Server\<close> and \<open>Server_Run\<close> (\<^verbatim>\<open>server/server.go\<close>): construction, start, stop, hooks, \<open>Send\<close>; the goroutines
    \<open>serveConn\<close> and \<open>runParentLink\<close>, \<open>Broadcast\<close>, and the end of the server against the removal hook.
    \<open>Parent_Link\<close>: the rounds of the parent loop on the real manager, with the interval between attempts.
  \<^item> \<open>Event_Bus\<close> (\<^verbatim>\<open>eventbus/\<close>): buckets, tokens, publishing, synchronous dispatch under the read lock with
    recovered panics, closing; subscriptions as an interface (locale \<open>subscriptions\<close>).
  \<^item> \<open>Sub_Protocol\<close> (\<^verbatim>\<open>subproto/\<close>): the action table, function actions, responses.
  \<^item> \<open>Bootstrap\<close> (\<^verbatim>\<open>bootstrap/selfregister.go\<close>): the register and login exchange over an arbitrary pipe.
  \<^item> \<open>Bluetooth_Addr\<close>, \<open>Rfcomm_Endpoint\<close>, \<open>Quic_Endpoint\<close> (\<^verbatim>\<open>listener/rfcomm_listener/\<close>, \<^verbatim>\<open>listener/quic_listener/\<close>):
    address notations, endpoint parsers, options, the TLS settings with the certificate pin.
  \<^item> \<open>Transport\<close> and \<open>Connections\<close>: the connection objects of the three transports, which have the same fields and
    are one record \<open>stream_conn\<close> here, the QUIC pipe and the two dialers; the methods of each transport, and the
    connection interface as a contract (locale \<open>connection_contract\<close>) that all three implement.
  \<^item> \<open>Listeners\<close>: the accept loops of the three listeners (locale \<open>accept_rounds\<close>), the life of a listener of each
    kind and the multi-listener with its collecting loop, watcher and \<open>Close\<close> as step relations. \<open>Listener_Objects\<close>: construction, addresses and closing of the listener
    objects, the Android provider, the start of Winsock.
  \<^item> \<open>Rfcomm_Native\<close> and \<open>Bluez\<close>: the native layers on Linux, Android, Windows and other systems, and RFCOMM
    through BlueZ with the callbacks of D-Bus.
  \<^item> \<open>Inbound\<close>: the composition of the read loop, the receive callback and the receive dispatcher.
  \<^item> This theory: further properties that span components.

  \<^bold>\<open>Conventions.\<close> A struct is a record, an enumeration a datatype, a fixed-width integer a word; Go's \<^verbatim>\<open>int\<close> is
  an \<open>int\<close>, wrapped to 64 bits where it can overflow. A fallible function returns a sum or an error option; a
  run-time panic (nil map write, division by zero, index out of range, closed channel) is the value \<open>Panic\<close>.
  Where Go leaves an order open (ranging over a map, a \<open>select\<close> with several ready cases) the order is an
  argument or the result is the list of all outcomes. Goroutines are step relations whose steps are the parts
  of the code between two accesses to shared state. Locks are not modelled where a whole critical section is
  one step; the read lock of the event bus is, since handlers run under it.

  \<^bold>\<open>What the theorems show.\<close> The wire format and the read and write paths lose and reorder nothing
  (\<open>encode_decode_roundtrip\<close>, \<open>write_frame_matches_encode\<close>, \<open>sent_frames_reach_the_queue\<close>,
  \<open>forwarded_frame_crosses_the_wire\<close>). Forwarding ends and reaches the right neighbours
  (\<open>forwarding_terminates\<close>, \<open>unicast_follows_index_then_parent\<close>, \<open>broadcast_reaches_each_child_once\<close>).
  The source gate and the permission tables hold (\<open>source_gate\<close>, \<open>default_policy\<close>). Queues and writers keep the
  order of a connection in every interleaving (\<open>conn_frames_in_order\<close>, \<open>writes_follow_dispatch_order\<close>), and so
  does the event bus; every accepted frame is handled once and every accepted send has one result, whatever the
  handlers and the pipes do, and the shutdown drains the queues unless a call of \<open>Send\<close> panics (\<open>accepted_frames_handled_once\<close>, \<open>shutdown_drains\<close>,
  \<open>sends_answered_once\<close>). The manager's invariant holds up to
  the connections that were bound after their removal (\<open>manager_invariant\<close>), the manager refines a map, the listeners feed it, endpoints parse
  to well-formed values and dial what they name, and sockets, descriptors and the D-Bus connection are released.
  A number of theorems show where the code does not do what it means to do: lost wake-ups of the parent link,
  an index entry that outlives its connection, a forwarded frame that crashes a shutdown,
  a stop that leaves connections open or crashes on the event bus, a listener that survives its \<open>Close\<close>, a
  writer that outlives its connection, two workers that reorder a connection, RFCOMM endpoints that the URL parser rejects, a handle closed twice.

  \<^bold>\<open>Termination and bounds.\<close> Recursive functions are total by structural recursion or a measure. \<open>ReadLoop\<close> and
  \<open>write_loop\<close>, which need not end against an arbitrary peer, are partial functions into the option type,
  with theorems that they return for every finite stream and for every writer that makes progress. No fuel is
  used. The bounds on counters (\<open>2 ^ 64\<close> subscriptions, \<open>2 ^ 32\<close> bytes of payload) are those at which the
  code's own integers wrap.

  \<^bold>\<open>Parameters.\<close> Code that is not part of the repository appears as an argument: sockets and system calls,
  quic-go, \<^verbatim>\<open>crypto/tls\<close> and the file system, \<^verbatim>\<open>encoding/json\<close> and the YAML decoder, D-Bus, the Android provider,
  and the handlers of sub-protocols (\<open>onrecv\<close> of the worker pool).

  \<^bold>\<open>Not modelled.\<close> The interface declarations of \<^verbatim>\<open>iface.go\<close> and of the other files contain no code; what their
  implementations promise is proved of the implementations. Constants that no code of the repository uses (the
  two header flags, configuration keys of other repositories) and the text that \<open>SendDispatcher.String\<close> formats
  are left out, and so are loggers and their defaults, except for the lines of the life-cycle hooks. Tests are not
  modelled. Real time appears only as which of several ready events comes first, and as the durations the
  parent loop sleeps.
\<close>

section \<open>A forwarded frame from node to node\<close>

text \<open>
  C14. From one node to the next. A frame that pre-routing forwards, that \<open>Server.Send\<close> completes
  and that the connection's writer puts on the pipe without error, arrives at the other end as
  one frame: decoding the bytes written, whatever follows them, gives the payload unchanged and
  a header with the same type, message id, source and target and exactly one hop less.
\<close>

theorem forwarded_frame_crosses_the_wire:
  assumes "io_writer w wr"
    and "Ret (cont, reqs, wd') \<in> set (PreRoute p send (Some n) order porder conn (Some h) pl wd)" "r \<in> set reqs"
    and "fill_defaults (req_hdr r) seq = (h', seq')" "length pl < 2 ^ 32" "w_encodeInWriter cw"
    and "connWriter_write cw (Some w) s
           \<lparr>t_conn = Some c, t_hdr = Some (HTcp h'), t_payload = req_payload r, t_codec = Some TcpCodec\<rparr>
           = Some (Ret (s', None))"
    and "avail rd = drop (length (wr s)) (wr s') @ rest"
  shows "\<exists>d. Decode rd = (Inr (d, pl), rd\<lparr>avail := rest\<rparr>) \<and> hops_left h = Suc (hops_left d)
           \<and> TypeFmt d = TypeFmt h \<and> MsgID d = MsgID h \<and> Source d = Source h \<and> Target d = Target h"
proof -
  let ?f = "\<lparr>Header = Some (HTcp h'), Payload = pl\<rparr>"
  have clone: "cloneForForward (Some h) = Some (req_hdr r)" and pl: "req_payload r = pl"
    using PreRoute_sends[OF assms(2,3)] by blast+
  note hop = hops_left_forward[OF clone] and fill = fill_defaults_spec[OF assms(4)]
  have "WriteFrame (Some w) s TcpCodec ?f = Some (Ret (s', None))"
    using assms(6,7) pl by (simp add: connWriter_write_def)
  then have "wr s' = wr s @ frame_bytes ?f"
    using io_writer.WriteFrame_returns[OF assms(1), of s ?f] by auto
  then have "avail rd = frame_bytes ?f @ rest"
    using assms(8) by simp
  from tcp_codec.dec_enc[OF _ this]
  have dec: "Decode rd = (Inr (wire_header h' (length pl), pl), rd\<lparr>avail := rest\<rparr>)"
    using assms(5) by (simp add: received_def CloneToTCP_def)
  have h': "HopLimit h' = HopLimit (req_hdr r)"
    using fill hop(2) by auto
  have "hops_left (wire_header h' (length pl)) = hops_left (req_hdr r)"
    using h' hop(2) by (simp add: hops_left_def wire_header_def hop_default_def)
  moreover have "TypeFmt h' = TypeFmt h \<and> MsgID h' = MsgID h \<and> Source h' = Source h \<and> Target h' = Target h"
  proof -
    have "h' = (req_hdr r)\<lparr>HopLimit := HopLimit h', TraceID := TraceID h'\<rparr>" "req_hdr r = h\<lparr>HopLimit := HopLimit (req_hdr r)\<rparr>"
      using fill hop(3) by blast+
    then obtain a b e where "h' = (h\<lparr>HopLimit := a\<rparr>)\<lparr>HopLimit := b, TraceID := e\<rparr>" by metis
    then show ?thesis by simp
  qed
  ultimately show ?thesis
    using dec hop(1) by (simp add: wire_header_def hop_default_def)
qed

theorem forwarded_frame_crosses_the_wire_witness:
  "\<exists>d. Decode \<lparr>avail = frame_bytes \<lparr>Header = Some (HTcp (fst (fill_defaults ((msg 11 12)\<lparr>HopLimit := 15\<rparr>) 0))), Payload = [7]\<rparr>
                     @ [1, 2], fin = EOF\<rparr> = (Inr (d, [7]), \<lparr>avail = [1, 2], fin = EOF\<rparr>)
     \<and> hops_left (msg 11 12) = Suc (hops_left d) \<and> Source d = 11 \<and> Target d = 12"
proof -
  let ?r = "\<lparr>req_conn = ''c2'', req_hdr = (msg 11 12)\<lparr>HopLimit := 15\<rparr>, req_payload = [7]\<rparr>"
  obtain h' seq' where f: "fill_defaults (req_hdr ?r) 0 = (h', seq')"
    by fastforce
  let ?b = "frame_bytes \<lparr>Header = Some (HTcp h'), Payload = [7]\<rparr>"
  have w: "connWriter_write ex_writer (Some half_writer) []
      \<lparr>t_conn = Some 1, t_hdr = Some (HTcp h'), t_payload = req_payload ?r, t_codec = Some TcpCodec\<rparr>
    = Some (Ret (?b, None))"
    by (simp add: connWriter_write_def ex_writer_def WriteFrame_def writeTCPFrame_eq WriteAll_def half_writer_loop
        frame_bytes_def)
  have "?r \<in> set [?r]" by simp
  from forwarded_frame_crosses_the_wire[OF half_writer_ok hub_forwards this f _ _ w,
      of "\<lparr>avail = ?b @ [1, 2], fin = EOF\<rparr>" "[1, 2]"]
  show ?thesis
    using f by (auto simp: ex_writer_def msg_def)
qed


section \<open>From an RFCOMM endpoint to the device\<close>

text \<open>
  C36. An endpoint leads to its device. When an RFCOMM endpoint parses and BlueZ answers every call, the dial
  exports a profile, registers it for the service of the endpoint and asks BlueZ for exactly the
  device of the endpoint, on its adapter; the connection that BlueZ then reports for that device
  is the one the dial returns, and its device path reads as the address of the endpoint.
\<close>

theorem rfcomm_uri_connects_device:
  assumes "\<forall>s. lower_case (ulow s)" "rfcomm_ParseEndpoint ulow uup lit raw = (ep, None)" "\<forall>c. reply c = None"
  defines "device \<equiv> bluezDeviceObjectPath uup (ep_Adapter ep) (ep_BDAddr ep)"
  shows "\<exists>w path options.
      fst (dialRFCOMMByUUIDBlueZ ulow uup None reply [CbNewConnection device fd True] None (endpoint_options ep) seq)
        = [Ret (Inr \<lparr>dp_fd = fd, dp_closed = False\<rparr>, Some w)]
    \<and> bz_calls w = [ExportProfile path, RegisterProfile path (ep_UUID ep) options, ConnectProfile device (ep_UUID ep)]
    \<and> bluezBDAddrFromDevicePath uup device = ep_BDAddr ep"
proof -
  have wf: "endpoint_wf uup ep" using rfcomm_ParseEndpoint_cases[OF assms(2,1)] by blast
  note f = wf[unfolded endpoint_wf_def]
  have o: "do_BDAddr (endpoint_options ep) = ep_BDAddr ep" "do_Adapter (endpoint_options ep) = ep_Adapter ep"
    "do_UUID (endpoint_options ep) = ep_UUID ep" by (simp_all add: endpoint_options_def)
  have u: "ToLower ulow (TrimSpace (ep_UUID ep)) = ep_UUID ep"
    using f uuid_graphic[of "ep_UUID ep"] ToLower_lower_case[of "ep_UUID ep" ulow] by simp
  have bd: "normalizeBDAddr uup (do_BDAddr (endpoint_options ep)) = Inr (ep_BDAddr ep)" using f by (simp add: o)
  obtain t where "device = (''/org/bluez/'' @ TrimSpace (TrimSpace (ep_Adapter ep)) @ ''/'') @ t"
    using f by (simp add: device_def bluezDeviceObjectPath_def Let_def)
  then have pre: "HasPrefix device (''/org/bluez/'' @ TrimSpace (TrimSpace (do_Adapter (endpoint_options ep))) @ ''/'')"
    by (simp only: HasPrefix_def o prefixI)
  obtain bs where bs: "ep_BDAddr ep = print_bd bs" "length bs = 6"
    by (rule normalize_canonical[OF bd]) (rule that)
  then have "bluezBDAddrFromDevicePath uup device = ep_BDAddr ep"
    using device_path_roundtrip[of uup "ep_BDAddr ep" bs "ep_Adapter ep"] f by (simp add: device_def)
  with bluez_dial_delivers[OF bd assms(3) pre, of ulow fd None seq] show ?thesis
    using f by (auto simp: o u device_def)
qed

theorem rfcomm_uri_connects_device_witness:
  "\<exists>w path options.
      fst (dialRFCOMMByUUIDBlueZ (map lower_char) id None (\<lambda>_. None) [CbNewConnection ''/org/bluez/hci0/dev_AA_BB_CC_DD_EE_FF'' 4 True] None
        \<lparr>do_BDAddr = ''AA:BB:CC:DD:EE:FF'', do_UUID = DefaultRFCOMMUUID, do_Channel = 0, do_Adapter = ''hci0'', do_Insecure = False\<rparr> 0)
        = [Ret (Inr \<lparr>dp_fd = 4, dp_closed = False\<rparr>, Some w)]
    \<and> bz_calls w = [ExportProfile path, RegisterProfile path DefaultRFCOMMUUID options,
        ConnectProfile ''/org/bluez/hci0/dev_AA_BB_CC_DD_EE_FF'' DefaultRFCOMMUUID]"
proof -
  let ?ep = "\<lparr>ep_BDAddr = ''AA:BB:CC:DD:EE:FF'', ep_UUID = DefaultRFCOMMUUID, ep_Channel = 0, ep_Adapter = ''hci0'',
       ep_Insecure = False, ep_Name = []\<rparr>"
  have p: "rfcomm_ParseEndpoint (map lower_char) id (\<lambda>_. None) ''bt+rfcomm:///aa-bb-cc-dd-ee-ff'' = (?ep, None)" by code_simp
  have d: "bluezDeviceObjectPath id ''hci0'' ''AA:BB:CC:DD:EE:FF'' = ''/org/bluez/hci0/dev_AA_BB_CC_DD_EE_FF''" by code_simp
  have "\<forall>s. lower_case (map lower_char s)" by (simp add: lower_case_def)
  from rfcomm_uri_connects_device[OF this p, of "\<lambda>_. None" 4 0] d show ?thesis
    by (auto simp: endpoint_options_def)
qed

end
